(* ===== verification/Prelude.thy ===== *)
theory Prelude
  imports Complex_Main "HOL-Library.Multiset" "HOL-Library.Char_ord" "HOL-Library.List_Lexorder"
begin

text \<open>
  Shared vocabulary of the development: the exceptions and results of the Python code, the
  dynamically typed values its validators inspect, the string helpers its regular expressions
  and comparisons amount to, and the generic lemmas the component theories share.

  A Python \<open>str\<close> is a \<open>string\<close>, one \<open>char\<close> per code point, so code points below 256 are in
  scope. Python's unbounded \<open>int\<close> is \<open>int\<close>. A finite \<open>float\<close> is the rational it denotes and the
  arithmetic on finite floats is exact (rounding is not modelled); NaN and the infinities are
  constructors of their own. The text of an exception's message is not modelled, its class is.
\<close>

section \<open>Exceptions and results\<close>

datatype pyexn =
    TypeError | ValueError | LookupErr | OverflowErr | RuntimeErr | TimeoutErr | OsError
  | RcmUnavailable | RcmUnsupported | RcmPermissionDenied | RcmStale | RcmBusy
  | RcmConflict | RcmRejected
  | RuntimeLifecycleError | RuntimeCancelledError | RuntimeStartError | RuntimeShutdownError
  | KeyboardInterrupt | SystemExit | OtherException

type_synonym 'a result = "pyexn + 'a"

text \<open>\<open>except Exception\<close> catches every class but the two that derive from \<open>BaseException\<close> only.\<close>

definition is_exception :: "pyexn \<Rightarrow> bool" where
  "is_exception e \<longleftrightarrow> e \<noteq> KeyboardInterrupt \<and> e \<noteq> SystemExit"

definition bindE :: "'e + 'a \<Rightarrow> ('a \<Rightarrow> 'e + 'b) \<Rightarrow> 'e + 'b" where
  "bindE m k = (case m of Inl e \<Rightarrow> Inl e | Inr x \<Rightarrow> k x)"

definition unless_raise :: "bool \<Rightarrow> 'e \<Rightarrow> 'e + 'a \<Rightarrow> 'e + 'a" where
  "unless_raise ok e m = (if ok then m else Inl e)"

named_theorems result_simps

lemma bindE_simps [simp]: "bindE (Inl e) k = Inl e" "bindE (Inr x) k = k x"
  by (simp_all add: bindE_def)

lemma bindE_eq_Inr [result_simps]:
  "(bindE m k = Inr y) \<longleftrightarrow> (\<exists>x. m = Inr x \<and> k x = Inr y)"
  by (cases m) simp_all

lemma bindE_eq_Inl [result_simps]:
  "(bindE m k = Inl e) \<longleftrightarrow> (m = Inl e \<or> (\<exists>x. m = Inr x \<and> k x = Inl e))"
  by (cases m) simp_all

lemma unless_raise_simps [simp]:
  "unless_raise True e m = m" "unless_raise False e m = Inl e"
  by (simp_all add: unless_raise_def)

lemma unless_raise_eq_Inr [result_simps]:
  "(unless_raise ok e m = Inr y) \<longleftrightarrow> (ok \<and> m = Inr y)"
  by (cases ok) simp_all

lemma unless_raise_eq_Inl [result_simps]:
  "(unless_raise ok e m = Inl e') \<longleftrightarrow> ((\<not> ok \<and> e' = e) \<or> (ok \<and> m = Inl e'))"
  by (cases ok) auto

lemma bindE_cong [fundef_cong]:
  assumes "m = m'" and "\<And>x. m' = Inr x \<Longrightarrow> k x = k' x"
  shows "bindE m k = bindE m' k'"
  using assms by (cases m') simp_all

section \<open>Dynamically typed values\<close>

datatype pyfloat = Finite rat | PosInf | NegInf | NaN

datatype pyval =
    PNone | PBool bool | PInt int | PFloat pyfloat | PStr string | PTuple "pyval list" | PObject

text \<open>
  \<open>float(n)\<close> raises \<open>OverflowError\<close> for an integer whose nearest double would be infinite:
  from half an ulp above the greatest finite double on.
\<close>

definition float_overflow :: int where
  "float_overflow = 2 ^ 1024 - 2 ^ 970"

definition float_of_int :: "int \<Rightarrow> rat result" where
  "float_of_int n =
     (if float_overflow \<le> n \<or> n \<le> - float_overflow then Inl OverflowErr else Inr (of_int n))"

section \<open>Strings\<close>

definition ord :: "char \<Rightarrow> nat" where
  "ord c = of_char c"

definition is_lower :: "char \<Rightarrow> bool" where
  "is_lower c \<longleftrightarrow> 97 \<le> ord c \<and> ord c \<le> 122"

definition is_upper :: "char \<Rightarrow> bool" where
  "is_upper c \<longleftrightarrow> 65 \<le> ord c \<and> ord c \<le> 90"

definition is_digit :: "char \<Rightarrow> bool" where
  "is_digit c \<longleftrightarrow> 48 \<le> ord c \<and> ord c \<le> 57"

definition is_alnum :: "char \<Rightarrow> bool" where
  "is_alnum c \<longleftrightarrow> is_lower c \<or> is_upper c \<or> is_digit c"

definition is_lower_hex :: "char \<Rightarrow> bool" where
  "is_lower_hex c \<longleftrightarrow> is_digit c \<or> (97 \<le> ord c \<and> ord c \<le> 102)"

text \<open>
  \<open>casefold\<close> lowers the ASCII letters and leaves every other character as it is. It stands for
  \<open>str.casefold\<close> where the code has restricted the text to ASCII, and where it compares the folded text with
  an ASCII word without \<open>ss\<close>, which no other Latin-1 character folds into; \<open>str.upper\<close> likewise. Everywhere
  else \<open>fold_text\<close> is \<open>str.casefold\<close> on Latin-1, as code points: the micro sign folds to the Greek
  letter, the sharp s to two letters.
\<close>

definition casefold_char :: "char \<Rightarrow> char" where
  "casefold_char c = (if is_upper c then char_of (ord c + 32) else c)"

definition casefold :: "string \<Rightarrow> string" where
  "casefold s = map casefold_char s"

definition fold_char :: "char \<Rightarrow> nat list" where
  "fold_char c =
     (if is_upper c \<or> 192 \<le> ord c \<and> ord c \<le> 222 \<and> ord c \<noteq> 215 then [ord c + 32]
      else if ord c = 181 then [956]
      else if ord c = 223 then [115, 115]
      else [ord c])"

definition fold_text :: "string \<Rightarrow> nat list" where
  "fold_text s = concat (map fold_char s)"

definition upper_char :: "char \<Rightarrow> char" where
  "upper_char c = (if is_lower c then char_of (ord c - 32) else c)"

definition upper :: "string \<Rightarrow> string" where
  "upper s = map upper_char s"

fun starts_with :: "string \<Rightarrow> string \<Rightarrow> bool" where
  "starts_with [] s = True"
| "starts_with (c # cs) [] = False"
| "starts_with (c # cs) (d # ds) = (c = d \<and> starts_with cs ds)"

text \<open>\<open>^[0-9a-f]{64}$\<close> with \<open>fullmatch\<close>: a lowercase SHA-256 digest.\<close>

definition is_digest :: "string \<Rightarrow> bool" where
  "is_digest s \<longleftrightarrow> length s = 64 \<and> list_all is_lower_hex s"

text \<open>Numerals: \<open>int(s, base)\<close> on text that is known to consist of digits.\<close>

fun value_of_digits :: "(char \<Rightarrow> nat) \<Rightarrow> nat \<Rightarrow> nat \<Rightarrow> string \<Rightarrow> nat" where
  "value_of_digits dv base acc [] = acc"
| "value_of_digits dv base acc (c # cs) = value_of_digits dv base (acc * base + dv c) cs"

definition decimal_value :: "string \<Rightarrow> nat" where
  "decimal_value = value_of_digits (\<lambda>c. ord c - 48) 10 0"

definition is_hex :: "char \<Rightarrow> bool" where
  "is_hex c \<longleftrightarrow> is_digit c \<or> (65 \<le> ord c \<and> ord c \<le> 70) \<or> (97 \<le> ord c \<and> ord c \<le> 102)"

definition hex_digit_value :: "char \<Rightarrow> nat" where
  "hex_digit_value c =
     (if is_digit c then ord c - 48 else if ord c \<le> 70 then ord c - 55 else ord c - 87)"

definition hex_value :: "string \<Rightarrow> nat" where
  "hex_value = value_of_digits hex_digit_value 16 0"

text \<open>\<open>str(n)\<close> for an integer.\<close>

fun digits_of_nat :: "nat \<Rightarrow> string" where
  "digits_of_nat n =
     (if n < 10 then [char_of (48 + n)]
      else digits_of_nat (n div 10) @ [char_of (48 + n mod 10)])"

declare digits_of_nat.simps [simp del]

definition str_int :: "int \<Rightarrow> string" where
  "str_int n = (if n < 0 then CHR ''-'' # digits_of_nat (nat (- n)) else digits_of_nat (nat n))"

definition join :: "string \<Rightarrow> string list \<Rightarrow> string" where
  "join sep xs = (case xs of [] \<Rightarrow> [] | y # ys \<Rightarrow> y @ concat (map (\<lambda>z. sep @ z) ys))"

lemma ord_less_256: "ord c < 256"
  by (simp add: ord_def)

lemma ord_inject: "ord c = ord d \<longleftrightarrow> c = d"
  by (simp add: ord_def)

lemma ord_char_of [simp]: "ord (char_of n) = n mod 256"
  by (simp add: ord_def)

lemma casefold_append [simp]: "casefold (xs @ ys) = casefold xs @ casefold ys"
  by (simp add: casefold_def)

lemma length_casefold [simp]: "length (casefold s) = length s"
  by (simp add: casefold_def)

lemma casefold_char_idem [simp]: "casefold_char (casefold_char c) = casefold_char c"
  by (auto simp: casefold_char_def is_upper_def)

lemma casefold_idem [simp]: "casefold (casefold s) = casefold s"
  by (simp add: casefold_def)

section \<open>Ordered sets: \<open>dict.fromkeys\<close>, uniqueness checks, sorted tuples\<close>

text \<open>\<open>tuple(dict.fromkeys(xs))\<close> keeps the first occurrence of each element, in order.\<close>

definition fromkeys :: "'a list \<Rightarrow> 'a list" where
  "fromkeys xs = rev (remdups (rev xs))"

lemma set_fromkeys [simp]: "set (fromkeys xs) = set xs"
  by (simp add: fromkeys_def)

lemma distinct_fromkeys [simp]: "distinct (fromkeys xs)"
  by (simp add: fromkeys_def)

lemma fromkeys_distinct [simp]: "distinct xs \<Longrightarrow> fromkeys xs = xs"
  by (simp add: fromkeys_def distinct_remdups_id)

lemma fromkeys_Nil_iff [simp]: "fromkeys xs = [] \<longleftrightarrow> xs = []"
  by (simp add: fromkeys_def)

text \<open>\<open>tuple(sorted(set(xs)))\<close>: code point order on strings is the lexicographic order.\<close>

definition sorted_tuple :: "string list \<Rightarrow> string list" where
  "sorted_tuple xs = sort (remdups xs)"

lemma set_sorted_tuple [simp]: "set (sorted_tuple xs) = set xs"
  by (simp add: sorted_tuple_def)

lemma distinct_sorted_tuple [simp]: "distinct (sorted_tuple xs)"
  by (simp add: sorted_tuple_def)

lemma sorted_tuple_Nil_iff [simp]: "sorted_tuple xs = [] \<longleftrightarrow> xs = []"
  by (metis set_empty set_sorted_tuple)

section \<open>Generic list facts\<close>

lemma find_Some_iff2: "List.find P xs = Some x \<Longrightarrow> x \<in> set xs \<and> P x"
  by (induction xs) (auto split: if_splits)

lemma find_None_iff2: "List.find P xs = None \<longleftrightarrow> (\<forall>x \<in> set xs. \<not> P x)"
  by (induction xs) auto

lemma find_distinct_map:
  "distinct (map f xs) \<Longrightarrow> x \<in> set xs \<Longrightarrow> List.find (\<lambda>y. f y = f x) xs = Some x"
  by (induction xs) force+

lemma map_filter_subseq_distinct:
  "distinct (map f xs) \<Longrightarrow> distinct (map f (filter P xs))"
  by (induction xs) auto

end
