(* ===== verification/Core.thy ===== *)
theory Core
  imports Prelude
begin

text \<open>
  The immutable contracts of \<open>rcm/core.py\<close>: the field validators, the value classes with the
  checks of their \<open>__post_init__\<close>, the plan with its stable topological order, and the typed
  service errors. A constructor of the code is a function \<open>mk_\<dots>\<close> into the result type; fields
  whose HOL type already rules a value out (a \<open>state\<close> that is not a \<open>CapabilityState\<close>) have no
  branch for it.
\<close>

section \<open>Field validators\<close>

definition max_text :: nat where "max_text = 1024"
definition max_identifier :: nat where "max_identifier = 128"
definition max_int64 :: int where "max_int64 = 2 ^ 63 - 1"

definition has_control :: "string \<Rightarrow> bool" where
  "has_control s \<longleftrightarrow> list_ex (\<lambda>c. ord c < 32 \<or> ord c = 127) s"

definition core_text :: "pyval \<Rightarrow> bool \<Rightarrow> nat \<Rightarrow> string result" where
  "core_text v allow_empty maximum =
     (case v of
        PStr s \<Rightarrow>
          (if (s = [] \<and> \<not> allow_empty) \<or> maximum < length s then Inl ValueError
           else if has_control s then Inl ValueError
           else Inr s)
      | _ \<Rightarrow> Inl TypeError)"

definition code_chars :: string where
  "code_chars = ''abcdefghijklmnopqrstuvwxyz0123456789_.:-''"

definition core_code :: "pyval \<Rightarrow> bool \<Rightarrow> string result" where
  "core_code v allow_empty =
     bindE (core_text v allow_empty max_identifier)
       (\<lambda>s. if list_ex (\<lambda>c. c \<notin> set code_chars) s then Inl ValueError else Inr s)"

definition core_integer :: "pyval \<Rightarrow> int \<Rightarrow> int result" where
  "core_integer v maximum =
     (case v of
        PInt n \<Rightarrow> if \<not> (0 \<le> n \<and> n \<le> maximum) then Inl ValueError else Inr n
      | _ \<Rightarrow> Inl TypeError)"

text \<open>The loop of \<open>_pairs\<close> over the tuple of values, with its \<open>seen\<close> set.\<close>

fun core_pairs_loop :: "string set \<Rightarrow> pyval list \<Rightarrow> (string \<times> string) list result" where
  "core_pairs_loop seen [] = Inr []"
| "core_pairs_loop seen (PTuple [PStr k, PStr v] # rest) =
     bindE (core_text (PStr k) False max_identifier) (\<lambda>key.
     bindE (core_text (PStr v) True max_text) (\<lambda>_.
     if key \<in> seen then Inl ValueError
     else bindE (core_pairs_loop (insert key seen) rest) (\<lambda>r. Inr ((k, v) # r))))"
| "core_pairs_loop seen (_ # rest) = Inl TypeError"

text \<open>\<open>tuple(values)\<close> raises for a value that is not iterable; \<open>None\<close> stands for such a value.\<close>

definition core_pairs :: "pyval list option \<Rightarrow> (string \<times> string) list result" where
  "core_pairs values =
     (case values of None \<Rightarrow> Inl TypeError | Some vs \<Rightarrow> core_pairs_loop {} vs)"

section \<open>Enumerations\<close>

datatype node_role = RoleHead | RoleWorker | RoleObserver

fun node_role_value :: "node_role \<Rightarrow> string" where
  "node_role_value RoleHead = ''head''"
| "node_role_value RoleWorker = ''worker''"
| "node_role_value RoleObserver = ''observer''"

datatype metric_state = MOk | MUnavailable | MUnsupported | MPermissionDenied | MStale

fun metric_state_value :: "metric_state \<Rightarrow> string" where
  "metric_state_value MOk = ''ok''"
| "metric_state_value MUnavailable = ''unavailable''"
| "metric_state_value MUnsupported = ''unsupported''"
| "metric_state_value MPermissionDenied = ''permission_denied''"
| "metric_state_value MStale = ''stale''"

datatype capability_state = CapAvailable | CapUnavailable | CapUnsupported | CapPermissionDenied

fun capability_state_value :: "capability_state \<Rightarrow> string" where
  "capability_state_value CapAvailable = ''available''"
| "capability_state_value CapUnavailable = ''unavailable''"
| "capability_state_value CapUnsupported = ''unsupported''"
| "capability_state_value CapPermissionDenied = ''permission_denied''"

datatype busy_state = BsIdle | BsBusy | BsUnknown | BsMaintenance

definition allows_reconfiguration :: "busy_state \<Rightarrow> bool" where
  "allows_reconfiguration b \<longleftrightarrow> b = BsIdle"

datatype action_status = ActSucceeded | ActFailed | ActSkipped | ActCancelled

section \<open>Capabilities and nodes\<close>

record capability =
  cap_name :: string
  cap_state :: capability_state
  cap_detail_code :: string

definition mk_Capability :: "string \<Rightarrow> capability_state \<Rightarrow> string \<Rightarrow> capability result" where
  "mk_Capability name state detail_code =
     bindE (core_code (PStr name) False) (\<lambda>_.
     bindE (core_code (PStr detail_code) True) (\<lambda>_.
     Inr \<lparr>cap_name = name, cap_state = state, cap_detail_code = detail_code\<rparr>))"

definition cap_available :: "capability \<Rightarrow> bool" where
  "cap_available c \<longleftrightarrow> cap_state c = CapAvailable"

record node =
  node_id :: string
  node_address :: string
  node_role :: node_role
  node_enabled :: bool
  node_capabilities :: "capability list"

definition mk_Node ::
    "string \<Rightarrow> string \<Rightarrow> node_role \<Rightarrow> bool \<Rightarrow> capability list \<Rightarrow> node result" where
  "mk_Node nid address role enabled capabilities =
     bindE (core_text (PStr nid) False max_identifier) (\<lambda>_.
     bindE (core_text (PStr address) False 253) (\<lambda>_.
     let names = map cap_name capabilities in
     if length names \<noteq> card (set names) then Inl ValueError
     else Inr \<lparr>node_id = nid, node_address = address, node_role = role,
               node_enabled = enabled, node_capabilities = capabilities\<rparr>))"

section \<open>Metric snapshots\<close>

text \<open>
  \<open>_metric\<close>: \<open>None\<close> passes, booleans and non-numbers are refused by type, NaN, infinities and
  values out of range by value.
\<close>

definition core_metric :: "pyval \<Rightarrow> rat \<Rightarrow> rat \<Rightarrow> rat option result" where
  "core_metric v minimum maximum =
     (let check = (\<lambda>r. if \<not> (minimum \<le> r \<and> r \<le> maximum) then Inl ValueError else Inr (Some r))
      in case v of
        PNone \<Rightarrow> Inr None
      | PInt n \<Rightarrow> bindE (float_of_int n) check
      | PFloat (Finite r) \<Rightarrow> check r
      | PFloat _ \<Rightarrow> Inl ValueError
      | _ \<Rightarrow> Inl TypeError)"

text \<open>The double nearest to \<open>-273.15\<close>.\<close>

definition absolute_zero :: rat where
  "absolute_zero = - (2402652809016115 / 8796093022208)"

record metric_snapshot =
  ms_node_id :: string
  ms_observed_at_ns :: int
  ms_sequence :: int
  ms_state :: metric_state
  ms_cpu_percent :: "rat option"
  ms_memory_percent :: "rat option"
  ms_temperature_celsius :: "rat option"
  ms_detail_code :: string

definition mk_MetricSnapshot ::
    "string \<Rightarrow> int \<Rightarrow> int \<Rightarrow> metric_state \<Rightarrow> pyval \<Rightarrow> pyval \<Rightarrow> pyval \<Rightarrow> string
       \<Rightarrow> metric_snapshot result" where
  "mk_MetricSnapshot nid observed_at_ns sequence state cpu memory temperature detail_code =
     bindE (core_text (PStr nid) False max_identifier) (\<lambda>_.
     bindE (core_integer (PInt observed_at_ns) max_int64) (\<lambda>_.
     bindE (core_integer (PInt sequence) max_int64) (\<lambda>_.
     bindE (core_metric cpu 0 100) (\<lambda>c.
     bindE (core_metric memory 0 100) (\<lambda>m.
     bindE (core_metric temperature absolute_zero 1000) (\<lambda>t.
     let vals = [c, m, t] in
     if state = MOk \<and> list_all (\<lambda>v. v = None) vals then Inl ValueError
     else if state \<noteq> MOk \<and> list_ex (\<lambda>v. v \<noteq> None) vals then Inl ValueError
     else bindE (core_code (PStr detail_code) True) (\<lambda>_.
       Inr \<lparr>ms_node_id = nid, ms_observed_at_ns = observed_at_ns, ms_sequence = sequence,
            ms_state = state, ms_cpu_percent = c, ms_memory_percent = m,
            ms_temperature_celsius = t, ms_detail_code = detail_code\<rparr>)))))))"

section \<open>Action results\<close>

record action_result =
  ar_status :: action_status
  ar_code :: string
  ar_message :: string
  ar_retryable :: bool
  ar_details :: "(string \<times> string) list"

definition mk_ActionResult ::
    "action_status \<Rightarrow> string \<Rightarrow> string \<Rightarrow> bool \<Rightarrow> pyval list option \<Rightarrow> action_result result" where
  "mk_ActionResult status code message retryable details =
     bindE (core_code (PStr code) False) (\<lambda>_.
     bindE (core_text (PStr message) True max_text) (\<lambda>_.
     bindE (core_pairs details) (\<lambda>ds.
     if status = ActSucceeded \<and> retryable then Inl ValueError
     else Inr \<lparr>ar_status = status, ar_code = code, ar_message = message,
               ar_retryable = retryable, ar_details = ds\<rparr>)))"

definition ar_ok :: "action_result \<Rightarrow> bool" where
  "ar_ok r \<longleftrightarrow> ar_status r = ActSucceeded"

definition ar_success :: "string \<Rightarrow> string \<Rightarrow> pyval list option \<Rightarrow> action_result result" where
  "ar_success code message details = mk_ActionResult ActSucceeded code message False details"

section \<open>Plans\<close>

record plan_step =
  step_id :: string
  step_action :: string
  step_node_id :: string
  step_depends_on :: "string list"
  step_disruptive :: bool

fun check_dependencies :: "string list \<Rightarrow> unit result" where
  "check_dependencies [] = Inr ()"
| "check_dependencies (d # ds) =
     bindE (core_text (PStr d) False max_identifier) (\<lambda>_. check_dependencies ds)"

definition mk_PlanStep ::
    "string \<Rightarrow> string \<Rightarrow> string \<Rightarrow> string list \<Rightarrow> bool \<Rightarrow> plan_step result" where
  "mk_PlanStep sid action nid depends_on disruptive =
     bindE (core_text (PStr sid) False max_identifier) (\<lambda>_.
     bindE (core_code (PStr action) False) (\<lambda>_.
     bindE (core_text (PStr nid) True max_identifier) (\<lambda>_.
     bindE (check_dependencies depends_on) (\<lambda>_.
     if length depends_on \<noteq> card (set depends_on) then Inl ValueError
     else if sid \<in> set depends_on then Inl ValueError
     else Inr \<lparr>step_id = sid, step_action = action, step_node_id = nid,
               step_depends_on = depends_on, step_disruptive = disruptive\<rparr>))))"

record plan =
  plan_id :: string
  plan_epoch :: int
  plan_steps :: "plan_step list"

text \<open>
  \<open>Plan.ordered_steps\<close>: one pass of the \<open>while\<close> loop moves every ready step, in order, from
  \<open>pending\<close> to \<open>ordered\<close>; a pass with no ready step raises.
\<close>

definition step_ready :: "string set \<Rightarrow> plan_step \<Rightarrow> bool" where
  "step_ready completed s \<longleftrightarrow> set (step_depends_on s) \<subseteq> completed"

definition move_ready ::
    "plan_step list \<Rightarrow> plan_step list \<times> plan_step list \<times> string set
       \<Rightarrow> plan_step list \<times> plan_step list \<times> string set" where
  "move_ready ready st =
     fold (\<lambda>s (pending, ordered, completed).
             (remove1 s pending, ordered @ [s], insert (step_id s) completed)) ready st"

lemma move_ready_eq:
  "move_ready ready (pending, ordered, completed) =
     (fold remove1 ready pending, ordered @ ready, step_id ` set ready \<union> completed)"
  by (induction ready arbitrary: pending ordered completed) (auto simp: move_ready_def)

lemma length_fold_remove1:
  assumes "mset ready \<subseteq># mset pending"
  shows "length (fold remove1 ready pending) = length pending - length ready"
proof -
  have "mset (fold remove1 ready pending) = mset pending - mset ready"
    by (induction ready arbitrary: pending) (simp_all add: diff_diff_add)
  then have "size (mset (fold remove1 ready pending)) = size (mset pending - mset ready)"
    by simp
  with assms show ?thesis by (simp add: size_Diff_submset)
qed

lemma fold_remove1_shrinks:
  assumes "filter P pending \<noteq> []"
  shows "length (fold remove1 (filter P pending) pending) < length pending"
proof -
  have "length (fold remove1 (filter P pending) pending)
      = length pending - length (filter P pending)"
    by (rule length_fold_remove1) (simp add: mset_filter)
  moreover have "0 < length (filter P pending)" "pending \<noteq> []"
    using assms by auto
  ultimately show ?thesis by (simp add: diff_less)
qed

function ordered_loop ::
    "plan_step list \<Rightarrow> plan_step list \<Rightarrow> string set \<Rightarrow> plan_step list result" where
  "ordered_loop pending ordered completed =
     (if pending = [] then Inr ordered
      else let ready = filter (step_ready completed) pending in
        if ready = [] then Inl ValueError
        else case move_ready ready (pending, ordered, completed) of
          (pending', ordered', completed') \<Rightarrow> ordered_loop pending' ordered' completed')"
  by pat_completeness auto
termination
  by (relation "measure (\<lambda>(pending, _, _). length pending)")
    (auto simp: move_ready_eq intro: fold_remove1_shrinks)

declare ordered_loop.simps [simp del]

definition ordered_steps :: "plan \<Rightarrow> plan_step list result" where
  "ordered_steps p = ordered_loop (plan_steps p) [] {}"

definition mk_Plan :: "string \<Rightarrow> int \<Rightarrow> plan_step list \<Rightarrow> plan result" where
  "mk_Plan pid epoch steps =
     bindE (core_text (PStr pid) False max_identifier) (\<lambda>_.
     bindE (core_integer (PInt epoch) max_int64) (\<lambda>_.
     if steps = [] then Inl ValueError
     else let identifiers = map step_id steps in
       if length identifiers \<noteq> card (set identifiers) then Inl ValueError
       else if list_ex (\<lambda>s. set (step_depends_on s) - set identifiers \<noteq> {}) steps
         then Inl ValueError
       else let p = \<lparr>plan_id = pid, plan_epoch = epoch, plan_steps = steps\<rparr> in
         bindE (ordered_steps p) (\<lambda>_. Inr p)))"

definition ready_steps :: "plan \<Rightarrow> string list \<Rightarrow> plan_step list result" where
  "ready_steps p completed =
     (if \<not> set completed \<subseteq> set (map step_id (plan_steps p)) then Inl ValueError
      else Inr (filter (\<lambda>s. step_id s \<notin> set completed \<and> set (step_depends_on s) \<subseteq> set completed)
                  (plan_steps p)))"

section \<open>Typed service errors\<close>

text \<open>The class attributes \<open>code\<close> and \<open>retryable\<close> of the \<open>RcmError\<close> hierarchy.\<close>

datatype rcm_error =
    RcmError | UnavailableError | UnsupportedError | PermissionDeniedError | StaleError
  | BusyError | ConflictError | RejectedError

fun rcm_code :: "rcm_error \<Rightarrow> string" where
  "rcm_code RcmError = ''rcm_error''"
| "rcm_code UnavailableError = ''unavailable''"
| "rcm_code UnsupportedError = ''unsupported''"
| "rcm_code PermissionDeniedError = ''permission_denied''"
| "rcm_code StaleError = ''stale''"
| "rcm_code BusyError = ''busy''"
| "rcm_code ConflictError = ''conflict''"
| "rcm_code RejectedError = ''rejected''"

fun rcm_retryable :: "rcm_error \<Rightarrow> bool" where
  "rcm_retryable UnavailableError = True"
| "rcm_retryable StaleError = True"
| "rcm_retryable BusyError = True"
| "rcm_retryable ConflictError = True"
| "rcm_retryable _ = False"

definition rcm_to_result :: "rcm_error \<Rightarrow> action_result result" where
  "rcm_to_result e = mk_ActionResult ActFailed (rcm_code e) '''' (rcm_retryable e) (Some [])"

definition error_from_state :: "capability_state \<Rightarrow> rcm_error result" where
  "error_from_state s =
     (case s of
        CapUnavailable \<Rightarrow> Inr UnavailableError
      | CapUnsupported \<Rightarrow> Inr UnsupportedError
      | CapPermissionDenied \<Rightarrow> Inr PermissionDeniedError
      | CapAvailable \<Rightarrow> Inl ValueError)"

section \<open>Specification of the plan order\<close>

text \<open>
  \<open>topo_sorted done ss\<close>: run in the order \<open>ss\<close> after the steps named in \<open>done\<close>, every step finds
  all its dependencies completed.
\<close>

fun topo_sorted :: "string set \<Rightarrow> plan_step list \<Rightarrow> bool" where
  "topo_sorted C [] \<longleftrightarrow> True"
| "topo_sorted C (s # ss) \<longleftrightarrow> step_ready C s \<and> topo_sorted (insert (step_id s) C) ss"

lemma step_ready_mono: "step_ready C s \<Longrightarrow> C \<subseteq> D \<Longrightarrow> step_ready D s"
  by (auto simp: step_ready_def)

lemma topo_sorted_mono: "topo_sorted C ss \<Longrightarrow> C \<subseteq> D \<Longrightarrow> topo_sorted D ss"
  by (induction ss arbitrary: C D) (auto intro: step_ready_mono, blast)

lemma topo_sorted_append [simp]:
  "topo_sorted C (xs @ ys) \<longleftrightarrow> topo_sorted C xs \<and> topo_sorted (step_id ` set xs \<union> C) ys"
  by (induction xs arbitrary: C) auto

lemma topo_sorted_ready: "(\<And>s. s \<in> set ss \<Longrightarrow> step_ready C s) \<Longrightarrow> topo_sorted C ss"
proof (induction ss arbitrary: C)
  case (Cons s ss)
  then have "topo_sorted C ss" by simp
  then have "topo_sorted (insert (step_id s) C) ss" by (rule topo_sorted_mono) auto
  with Cons.prems show ?case by simp
qed simp

lemma topo_sorted_filter:
  "topo_sorted C qs \<Longrightarrow> step_id ` set (filter P qs) \<union> C \<subseteq> D
     \<Longrightarrow> topo_sorted D (filter (\<lambda>s. \<not> P s) qs)"
proof (induction qs arbitrary: C D)
  case (Cons q qs)
  show ?case
  proof (cases "P q")
    case True
    with Cons.prems have "topo_sorted D (filter (\<lambda>s. \<not> P s) qs)"
      by (intro Cons.IH [of "insert (step_id q) C"]) auto
    with True show ?thesis by simp
  next
    case False
    with Cons.prems have "topo_sorted (insert (step_id q) D) (filter (\<lambda>s. \<not> P s) qs)"
      by (intro Cons.IH [of "insert (step_id q) C"]) auto
    moreover from Cons.prems have "step_ready D q" by (auto intro: step_ready_mono)
    ultimately show ?thesis using False by simp
  qed
qed simp

lemma mset_fold_remove1:
  "mset (fold remove1 (filter P xs) xs) = mset (filter (\<lambda>x. \<not> P x) xs)"
proof -
  have gen: "mset (fold remove1 rs ps) = mset ps - mset rs" for rs ps :: "'a list"
    by (induction rs arbitrary: ps) simp_all
  show ?thesis
    by (simp add: gen) (metis add_diff_cancel_left' multiset_partition mset_filter)
qed

lemma ordered_loop_step:
  assumes "pending \<noteq> []" and "filter (step_ready completed) pending \<noteq> []"
  shows "ordered_loop pending ordered completed =
    (let ready = filter (step_ready completed) pending in
       ordered_loop (fold remove1 ready pending) (ordered @ ready)
         (step_id ` set ready \<union> completed))"
  using assms by (simp add: ordered_loop.simps [of pending] move_ready_eq Let_def)

lemma ordered_loop_Nil [simp]: "ordered_loop [] ordered completed = Inr ordered"
  by (simp add: ordered_loop.simps)

lemma ordered_loop_stuck:
  "pending \<noteq> [] \<Longrightarrow> filter (step_ready completed) pending = []
     \<Longrightarrow> ordered_loop pending ordered completed = Inl ValueError"
  by (simp add: ordered_loop.simps [of pending] Let_def)

text \<open>One pass of the loop as an induction step.\<close>

lemma ordered_loop_passes [case_names finished stuck pass]:
  assumes "\<And>ordered completed. P [] ordered completed"
    and "\<And>pending ordered completed. pending \<noteq> [] \<Longrightarrow>
      filter (step_ready completed) pending = [] \<Longrightarrow> P pending ordered completed"
    and "\<And>pending ordered completed ready. pending \<noteq> [] \<Longrightarrow>
      ready = filter (step_ready completed) pending \<Longrightarrow> ready \<noteq> [] \<Longrightarrow>
      P (fold remove1 ready pending) (ordered @ ready) (step_id ` set ready \<union> completed) \<Longrightarrow>
      P pending ordered completed"
  shows "P pending ordered completed"
proof (induction pending arbitrary: ordered completed rule: length_induct)
  case (1 pending ordered completed)
  let ?ready = "filter (step_ready completed) pending"
  show ?case
  proof (cases "pending = []")
    case True
    show ?thesis unfolding True by (rule assms(1))
  next
    case ne: False
    show ?thesis
    proof (cases "?ready = []")
      case True
      with ne show ?thesis by (rule assms(2))
    next
      case ready: False
      from ne show ?thesis
      proof (rule assms(3) [OF _ refl ready])
        from ready have "length (fold remove1 ?ready pending) < length pending"
          by (rule fold_remove1_shrinks)
        with "1" show "P (fold remove1 ?ready pending) (ordered @ ?ready)
            (step_id ` set ?ready \<union> completed)" by simp
      qed
    qed
  qed
qed

lemma ordered_loop_sound:
  assumes "ordered_loop pending ordered completed = Inr os"
    and "completed = step_id ` set ordered" and "topo_sorted {} ordered"
  shows "mset os = mset pending + mset ordered \<and> topo_sorted {} os"
  using assms
proof (induction pending ordered completed rule: ordered_loop_passes)
  case (pass pending ordered completed ready)
  have "topo_sorted {} (ordered @ ready)"
    using pass.hyps pass.prems by (auto intro: topo_sorted_ready)
  with pass have "mset os = mset (fold remove1 ready pending) + mset (ordered @ ready)
      \<and> topo_sorted {} os"
    by (simp add: ordered_loop_step Let_def image_Un Un_commute)
  moreover have "mset (filter (\<lambda>s. \<not> step_ready completed s) pending) + mset ready = mset pending"
    by (simp add: pass.hyps add.commute)
  ultimately show ?case by (simp add: pass.hyps mset_fold_remove1 ac_simps)
qed (simp_all add: ordered_loop_stuck)

lemma ordered_loop_complete:
  assumes "mset qs = mset pending" and "topo_sorted completed qs"
  shows "\<exists>os. ordered_loop pending ordered completed = Inr os"
  using assms
proof (induction pending ordered completed arbitrary: qs rule: ordered_loop_passes)
  case (stuck pending ordered completed)
  then obtain q qs' where q: "qs = q # qs'" by (cases qs) auto
  with stuck.prems have "q \<in> set pending" by (metis list.set_intros(1) mset_eq_setD)
  with q stuck show ?case by (auto simp: filter_empty_conv)
next
  case (pass pending ordered completed ready)
  let ?rest = "filter (\<lambda>s. \<not> step_ready completed s) qs"
  have "mset ?rest = mset (fold remove1 ready pending)"
    using pass.prems(1) by (simp add: pass.hyps mset_fold_remove1)
  moreover have "topo_sorted (step_id ` set ready \<union> completed) ?rest"
    using pass.prems mset_eq_setD [OF pass.prems(1)]
    by (intro topo_sorted_filter) (auto simp: pass.hyps)
  ultimately have "\<exists>os. ordered_loop (fold remove1 ready pending) (ordered @ ready)
      (step_id ` set ready \<union> completed) = Inr os"
    by (rule pass.IH)
  then show ?case using pass.hyps by (simp add: ordered_loop_step Let_def)
qed simp

lemma ordered_loop_error: "ordered_loop pending ordered completed = Inl e \<Longrightarrow> e = ValueError"
  by (induction pending ordered completed rule: ordered_loop_passes)
    (simp_all add: ordered_loop_stuck ordered_loop_step Let_def)

section \<open>Validated values\<close>

lemma core_text_eq_Inr [result_simps]:
  "core_text v e m = Inr s \<longleftrightarrow>
     v = PStr s \<and> (s \<noteq> [] \<or> e) \<and> length s \<le> m \<and> \<not> has_control s"
  by (auto simp: core_text_def split: pyval.splits if_splits)

lemma core_code_eq_Inr [result_simps]:
  "core_code v e = Inr s \<longleftrightarrow>
     v = PStr s \<and> (s \<noteq> [] \<or> e) \<and> length s \<le> max_identifier \<and> \<not> has_control s \<and>
     set s \<subseteq> set code_chars"
  by (auto simp: core_code_def result_simps list_ex_iff split: if_splits)

lemma core_integer_eq_Inr [result_simps]:
  "core_integer v m = Inr n \<longleftrightarrow> v = PInt n \<and> 0 \<le> n \<and> n \<le> m"
  by (auto simp: core_integer_def split: pyval.splits if_splits)

lemma core_metric_range:
  "core_metric v lo hi = Inr (Some r) \<Longrightarrow> lo \<le> r \<and> r \<le> hi"
  by (auto simp: core_metric_def Let_def result_simps split: pyval.splits pyfloat.splits if_splits)

lemma core_metric_None [simp]: "core_metric PNone lo hi = Inr None"
  by (simp add: core_metric_def)

lemma card_set_distinct: "length xs = card (set xs) \<longleftrightarrow> distinct xs"
  by (metis card_distinct distinct_card)

lemma card_set_distinct_map: "length xs = card (f ` set xs) \<longleftrightarrow> distinct (map f xs)"
  using card_set_distinct [of "map f xs"] by simp

lemma mk_Plan_eq_Inr:
  "mk_Plan pid ep steps = Inr p \<longleftrightarrow>
     pid \<noteq> [] \<and> length pid \<le> max_identifier \<and> \<not> has_control pid \<and> 0 \<le> ep \<and> ep \<le> max_int64 \<and>
     steps \<noteq> [] \<and> distinct (map step_id steps) \<and>
     (\<forall>s \<in> set steps. set (step_depends_on s) \<subseteq> step_id ` set steps) \<and>
     (\<exists>os. ordered_steps p = Inr os) \<and>
     p = \<lparr>plan_id = pid, plan_epoch = ep, plan_steps = steps\<rparr>"
  by (auto simp: mk_Plan_def result_simps Let_def list_ex_iff card_set_distinct_map
      split: if_splits)

lemma ordered_steps_sound:
  "ordered_steps p = Inr os \<Longrightarrow> mset os = mset (plan_steps p) \<and> topo_sorted {} os"
  unfolding ordered_steps_def by (drule ordered_loop_sound) simp_all

lemma topo_sorted_first_missing:
  assumes "topo_sorted C os" and "C \<subseteq> D" and "\<exists>s \<in> set os. step_id s \<notin> D"
  shows "\<exists>s \<in> set os. step_id s \<notin> D \<and> step_ready D s"
  using assms
proof (induction os arbitrary: C)
  case (Cons s os)
  show ?case
  proof (cases "step_id s \<in> D")
    case True
    with Cons.prems have "\<exists>s \<in> set os. step_id s \<notin> D \<and> step_ready D s"
      by (intro Cons.IH [of "insert (step_id s) C"]) auto
    then show ?thesis by auto
  next
    case False
    with Cons.prems show ?thesis by (auto intro: step_ready_mono)
  qed
qed simp

section \<open>Properties\<close>

text \<open>
  C18: an accepted plan has an execution order. \<open>Plan.__post_init__\<close> succeeding means that
  \<open>ordered_steps\<close> returns, that its result is a permutation of the plan's steps, and that in it
  every step comes after all the steps it depends on.
\<close>

theorem plan_ordering_correct:
  assumes "mk_Plan pid ep steps = Inr p"
  shows "\<exists>os. ordered_steps p = Inr os \<and> mset os = mset steps \<and> topo_sorted {} os"
proof -
  from assms obtain os where "ordered_steps p = Inr os" and "plan_steps p = steps"
    by (auto simp: mk_Plan_eq_Inr)
  then show ?thesis using ordered_steps_sound by blast
qed

text \<open>
  C19: the cycle check is exact. \<open>ordered_steps\<close> raises, and then it raises \<open>ValueError\<close>, exactly
  when no permutation of the steps respects the dependencies.
\<close>

theorem ordered_steps_cycle_iff:
  "ordered_steps p = Inl e \<longleftrightarrow>
     e = ValueError \<and> \<not> (\<exists>os. mset os = mset (plan_steps p) \<and> topo_sorted {} os)"
proof (cases "ordered_steps p")
  case (Inl e')
  then have "e' = ValueError" by (simp add: ordered_steps_def ordered_loop_error)
  moreover have "\<not> (\<exists>os. mset os = mset (plan_steps p) \<and> topo_sorted {} os)"
    using Inl ordered_loop_complete [of _ "plan_steps p" "{}" "[]"]
    by (auto simp: ordered_steps_def)
  ultimately show ?thesis using Inl by auto
next
  case (Inr os)
  then show ?thesis using ordered_steps_sound by fastforce
qed

text \<open>
  An accepted plan never deadlocks. Whatever proper subset of the plan's steps has completed,
  \<open>ready_steps\<close> offers at least one step that has not run yet and whose dependencies are all
  completed.
\<close>

theorem plan_ready_progress:
  assumes "mk_Plan pid ep steps = Inr p" and "set completed \<subset> step_id ` set steps"
  shows "\<exists>rs. ready_steps p completed = Inr rs \<and> rs \<noteq> [] \<and>
    (\<forall>s \<in> set rs. s \<in> set steps \<and> step_id s \<notin> set completed \<and>
       set (step_depends_on s) \<subseteq> set completed)"
proof -
  from assms(1) obtain os where os: "ordered_steps p = Inr os" and steps: "plan_steps p = steps"
    by (auto simp: mk_Plan_eq_Inr)
  then have set_os: "set os = set steps" and topo: "topo_sorted {} os"
    using ordered_steps_sound [OF os] by (auto dest: mset_eq_setD)
  from assms(2) have "\<exists>s \<in> set os. step_id s \<notin> set completed" by (auto simp: set_os)
  with topo obtain s where "s \<in> set os" "step_id s \<notin> set completed"
      "step_ready (set completed) s"
    using topo_sorted_first_missing [of "{}" os "set completed"] by auto
  then show ?thesis
    using assms(2) by (auto simp: ready_steps_def steps set_os step_ready_def filter_empty_conv)
qed

text \<open>
  A snapshot that \<open>MetricSnapshot.__post_init__\<close> accepts carries readings exactly when its
  state is OK, every percentage lies in \<open>[0, 100]\<close> and the temperature in \<open>[-273.15, 1000]\<close>.
\<close>

theorem metric_snapshot_wf:
  assumes "mk_MetricSnapshot nid obs sq st cpu mem temp code = Inr s"
  shows "(ms_state s = MOk \<longleftrightarrow>
      \<not> (ms_cpu_percent s = None \<and> ms_memory_percent s = None \<and> ms_temperature_celsius s = None))
    \<and> (\<forall>r. ms_cpu_percent s = Some r \<longrightarrow> 0 \<le> r \<and> r \<le> 100)
    \<and> (\<forall>r. ms_memory_percent s = Some r \<longrightarrow> 0 \<le> r \<and> r \<le> 100)
    \<and> (\<forall>r. ms_temperature_celsius s = Some r \<longrightarrow> absolute_zero \<le> r \<and> r \<le> 1000)"
  using assms
  by (auto simp: mk_MetricSnapshot_def result_simps Let_def core_metric_range split: if_splits)

section \<open>Witnesses\<close>

definition example_step_a :: plan_step where
  "example_step_a = \<lparr>step_id = ''a'', step_action = ''ray.stop'', step_node_id = ''n1'',
     step_depends_on = [], step_disruptive = True\<rparr>"

definition example_step_b :: plan_step where
  "example_step_b = \<lparr>step_id = ''b'', step_action = ''ray.start'', step_node_id = ''n1'',
     step_depends_on = [''a''], step_disruptive = False\<rparr>"

lemma example_plan:
  "mk_Plan ''p'' 4 [example_step_b, example_step_a] =
     Inr \<lparr>plan_id = ''p'', plan_epoch = 4, plan_steps = [example_step_b, example_step_a]\<rparr>"
  by code_simp

theorem plan_ordering_correct_witness:
  "\<exists>os. ordered_steps \<lparr>plan_id = ''p'', plan_epoch = 4,
          plan_steps = [example_step_b, example_step_a]\<rparr> = Inr os \<and>
     mset os = mset [example_step_b, example_step_a] \<and> topo_sorted {} os"
  by (rule plan_ordering_correct [OF example_plan])

theorem plan_ready_progress_witness:
  "\<exists>rs. ready_steps \<lparr>plan_id = ''p'', plan_epoch = 4,
          plan_steps = [example_step_b, example_step_a]\<rparr> [''a''] = Inr rs \<and> rs \<noteq> [] \<and>
     (\<forall>s \<in> set rs. s \<in> set [example_step_b, example_step_a] \<and> step_id s \<notin> set [''a''] \<and>
        set (step_depends_on s) \<subseteq> set [''a''])"
  by (rule plan_ready_progress [OF example_plan])
    (auto simp: example_step_a_def example_step_b_def)

lemma example_snapshot:
  "mk_MetricSnapshot ''n1'' 5 0 MOk (PInt 12) PNone PNone '''' =
     Inr \<lparr>ms_node_id = ''n1'', ms_observed_at_ns = 5, ms_sequence = 0, ms_state = MOk,
          ms_cpu_percent = Some 12, ms_memory_percent = None, ms_temperature_celsius = None,
          ms_detail_code = ''''\<rparr>"
  by code_simp

theorem metric_snapshot_wf_witness:
  "\<exists>s. mk_MetricSnapshot ''n1'' 5 0 MOk (PInt 12) PNone PNone '''' = Inr s \<and>
     0 \<le> the (ms_cpu_percent s) \<and> the (ms_cpu_percent s) \<le> 100"
  using metric_snapshot_wf [OF example_snapshot] example_snapshot by auto

section \<open>The Ray control port\<close>

text \<open>
  A call of the \<open>RayAdapter\<close> protocol of \<open>src/rcm/ports.py\<close>, and how it ends: raised, an
  \<open>ActionResult\<close>, or something else.
\<close>

datatype control_call =
    CtlPreflight node int
  | CtlStop node int
  | CtlPush node string int
  | CtlStartHead node int
  | CtlJoin node node int
  | CtlVerify "node list" node int

datatype control_return = CtlRaises pyexn | CtlResult action_result | CtlOther

end
