(* ===== verification/Cluster.thy ===== *)
theory Cluster
  imports Core
begin

text \<open>
  \<open>rcm/cluster.py\<close>: the cluster observations and their checks, the busy policy that only ever calls
  a cluster idle on complete and fresh evidence, the diagnosis service in front of it, and the
  maintenance guard that hands out one lease at a time. Times are finite floats (\<open>rat\<close>); the
  observer and the clock of the service are arguments.
\<close>

section \<open>Validators\<close>

datatype member_state = CmAlive | CmStopped | CmUnreachable | CmUnknown

definition max_observed_nodes :: nat where "max_observed_nodes = 32"

definition cluster_non_negative_int :: "pyval \<Rightarrow> int result" where
  "cluster_non_negative_int v =
     (case v of PInt n \<Rightarrow> if n < 0 then Inl ValueError else Inr n | _ \<Rightarrow> Inl ValueError)"

definition cluster_time :: "pyval \<Rightarrow> rat result" where
  "cluster_time v =
     (case v of
        PInt n \<Rightarrow> float_of_int n
      | PFloat (Finite r) \<Rightarrow> Inr r
      | _ \<Rightarrow> Inl ValueError)"

text \<open>An optional count: \<open>None\<close> passes, anything else must be a non-negative integer.\<close>

definition optional_count :: "pyval \<Rightarrow> int option result" where
  "optional_count v =
     (if v = PNone then Inr None else bindE (cluster_non_negative_int v) (\<lambda>n. Inr (Some n)))"

section \<open>Observations\<close>

record cluster_member =
  cm_node :: node
  cm_state :: member_state
  cm_observed_at :: rat
  cm_active_jobs :: "int option"
  cm_active_tasks :: "int option"
  cm_evidence_fresh :: bool

definition mk_ClusterMember ::
    "node \<Rightarrow> member_state \<Rightarrow> pyval \<Rightarrow> pyval \<Rightarrow> pyval \<Rightarrow> bool \<Rightarrow> cluster_member result" where
  "mk_ClusterMember nd st observed_at jobs tasks fresh =
     bindE (cluster_time observed_at) (\<lambda>t.
     bindE (optional_count jobs) (\<lambda>j.
     bindE (optional_count tasks) (\<lambda>k.
     if st \<noteq> CmAlive \<and> (j \<noteq> None \<or> k \<noteq> None) then Inl ValueError
     else Inr \<lparr>cm_node = nd, cm_state = st, cm_observed_at = t, cm_active_jobs = j,
               cm_active_tasks = k, cm_evidence_fresh = fresh\<rparr>)))"

record workload_evidence =
  we_observed_at :: rat
  we_active_jobs :: "int option"
  we_active_tasks :: "int option"
  we_active_actors :: "int option"
  we_active_placement_groups :: "int option"
  we_complete :: bool
  we_reasons :: "string list"

definition we_counts :: "workload_evidence \<Rightarrow> int option list" where
  "we_counts w =
     [we_active_jobs w, we_active_tasks w, we_active_actors w, we_active_placement_groups w]"

definition reason_chars :: string where
  "reason_chars = ''abcdefghijklmnopqrstuvwxyz0123456789_:''"

definition mk_WorkloadEvidence ::
    "pyval \<Rightarrow> pyval \<Rightarrow> pyval \<Rightarrow> pyval \<Rightarrow> pyval \<Rightarrow> bool \<Rightarrow> string list
       \<Rightarrow> workload_evidence result" where
  "mk_WorkloadEvidence observed_at jobs tasks actors groups is_complete reasons =
     bindE (cluster_time observed_at) (\<lambda>t.
     bindE (optional_count jobs) (\<lambda>j.
     bindE (optional_count tasks) (\<lambda>k.
     bindE (optional_count actors) (\<lambda>a.
     bindE (optional_count groups) (\<lambda>g.
     if list_ex (\<lambda>r. r = [] \<or> list_ex (\<lambda>c. c \<notin> set reason_chars) r) reasons
       then Inl ValueError
     else if card (set reasons) \<noteq> length reasons then Inl ValueError
     else if is_complete \<and> (list_ex (\<lambda>v. v = None) [j, k, a, g] \<or> reasons \<noteq> [])
       then Inl ValueError
     else Inr \<lparr>we_observed_at = t, we_active_jobs = j, we_active_tasks = k,
               we_active_actors = a, we_active_placement_groups = g,
               we_complete = is_complete, we_reasons = reasons\<rparr>)))))"

record cluster_snapshot =
  cs_epoch :: int
  cs_expected_head_id :: string
  cs_members :: "cluster_member list"
  cs_captured_at :: rat
  cs_workload :: "workload_evidence option"

definition member_id :: "cluster_member \<Rightarrow> string" where
  "member_id m = node_id (cm_node m)"

definition mk_ClusterSnapshot ::
    "pyval \<Rightarrow> string \<Rightarrow> cluster_member list \<Rightarrow> pyval \<Rightarrow> workload_evidence option
       \<Rightarrow> cluster_snapshot result" where
  "mk_ClusterSnapshot epoch expected_head_id members captured_at workload =
     bindE (cluster_non_negative_int epoch) (\<lambda>ep.
     if expected_head_id = [] then Inl ValueError
     else if members = [] then Inl ValueError
     else let identifiers = map member_id members in
       if card (set identifiers) \<noteq> length identifiers then Inl ValueError
       else if expected_head_id \<notin> set identifiers then Inl ValueError
       else let head_roles =
           map cm_node (filter (\<lambda>m. node_role (cm_node m) = RoleHead) members) in
         case head_roles of
           [h] \<Rightarrow>
             if node_id h \<noteq> expected_head_id then Inl ValueError
             else bindE (cluster_time captured_at) (\<lambda>t.
               Inr \<lparr>cs_epoch = ep, cs_expected_head_id = expected_head_id,
                    cs_members = members, cs_captured_at = t, cs_workload = workload\<rparr>)
         | _ \<Rightarrow> Inl ValueError)"

definition snapshot_member :: "cluster_snapshot \<Rightarrow> string \<Rightarrow> cluster_member result" where
  "snapshot_member s nid =
     (case List.find (\<lambda>m. member_id m = nid) (cs_members s) of
        Some m \<Rightarrow> Inr m | None \<Rightarrow> Inl LookupErr)"

record busy_assessment =
  ba_state :: busy_state
  ba_epoch :: int
  ba_reasons :: "string list"

definition safe_for_maintenance :: "busy_assessment \<Rightarrow> bool" where
  "safe_for_maintenance a \<longleftrightarrow> ba_state a = BsIdle"

record cluster_diagnosis =
  cd_assessment :: busy_assessment
  cd_snapshot :: "cluster_snapshot option"

section \<open>The busy policy\<close>

definition mk_ClusterBusyPolicy :: "pyval \<Rightarrow> rat result" where
  "mk_ClusterBusyPolicy max_age_seconds =
     bindE (cluster_time max_age_seconds) (\<lambda>m. if m \<le> 0 then Inl ValueError else Inr m)"

text \<open>
  The loop of \<open>assess\<close> over the members: \<open>Inl r\<close> is the early return of a BUSY assessment with
  reason \<open>r\<close>, \<open>Inr unknown\<close> the list of reasons collected when the loop ends.
\<close>

fun assess_members ::
    "rat \<Rightarrow> rat \<Rightarrow> bool \<Rightarrow> cluster_member list \<Rightarrow> string list \<Rightarrow> string + string list" where
  "assess_members max_age now no_workload [] unknown = Inr unknown"
| "assess_members max_age now no_workload (m # ms) unknown =
     (let go = (\<lambda>u. assess_members max_age now no_workload ms u); nid = member_id m in
      if now < cm_observed_at m then go (unknown @ [nid @ '':clock_skew''])
      else if max_age < now - cm_observed_at m then go (unknown @ [nid @ '':stale''])
      else if cm_state m = CmStopped then go unknown
      else if cm_state m \<noteq> CmAlive then go (unknown @ [nid @ '':unavailable''])
      else if no_workload then
        (case (cm_evidence_fresh m, cm_active_jobs m, cm_active_tasks m) of
           (True, Some jobs, Some tasks) \<Rightarrow>
             if 0 < jobs \<or> 0 < tasks then Inl (nid @ '':active_workload'') else go unknown
         | _ \<Rightarrow> go (unknown @ [nid @ '':workload_unknown'']))
      else go unknown)"

definition assessment :: "busy_state \<Rightarrow> cluster_snapshot \<Rightarrow> string list \<Rightarrow> busy_assessment" where
  "assessment st s reasons = \<lparr>ba_state = st, ba_epoch = cs_epoch s, ba_reasons = reasons\<rparr>"

definition positive_count :: "int option \<Rightarrow> bool" where
  "positive_count c = (case c of None \<Rightarrow> False | Some n \<Rightarrow> 0 < n)"

definition assess ::
    "rat \<Rightarrow> cluster_snapshot \<Rightarrow> pyval \<Rightarrow> bool \<Rightarrow> busy_assessment result" where
  "assess max_age s now_value maintenance =
     bindE (cluster_time now_value) (\<lambda>now.
     if maintenance then Inr (assessment BsMaintenance s [''maintenance_lock''])
     else if now < cs_captured_at s then Inr (assessment BsUnknown s [''clock_skew''])
     else if max_age < now - cs_captured_at s
       then Inr (assessment BsUnknown s [''stale_snapshot''])
     else
       let finish = (\<lambda>no_workload extra.
         (case assess_members max_age now no_workload (cs_members s) [] of
            Inl reason \<Rightarrow> Inr (assessment BsBusy s [reason])
          | Inr unknown \<Rightarrow>
              if unknown @ extra \<noteq> [] then Inr (assessment BsUnknown s (unknown @ extra))
              else Inr (assessment BsIdle s [])))
       in case cs_workload s of
            None \<Rightarrow> finish True []
          | Some w \<Rightarrow>
              if now < we_observed_at w
                then Inr (assessment BsUnknown s [''workload:clock_skew''])
              else if max_age < now - we_observed_at w
                then Inr (assessment BsUnknown s [''workload:stale''])
              else if list_ex positive_count (we_counts w)
                then Inr (assessment BsBusy s [''cluster:active_workload''])
              else finish False
                (if we_complete w then []
                 else if we_reasons w \<noteq> [] then we_reasons w else [''workload:incomplete'']))"

section \<open>The diagnosis service\<close>

text \<open>What a call of the injected observer can do: raise, return a snapshot, or another object.\<close>

datatype observed = ObsRaises pyexn | ObsSnapshot cluster_snapshot | ObsOther

definition diagnosis_unknown :: "int \<Rightarrow> string \<Rightarrow> cluster_diagnosis" where
  "diagnosis_unknown epoch reason =
     \<lparr>cd_assessment = \<lparr>ba_state = BsUnknown, ba_epoch = epoch, ba_reasons = [reason]\<rparr>,
      cd_snapshot = None\<rparr>"

definition ambiguous_topology :: "node list \<Rightarrow> pyval \<Rightarrow> bool" where
  "ambiguous_topology enabled expected_head_id =
     (let identifiers = map node_id enabled;
          heads = filter (\<lambda>n. node_role n = RoleHead) enabled
      in case expected_head_id of
           PStr h \<Rightarrow>
             h \<notin> set identifiers \<or> card (set identifiers) \<noteq> length identifiers
             \<or> (case heads of [hd_node] \<Rightarrow> node_id hd_node \<noteq> h | _ \<Rightarrow> True)
         | _ \<Rightarrow> True)"

definition str_of :: "pyval \<Rightarrow> string" where
  "str_of v = (case v of PStr s \<Rightarrow> s | _ \<Rightarrow> [])"

definition diagnose ::
    "(node list \<Rightarrow> string \<Rightarrow> int \<Rightarrow> observed) \<Rightarrow> rat \<Rightarrow> pyval \<Rightarrow> node list \<Rightarrow> pyval \<Rightarrow> pyval
       \<Rightarrow> pyval option \<Rightarrow> cluster_diagnosis result" where
  "diagnose observe max_age clock nodes expected_head_id epoch_value now =
     bindE (cluster_non_negative_int epoch_value) (\<lambda>epoch.
     bindE (case now of None \<Rightarrow> Inr None | Some v \<Rightarrow> bindE (cluster_time v) (\<lambda>t. Inr (Some t)))
       (\<lambda>supplied_now.
     let enabled = filter node_enabled nodes in
     if enabled = [] then Inr (diagnosis_unknown epoch ''configuration:no_enabled_nodes'')
     else if max_observed_nodes < length enabled
       then Inr (diagnosis_unknown epoch ''configuration:too_many_nodes'')
     else if ambiguous_topology enabled expected_head_id
       then Inr (diagnosis_unknown epoch ''configuration:ambiguous_topology'')
     else (case observe enabled (str_of expected_head_id) epoch of
         ObsRaises e \<Rightarrow>
           if is_exception e then Inr (diagnosis_unknown epoch ''observer:failed'') else Inl e
       | ObsOther \<Rightarrow> Inr (diagnosis_unknown epoch ''observer:invalid_snapshot'')
       | ObsSnapshot s \<Rightarrow>
           if cs_epoch s \<noteq> epoch
             then Inr (diagnosis_unknown epoch ''observer:invalid_snapshot'')
           else bindE (case supplied_now of Some t \<Rightarrow> Inr t | None \<Rightarrow> cluster_time clock)
             (\<lambda>current. bindE (assess max_age s (PFloat (Finite current)) False)
               (\<lambda>a. Inr \<lparr>cd_assessment = a, cd_snapshot = Some s\<rparr>)))))"

section \<open>Maintenance leases\<close>

text \<open>
  A lease object refers to its token object; \<open>ml_ref\<close> is the identity of the lease object itself
  (what \<open>is\<close> compares) and \<open>ml_token\<close> the address of its token. The token heap and the guard form
  one state.
\<close>

record lease_token =
  lt_active :: bool
  lt_in_use :: bool

record maintenance_lease =
  ml_ref :: nat
  ml_request_id :: string
  ml_epoch :: int
  ml_token :: nat

record maintenance =
  mw_lease :: "maintenance_lease option"
  mw_tokens :: "nat \<Rightarrow> lease_token option"
  mw_next :: nat

definition init_maintenance :: maintenance where
  "init_maintenance = \<lparr>mw_lease = None, mw_tokens = (\<lambda>_. None), mw_next = 0\<rparr>"

definition lease_active :: "maintenance \<Rightarrow> maintenance_lease \<Rightarrow> bool" where
  "lease_active w l = (case mw_tokens w (ml_token l) of None \<Rightarrow> False | Some t \<Rightarrow> lt_active t)"

definition issue_lease ::
    "maintenance \<Rightarrow> string \<Rightarrow> int \<Rightarrow> maintenance_lease \<times> maintenance" where
  "issue_lease w request_id epoch =
     (let a = mw_next w;
          l = \<lparr>ml_ref = a, ml_request_id = request_id, ml_epoch = epoch, ml_token = a\<rparr>
      in (l, w\<lparr>mw_tokens := (mw_tokens w)(a \<mapsto> \<lparr>lt_active = True, lt_in_use = False\<rparr>),
               mw_next := Suc a\<rparr>))"

definition lease_claim :: "maintenance \<Rightarrow> maintenance_lease \<Rightarrow> bool \<times> maintenance" where
  "lease_claim w l =
     (case mw_tokens w (ml_token l) of
        None \<Rightarrow> (False, w)
      | Some t \<Rightarrow>
          if \<not> lt_active t \<or> lt_in_use t then (False, w)
          else (True, w\<lparr>mw_tokens := (mw_tokens w)(ml_token l \<mapsto> t\<lparr>lt_in_use := True\<rparr>)\<rparr>))"

definition lease_release_claim :: "maintenance \<Rightarrow> maintenance_lease \<Rightarrow> maintenance" where
  "lease_release_claim w l =
     (case mw_tokens w (ml_token l) of
        None \<Rightarrow> w
      | Some t \<Rightarrow> w\<lparr>mw_tokens := (mw_tokens w)(ml_token l \<mapsto> t\<lparr>lt_in_use := False\<rparr>)\<rparr>)"

definition guard_acquire ::
    "maintenance \<Rightarrow> pyval \<Rightarrow> busy_assessment \<Rightarrow> pyval
       \<Rightarrow> maintenance_lease result \<times> maintenance" where
  "guard_acquire w request_id a expected_epoch =
     (case request_id of
        PStr rid \<Rightarrow>
          if rid = [] then (Inl ValueError, w)
          else if list_ex (\<lambda>c. ord c < 33) rid then (Inl ValueError, w)
          else (case cluster_non_negative_int expected_epoch of
              Inl e \<Rightarrow> (Inl e, w)
            | Inr epoch \<Rightarrow>
                if ba_epoch a \<noteq> epoch then (Inl RcmConflict, w)
                else (case mw_lease w of
                    Some l \<Rightarrow>
                      if ml_request_id l = rid then (Inr l, w) else (Inl RcmConflict, w)
                  | None \<Rightarrow>
                      if \<not> safe_for_maintenance a then (Inl RcmBusy, w)
                      else (case issue_lease w rid epoch of
                          (l, w') \<Rightarrow> (Inr l, w'\<lparr>mw_lease := Some l\<rparr>))))
      | _ \<Rightarrow> (Inl ValueError, w))"

definition guard_release :: "maintenance \<Rightarrow> maintenance_lease \<Rightarrow> unit result \<times> maintenance" where
  "guard_release w l =
     (if \<not> lease_active w l then (Inr (), w)
      else (case mw_lease w of
          None \<Rightarrow> (Inl RcmConflict, w)
        | Some held \<Rightarrow>
            if held \<noteq> l then (Inl RcmConflict, w)
            else (case mw_tokens w (ml_token l) of
                None \<Rightarrow> (Inl RcmConflict, w)
              | Some t \<Rightarrow>
                  if lt_in_use t then (Inl RcmConflict, w)
                  else (Inr (),
                    w\<lparr>mw_tokens := (mw_tokens w)(ml_token l \<mapsto> t\<lparr>lt_active := False\<rparr>),
                      mw_lease := None\<rparr>))))"

section \<open>What the policy calls idle and busy\<close>

definition fresh_at :: "rat \<Rightarrow> rat \<Rightarrow> rat \<Rightarrow> bool" where
  "fresh_at max_age now t \<longleftrightarrow> t \<le> now \<and> now - t \<le> max_age"

definition member_idle :: "rat \<Rightarrow> rat \<Rightarrow> bool \<Rightarrow> cluster_member \<Rightarrow> bool" where
  "member_idle max_age now no_workload m \<longleftrightarrow>
     fresh_at max_age now (cm_observed_at m) \<and>
     (cm_state m = CmStopped \<or>
      cm_state m = CmAlive \<and>
        (no_workload \<longrightarrow> cm_evidence_fresh m \<and>
           (\<exists>j k. cm_active_jobs m = Some j \<and> cm_active_tasks m = Some k \<and> j \<le> 0 \<and> k \<le> 0)))"

definition member_busy :: "rat \<Rightarrow> rat \<Rightarrow> cluster_member \<Rightarrow> bool" where
  "member_busy max_age now m \<longleftrightarrow>
     fresh_at max_age now (cm_observed_at m) \<and> cm_state m = CmAlive \<and> cm_evidence_fresh m \<and>
     (\<exists>j k. cm_active_jobs m = Some j \<and> cm_active_tasks m = Some k \<and> (0 < j \<or> 0 < k))"

definition idle_evidence :: "rat \<Rightarrow> rat \<Rightarrow> cluster_snapshot \<Rightarrow> bool" where
  "idle_evidence max_age now s \<longleftrightarrow>
     fresh_at max_age now (cs_captured_at s) \<and>
     (\<forall>m \<in> set (cs_members s). member_idle max_age now (cs_workload s = None) m) \<and>
     (\<forall>w. cs_workload s = Some w \<longrightarrow>
        fresh_at max_age now (we_observed_at w) \<and> we_complete w \<and>
        (\<forall>c \<in> set (we_counts w). \<not> positive_count c))"

definition busy_evidence :: "rat \<Rightarrow> rat \<Rightarrow> cluster_snapshot \<Rightarrow> bool" where
  "busy_evidence max_age now s \<longleftrightarrow>
     fresh_at max_age now (cs_captured_at s) \<and>
     (case cs_workload s of
        None \<Rightarrow> \<exists>m \<in> set (cs_members s). member_busy max_age now m
      | Some w \<Rightarrow> fresh_at max_age now (we_observed_at w) \<and>
                  (\<exists>c \<in> set (we_counts w). positive_count c))"

lemma assess_members_prefix:
  "assess_members max_age now nw ms u = Inr v \<Longrightarrow> \<exists>d. v = u @ d"
  by (induction max_age now nw ms u rule: assess_members.induct)
    (fastforce simp: Let_def split: if_splits option.splits bool.splits)+

lemma assess_members_appended:
  "assess_members max_age now nw ms (u @ [x]) \<noteq> Inr []"
  using assess_members_prefix by fastforce

text \<open>One turn of the loop: an idle member is skipped, a busy one ends it, any other is noted.\<close>

lemma assess_members_Cons:
  "\<exists>x r. assess_members max_age now nw (m # ms) u =
     (if member_idle max_age now nw m then assess_members max_age now nw ms u
      else if nw \<and> member_busy max_age now m then Inl r
      else assess_members max_age now nw ms (u @ [x]))"
proof -
  consider (old) "\<not> fresh_at max_age now (cm_observed_at m)"
    | (stopped) "fresh_at max_age now (cm_observed_at m)" "cm_state m = CmStopped"
    | (away) "fresh_at max_age now (cm_observed_at m)" "cm_state m \<noteq> CmStopped" "cm_state m \<noteq> CmAlive"
    | (alive) "fresh_at max_age now (cm_observed_at m)" "cm_state m = CmAlive"
    by blast
  then show ?thesis
  proof cases
    case old
    then show ?thesis
      by (auto simp: Let_def member_idle_def member_busy_def fresh_at_def not_less not_le)
  next
    case stopped
    then show ?thesis by (auto simp: Let_def member_idle_def fresh_at_def)
  next
    case away
    then show ?thesis
      by (auto simp: Let_def member_idle_def member_busy_def fresh_at_def)
  next
    case alive
    then show ?thesis
      by (auto simp: Let_def member_idle_def member_busy_def fresh_at_def not_less
          split: option.splits bool.splits)
  qed
qed

lemma member_idle_not_busy: "member_idle max_age now True m \<Longrightarrow> \<not> member_busy max_age now m"
  by (auto simp: member_idle_def member_busy_def)

lemma assess_members_idle:
  "assess_members max_age now nw ms u = Inr [] \<longleftrightarrow>
     u = [] \<and> (\<forall>m \<in> set ms. member_idle max_age now nw m)"
proof (induction ms arbitrary: u)
  case (Cons m ms)
  from assess_members_Cons obtain x r where
    "assess_members max_age now nw (m # ms) u =
     (if member_idle max_age now nw m then assess_members max_age now nw ms u
      else if nw \<and> member_busy max_age now m then Inl r
      else assess_members max_age now nw ms (u @ [x]))" by blast
  then show ?case by (simp del: assess_members.simps add: Cons.IH)
qed simp

lemma assess_members_busy:
  "(\<exists>r. assess_members max_age now nw ms u = Inl r) \<longleftrightarrow>
     nw \<and> (\<exists>m \<in> set ms. member_busy max_age now m)"
proof (induction ms arbitrary: u)
  case (Cons m ms)
  from assess_members_Cons obtain x r where
    "assess_members max_age now nw (m # ms) u =
     (if member_idle max_age now nw m then assess_members max_age now nw ms u
      else if nw \<and> member_busy max_age now m then Inl r
      else assess_members max_age now nw ms (u @ [x]))" by blast
  then show ?case
    using member_idle_not_busy by (auto simp del: assess_members.simps simp: Cons.IH)
qed simp

lemma cluster_time_Finite [simp]: "cluster_time (PFloat (Finite r)) = Inr r"
  by (simp add: cluster_time_def)

lemma assessment_simps [simp]:
  "ba_state (assessment st s rs) = st" "ba_epoch (assessment st s rs) = cs_epoch s"
  "ba_reasons (assessment st s rs) = rs"
  by (simp_all add: assessment_def)

lemma assess_idle_iff:
  "\<exists>a. assess max_age s (PFloat (Finite now)) maintenance = Inr a \<and>
     (ba_state a = BsIdle \<longleftrightarrow> \<not> maintenance \<and> idle_evidence max_age now s)"
proof -
  note mem = assess_members_idle [of max_age now _ "cs_members s" "[]", simplified]
  show ?thesis
    unfolding assess_def idle_evidence_def
    using mem [of True] mem [of False]
    by (auto simp: Let_def fresh_at_def list_ex_iff split: option.splits sum.splits)
qed

lemma assess_busy_iff:
  "\<exists>a. assess max_age s (PFloat (Finite now)) maintenance = Inr a \<and>
     (ba_state a = BsBusy \<longleftrightarrow> \<not> maintenance \<and> busy_evidence max_age now s)"
proof -
  note mem = assess_members_busy [of max_age now _ "cs_members s" "[]", simplified]
  show ?thesis
    unfolding assess_def busy_evidence_def
    using mem [of True] mem [of False]
    by (auto simp: Let_def fresh_at_def list_ex_iff split: option.splits sum.splits)
qed

lemma mk_WorkloadEvidence_wf:
  assumes "mk_WorkloadEvidence at0 j k a g cpl rs = Inr w"
  shows "(we_complete w \<longrightarrow> None \<notin> set (we_counts w) \<and> we_reasons w = []) \<and>
    (\<forall>n. Some n \<in> set (we_counts w) \<longrightarrow> 0 \<le> n)"
proof -
  have pos: "optional_count v = Inr (Some n) \<Longrightarrow> 0 \<le> n" for v n
    by (auto simp: optional_count_def cluster_non_negative_int_def result_simps
        split: pyval.splits if_splits)
  from assms show ?thesis
    by (auto simp: mk_WorkloadEvidence_def we_counts_def result_simps dest: pos split: if_splits)
qed

section \<open>The guard as a state machine\<close>

text \<open>
  Any client may call any operation with any lease object at any time; each call is atomic (the
  code holds the guard's or the token's lock).
\<close>

inductive guard_step :: "maintenance \<Rightarrow> maintenance \<Rightarrow> bool" where
  step_acquire: "guard_acquire w rid a e = (r, w') \<Longrightarrow> guard_step w w'"
| step_release: "guard_release w l = (r, w') \<Longrightarrow> guard_step w w'"
| step_claim: "lease_claim w l = (b, w') \<Longrightarrow> guard_step w w'"
| step_release_claim: "guard_step w (lease_release_claim w l)"

inductive guard_reachable :: "maintenance \<Rightarrow> bool" where
  guard_init: "guard_reachable init_maintenance"
| guard_next: "guard_reachable w \<Longrightarrow> guard_step w w' \<Longrightarrow> guard_reachable w'"

text \<open>Active tokens belong to the lease the guard holds, and that lease is active.\<close>

definition guard_inv :: "maintenance \<Rightarrow> bool" where
  "guard_inv w \<longleftrightarrow>
     (\<forall>a t. mw_tokens w a = Some t \<longrightarrow> a < mw_next w \<and>
        (lt_active t \<longrightarrow> map_option ml_token (mw_lease w) = Some a)) \<and>
     (\<forall>l. mw_lease w = Some l \<longrightarrow> lease_active w l)"

lemma lease_active_iff:
  "lease_active w l \<longleftrightarrow> (\<exists>t. mw_tokens w (ml_token l) = Some t \<and> lt_active t)"
  by (auto simp: lease_active_def split: option.splits)

lemma guard_acquire_cases:
  assumes "guard_acquire w rid a e = (r, w')"
  obtains (unchanged) "w' = w" "\<And>l. r = Inr l \<Longrightarrow> mw_lease w = Some l"
  | (issued) s n l w1 where "rid = PStr s" "cluster_non_negative_int e = Inr n"
      "ba_epoch a = n" "mw_lease w = None" "safe_for_maintenance a"
      "issue_lease w s n = (l, w1)" "r = Inr l" "w' = w1\<lparr>mw_lease := Some l\<rparr>"
proof -
  have "(w' = w \<and> (\<forall>l. r = Inr l \<longrightarrow> mw_lease w = Some l)) \<or>
    (\<exists>s n l w1. rid = PStr s \<and> cluster_non_negative_int e = Inr n \<and> ba_epoch a = n \<and>
       mw_lease w = None \<and> safe_for_maintenance a \<and> issue_lease w s n = (l, w1) \<and>
       r = Inr l \<and> w' = w1\<lparr>mw_lease := Some l\<rparr>)"
    using assms unfolding guard_acquire_def
    by (auto split: pyval.splits if_splits sum.splits option.splits prod.splits)
  then show thesis using that by blast
qed

lemma guard_invI:
  assumes "\<And>a t. mw_tokens w a = Some t \<Longrightarrow> a < mw_next w"
    and "\<And>a t. mw_tokens w a = Some t \<Longrightarrow> lt_active t \<Longrightarrow>
      map_option ml_token (mw_lease w) = Some a"
    and "\<And>l. mw_lease w = Some l \<Longrightarrow> lease_active w l"
  shows "guard_inv w"
  using assms unfolding guard_inv_def by simp

lemma guard_inv_bound: "guard_inv w \<Longrightarrow> mw_tokens w a = Some t \<Longrightarrow> a < mw_next w"
  by (simp add: guard_inv_def)

lemma guard_inv_owner:
  "guard_inv w \<Longrightarrow> mw_tokens w a = Some t \<Longrightarrow> lt_active t
     \<Longrightarrow> map_option ml_token (mw_lease w) = Some a"
  by (simp add: guard_inv_def)

lemma guard_inv_held: "guard_inv w \<Longrightarrow> mw_lease w = Some l \<Longrightarrow> lease_active w l"
  by (simp add: guard_inv_def)

lemma guard_inv_init: "guard_inv init_maintenance"
  by (simp add: guard_inv_def init_maintenance_def)

lemma guard_inv_issue:
  assumes "guard_inv w" and "mw_lease w = None" and "issue_lease w s n = (l, w1)"
  shows "guard_inv (w1\<lparr>mw_lease := Some l\<rparr>)"
proof (rule guard_invI)
  fix a t assume "mw_tokens (w1\<lparr>mw_lease := Some l\<rparr>) a = Some t"
  then show "a < mw_next (w1\<lparr>mw_lease := Some l\<rparr>)"
    using assms guard_inv_bound [OF assms(1), of a t]
    by (auto simp: issue_lease_def Let_def split: if_splits)
next
  fix a t assume "mw_tokens (w1\<lparr>mw_lease := Some l\<rparr>) a = Some t" "lt_active t"
  then show "map_option ml_token (mw_lease (w1\<lparr>mw_lease := Some l\<rparr>)) = Some a"
    using assms guard_inv_owner [OF assms(1), of a t]
    by (auto simp: issue_lease_def Let_def split: if_splits)
qed (use assms in \<open>auto simp: issue_lease_def lease_active_iff Let_def\<close>)

lemma guard_inv_release:
  assumes "guard_inv w" and "guard_release w l = (r, w')"
  shows "guard_inv w'"
proof (cases "w' = w")
  case False
  with assms(2) obtain t where "mw_lease w = Some l" "mw_tokens w (ml_token l) = Some t"
    "w' = w\<lparr>mw_tokens := (mw_tokens w)(ml_token l \<mapsto> t\<lparr>lt_active := False\<rparr>), mw_lease := None\<rparr>"
    by (auto simp: guard_release_def split: if_splits option.splits)
  then show ?thesis
    using guard_inv_bound [OF assms(1)] guard_inv_owner [OF assms(1)]
    by (intro guard_invI) (fastforce split: if_splits)+
qed (use assms in simp)

lemma guard_inv_set_in_use:
  assumes "guard_inv w" and "mw_tokens w a = Some t"
  shows "guard_inv (w\<lparr>mw_tokens := (mw_tokens w)(a \<mapsto> t\<lparr>lt_in_use := b\<rparr>)\<rparr>)"
proof (rule guard_invI)
  let ?w = "w\<lparr>mw_tokens := (mw_tokens w)(a \<mapsto> t\<lparr>lt_in_use := b\<rparr>)\<rparr>"
  fix a' t' assume "mw_tokens ?w a' = Some t'"
  then show "a' < mw_next ?w"
    using guard_inv_bound [OF assms(1)] assms(2) by (auto split: if_splits)
next
  let ?w = "w\<lparr>mw_tokens := (mw_tokens w)(a \<mapsto> t\<lparr>lt_in_use := b\<rparr>)\<rparr>"
  fix a' t' assume "mw_tokens ?w a' = Some t'" "lt_active t'"
  then show "map_option ml_token (mw_lease ?w) = Some a'"
    using guard_inv_owner [OF assms(1) assms(2)] guard_inv_owner [OF assms(1), of a' t']
    by (auto split: if_splits)
next
  let ?w = "w\<lparr>mw_tokens := (mw_tokens w)(a \<mapsto> t\<lparr>lt_in_use := b\<rparr>)\<rparr>"
  fix l assume "mw_lease ?w = Some l"
  then have "lease_active w l" using guard_inv_held [OF assms(1)] by simp
  then show "lease_active ?w l" using assms(2) by (auto simp: lease_active_iff)
qed

lemma guard_step_inv: "guard_step w w' \<Longrightarrow> guard_inv w \<Longrightarrow> guard_inv w'"
proof (induction rule: guard_step.induct)
  case (step_acquire w rid a e r w')
  from step_acquire(1) show ?case
    by (rule guard_acquire_cases) (use step_acquire(2) in \<open>auto intro: guard_inv_issue\<close>)
next
  case (step_release w l r w')
  then show ?case by (blast intro: guard_inv_release)
next
  case (step_claim w l b w')
  then show ?case
    by (auto simp: lease_claim_def guard_inv_set_in_use split: option.splits if_splits)
next
  case (step_release_claim w l)
  then show ?case by (auto simp: lease_release_claim_def guard_inv_set_in_use split: option.splits)
qed

lemma guard_reachable_inv: "guard_reachable w \<Longrightarrow> guard_inv w"
  by (induction rule: guard_reachable.induct) (auto intro: guard_inv_init guard_step_inv)

lemma guard_step_in_use:
  assumes "guard_step w w'" and "guard_inv w"
    and "mw_tokens w a = Some t" and "lt_active t" and "lt_in_use t"
  shows "\<exists>t'. mw_tokens w' a = Some t' \<and> lt_active t'"
  using assms
proof (induction rule: guard_step.induct)
  case (step_acquire w rid ba e r w')
  from step_acquire(1) show ?case
  proof (rule guard_acquire_cases)
    fix s n l w1
    assume "issue_lease w s n = (l, w1)" "w' = w1\<lparr>mw_lease := Some l\<rparr>"
    with step_acquire show ?case
      by (fastforce simp: issue_lease_def guard_inv_def Let_def)
  qed (use step_acquire in auto)
next
  case (step_release w l r w')
  then show ?case by (auto simp: guard_release_def split: if_splits option.splits)
next
  case (step_claim w l b w')
  then show ?case by (auto simp: lease_claim_def split: option.splits if_splits)
next
  case (step_release_claim w l)
  then show ?case by (auto simp: lease_release_claim_def split: option.splits)
qed

section \<open>Properties\<close>

text \<open>
  C22: the busy policy is exact. For every snapshot, time and maintenance flag, \<open>assess\<close> returns;
  it returns IDLE exactly when maintenance is off and the evidence is fresh, complete and free of
  work for every member, BUSY exactly when fresh evidence of active work exists, and MAINTENANCE
  exactly when the flag is set. Every other snapshot is UNKNOWN.
\<close>

theorem busy_policy_exact:
  "\<exists>a. assess max_age s (PFloat (Finite now)) maintenance = Inr a \<and> ba_epoch a = cs_epoch s \<and>
     (ba_state a = BsMaintenance \<longleftrightarrow> maintenance) \<and>
     (ba_state a = BsIdle \<longleftrightarrow> \<not> maintenance \<and> idle_evidence max_age now s) \<and>
     (ba_state a = BsBusy \<longleftrightarrow> \<not> maintenance \<and> busy_evidence max_age now s)"
proof -
  from assess_idle_iff obtain a where a: "assess max_age s (PFloat (Finite now)) maintenance = Inr a"
      "ba_state a = BsIdle \<longleftrightarrow> \<not> maintenance \<and> idle_evidence max_age now s" by blast
  moreover have "ba_state a = BsBusy \<longleftrightarrow> \<not> maintenance \<and> busy_evidence max_age now s"
    using assess_busy_iff [of max_age s now maintenance] a(1) by auto
  moreover have "ba_epoch a = cs_epoch s \<and> (ba_state a = BsMaintenance \<longleftrightarrow> maintenance)"
    using a(1)
    by (auto simp: assess_def Let_def split: if_splits option.splits sum.splits)
  ultimately show ?thesis by blast
qed

text \<open>
  No work hides behind an IDLE verdict. When the snapshot carries cluster-wide evidence built
  by \<open>ClusterWorkloadEvidence\<close> and the policy says IDLE, all four active counts are zero and no
  query left a reason for doubt.
\<close>

theorem idle_means_no_active_work:
  assumes "mk_WorkloadEvidence at0 j k a g cpl rs = Inr w"
    and "cs_workload s = Some w"
    and "assess max_age s (PFloat (Finite now)) False = Inr b" and "ba_state b = BsIdle"
  shows "we_counts w = [Some 0, Some 0, Some 0, Some 0] \<and> we_reasons w = [] \<and>
    fresh_at max_age now (we_observed_at w)"
proof -
  have ev: "idle_evidence max_age now s"
    using assess_idle_iff [of max_age s now False] assms(3,4) by auto
  note wf = mk_WorkloadEvidence_wf [OF assms(1)]
  have "c = Some 0" if "c \<in> set (we_counts w)" for c
    using ev wf assms(2) that by (cases c) (force simp: idle_evidence_def positive_count_def)+
  then have "we_counts w = [Some 0, Some 0, Some 0, Some 0]"
    by (simp add: we_counts_def)
  with ev wf assms(2) show ?thesis by (auto simp: idle_evidence_def)
qed

lemma acquire_held:
  assumes "mw_lease w = Some l"
  shows "guard_acquire w (PStr rid) a e =
    (if rid = [] \<or> list_ex (\<lambda>c. ord c < 33) rid \<or> (\<forall>n \<ge> 0. e \<noteq> PInt n) then Inl ValueError
     else if rid = ml_request_id l \<and> e = PInt (ba_epoch a) then Inr l
     else Inl RcmConflict, w)"
proof (cases "\<exists>n \<ge> 0. e = PInt n")
  case True
  with assms show ?thesis by (auto simp: guard_acquire_def cluster_non_negative_int_def)
next
  case False
  with assms show ?thesis
    by (auto simp: guard_acquire_def cluster_non_negative_int_def split: pyval.splits)
qed

text \<open>
  C20: maintenance is exclusive. In every state reachable by any interleaving of acquire, release,
  claim and release-claim calls with any arguments, while a lease is active, every active lease shares
  the token of the one lease the guard holds, and a second \<open>acquire\<close>, whoever calls it, changes nothing: it
  returns the held lease to the request that holds it and to no other; any other valid request gets
  \<open>ConflictError\<close>, an invalid one \<open>ValueError\<close>.
\<close>

theorem maintenance_exclusive:
  assumes "guard_reachable w" and "lease_active w l1"
  shows "\<exists>l. mw_lease w = Some l \<and> ml_token l = ml_token l1 \<and> (\<forall>l2. lease_active w l2 \<longrightarrow> ml_token l2 = ml_token l) \<and>
    (\<forall>rid a e. guard_acquire w (PStr rid) a e =
       (if rid = [] \<or> list_ex (\<lambda>c. ord c < 33) rid \<or> (\<forall>n \<ge> 0. e \<noteq> PInt n) then Inl ValueError
        else if rid = ml_request_id l \<and> e = PInt (ba_epoch a) then Inr l
        else Inl RcmConflict, w))"
proof -
  note owner = guard_inv_owner [OF guard_reachable_inv [OF assms(1)]]
  have tok: "map_option ml_token (mw_lease w) = Some (ml_token l2)" if "lease_active w l2" for l2
    using that unfolding lease_active_iff by (blast dest: owner)
  then obtain l where l: "mw_lease w = Some l" "ml_token l = ml_token l1" using assms(2) by force
  then show ?thesis using tok acquire_held [OF l(1)] by auto
qed

text \<open>
  A lease in use cannot be taken away. No guard operation deactivates a token while it is
  claimed by a running operation.
\<close>

theorem lease_in_use_stays_active:
  assumes "guard_reachable w" and "guard_step w w'"
    and "mw_tokens w a = Some t" and "lt_active t" and "lt_in_use t"
  shows "\<exists>t'. mw_tokens w' a = Some t' \<and> lt_active t'"
  using guard_step_in_use [OF assms(2) guard_reachable_inv [OF assms(1)] assms(3-5)] .


text \<open>
  An IDLE diagnosis is never invented. It comes from a snapshot of the requested epoch that the
  observer returned for the enabled nodes, whose evidence is idle at the assessment time, for a
  configuration of 1 to 32 enabled nodes with exactly one enabled head, the expected one.
\<close>

theorem diagnosis_idle_is_evidence:
  assumes "diagnose observe max_age clock nodes expected ep now = Inr d"
    and "ba_state (cd_assessment d) = BsIdle"
  shows "\<exists>s e t h. ep = PInt e \<and> cd_snapshot d = Some s \<and> cs_epoch s = e \<and>
    ba_epoch (cd_assessment d) = e \<and>
    observe (filter node_enabled nodes) (node_id h) e = ObsSnapshot s \<and>
    idle_evidence max_age t s \<and>
    expected = PStr (node_id h) \<and>
    filter (\<lambda>n. node_role n = RoleHead) (filter node_enabled nodes) = [h] \<and>
    length (filter node_enabled nodes) \<in> {1..max_observed_nodes}"
proof -
  let ?en = "filter node_enabled nodes"
  have idle: "idle_evidence max_age t s"
    if "assess max_age s (PFloat (Finite t)) False = Inr a" "ba_state a = BsIdle" for t s a
    using assess_idle_iff [of max_age s t False] that by auto
  have epo: "ba_epoch a = cs_epoch s"
    if "assess max_age s (PFloat (Finite t)) False = Inr a" for t s a
    using that by (auto simp: assess_def Let_def split: if_splits option.splits sum.splits)
  from assms obtain e s t where e: "ep = PInt e"
    and en: "?en \<noteq> []" "length ?en \<le> max_observed_nodes"
    and topo: "\<not> ambiguous_topology ?en expected"
    and obs: "observe ?en (str_of expected) e = ObsSnapshot s" "cs_epoch s = e"
    and as: "assess max_age s (PFloat (Finite t)) False = Inr (cd_assessment d)"
    and sn: "cd_snapshot d = Some s"
    by (auto simp: diagnose_def diagnosis_unknown_def Let_def result_simps
        cluster_non_negative_int_def split: if_splits observed.splits pyval.splits)
  from topo obtain h where "expected = PStr (node_id h)"
      "filter (\<lambda>n. node_role n = RoleHead) ?en = [h]"
    by (auto simp: ambiguous_topology_def Let_def split: pyval.splits list.splits)
  with e en obs sn idle [OF as assms(2)] epo [OF as] show ?thesis
    by (intro exI [of _ s] exI [of _ e] exI [of _ t] exI [of _ h])
      (auto simp: str_of_def Suc_le_eq)
qed

section \<open>Witnesses\<close>

definition example_head :: node where
  "example_head = \<lparr>node_id = ''h'', node_address = ''10.0.0.1'', node_role = RoleHead,
     node_enabled = True, node_capabilities = []\<rparr>"

definition example_workload :: workload_evidence where
  "example_workload = \<lparr>we_observed_at = 10, we_active_jobs = Some 0, we_active_tasks = Some 0,
     we_active_actors = Some 0, we_active_placement_groups = Some 0, we_complete = True,
     we_reasons = []\<rparr>"

definition example_cluster :: cluster_snapshot where
  "example_cluster = \<lparr>cs_epoch = 3, cs_expected_head_id = ''h'',
     cs_members = [\<lparr>cm_node = example_head, cm_state = CmAlive, cm_observed_at = 10,
       cm_active_jobs = None, cm_active_tasks = None, cm_evidence_fresh = False\<rparr>],
     cs_captured_at = 10, cs_workload = Some example_workload\<rparr>"

definition example_idle :: busy_assessment where
  "example_idle = \<lparr>ba_state = BsIdle, ba_epoch = 3, ba_reasons = []\<rparr>"

lemma example_mk_workload:
  "mk_WorkloadEvidence (PInt 10) (PInt 0) (PInt 0) (PInt 0) (PInt 0) True [] =
     Inr example_workload"
  by code_simp

lemma example_assess:
  "assess 5 example_cluster (PFloat (Finite 12)) False = Inr example_idle"
  by (simp add: assess_def example_cluster_def example_workload_def example_idle_def we_counts_def
      positive_count_def assessment_def)

theorem idle_means_no_active_work_witness:
  "we_counts example_workload = [Some 0, Some 0, Some 0, Some 0] \<and>
   we_reasons example_workload = [] \<and> fresh_at 5 12 (we_observed_at example_workload)"
  by (rule idle_means_no_active_work [OF example_mk_workload _ example_assess])
    (simp_all add: example_cluster_def example_idle_def)

definition example_lease :: maintenance_lease where
  "example_lease = \<lparr>ml_ref = 0, ml_request_id = ''op'', ml_epoch = 3, ml_token = 0\<rparr>"

definition example_held :: maintenance where
  "example_held = \<lparr>mw_lease = Some example_lease,
     mw_tokens = [0 \<mapsto> \<lparr>lt_active = True, lt_in_use = False\<rparr>], mw_next = 1\<rparr>"

definition example_claimed :: maintenance where
  "example_claimed = example_held\<lparr>mw_tokens := [0 \<mapsto> \<lparr>lt_active = True, lt_in_use = True\<rparr>]\<rparr>"

lemma example_acquire:
  "guard_acquire init_maintenance (PStr ''op'') example_idle (PInt 3) =
     (Inr example_lease, example_held)"
  by (simp add: guard_acquire_def init_maintenance_def example_idle_def example_lease_def
      example_held_def issue_lease_def Let_def cluster_non_negative_int_def safe_for_maintenance_def
      ord_def)

lemma example_claim: "lease_claim example_held example_lease = (True, example_claimed)"
  by (simp add: lease_claim_def example_held_def example_lease_def example_claimed_def)

lemma example_held_reachable: "guard_reachable example_held"
  using guard_next [OF guard_init step_acquire [OF example_acquire]] .

lemma example_claimed_reachable: "guard_reachable example_claimed"
  using guard_next [OF example_held_reachable step_claim [OF example_claim]] .

lemma example_held_active: "lease_active example_held example_lease"
  by (simp add: lease_active_def example_held_def example_lease_def)

theorem maintenance_exclusive_witness:
  "(\<exists>l. mw_lease example_held = Some l \<and> ml_token l = ml_token example_lease) \<and>
   fst (guard_acquire example_held (PStr ''intruder'') example_idle (PInt 3)) = Inl RcmConflict"
proof
  from maintenance_exclusive [OF example_held_reachable example_held_active] show
    "\<exists>l. mw_lease example_held = Some l \<and> ml_token l = ml_token example_lease" by blast
qed code_simp

theorem lease_in_use_stays_active_witness:
  "\<exists>t'. mw_tokens (snd (guard_release example_claimed example_lease)) 0 = Some t' \<and> lt_active t'"
  by (rule lease_in_use_stays_active
      [where a = 0 and t = "\<lparr>lt_active = True, lt_in_use = True\<rparr>",
        OF example_claimed_reachable
          step_release [of _ example_lease "fst (guard_release example_claimed example_lease)"]])
    (simp_all add: example_claimed_def)


theorem diagnosis_idle_is_evidence_witness:
  "\<exists>s e t h. PInt 3 = PInt e \<and> Some example_cluster = Some s \<and> cs_epoch s = e \<and>
    ba_epoch example_idle = e \<and> idle_evidence 5 t s \<and> PStr ''h'' = PStr (node_id h) \<and>
    [example_head] = [h]"
proof -
  have d: "diagnose (\<lambda>_ _ _. ObsSnapshot example_cluster) 5 PNone [example_head] (PStr ''h'')
      (PInt 3) (Some (PFloat (Finite 12))) =
    Inr \<lparr>cd_assessment = example_idle, cd_snapshot = Some example_cluster\<rparr>"
    using example_assess
    by (simp add: diagnose_def cluster_non_negative_int_def example_head_def ambiguous_topology_def
        max_observed_nodes_def example_cluster_def)
  from diagnosis_idle_is_evidence [OF d] show ?thesis
    by (auto simp: example_idle_def example_head_def)
qed

end
