(* ===== verification/Effects.thy ===== *)
theory Effects
  imports Prelude
begin

text \<open>
  Stateful code that raises: a computation takes the state of the world and yields an exception or
  a value, and the new state. \<open>triple P m Q E\<close> is its correctness statement, with one
  postcondition for a normal return and one for an exception; the rules in \<open>triple_intros\<close> follow
  the structure of the code. \<open>preceded P l\<close> states of a trace \<open>l\<close> that every event satisfies \<open>P\<close>
  with respect to the events before it.
\<close>

section \<open>Computations\<close>

type_synonym ('s, 'e, 'a) eff = "'s \<Rightarrow> ('e + 'a) \<times> 's"

definition ret :: "'a \<Rightarrow> ('s, 'e, 'a) eff" where
  "ret x s = (Inr x, s)"

definition throw :: "'e \<Rightarrow> ('s, 'e, 'a) eff" where
  "throw e s = (Inl e, s)"

definition andthen :: "('s, 'e, 'a) eff \<Rightarrow> ('a \<Rightarrow> ('s, 'e, 'b) eff) \<Rightarrow> ('s, 'e, 'b) eff" where
  "andthen m k s = (case m s of (Inl e, s') \<Rightarrow> (Inl e, s') | (Inr x, s') \<Rightarrow> k x s')"

text \<open>\<open>try: m except e: h e\<close>, where \<open>h\<close> decides what it does with the exception.\<close>

definition on_raise :: "('s, 'e, 'a) eff \<Rightarrow> ('e \<Rightarrow> ('s, 'f, 'a) eff) \<Rightarrow> ('s, 'f, 'a) eff" where
  "on_raise m h s = (case m s of (Inl e, s') \<Rightarrow> h e s' | (Inr x, s') \<Rightarrow> (Inr x, s'))"

text \<open>\<open>try: m finally: f\<close>: an exception of \<open>f\<close> replaces the outcome of \<open>m\<close>.\<close>

definition finally_do :: "('s, 'e, 'a) eff \<Rightarrow> ('s, 'e, unit) eff \<Rightarrow> ('s, 'e, 'a) eff" where
  "finally_do m f s =
     (case m s of (r, s') \<Rightarrow> (case f s' of (Inl e, s'') \<Rightarrow> (Inl e, s'') | (Inr _, s'') \<Rightarrow> (r, s'')))"

text \<open>A step without effects, which may raise.\<close>

definition of_result :: "'a result \<Rightarrow> ('w, pyexn, 'a) eff" where
  "of_result r = (case r of Inl e \<Rightarrow> throw e | Inr x \<Rightarrow> ret x)"

text \<open>A \<open>for\<close> loop over a list with one accumulator.\<close>

fun for_each :: "('a \<Rightarrow> 'b \<Rightarrow> ('s, 'e, 'b) eff) \<Rightarrow> 'a list \<Rightarrow> 'b \<Rightarrow> ('s, 'e, 'b) eff" where
  "for_each f [] b = ret b"
| "for_each f (x # xs) b = andthen (f x b) (for_each f xs)"

lemma andthen_cong [fundef_cong]:
  assumes "s = s'" and "m s' = m' s'" and "\<And>x t. m' s' = (Inr x, t) \<Longrightarrow> k x t = k' x t"
  shows "andthen m k s = andthen m' k' s'"
  using assms by (auto simp: andthen_def split: prod.splits sum.splits)

section \<open>Correctness statements\<close>

definition triple ::
    "('s \<Rightarrow> bool) \<Rightarrow> ('s, 'e, 'a) eff \<Rightarrow> ('a \<Rightarrow> 's \<Rightarrow> bool) \<Rightarrow> ('e \<Rightarrow> 's \<Rightarrow> bool) \<Rightarrow> bool" where
  "triple P m Q E \<longleftrightarrow>
     (\<forall>s. P s \<longrightarrow> (case m s of (Inl e, s') \<Rightarrow> E e s' | (Inr x, s') \<Rightarrow> Q x s'))"

named_theorems triple_intros

lemma tripleI:
  assumes "\<And>s x s'. P s \<Longrightarrow> m s = (Inr x, s') \<Longrightarrow> Q x s'"
    and "\<And>s e s'. P s \<Longrightarrow> m s = (Inl e, s') \<Longrightarrow> E e s'"
  shows "triple P m Q E"
  using assms by (auto simp: triple_def split: prod.splits sum.splits)

lemma triple_Inr: "triple P m Q E \<Longrightarrow> P s \<Longrightarrow> m s = (Inr x, s') \<Longrightarrow> Q x s'"
  by (auto simp: triple_def split: prod.splits sum.splits)

lemma triple_Inl: "triple P m Q E \<Longrightarrow> P s \<Longrightarrow> m s = (Inl e, s') \<Longrightarrow> E e s'"
  by (auto simp: triple_def split: prod.splits sum.splits)

lemma triple_pre: "triple P' m Q E \<Longrightarrow> (\<And>s. P s \<Longrightarrow> P' s) \<Longrightarrow> triple P m Q E"
  by (simp add: triple_def)

lemma triple_conseq:
  assumes "triple P' m Q' E'" and "\<And>s. P s \<Longrightarrow> P' s" and "\<And>x s. Q' x s \<Longrightarrow> Q x s"
    and "\<And>e s. E' e s \<Longrightarrow> E e s"
  shows "triple P m Q E"
  using assms by (fastforce simp: triple_def split: prod.splits sum.splits)

lemma triple_ret [triple_intros]: "(\<And>s. P s \<Longrightarrow> Q x s) \<Longrightarrow> triple P (ret x) Q E"
  by (simp add: triple_def ret_def)

lemma triple_throw [triple_intros]: "(\<And>s. P s \<Longrightarrow> E e s) \<Longrightarrow> triple P (throw e) Q E"
  by (simp add: triple_def throw_def)

lemma triple_andthen [triple_intros]:
  "triple P m R E \<Longrightarrow> (\<And>x. triple (R x) (k x) Q E) \<Longrightarrow> triple P (andthen m k) Q E"
  by (fastforce simp: triple_def andthen_def split: prod.splits sum.splits)

lemma triple_on_raise:
  "triple P m Q F \<Longrightarrow> (\<And>e. triple (F e) (h e) Q E) \<Longrightarrow> triple P (on_raise m h) Q E"
  by (fastforce simp: triple_def on_raise_def split: prod.splits sum.splits)

lemma triple_if [triple_intros]:
  "(b \<Longrightarrow> triple P m Q E) \<Longrightarrow> (\<not> b \<Longrightarrow> triple P n Q E) \<Longrightarrow> triple P (if b then m else n) Q E"
  by simp

text \<open>The invariant of a loop sees which elements are done and which are left.\<close>

lemma triple_for_each_split:
  assumes "\<And>ys x zs b. xs = ys @ x # zs \<Longrightarrow>
    triple (I ys b) (f x b) (I (ys @ [x])) E"
  shows "triple (I [] b0) (for_each f xs b0) (I xs) E"
proof -
  have "\<And>b. ys @ zs = xs \<Longrightarrow> triple (I ys b) (for_each f zs b) (I xs) E" for ys zs
  proof (induction zs arbitrary: ys)
    case Nil
    then show ?case by (auto intro!: triple_intros)
  next
    case (Cons z zs)
    then show ?case
      using assms [of ys z zs] Cons.IH [of "ys @ [z]"]
      by (auto intro!: triple_andthen)
  qed
  then show ?thesis by simp
qed

lemma triple_for_each:
  assumes "\<And>x b. x \<in> set xs \<Longrightarrow> triple (I b) (f x b) I E"
  shows "triple (I b0) (for_each f xs b0) I E"
  using triple_for_each_split [of xs "\<lambda>_. I" f E b0] assms by auto

section \<open>Preservation\<close>

definition keeps :: "('s \<Rightarrow> bool) \<Rightarrow> ('s, 'e, 'a) eff \<Rightarrow> bool" where
  "keeps J m \<longleftrightarrow> triple J m (\<lambda>_. J) (\<lambda>_. J)"

named_theorems keep_intros

lemma keepsI: "(\<And>s r s'. J s \<Longrightarrow> m s = (r, s') \<Longrightarrow> J s') \<Longrightarrow> keeps J m"
  by (auto simp: keeps_def intro: tripleI)

lemma keepsD: "keeps J m \<Longrightarrow> J s \<Longrightarrow> m s = (r, s') \<Longrightarrow> J s'"
  by (cases r) (auto simp: keeps_def dest: triple_Inr triple_Inl)

lemma keep_andthen [keep_intros]:
  "keeps J m \<Longrightarrow> (\<And>x. keeps J (k x)) \<Longrightarrow> keeps J (andthen m k)"
  unfolding keeps_def by (rule triple_andthen)

lemma keep_ret [keep_intros]: "keeps J (ret x)"
  by (simp add: keeps_def triple_ret)

lemma keep_throw [keep_intros]: "keeps J (throw e)"
  by (simp add: keeps_def triple_throw)

lemma keep_if [keep_intros]:
  "(b \<Longrightarrow> keeps J m) \<Longrightarrow> (\<not> b \<Longrightarrow> keeps J n) \<Longrightarrow> keeps J (if b then m else n)"
  by simp

lemma keep_on_raise [keep_intros]:
  "keeps J m \<Longrightarrow> (\<And>e. keeps J (h e)) \<Longrightarrow> keeps J (on_raise m h)"
  unfolding keeps_def by (rule triple_on_raise)

lemma keep_for_each [keep_intros]: "(\<And>x b. keeps J (f x b)) \<Longrightarrow> keeps J (for_each f xs b)"
  unfolding keeps_def by (rule triple_for_each) simp

lemma keep_option [keep_intros]:
  "keeps J m \<Longrightarrow> (\<And>x. keeps J (k x)) \<Longrightarrow> keeps J (case z of None \<Rightarrow> m | Some x \<Rightarrow> k x)"
  by (cases z) simp_all

lemma keep_sum [keep_intros]: "(\<And>x. keeps J (m x)) \<Longrightarrow> (\<And>x. keeps J (k x)) \<Longrightarrow>
   keeps J (case z of Inl x \<Rightarrow> m x | Inr x \<Rightarrow> k x)"
  by (cases z) simp_all

lemma keep_pair [keep_intros]: "(\<And>x y. keeps J (m x y)) \<Longrightarrow> keeps J (case z of (x, y) \<Rightarrow> m x y)"
  by (cases z) simp

section \<open>Traces\<close>

definition preceded :: "('a list \<Rightarrow> 'a \<Rightarrow> bool) \<Rightarrow> 'a list \<Rightarrow> bool" where
  "preceded P l \<longleftrightarrow> (\<forall>pre e post. l = pre @ e # post \<longrightarrow> P pre e)"

lemma preceded_Nil [simp]: "preceded P []"
  by (simp add: preceded_def)

lemma preceded_snoc [simp]: "preceded P (l @ [e]) \<longleftrightarrow> preceded P l \<and> P l e"
proof
  assume a: "preceded P (l @ [e])"
  have "P pre x" if "l = pre @ x # post" for pre x post
    using a that by (auto simp: preceded_def)
  with a show "preceded P l \<and> P l e" by (auto simp: preceded_def)
next
  assume a: "preceded P l \<and> P l e"
  show "preceded P (l @ [e])"
    unfolding preceded_def
  proof (intro allI impI)
    fix pre x post
    assume eq: "l @ [e] = pre @ x # post"
    show "P pre x"
    proof (cases post rule: rev_cases)
      case Nil
      with eq a show ?thesis by simp
    next
      case (snoc ys y)
      with eq have "l = pre @ x # ys" by simp
      with a show ?thesis by (auto simp: preceded_def)
    qed
  qed
qed

lemma preceded_Cons: "preceded P (x # xs) \<longleftrightarrow> P [] x \<and> preceded (\<lambda>h. P (x # h)) xs"
  unfolding preceded_def by (force simp: Cons_eq_append_conv)

lemma preceded_append: "preceded P (xs @ ys) \<longleftrightarrow> preceded P xs \<and> preceded (\<lambda>h. P (xs @ h)) ys"
  by (induction xs arbitrary: P) (auto simp: preceded_Cons)

lemma preceded_mono: "preceded P l \<Longrightarrow> (\<And>h e. P h e \<Longrightarrow> Q h e) \<Longrightarrow> preceded Q l"
  by (auto simp: preceded_def)

lemma precededD: "preceded P (pre @ e # post) \<Longrightarrow> P pre e"
  by (simp add: preceded_def)

section \<open>Pure facts in assertions\<close>

lemma triple_pure: "(F \<Longrightarrow> triple P m Q E) \<Longrightarrow> triple (\<lambda>s. P s \<and> F) m Q E"
  by (auto simp: triple_def)

lemma triple_pureD: "triple (\<lambda>s. P s \<and> F) m Q E \<Longrightarrow> F \<Longrightarrow> triple P m Q E"
  by (simp add: triple_def)

text \<open>The next computation runs under the facts the last one established.\<close>

lemma phase_then:
  "triple P m (\<lambda>x \<sigma>. I \<sigma> \<and> F x) E \<Longrightarrow> (\<And>x. F x \<Longrightarrow> triple I (k x) Q E) \<Longrightarrow>
   triple P (andthen m k) Q E"
  by (rule triple_andthen) (auto intro: triple_pure)

section \<open>States with a trace\<close>

definition on_trace :: "('l \<Rightarrow> bool) \<Rightarrow> 's \<times> 'l \<Rightarrow> bool" where
  "on_trace J \<sigma> = J (snd \<sigma>)"

lemma on_trace_simp [simp]: "on_trace J (s, l) = J l"
  by (simp add: on_trace_def)

definition appended :: "('l list \<Rightarrow> bool) \<Rightarrow> 'l \<Rightarrow> 'l list \<Rightarrow> bool" where
  "appended J e l \<longleftrightarrow> (\<exists>l0. J l0 \<and> l = l0 @ [e])"

end
