(* ===== verification/Json.thy ===== *)
theory Json
  imports Prelude
begin

text \<open>
  What the code uses of Python's \<open>json\<close> module (CPython 3.12): \<open>json.dumps\<close> with
  \<open>sort_keys=True\<close> and \<open>separators=(",", ":")\<close>, and \<open>json.loads\<close>. An object is the association list
  of the Python dict, in insertion order. A float is given by text that denotes it: the numeral
  that was read, or the \<open>repr\<close> to be written.

  The scanner is given the hooks of \<open>loads\<close> and the nesting depth at which the interpreter raises
  \<open>RecursionError\<close>. Code points above 255 are outside the model's strings; text that holds one
  gives \<open>JsonBeyond\<close>, about which nothing is claimed.
\<close>

datatype json =
    JNull | JBool bool | JInt int | JFloat string | JStr string | JArr "json list" | JObj "(string \<times> json) list"

section \<open>Writing\<close>

definition hex_digit :: "nat \<Rightarrow> char" where
  "hex_digit n = (if n < 10 then char_of (48 + n) else char_of (87 + n))"

definition short_escape :: "char \<Rightarrow> char option" where
  "short_escape c =
     (if c = CHR 0x22 then Some (CHR 0x22)
      else if c = CHR 0x5C then Some (CHR 0x5C)
      else if c = CHR 0x0A then Some (CHR ''n'')
      else if c = CHR 0x0D then Some (CHR ''r'')
      else if c = CHR 0x09 then Some (CHR ''t'')
      else if c = CHR 0x0C then Some (CHR ''f'')
      else if c = CHR 0x08 then Some (CHR ''b'')
      else None)"

text \<open>Short escapes, and four hex digits for what \<open>plain\<close> does not let through.\<close>

definition escape_with :: "(nat \<Rightarrow> bool) \<Rightarrow> char \<Rightarrow> string" where
  "escape_with plain c =
     (case short_escape c of
        Some e \<Rightarrow> [CHR 0x5C, e]
      | None \<Rightarrow>
          if plain (ord c) then [c]
          else [CHR 0x5C, CHR ''u'', CHR ''0'', CHR ''0'',
                hex_digit (ord c div 16), hex_digit (ord c mod 16)])"

definition dump_string :: "(nat \<Rightarrow> bool) \<Rightarrow> string \<Rightarrow> string" where
  "dump_string plain s = [CHR 0x22] @ concat (map (escape_with plain) s) @ [CHR 0x22]"

fun dumps_with :: "(nat \<Rightarrow> bool) \<Rightarrow> json \<Rightarrow> string" where
  "dumps_with plain JNull = ''null''"
| "dumps_with plain (JBool b) = (if b then ''true'' else ''false'')"
| "dumps_with plain (JInt n) = str_int n"
| "dumps_with plain (JFloat r) = r"
| "dumps_with plain (JStr s) = dump_string plain s"
| "dumps_with plain (JArr xs) = ''['' @ join '','' (map (dumps_with plain) xs) @ '']''"
| "dumps_with plain (JObj kvs) =
     ''{'' @ join '','' (map (\<lambda>(k, t). dump_string plain k @ '':'' @ t)
        (sort_key fst (map (map_prod id (dumps_with plain)) kvs))) @ ''}''"

text \<open>\<open>ensure_ascii=True\<close> escapes everything outside the printable ASCII characters,
  \<open>ensure_ascii=False\<close> only the control characters.\<close>

definition json_dumps :: "json \<Rightarrow> string" where
  "json_dumps = dumps_with (\<lambda>n. 32 \<le> n \<and> n \<le> 126)"

definition json_dumps_text :: "json \<Rightarrow> string" where
  "json_dumps_text = dumps_with (\<lambda>n. 32 \<le> n)"

section \<open>Reading\<close>

datatype json_error =
  JsonSyntax | JsonConstant | JsonDuplicate string | JsonDigits | JsonDepth | JsonBeyond

type_synonym 'a scan = "json_error + ('a \<times> string)"

text \<open>\<open>[ \t\n\r]*\<close>\<close>

definition skip_ws :: "string \<Rightarrow> string" where
  "skip_ws s = dropWhile (\<lambda>c. c = CHR '' '' \<or> c = CHR 0x09 \<or> c = CHR 0x0A \<or> c = CHR 0x0D) s"

definition expect :: "char \<Rightarrow> string \<Rightarrow> json_error + string" where
  "expect c s = (case s of [] \<Rightarrow> Inl JsonSyntax | d # r \<Rightarrow> if d = c then Inr r else Inl JsonSyntax)"

definition unescape :: "char \<Rightarrow> char option" where
  "unescape c =
     (if c \<in> {CHR 0x22, CHR 0x5C, CHR ''/''} then Some c
      else if c = CHR ''b'' then Some (CHR 0x08)
      else if c = CHR ''f'' then Some (CHR 0x0C)
      else if c = CHR ''n'' then Some (CHR 0x0A)
      else if c = CHR ''r'' then Some (CHR 0x0D)
      else if c = CHR ''t'' then Some (CHR 0x09)
      else None)"

definition unicode_escape :: "string \<Rightarrow> (json_error + char) \<times> string" where
  "unicode_escape s =
     (let ds = take 4 s in
      (if length ds = 4 \<and> list_all is_hex ds
       then (let n = hex_value ds in if n < 256 then Inr (char_of n) else Inl JsonBeyond)
       else Inl JsonSyntax, drop 4 s))"

text \<open>\<open>scanstring\<close> with \<open>strict=True\<close>, after the opening quote.\<close>

function scan_string :: "string \<Rightarrow> string scan" where
  "scan_string s =
     (case s of
        [] \<Rightarrow> Inl JsonSyntax
      | c # cs \<Rightarrow>
          if c = CHR 0x22 then Inr ([], cs)
          else if c = CHR 0x5C then
            (case cs of
               [] \<Rightarrow> Inl JsonSyntax
             | e # es \<Rightarrow>
                 if e = CHR ''u'' then
                   (case unicode_escape es of (x, r) \<Rightarrow>
                    bindE x (\<lambda>x. bindE (scan_string r) (\<lambda>(t, r). Inr (x # t, r))))
                 else (case unescape e of
                     None \<Rightarrow> Inl JsonSyntax
                   | Some x \<Rightarrow> bindE (scan_string es) (\<lambda>(t, r). Inr (x # t, r))))
          else if ord c < 32 then Inl JsonSyntax
          else bindE (scan_string cs) (\<lambda>(t, r). Inr (c # t, r)))"
  by pat_completeness auto
termination
  by (relation "measure length") (auto simp: unicode_escape_def Let_def)

declare scan_string.simps [simp del]

text \<open>\<open>_match_number\<close>: an optional sign, an integer without leading zeros, fraction, exponent.\<close>

definition integer_part :: "string \<Rightarrow> (string \<times> string) option" where
  "integer_part s =
     (if takeWhile is_digit s = [] then None
      else if hd s = CHR ''0'' then Some (''0'', drop 1 s)
      else Some (takeWhile is_digit s, dropWhile is_digit s))"

definition fraction_part :: "string \<Rightarrow> string \<times> string" where
  "fraction_part s =
     (if take 1 s = ''.'' \<and> takeWhile is_digit (drop 1 s) \<noteq> []
      then (CHR ''.'' # takeWhile is_digit (drop 1 s), dropWhile is_digit (drop 1 s)) else ([], s))"

definition exponent_part :: "string \<Rightarrow> string \<times> string" where
  "exponent_part s =
     (if take 1 s = ''e'' \<or> take 1 s = ''E'' then
        (let sign = (if take 1 (drop 1 s) = ''+'' \<or> take 1 (drop 1 s) = ''-'' then take 1 (drop 1 s) else []);
             ds = drop (length sign) (drop 1 s) in
         if takeWhile is_digit ds \<noteq> []
         then (take 1 s @ sign @ takeWhile is_digit ds, dropWhile is_digit ds) else ([], s))
      else ([], s))"

text \<open>\<open>int(text)\<close> refuses more than 4300 digits.\<close>

definition scan_number :: "string \<Rightarrow> json scan" where
  "scan_number s =
     (let sign = (if take 1 s = ''-'' then ''-'' else []) in
      case integer_part (drop (length sign) s) of
        None \<Rightarrow> Inl JsonSyntax
      | Some (ds, r) \<Rightarrow>
          (case fraction_part r of (fr, r2) \<Rightarrow>
           case exponent_part r2 of (ex, r3) \<Rightarrow>
             if fr = [] \<and> ex = []
             then (if 4300 < length ds then Inl JsonDigits
                   else Inr (JInt ((if sign = [] then 1 else -1) * int (decimal_value ds)), r3))
             else Inr (JFloat (sign @ ds @ fr @ ex), r3)))"

definition scan_literal :: "(string \<times> json) list \<Rightarrow> string \<Rightarrow> (json \<times> string) option" where
  "scan_literal table s =
     (case List.find (\<lambda>(w, _). starts_with w s) table of
        None \<Rightarrow> None | Some (w, v) \<Rightarrow> Some (v, drop (length w) s))"

definition json_literals :: "(string \<times> json) list" where
  "json_literals = [(''null'', JNull), (''true'', JBool True), (''false'', JBool False)]"

definition json_constants :: "string list" where
  "json_constants = [''NaN'', ''Infinity'', ''-Infinity'']"

record json_hooks =
  jh_object :: "(string \<times> json) list \<Rightarrow> json_error + json"
  jh_constant :: "string \<Rightarrow> json_error + json"
  jh_depth :: nat

definition scan_scalar :: "json_hooks \<Rightarrow> string \<Rightarrow> json scan" where
  "scan_scalar h s =
     (case scan_literal json_literals s of
        Some vr \<Rightarrow> Inr vr
      | None \<Rightarrow>
          (case List.find (\<lambda>w. starts_with w s) json_constants of
             Some w \<Rightarrow> bindE (jh_constant h w) (\<lambda>v. Inr (v, drop (length w) s))
           | None \<Rightarrow> scan_number s))"

section \<open>Scanning consumes\<close>

lemma skip_ws_length: "length (skip_ws s) \<le> length s"
  by (simp add: skip_ws_def length_dropWhile_le)

lemma expect_length: "expect c s = Inr r \<Longrightarrow> length r < length s"
  by (auto simp: expect_def split: list.splits if_splits)

lemma scan_string_length: "scan_string s = Inr (t, r) \<Longrightarrow> length r < length s"
proof (induction s arbitrary: t r rule: measure_induct_rule [of length])
  case (less s)
  note IH = less.IH [rotated, THEN less_trans]
  from less.prems show ?case
    by (subst (asm) scan_string.simps)
      (auto simp: result_simps unicode_escape_def Let_def split: list.splits if_splits option.splits
        dest!: IH)
qed

lemma integer_part_length: "integer_part s = Some (ds, r) \<Longrightarrow> length r < length s"
  by (cases s) (auto simp: integer_part_def length_dropWhile_le le_imp_less_Suc split: if_splits)

lemma fraction_part_length: "fraction_part s = (f, r) \<Longrightarrow> length r \<le> length s"
  using length_dropWhile_le [of is_digit "drop 1 s"]
  by (auto simp: fraction_part_def split: if_splits)

lemma exponent_part_length: "exponent_part s = (f, r) \<Longrightarrow> length r \<le> length s"
  by (auto simp: exponent_part_def Let_def split: if_splits intro: order_trans [OF length_dropWhile_le])

lemma scan_number_length: "scan_number s = Inr (v, r) \<Longrightarrow> length r < length s"
  by (auto simp: scan_number_def Let_def split: option.splits prod.splits if_splits
      dest!: integer_part_length fraction_part_length exponent_part_length)

lemma scan_scalar_length:
  assumes "scan_scalar h s = Inr (v, r)"
  shows "length r < length s"
proof -
  have pre: "starts_with w s \<Longrightarrow> length w \<le> length s" for w s
    by (induction w s rule: starts_with.induct) auto
  have table: "w \<noteq> []" if "List.find (\<lambda>(w, _). starts_with w s) json_literals = Some (w, v)" for w v
    using that by (auto simp: json_literals_def split: if_splits)
  have const: "w \<noteq> []" if "List.find (\<lambda>w. starts_with w s) json_constants = Some w" for w
    using that by (auto simp: json_constants_def split: if_splits)
  show ?thesis
  proof (cases "scan_literal json_literals s")
    case (Some vr)
    then obtain w where "List.find (\<lambda>(w, _). starts_with w s) json_literals = Some (w, fst vr)" "vr = (fst vr, drop (length w) s)"
      by (auto simp: scan_literal_def split: option.splits)
    with table [OF this(1)] pre [of w s] find_Some_iff2 [OF this(1)] assms Some show ?thesis
      by (cases s) (auto simp: scan_scalar_def)
  next
    case None
    show ?thesis
    proof (cases "List.find (\<lambda>w. starts_with w s) json_constants")
      case (Some w)
      with const [OF this] pre [of w s] find_Some_iff2 [OF this] assms None show ?thesis
        by (cases s) (auto simp: scan_scalar_def result_simps)
    next
      case c: None
      with None assms have "scan_number s = Inr (v, r)" by (simp add: scan_scalar_def)
      then show ?thesis by (rule scan_number_length)
    qed
  qed
qed

section \<open>Values\<close>

text \<open>
  \<open>scan_once\<close>, \<open>JSONObject\<close> after the brace and \<open>JSONArray\<close> after the bracket; \<open>d\<close> levels of
  nesting are left.
\<close>

function scan_value :: "json_hooks \<Rightarrow> nat \<Rightarrow> string \<Rightarrow> json scan"
  and scan_members :: "json_hooks \<Rightarrow> nat \<Rightarrow> string \<Rightarrow> (string \<times> json) list scan"
  and scan_items :: "json_hooks \<Rightarrow> nat \<Rightarrow> string \<Rightarrow> json list scan" where
  "scan_value h d s =
     (case s of
        [] \<Rightarrow> Inl JsonSyntax
      | c # cs \<Rightarrow>
          if c = CHR 0x22 then bindE (scan_string cs) (\<lambda>(t, r). Inr (JStr t, r))
          else if c = CHR 0x7B \<and> d = 0 \<or> c = CHR ''['' \<and> d = 0 then Inl JsonDepth
          else if c = CHR 0x7B then
            (if take 1 (skip_ws cs) = [CHR 0x7D]
             then bindE (jh_object h []) (\<lambda>v. Inr (v, drop 1 (skip_ws cs)))
             else bindE (scan_members h (d - 1) (skip_ws cs)) (\<lambda>(kvs, r).
                  bindE (jh_object h kvs) (\<lambda>v. Inr (v, r))))
          else if c = CHR ''['' then
            (if take 1 (skip_ws cs) = '']'' then Inr (JArr [], drop 1 (skip_ws cs))
             else bindE (scan_items h (d - 1) (skip_ws cs)) (\<lambda>(vs, r). Inr (JArr vs, r)))
          else scan_scalar h s)"
| "scan_members h d s =
     bindE (expect (CHR 0x22) s) (\<lambda>s1.
     bindE (scan_string s1) (\<lambda>(k, s2).
     bindE (expect (CHR '':'') (skip_ws s2)) (\<lambda>s3.
     bindE (scan_value h d (skip_ws s3)) (\<lambda>(v, s4).
     if take 1 (skip_ws s4) = [CHR 0x7D] then Inr ([(k, v)], drop 1 (skip_ws s4))
     else bindE (expect (CHR '','') (skip_ws s4)) (\<lambda>s5.
          bindE (scan_members h d (skip_ws s5)) (\<lambda>(kvs, r). Inr ((k, v) # kvs, r)))))))"
| "scan_items h d s =
     bindE (scan_value h d s) (\<lambda>(v, s1).
     if take 1 (skip_ws s1) = '']'' then Inr ([v], drop 1 (skip_ws s1))
     else bindE (expect (CHR '','') (skip_ws s1)) (\<lambda>s2.
          bindE (scan_items h d (skip_ws s2)) (\<lambda>(vs, r). Inr (v # vs, r))))"
  by pat_completeness auto

text \<open>On the domain of the recursion every part of the scanner consumes input, so the domain is everything.\<close>

lemma scan_dom_length:
  "scan_value_scan_members_scan_items_dom (Inl (h, d, s)) \<Longrightarrow>
     (\<And>v r. scan_value h d s = Inr (v, r) \<Longrightarrow> length r < length s)"
  "scan_value_scan_members_scan_items_dom (Inr (Inl (h, d, s))) \<Longrightarrow>
     (\<And>kvs r. scan_members h d s = Inr (kvs, r) \<Longrightarrow> length r < length s)"
  "scan_value_scan_members_scan_items_dom (Inr (Inr (h, d, s))) \<Longrightarrow>
     (\<And>vs r. scan_items h d s = Inr (vs, r) \<Longrightarrow> length r < length s)"
proof (induction rule: scan_value_scan_members_scan_items.pinduct)
  case (1 h d s)
  note ws = skip_ws_length [of "tl s"]
  from "1.prems" show ?case
    using "1.IH" ws
    by (auto simp: scan_value.psimps [OF "1.hyps"] result_simps split: list.splits if_splits
        dest!: scan_string_length scan_scalar_length)
      (metis le_imp_less_Suc less_imp_le order_trans)+
next
  case (2 h d s)
  from "2.prems" obtain s1 k s2 s3 v s4 where
    p: "expect (CHR 0x22) s = Inr s1" "scan_string s1 = Inr (k, s2)" "expect (CHR '':'') (skip_ws s2) = Inr s3"
      "scan_value h d (skip_ws s3) = Inr (v, s4)" and
    r: "r = drop 1 (skip_ws s4) \<or> (\<exists>s5 x. expect (CHR '','') (skip_ws s4) = Inr s5 \<and>
      take 1 (skip_ws s4) \<noteq> [CHR 0x7D] \<and> scan_members h d (skip_ws s5) = Inr (x, r))"
    by (auto simp: scan_members.psimps [OF "2.hyps"] result_simps split: if_splits)
  have "length s4 < length s"
    using p(1,3) p(2) "2.IH"(1) [OF p(1,2) refl p(3,4)]
      skip_ws_length [of s2] skip_ws_length [of s3]
    by (auto dest!: expect_length scan_string_length)
  then show ?case
    using r "2.IH"(2) [OF p(1,2) refl p(3,4) refl] skip_ws_length [of s4]
    by (elim disjE exE conjE) (auto, (meson expect_length less_le_trans less_trans order_trans skip_ws_length less_imp_le le_less_trans)+)
next
  case (3 h d s)
  from "3.prems" obtain v s1 where
    p: "scan_value h d s = Inr (v, s1)" and
    r: "r = drop 1 (skip_ws s1) \<or> (\<exists>s2 x. expect (CHR '','') (skip_ws s1) = Inr s2 \<and>
      take 1 (skip_ws s1) \<noteq> '']'' \<and> scan_items h d (skip_ws s2) = Inr (x, r))"
    by (auto simp: scan_items.psimps [OF "3.hyps"] result_simps split: if_splits)
  show ?case
    using r "3.IH"(1) [OF p] "3.IH"(2) [OF p refl] skip_ws_length [of s1]
    by (elim disjE exE conjE) (auto, (meson expect_length less_le_trans less_trans order_trans skip_ws_length less_imp_le le_less_trans)+)
qed

text \<open>So the recursion is on shorter and shorter text; an item list on the text of its first item.\<close>

lemma scan_total: "All scan_value_scan_members_scan_items_dom"
proof (relation "measure (case_sum (\<lambda>(h, d, s). 2 * length s)
    (case_sum (\<lambda>(h, d, s). 2 * length s) (\<lambda>(h, d, s). 2 * length s + 1)))", goal_cases)
  case (2 h d s c cs)
  with skip_ws_length [of cs] show ?case by simp
next
  case (3 h d s c cs)
  with skip_ws_length [of cs] show ?case by simp
next
  case (4 h d s s1 p k s2 s3)
  with skip_ws_length [of s2] skip_ws_length [of s3] show ?case
    by (auto dest!: expect_length scan_string_length)
next
  case (5 h d s s1 p k s2 s3 q v s4 s5)
  with skip_ws_length [of s2] skip_ws_length [of s3] skip_ws_length [of s4] skip_ws_length [of s5] show ?case
    by (auto dest!: expect_length scan_string_length scan_dom_length(1))
next
  case (7 h d s p v s1 s2)
  with skip_ws_length [of s1] skip_ws_length [of s2] show ?case
    by (auto dest!: expect_length scan_dom_length(1))
qed auto

termination scan_value
  by (rule scan_total)

declare scan_value.simps [simp del] scan_members.simps [simp del] scan_items.simps [simp del]

lemma scan_value_length: "scan_value h d s = Inr (v, r) \<Longrightarrow> length r < length s"
  by (rule scan_dom_length(1) [OF scan_total [rule_format]])

section \<open>Documents\<close>

text \<open>\<open>json.loads(s)\<close>\<close>

definition json_loads :: "json_hooks \<Rightarrow> string \<Rightarrow> json_error + json" where
  "json_loads h s =
     bindE (scan_value h (jh_depth h) (skip_ws s)) (\<lambda>(v, r).
     if skip_ws r = [] then Inr v else Inl JsonSyntax)"

text \<open>\<open>dict(pairs)\<close>: the last value of a key, at the place of the first.\<close>

definition dict_of :: "(string \<times> json) list \<Rightarrow> (string \<times> json) list" where
  "dict_of kvs = map (\<lambda>k. (k, the (map_of (rev kvs) k))) (fromkeys (map fst kvs))"

definition plain_hooks :: "nat \<Rightarrow> json_hooks" where
  "plain_hooks depth = \<lparr>jh_object = (\<lambda>kvs. Inr (JObj (dict_of kvs))), jh_constant = (\<lambda>w. Inr (JFloat w)), jh_depth = depth\<rparr>"

section \<open>UTF-8\<close>

text \<open>\<open>bytes\<close> are strings too, one character per byte. The strict decoder gives code points.\<close>

definition is_cont :: "char \<Rightarrow> bool" where
  "is_cont c \<longleftrightarrow> 128 \<le> ord c \<and> ord c \<le> 191"

fun utf8_decode :: "string \<Rightarrow> nat list option" where
  "utf8_decode [] = Some []"
| "utf8_decode (a # s) =
     (if ord a < 128 then map_option (Cons (ord a)) (utf8_decode s)
      else case s of
        [] \<Rightarrow> None
      | b # s1 \<Rightarrow>
          if 194 \<le> ord a \<and> ord a \<le> 223 \<and> is_cont b
          then map_option (Cons ((ord a - 192) * 64 + (ord b - 128))) (utf8_decode s1)
          else case s1 of
            [] \<Rightarrow> None
          | c # s2 \<Rightarrow>
              if 224 \<le> ord a \<and> ord a \<le> 239 \<and> is_cont b \<and> is_cont c \<and>
                 (ord a = 224 \<longrightarrow> 160 \<le> ord b) \<and> (ord a = 237 \<longrightarrow> ord b \<le> 159)
              then map_option (Cons ((ord a - 224) * 4096 + (ord b - 128) * 64 + (ord c - 128))) (utf8_decode s2)
              else case s2 of
                [] \<Rightarrow> None
              | e # s3 \<Rightarrow>
                  if 240 \<le> ord a \<and> ord a \<le> 244 \<and> is_cont b \<and> is_cont c \<and> is_cont e \<and>
                     (ord a = 240 \<longrightarrow> 144 \<le> ord b) \<and> (ord a = 244 \<longrightarrow> ord b \<le> 143)
                  then map_option (Cons ((ord a - 240) * 262144 + (ord b - 128) * 4096 + (ord c - 128) * 64 + (ord e - 128)))
                    (utf8_decode s3)
                  else None)"

definition utf8_encode_char :: "char \<Rightarrow> string" where
  "utf8_encode_char c =
     (if ord c < 128 then [c] else [char_of (192 + ord c div 64), char_of (128 + ord c mod 64)])"

definition utf8_encode :: "string \<Rightarrow> string" where
  "utf8_encode s = concat (map utf8_encode_char s)"

text \<open>\<open>s.encode("ascii")\<close> and \<open>b.decode("ascii")\<close>\<close>

definition is_ascii :: "string \<Rightarrow> bool" where
  "is_ascii s \<longleftrightarrow> list_all (\<lambda>c. ord c < 128) s"

lemma utf8_char:
  "utf8_decode (utf8_encode_char c @ s) = map_option (Cons (ord c)) (utf8_decode s)"
proof (cases "ord c < 128")
  case False
  define n where "n = ord c"
  have n: "128 \<le> n" "n < 256" using False ord_less_256 [of c] by (simp_all add: n_def)
  have "64 * (n div 64) + n mod 64 = n" "n mod 64 \<le> 63" "2 \<le> n div 64" "n div 64 \<le> 3"
    using n by (simp_all add: less_Suc_eq_le [symmetric] less_mult_imp_div_less less_eq_div_iff_mult_less_eq)
  then show ?thesis
    using False by (simp add: utf8_encode_char_def n_def [symmetric] is_cont_def algebra_simps)
qed (simp add: utf8_encode_char_def)

lemma utf8_roundtrip: "utf8_decode (utf8_encode s) = Some (map ord s)"
  by (induction s) (simp_all add: utf8_encode_def utf8_char)

end
