(* ===== verification/Reconfiguration.thy ===== *)
theory Reconfiguration
  imports Cluster Effects Json
begin

text \<open>
  \<open>src/rcm/reconfiguration.py\<close>: moving a Ray cluster from one topology to the next. Topologies,
  plans, outcomes, checkpoints and results are records; the in-memory journal is a state with one
  operation per method; the reconfigurator is written over an environment record with the journal
  protocol, the Ray adapter, the cancellation token and SHA-256 as its fields, each acting on one
  world \<open>'s\<close>.

  The adapter and the token are parameters: an adapter call may raise, return an \<open>ActionResult\<close> or
  some other object, and change the world. \<open>logged_env\<close> adds the trace of the saves, epoch
  advances and adapter calls of a run, over which the ordering properties are stated.
\<close>

section \<open>Topologies and plans\<close>

definition reconf_token :: "string \<Rightarrow> string result" where
  "reconf_token s =
     (if s = [] \<or> list_ex (\<lambda>c. c \<notin> set code_chars) s then Inl ValueError else Inr s)"

definition reconf_epoch :: "pyval \<Rightarrow> int result" where
  "reconf_epoch v =
     (case v of PInt n \<Rightarrow> if n < 0 then Inl ValueError else Inr n | _ \<Rightarrow> Inl ValueError)"

datatype reconf_phase =
    PhPreflight | PhStop | PhPush | PhStart | PhJoin | PhVerify | PhRollback

fun phase_value :: "reconf_phase \<Rightarrow> string" where
  "phase_value PhPreflight = ''preflight''"
| "phase_value PhStop = ''stop''"
| "phase_value PhPush = ''push''"
| "phase_value PhStart = ''start''"
| "phase_value PhJoin = ''join''"
| "phase_value PhVerify = ''verify''"
| "phase_value PhRollback = ''rollback''"

datatype reconf_status = RcSucceeded | RcPartial | RcFailed | RcCancelled

record topology =
  tp_epoch :: int
  tp_head :: node
  tp_workers :: "node list"

definition mk_ClusterTopology :: "pyval \<Rightarrow> node \<Rightarrow> node list \<Rightarrow> topology result" where
  "mk_ClusterTopology epoch head workers =
     bindE (reconf_epoch epoch) (\<lambda>e.
     if node_role head \<noteq> RoleHead then Inl ValueError
     else if list_ex (\<lambda>w. node_role w \<noteq> RoleWorker) workers then Inl ValueError
     else let worker_ids = map node_id workers in
     if node_id head \<in> set worker_ids then Inl ValueError
     else if card (set worker_ids) \<noteq> length worker_ids then Inl ValueError
     else Inr \<lparr>tp_epoch = e, tp_head = head, tp_workers = workers\<rparr>)"

definition tp_head_id :: "topology \<Rightarrow> string" where
  "tp_head_id t = node_id (tp_head t)"

definition tp_worker_ids :: "topology \<Rightarrow> string list" where
  "tp_worker_ids t = map node_id (tp_workers t)"

definition tp_node_ids :: "topology \<Rightarrow> string list" where
  "tp_node_ids t = tp_head_id t # tp_worker_ids t"

definition tp_nodes :: "topology \<Rightarrow> node list" where
  "tp_nodes t = tp_head t # tp_workers t"

definition with_epoch :: "topology \<Rightarrow> int \<Rightarrow> topology result" where
  "with_epoch t e = mk_ClusterTopology (PInt e) (tp_head t) (tp_workers t)"

definition topology_node :: "topology \<Rightarrow> string \<Rightarrow> node result" where
  "topology_node t nid =
     (case List.find (\<lambda>n. node_id n = nid) (tp_nodes t) of
        Some n \<Rightarrow> Inr n | None \<Rightarrow> Inl LookupErr)"

definition manifest_node :: "node \<Rightarrow> json" where
  "manifest_node n =
     JObj [(''node_id'', JStr (node_id n)), (''address'', JStr (node_address n)),
       (''role'', JStr (node_role_value (node_role n))), (''enabled'', JBool (node_enabled n)),
       (''capabilities'', JArr (map (\<lambda>c. JArr [JStr (cap_name c),
          JStr (capability_state_value (cap_state c)), JStr (cap_detail_code c)])
          (node_capabilities n)))]"

definition manifest_payload :: "topology \<Rightarrow> json" where
  "manifest_payload t =
     JObj [(''epoch'', JInt (tp_epoch t)), (''head'', manifest_node (tp_head t)),
       (''workers'', JArr (map manifest_node (tp_workers t)))]"

definition manifest_digest :: "(string \<Rightarrow> string) \<Rightarrow> topology \<Rightarrow> string" where
  "manifest_digest sha256 t = sha256 (json_dumps (manifest_payload t))"

record reconf_plan =
  rp_operation_id :: string
  rp_expected :: topology
  rp_desired :: topology

definition mk_ReconfigurationPlan ::
    "string \<Rightarrow> topology \<Rightarrow> topology \<Rightarrow> reconf_plan result" where
  "mk_ReconfigurationPlan operation_id expected desired =
     bindE (reconf_token operation_id) (\<lambda>op.
     if tp_epoch desired \<noteq> tp_epoch expected + 1 then Inl ValueError
     else Inr \<lparr>rp_operation_id = op, rp_expected = expected, rp_desired = desired\<rparr>)"

definition fingerprint_payload :: "(string \<Rightarrow> string) \<Rightarrow> reconf_plan \<Rightarrow> json" where
  "fingerprint_payload sha256 p =
     JObj [(''expected'', JObj [(''epoch'', JInt (tp_epoch (rp_expected p))),
         (''manifest'', JStr (manifest_digest sha256 (rp_expected p)))]),
       (''desired'', JObj [(''epoch'', JInt (tp_epoch (rp_desired p))),
         (''manifest'', JStr (manifest_digest sha256 (rp_desired p)))])]"

definition plan_fingerprint :: "(string \<Rightarrow> string) \<Rightarrow> reconf_plan \<Rightarrow> string" where
  "plan_fingerprint sha256 p = sha256 (json_dumps (fingerprint_payload sha256 p))"

section \<open>Outcomes, checkpoints and results\<close>

record step_outcome =
  so_ok :: bool
  so_code :: string

definition mk_StepOutcome :: "bool \<Rightarrow> string \<Rightarrow> step_outcome result" where
  "mk_StepOutcome ok code =
     bindE (reconf_token code) (\<lambda>c.
     if ok \<and> c \<noteq> ''ok'' then Inl ValueError
     else if \<not> ok \<and> c = ''ok'' then Inl ValueError
     else Inr \<lparr>so_ok = ok, so_code = c\<rparr>)"

definition so_success :: step_outcome where
  "so_success = \<lparr>so_ok = True, so_code = ''ok''\<rparr>"

text \<open>\<open>StepOutcome.failure\<close> at a literal code, for which the constructor does not raise.\<close>

definition so_failure :: "string \<Rightarrow> step_outcome" where
  "so_failure code = \<lparr>so_ok = False, so_code = code\<rparr>"

record phase_report =
  pr_phase :: reconf_phase
  pr_node_id :: string
  pr_outcome :: step_outcome

record reconf_result =
  rr_operation_id :: string
  rr_status :: reconf_status
  rr_effective_epoch :: int
  rr_effective_head_id :: string
  rr_reports :: "phase_report list"
  rr_missing_worker_ids :: "string list"
  rr_rollback_performed :: bool
  rr_effective_state_known :: bool

record checkpoint =
  cp_fingerprint :: string
  cp_completed :: "string set"
  cp_reports :: "phase_report list"
  cp_unavailable :: "string set"
  cp_new_head_healthy :: bool
  cp_inflight :: "string option"
  cp_rollback_status :: "reconf_status option"
  cp_result :: "reconf_result option"

definition new_checkpoint :: "string \<Rightarrow> checkpoint" where
  "new_checkpoint fp =
     \<lparr>cp_fingerprint = fp, cp_completed = {}, cp_reports = [], cp_unavailable = {},
      cp_new_head_healthy = False, cp_inflight = None, cp_rollback_status = None,
      cp_result = None\<rparr>"

section \<open>The in-memory journal\<close>

record memory_journal =
  mj_records :: "string \<Rightarrow> checkpoint option"
  mj_active :: "string option"
  mj_unfinished :: "string option"
  mj_epoch :: "int option"

definition init_journal :: memory_journal where
  "init_journal =
     \<lparr>mj_records = (\<lambda>_. None), mj_active = None, mj_unfinished = None, mj_epoch = None\<rparr>"

definition mj_claim :: "string \<Rightarrow> int \<Rightarrow> (memory_journal, pyexn, bool) eff" where
  "mj_claim op expected_epoch j =
     (case bindE (reconf_token op) (\<lambda>_. reconf_epoch (PInt expected_epoch)) of
        Inl e \<Rightarrow> (Inl e, j)
      | Inr epoch \<Rightarrow>
          if mj_active j \<noteq> None then (Inr False, j)
          else if mj_unfinished j \<noteq> None \<and> mj_unfinished j \<noteq> Some op then (Inr False, j)
          else if mj_epoch j \<noteq> None \<and> mj_epoch j \<noteq> Some epoch \<and> mj_records j op = None
            then (Inl RcmStale, j)
          else
            let j1 = (if mj_epoch j = None then j\<lparr>mj_epoch := Some epoch\<rparr> else j);
                unfinished = (case mj_records j op of None \<Rightarrow> True | Some cp \<Rightarrow> cp_result cp = None);
                j2 = (if unfinished then j1\<lparr>mj_unfinished := Some op\<rparr> else j1)
            in (Inr True, j2\<lparr>mj_active := Some op\<rparr>))"

definition mj_release :: "string \<Rightarrow> (memory_journal, pyexn, unit) eff" where
  "mj_release op j =
     (case reconf_token op of
        Inl e \<Rightarrow> (Inl e, j)
      | Inr _ \<Rightarrow>
          if mj_active j \<noteq> Some op then (Inl RcmConflict, j)
          else (Inr (), j\<lparr>mj_active := None\<rparr>))"

definition mj_advance_epoch :: "int \<Rightarrow> (memory_journal, pyexn, unit) eff" where
  "mj_advance_epoch epoch j =
     (case reconf_epoch (PInt epoch) of
        Inl e \<Rightarrow> (Inl e, j)
      | Inr v \<Rightarrow>
          if mj_active j = None then (Inl RcmConflict, j)
          else (case mj_epoch j of
              Some e0 \<Rightarrow> if v < e0 then (Inl RcmStale, j) else (Inr (), j\<lparr>mj_epoch := Some v\<rparr>)
            | None \<Rightarrow> (Inr (), j\<lparr>mj_epoch := Some v\<rparr>)))"

definition mj_load :: "string \<Rightarrow> (memory_journal, pyexn, checkpoint option) eff" where
  "mj_load op j =
     (case reconf_token op of Inl e \<Rightarrow> (Inl e, j) | Inr _ \<Rightarrow> (Inr (mj_records j op), j))"

definition mj_save :: "string \<Rightarrow> checkpoint \<Rightarrow> (memory_journal, pyexn, unit) eff" where
  "mj_save op cp j =
     (case reconf_token op of
        Inl e \<Rightarrow> (Inl e, j)
      | Inr _ \<Rightarrow>
          if (case mj_records j op of
                Some old \<Rightarrow> cp_fingerprint old \<noteq> cp_fingerprint cp | None \<Rightarrow> False)
            then (Inl RcmConflict, j)
          else
            let j1 = j\<lparr>mj_records := (mj_records j)(op \<mapsto> cp)\<rparr> in
            (Inr (), if cp_result cp \<noteq> None \<and> mj_unfinished j = Some op
                     then j1\<lparr>mj_unfinished := None\<rparr> else j1))"

section \<open>The environment of the reconfigurator\<close>

text \<open>
  The journal's operations, the calls of the Ray adapter, the cancellation token and SHA-256.
\<close>

record 's reconf_env =
  re_claim :: "string \<Rightarrow> int \<Rightarrow> ('s, pyexn, bool) eff"
  re_release :: "string \<Rightarrow> ('s, pyexn, unit) eff"
  re_advance :: "int \<Rightarrow> ('s, pyexn, unit) eff"
  re_load :: "string \<Rightarrow> ('s, pyexn, checkpoint option) eff"
  re_save :: "string \<Rightarrow> checkpoint \<Rightarrow> ('s, pyexn, unit) eff"
  re_control :: "control_call \<Rightarrow> 's \<Rightarrow> control_return \<times> 's"
  re_cancelled :: "'s \<Rightarrow> bool \<times> 's"
  re_sha256 :: "string \<Rightarrow> string"

text \<open>\<open>_Cancelled\<close> and \<open>_PhaseFailed\<close> are private to the module; every other exception passes.\<close>

datatype reconf_exn = RcxRaise pyexn | RcxCancelled checkpoint | RcxPhaseFailed checkpoint

definition lift_py :: "('s, pyexn, 'a) eff \<Rightarrow> ('s, reconf_exn, 'a) eff" where
  "lift_py m = on_raise m (\<lambda>e. throw (RcxRaise e))"

definition poll_token :: "'s reconf_env \<Rightarrow> ('s, 'e, bool) eff" where
  "poll_token env s = (case re_cancelled env s of (c, s') \<Rightarrow> (Inr c, s'))"

definition call_control :: "'s reconf_env \<Rightarrow> control_call \<Rightarrow> ('s, 'e, control_return) eff" where
  "call_control env c s = (case re_control env c s of (r, s') \<Rightarrow> (Inr r, s'))"

text \<open>An action is a closure: building the arguments may raise before the adapter is called.\<close>

definition run_action ::
    "'s reconf_env \<Rightarrow> control_call result \<Rightarrow> ('s, 'e, control_return) eff" where
  "run_action env action =
     (case action of Inl e \<Rightarrow> ret (CtlRaises e) | Inr c \<Rightarrow> call_control env c)"

definition save_to :: "'s reconf_env \<Rightarrow> reconf_plan \<Rightarrow> checkpoint \<Rightarrow> ('s, reconf_exn, unit) eff" where
  "save_to env p cp = lift_py (re_save env (rp_operation_id p) cp)"

section \<open>One step of the forward phases\<close>

definition result_outcome :: "action_result \<Rightarrow> step_outcome" where
  "result_outcome r =
     (if ar_ok r then so_success
      else (case mk_StepOutcome False (ar_code r) of
          Inl _ \<Rightarrow> so_failure ''adapter.invalid_code''
        | Inr o1 \<Rightarrow> o1))"

definition check_cancelled :: "'s reconf_env \<Rightarrow> checkpoint \<Rightarrow> ('s, reconf_exn, unit) eff" where
  "check_cancelled env cp =
     andthen (poll_token env) (\<lambda>c. if c then throw (RcxCancelled cp) else ret ())"

text \<open>
  The outcome of an action and whether it counts as cancelled: the token is read in the exception
  handler, and once more after the action whatever it did.
\<close>

definition call_outcome ::
    "'s reconf_env \<Rightarrow> control_return \<Rightarrow> ('s, reconf_exn, step_outcome \<times> bool) eff" where
  "call_outcome env r =
     andthen
       (case r of
          CtlRaises e \<Rightarrow>
            if is_exception e then
              andthen (poll_token env) (\<lambda>c.
                ret (if c then (so_failure ''cancelled'', True)
                     else (so_failure ''adapter.exception'', False)))
            else throw (RcxRaise e)
        | CtlResult a \<Rightarrow> ret (result_outcome a, ar_status a = ActCancelled)
        | CtlOther \<Rightarrow> ret (so_failure ''adapter.invalid_result'', False))
       (\<lambda>oc. andthen (poll_token env) (\<lambda>c.
          ret (if c then (so_failure ''cancelled'', True) else oc)))"

definition add_report :: "checkpoint \<Rightarrow> phase_report \<Rightarrow> checkpoint" where
  "add_report cp r = cp\<lparr>cp_reports := cp_reports cp @ [r]\<rparr>"

definition step_key :: "reconf_phase \<Rightarrow> string \<Rightarrow> string" where
  "step_key ph suffix = phase_value ph @ '':'' @ suffix"

text \<open>
  \<open>_call\<close>, from the epoch advance on: the step is saved as in flight, carried out, and its outcome
  saved. The last part, \<open>settle_call\<close>, is what follows the action.
\<close>

definition settle_call ::
    "'s reconf_env \<Rightarrow> reconf_plan \<Rightarrow> reconf_phase \<Rightarrow> string \<Rightarrow> string \<Rightarrow> checkpoint
       \<Rightarrow> step_outcome \<times> bool \<Rightarrow> ('s, reconf_exn, checkpoint \<times> step_outcome) eff" where
  "settle_call env p ph nid key cp oc =
     (let o1 = fst oc;
          completed = (if so_ok o1 then insert key (cp_completed cp) else cp_completed cp);
          cp2 = add_report (cp\<lparr>cp_completed := completed, cp_inflight := None\<rparr>)
            \<lparr>pr_phase = ph, pr_node_id = nid, pr_outcome = o1\<rparr>
      in andthen (save_to env p cp2) (\<lambda>_.
         if snd oc then throw (RcxCancelled cp2) else ret (cp2, o1)))"

definition execute_step ::
    "'s reconf_env \<Rightarrow> reconf_plan \<Rightarrow> reconf_phase \<Rightarrow> string \<Rightarrow> string \<Rightarrow> control_call result
       \<Rightarrow> checkpoint \<Rightarrow> ('s, reconf_exn, checkpoint \<times> step_outcome) eff" where
  "execute_step env p ph nid key action cp =
     andthen (if ph = PhStop \<or> ph = PhPush \<or> ph = PhStart
              then lift_py (re_advance env (tp_epoch (rp_desired p))) else ret ()) (\<lambda>_.
     let cp1 = cp\<lparr>cp_inflight := Some key\<rparr> in
     andthen (save_to env p cp1) (\<lambda>_.
     andthen (run_action env action) (\<lambda>r.
     andthen (call_outcome env r) (settle_call env p ph nid key cp1))))"

text \<open>\<open>_call\<close>: \<open>suffix\<close> is \<open>step_key_suffix\<close>, or \<open>node_id\<close> where the code leaves it out.\<close>

definition reconf_call ::
    "'s reconf_env \<Rightarrow> reconf_plan \<Rightarrow> reconf_phase \<Rightarrow> string \<Rightarrow> string \<Rightarrow> control_call result
       \<Rightarrow> checkpoint \<Rightarrow> ('s, reconf_exn, checkpoint \<times> step_outcome) eff" where
  "reconf_call env p ph nid suffix action cp =
     andthen (check_cancelled env cp) (\<lambda>_.
     if step_key ph suffix \<in> cp_completed cp then ret (cp, so_success)
     else if cp_inflight cp \<noteq> None then
       let o1 = so_failure ''step.outcome_unknown'';
           cp1 = add_report (cp\<lparr>cp_inflight := None\<rparr>)
             \<lparr>pr_phase = ph, pr_node_id = nid, pr_outcome = o1\<rparr>
       in andthen (save_to env p cp1) (\<lambda>_. ret (cp1, o1))
     else execute_step env p ph nid (step_key ph suffix) action cp)"

section \<open>The forward phases\<close>

definition reconf_node :: "reconf_plan \<Rightarrow> string \<Rightarrow> node result" where
  "reconf_node p nid =
     (case topology_node (rp_desired p) nid of
        Inr n \<Rightarrow> Inr n
      | Inl _ \<Rightarrow> topology_node (rp_expected p) nid)"

definition desired_epoch :: "reconf_plan \<Rightarrow> int" where
  "desired_epoch p = tp_epoch (rp_desired p)"

text \<open>One iteration of \<open>_preflight\<close>; the accumulator is the checkpoint and \<open>unavailable\<close>.\<close>

definition preflight_one ::
    "'s reconf_env \<Rightarrow> reconf_plan \<Rightarrow> string \<Rightarrow> checkpoint \<times> string set
       \<Rightarrow> ('s, reconf_exn, checkpoint \<times> string set) eff" where
  "preflight_one env p nid acc =
     andthen (reconf_call env p PhPreflight nid nid
        (bindE (reconf_node p nid) (\<lambda>n. Inr (CtlPreflight n (desired_epoch p)))) (fst acc))
     (\<lambda>(cp, o1).
      let unavailable = snd acc;
          critical = set (tp_node_ids (rp_expected p)) \<union> {tp_head_id (rp_desired p)}
      in if \<not> so_ok o1 then
           let un1 = insert nid unavailable; cp1 = cp\<lparr>cp_unavailable := un1\<rparr> in
           andthen (save_to env p cp1) (\<lambda>_.
             if nid \<in> critical then throw (RcxPhaseFailed cp1) else ret (cp1, un1))
         else if nid \<in> unavailable then
           let un1 = unavailable - {nid}; cp1 = cp\<lparr>cp_unavailable := un1\<rparr> in
           andthen (save_to env p cp1) (\<lambda>_. ret (cp1, un1))
         else ret (cp, unavailable))"

definition reconf_preflight ::
    "'s reconf_env \<Rightarrow> reconf_plan \<Rightarrow> checkpoint \<Rightarrow> ('s, reconf_exn, checkpoint) eff" where
  "reconf_preflight env p cp =
     andthen (for_each (preflight_one env p)
        (fromkeys (tp_node_ids (rp_expected p) @ tp_node_ids (rp_desired p)))
        (cp, cp_unavailable cp)) (\<lambda>acc. ret (fst acc))"

definition stop_one ::
    "'s reconf_env \<Rightarrow> reconf_plan \<Rightarrow> string \<Rightarrow> checkpoint \<Rightarrow> ('s, reconf_exn, checkpoint) eff" where
  "stop_one env p nid cp =
     (if nid \<in> cp_unavailable cp then ret cp
      else andthen (reconf_call env p PhStop nid nid
          (bindE (topology_node (rp_expected p) nid) (\<lambda>n. Inr (CtlStop n (desired_epoch p)))) cp)
        (\<lambda>(cp1, o1). if \<not> so_ok o1 then throw (RcxPhaseFailed cp1) else ret cp1))"

definition reconf_stop ::
    "'s reconf_env \<Rightarrow> reconf_plan \<Rightarrow> checkpoint \<Rightarrow> ('s, reconf_exn, checkpoint) eff" where
  "reconf_stop env p cp = for_each (stop_one env p) (tp_node_ids (rp_expected p)) cp"

definition push_one ::
    "'s reconf_env \<Rightarrow> reconf_plan \<Rightarrow> string \<Rightarrow> checkpoint \<Rightarrow> ('s, reconf_exn, checkpoint) eff" where
  "push_one env p nid cp =
     (if nid \<in> cp_unavailable cp then ret cp
      else andthen (reconf_call env p PhPush nid nid
          (bindE (topology_node (rp_desired p) nid) (\<lambda>n.
             Inr (CtlPush n (manifest_digest (re_sha256 env) (rp_desired p)) (desired_epoch p)))) cp)
        (\<lambda>(cp1, o1).
           if \<not> so_ok o1 then
             if nid = tp_head_id (rp_desired p) then throw (RcxPhaseFailed cp1)
             else ret (cp1\<lparr>cp_unavailable := insert nid (cp_unavailable cp1)\<rparr>)
           else ret cp1))"

definition reconf_push ::
    "'s reconf_env \<Rightarrow> reconf_plan \<Rightarrow> checkpoint \<Rightarrow> ('s, reconf_exn, checkpoint) eff" where
  "reconf_push env p cp = for_each (push_one env p) (tp_node_ids (rp_desired p)) cp"

definition reconf_start ::
    "'s reconf_env \<Rightarrow> reconf_plan \<Rightarrow> checkpoint \<Rightarrow> ('s, reconf_exn, checkpoint) eff" where
  "reconf_start env p cp =
     andthen (reconf_call env p PhStart (tp_head_id (rp_desired p)) (tp_head_id (rp_desired p))
        (Inr (CtlStartHead (tp_head (rp_desired p)) (desired_epoch p))) cp)
     (\<lambda>(cp1, o1). if \<not> so_ok o1 then throw (RcxPhaseFailed cp1) else ret cp1)"

definition reconf_verify_head ::
    "'s reconf_env \<Rightarrow> reconf_plan \<Rightarrow> checkpoint \<Rightarrow> ('s, reconf_exn, checkpoint) eff" where
  "reconf_verify_head env p cp =
     andthen (reconf_call env p PhVerify (tp_head_id (rp_desired p)) ''head''
        (Inr (CtlVerify [tp_head (rp_desired p)] (tp_head (rp_desired p)) (desired_epoch p))) cp)
     (\<lambda>(cp1, o1).
        if \<not> so_ok o1 then throw (RcxPhaseFailed cp1)
        else let cp2 = cp1\<lparr>cp_new_head_healthy := True\<rparr> in
          andthen (save_to env p cp2) (\<lambda>_. ret cp2))"

definition join_one ::
    "'s reconf_env \<Rightarrow> reconf_plan \<Rightarrow> string \<Rightarrow> checkpoint \<times> string list
       \<Rightarrow> ('s, reconf_exn, checkpoint \<times> string list) eff" where
  "join_one env p nid acc =
     (if nid \<in> cp_unavailable (fst acc) then ret (fst acc, snd acc @ [nid])
      else andthen (reconf_call env p PhJoin nid nid
          (bindE (topology_node (rp_desired p) nid) (\<lambda>n.
             Inr (CtlJoin n (tp_head (rp_desired p)) (desired_epoch p)))) (fst acc))
        (\<lambda>(cp1, o1). ret (cp1, if so_ok o1 then snd acc else snd acc @ [nid])))"

definition reconf_join ::
    "'s reconf_env \<Rightarrow> reconf_plan \<Rightarrow> checkpoint \<Rightarrow> ('s, reconf_exn, checkpoint \<times> string list) eff"
  where
  "reconf_join env p cp = for_each (join_one env p) (tp_worker_ids (rp_desired p)) (cp, [])"

definition reconf_verify ::
    "'s reconf_env \<Rightarrow> reconf_plan \<Rightarrow> checkpoint
       \<Rightarrow> ('s, reconf_exn, checkpoint \<times> string list \<times> bool) eff" where
  "reconf_verify env p cp =
     andthen (reconf_call env p PhVerify ''cluster'' ''cluster''
        (Inr (CtlVerify (tp_nodes (rp_desired p)) (tp_head (rp_desired p)) (desired_epoch p))) cp)
     (\<lambda>(cp1, o1).
        let missing = filter (\<lambda>nid. nid \<in> cp_unavailable cp1) (tp_worker_ids (rp_desired p));
            missing1 = (if \<not> so_ok o1 then tp_worker_ids (rp_desired p) else missing)
        in ret (cp1, missing1, so_ok o1))"

definition reconf_forward ::
    "'s reconf_env \<Rightarrow> reconf_plan \<Rightarrow> checkpoint
       \<Rightarrow> ('s, reconf_exn, checkpoint \<times> reconf_result) eff" where
  "reconf_forward env p cp0 =
     andthen (reconf_preflight env p cp0) (\<lambda>cp1.
     andthen (reconf_stop env p cp1) (\<lambda>cp2.
     andthen (reconf_push env p cp2) (\<lambda>cp3.
     andthen (reconf_start env p cp3) (\<lambda>cp4.
     andthen (reconf_verify_head env p cp4) (\<lambda>cp5.
     andthen (reconf_join env p cp5) (\<lambda>(cp6, missing).
     andthen (reconf_verify env p cp6) (\<lambda>(cp7, verified_missing, verification_ok).
       let miss = sorted_tuple (missing @ verified_missing);
           status = (if verification_ok \<and> miss = [] then RcSucceeded else RcPartial)
       in ret (cp7,
            \<lparr>rr_operation_id = rp_operation_id p, rr_status = status,
             rr_effective_epoch = tp_epoch (rp_desired p),
             rr_effective_head_id = tp_head_id (rp_desired p), rr_reports = cp_reports cp7,
             rr_missing_worker_ids = miss, rr_rollback_performed = False,
             rr_effective_state_known = True\<rparr>))))))))"

section \<open>Rollback\<close>

text \<open>The locals of \<open>_rollback\<close> that its closure \<open>act\<close> rebinds or mutates.\<close>

record rollback_locals =
  rl_checkpoint :: checkpoint
  rl_reports :: "phase_report list"
  rl_failed :: "string set"

definition safe_action ::
    "'s reconf_env \<Rightarrow> control_call \<Rightarrow> ('s, pyexn, step_outcome) eff" where
  "safe_action env c =
     andthen (call_control env c) (\<lambda>r. case r of
        CtlRaises e \<Rightarrow>
          if is_exception e then ret (so_failure ''adapter.exception'') else throw e
      | CtlResult a \<Rightarrow> ret (result_outcome a)
      | CtlOther \<Rightarrow> ret (so_failure ''adapter.invalid_result''))"

definition rollback_act ::
    "'s reconf_env \<Rightarrow> reconf_plan \<Rightarrow> int \<Rightarrow> string \<Rightarrow> string \<Rightarrow> control_call \<Rightarrow> rollback_locals
       \<Rightarrow> ('s, pyexn, rollback_locals \<times> step_outcome) eff" where
  "rollback_act env p target_epoch key nid action rl =
     (let cp = rl_checkpoint rl; ok_key = key @ '':ok''; failed_key = key @ '':failed'' in
      if ok_key \<in> cp_completed cp then ret (rl, so_success)
      else if failed_key \<in> cp_completed cp
        then ret (rl, so_failure ''rollback.previous_failure'')
      else
        andthen
          (if cp_inflight cp = Some key then ret (cp, so_failure ''step.outcome_unknown'')
           else andthen (re_advance env target_epoch) (\<lambda>_.
             let cp1 = cp\<lparr>cp_inflight := Some key\<rparr> in
             andthen (re_save env (rp_operation_id p) cp1) (\<lambda>_.
             andthen (safe_action env action) (\<lambda>o1. ret (cp1, o1)))))
        (\<lambda>(cp1, o1).
          let reports = rl_reports rl
                @ [\<lparr>pr_phase = PhRollback, pr_node_id = nid, pr_outcome = o1\<rparr>];
              failed = (if \<not> so_ok o1 then insert nid (rl_failed rl) else rl_failed rl);
              marker = (if so_ok o1 then ok_key else failed_key);
              cp2 = cp1\<lparr>cp_reports := reports, cp_inflight := None,
                       cp_completed := insert marker (cp_completed cp1)\<rparr>
          in andthen (re_save env (rp_operation_id p) cp2) (\<lambda>_.
             ret (\<lparr>rl_checkpoint = cp2, rl_reports = reports, rl_failed = failed\<rparr>, o1))))"

text \<open>The inner function \<open>result\<close>.\<close>

definition rollback_result ::
    "reconf_plan \<Rightarrow> reconf_status \<Rightarrow> topology \<Rightarrow> bool \<Rightarrow> rollback_locals \<Rightarrow> reconf_result" where
  "rollback_result p status target known rl =
     \<lparr>rr_operation_id = rp_operation_id p, rr_status = status,
      rr_effective_epoch = tp_epoch target, rr_effective_head_id = tp_head_id target,
      rr_reports = cp_reports (rl_checkpoint rl),
      rr_missing_worker_ids =
        sorted_tuple (filter (\<lambda>w. w \<in> rl_failed rl) (tp_worker_ids target)),
      rr_rollback_performed = True,
      rr_effective_state_known = (known \<and> rl_failed rl = {})\<rparr>"

definition rollback_push_one ::
    "'s reconf_env \<Rightarrow> reconf_plan \<Rightarrow> topology \<Rightarrow> node \<Rightarrow> rollback_locals \<times> bool
       \<Rightarrow> ('s, pyexn, rollback_locals \<times> bool) eff" where
  "rollback_push_one env p target n acc =
     (if node_id n \<in> cp_unavailable (rl_checkpoint (fst acc)) \<and> node_id n \<noteq> tp_head_id target
      then ret acc
      else andthen (rollback_act env p (tp_epoch target) (''rollback:push:'' @ node_id n) (node_id n)
          (CtlPush n (manifest_digest (re_sha256 env) target) (tp_epoch target)) (fst acc))
        (\<lambda>(rl, o1). ret (rl, if node_id n = tp_head_id target then so_ok o1 else snd acc)))"

definition rollback_join_one ::
    "'s reconf_env \<Rightarrow> reconf_plan \<Rightarrow> topology \<Rightarrow> node \<Rightarrow> rollback_locals
       \<Rightarrow> ('s, pyexn, rollback_locals) eff" where
  "rollback_join_one env p target n rl =
     (if node_id n \<in> rl_failed rl then ret rl
      else andthen (rollback_act env p (tp_epoch target) (''rollback:join:'' @ node_id n) (node_id n)
          (CtlJoin n (tp_head target) (tp_epoch target)) rl)
        (\<lambda>(rl1, o1). ret rl1))"

text \<open>From the verified head on: the joins and the verification of the cluster.\<close>

definition rollback_finish ::
    "'s reconf_env \<Rightarrow> reconf_plan \<Rightarrow> topology \<Rightarrow> rollback_locals
       \<Rightarrow> ('s, pyexn, rollback_locals \<times> bool) eff" where
  "rollback_finish env p target rl =
     andthen (for_each (rollback_join_one env p target) (tp_workers target) rl) (\<lambda>rl1.
     andthen (rollback_act env p (tp_epoch target) ''rollback:verify:cluster'' ''cluster''
        (CtlVerify (tp_nodes target) (tp_head target) (tp_epoch target)) rl1)
     (\<lambda>(rl2, o1).
        ret (if so_ok o1 then rl2
             else rl2\<lparr>rl_failed := rl_failed rl2 \<union> set (tp_worker_ids target)\<rparr>, so_ok o1)))"

text \<open>From the stopped candidate on; the result says whether the cluster verified.\<close>

definition rollback_restore ::
    "'s reconf_env \<Rightarrow> reconf_plan \<Rightarrow> topology \<Rightarrow> rollback_locals
       \<Rightarrow> ('s, pyexn, rollback_locals \<times> bool) eff" where
  "rollback_restore env p target rl =
     andthen (for_each (rollback_push_one env p target) (tp_nodes target) (rl, False))
     (\<lambda>(rl1, head_manifest_ok).
     andthen
       (if head_manifest_ok
        then rollback_act env p (tp_epoch target) (''rollback:start:'' @ tp_head_id target)
          (tp_head_id target) (CtlStartHead (tp_head target) (tp_epoch target)) rl1
        else ret (rl1, so_failure ''rollback.head_manifest_failed''))
     (\<lambda>(rl2, head_outcome).
     andthen
       (if so_ok head_outcome
        then rollback_act env p (tp_epoch target) (''rollback:verify:'' @ tp_head_id target)
          (tp_head_id target)
          (CtlVerify [tp_head target] (tp_head target) (tp_epoch target)) rl2
        else ret (rl2, so_failure ''rollback.head_not_started''))
     (\<lambda>(rl3, head_verified).
       if so_ok head_verified then rollback_finish env p target rl3 else ret (rl3, False))))"

definition reconf_rollback ::
    "'s reconf_env \<Rightarrow> reconf_plan \<Rightarrow> reconf_status \<Rightarrow> checkpoint
       \<Rightarrow> ('s, pyexn, checkpoint \<times> reconf_result) eff" where
  "reconf_rollback env p status cp =
     (case with_epoch (rp_expected p) (tp_epoch (rp_desired p) + 1) of
        Inl e \<Rightarrow> throw e
      | Inr target \<Rightarrow>
          let failed = cp_unavailable cp \<union>
                pr_node_id ` {r \<in> set (cp_reports cp).
                  pr_phase r = PhRollback \<and> \<not> so_ok (pr_outcome r)};
              cp1 = cp\<lparr>cp_rollback_status := Some status\<rparr>;
              rl = \<lparr>rl_checkpoint = cp1, rl_reports = cp_reports cp, rl_failed = failed\<rparr>;
              head = tp_head_id (rp_desired p)
          in andthen (re_save env (rp_operation_id p) cp1) (\<lambda>_.
             andthen (rollback_act env p (tp_epoch target) (''rollback:stop:'' @ head) head
                (CtlStop (tp_head (rp_desired p)) (tp_epoch target)) rl)
             (\<lambda>(rl1, candidate_stop).
               if \<not> so_ok candidate_stop
               then ret (rl_checkpoint rl1, rollback_result p status target False rl1)
               else andthen (rollback_restore env p target rl1) (\<lambda>(rl2, known).
                 ret (rl_checkpoint rl2, rollback_result p status target known rl2)))))"

section \<open>Execution and runs\<close>

definition terminal_result ::
    "reconf_plan \<Rightarrow> checkpoint \<Rightarrow> reconf_status \<Rightarrow> topology \<Rightarrow> reconf_result" where
  "terminal_result p cp status t =
     \<lparr>rr_operation_id = rp_operation_id p, rr_status = status, rr_effective_epoch = tp_epoch t,
      rr_effective_head_id = tp_head_id t, rr_reports = cp_reports cp,
      rr_missing_worker_ids = sorted_list_of_set (cp_unavailable cp),
      rr_rollback_performed = False, rr_effective_state_known = True\<rparr>"

definition needs_rollback :: "checkpoint \<Rightarrow> bool" where
  "needs_rollback cp \<longleftrightarrow>
     list_ex (\<lambda>r. pr_phase r \<in> {PhStop, PhPush, PhStart}) (cp_reports cp)"

definition reconf_recover ::
    "'s reconf_env \<Rightarrow> reconf_plan \<Rightarrow> checkpoint \<Rightarrow> reconf_status \<Rightarrow> reconf_status
       \<Rightarrow> ('s, pyexn, checkpoint \<times> reconf_result) eff" where
  "reconf_recover env p cp status stable_status =
     (if cp_new_head_healthy cp then ret (cp, terminal_result p cp stable_status (rp_desired p))
      else if \<not> needs_rollback cp then ret (cp, terminal_result p cp status (rp_expected p))
      else reconf_rollback env p status cp)"

definition recover_from ::
    "'s reconf_env \<Rightarrow> reconf_plan \<Rightarrow> reconf_exn
       \<Rightarrow> ('s, pyexn, checkpoint \<times> reconf_result) eff" where
  "recover_from env p x =
     (case x of
        RcxCancelled cp \<Rightarrow> reconf_recover env p cp RcCancelled RcCancelled
      | RcxPhaseFailed cp \<Rightarrow> reconf_recover env p cp RcFailed RcPartial
      | RcxRaise e \<Rightarrow> throw e)"

text \<open>The checkpoint a run starts from: a new one, saved, or the recorded one of the same plan.\<close>

definition open_checkpoint :: "'s reconf_env \<Rightarrow> reconf_plan \<Rightarrow> ('s, pyexn, checkpoint) eff" where
  "open_checkpoint env p =
     andthen (re_load env (rp_operation_id p)) (\<lambda>loaded.
     case loaded of
       None \<Rightarrow> let cp = new_checkpoint (plan_fingerprint (re_sha256 env) p) in
         andthen (re_save env (rp_operation_id p) cp) (\<lambda>_. ret cp)
     | Some cp \<Rightarrow>
         if cp_fingerprint cp \<noteq> plan_fingerprint (re_sha256 env) p then throw RcmConflict
         else ret cp)"

text \<open>\<open>_execute\<close> from the opened checkpoint on.\<close>

definition reconf_resume ::
    "'s reconf_env \<Rightarrow> reconf_plan \<Rightarrow> checkpoint \<Rightarrow> ('s, pyexn, reconf_result) eff" where
  "reconf_resume env p cp =
     (case cp_result cp of
        Some r \<Rightarrow> ret r
      | None \<Rightarrow>
          andthen
            (case cp_rollback_status cp of
               Some status \<Rightarrow> reconf_rollback env p status cp
             | None \<Rightarrow> on_raise (reconf_forward env p cp) (recover_from env p))
          (\<lambda>(cp1, r).
            andthen (re_save env (rp_operation_id p) (cp1\<lparr>cp_result := Some r\<rparr>)) (\<lambda>_. ret r)))"

definition reconf_execute ::
    "'s reconf_env \<Rightarrow> reconf_plan \<Rightarrow> ('s, pyexn, reconf_result) eff" where
  "reconf_execute env p = andthen (open_checkpoint env p) (reconf_resume env p)"

text \<open>The inner \<open>try\<close>/\<open>finally\<close> of \<open>run\<close>, inside the claimed lease.\<close>

definition reconf_claimed ::
    "'s reconf_env \<Rightarrow> reconf_plan \<Rightarrow> ('s, pyexn, reconf_result) eff" where
  "reconf_claimed env p =
     andthen (re_claim env (rp_operation_id p) (tp_epoch (rp_expected p))) (\<lambda>ok.
       if \<not> ok then throw RcmConflict
       else finally_do (reconf_execute env p) (re_release env (rp_operation_id p)))"

definition reconf_run ::
    "'s reconf_env \<Rightarrow> reconf_plan \<Rightarrow> maintenance_lease \<Rightarrow> maintenance \<Rightarrow> 's
       \<Rightarrow> reconf_result result \<times> maintenance \<times> 's" where
  "reconf_run env p lease m s =
     (if \<not> lease_active m lease then (Inl RcmConflict, m, s)
      else if ml_request_id lease \<noteq> rp_operation_id p then (Inl RcmConflict, m, s)
      else if ml_epoch lease \<noteq> tp_epoch (rp_expected p) then (Inl RcmStale, m, s)
      else (case lease_claim m lease of
          (False, m1) \<Rightarrow> (Inl RcmConflict, m1, s)
        | (True, m1) \<Rightarrow>
            (case reconf_claimed env p s of
               (r, s1) \<Rightarrow> (r, lease_release_claim m1 lease, s1))))"

section \<open>Traces of a run\<close>

datatype reconf_event =
    RevSave string checkpoint
  | RevAdvance int
  | RevCall control_call control_return

text \<open>The same environment, with a trace of what it did successfully.\<close>

definition logged_reconf :: "'s reconf_env \<Rightarrow> ('s \<times> reconf_event list) reconf_env" where
  "logged_reconf env =
     \<lparr>re_claim = (\<lambda>op e (s, l). case re_claim env op e s of (r, s') \<Rightarrow> (r, s', l)),
      re_release = (\<lambda>op (s, l). case re_release env op s of (r, s') \<Rightarrow> (r, s', l)),
      re_advance = (\<lambda>e (s, l). case re_advance env e s of
          (Inl x, s') \<Rightarrow> (Inl x, s', l) | (Inr u, s') \<Rightarrow> (Inr u, s', l @ [RevAdvance e])),
      re_load = (\<lambda>op (s, l). case re_load env op s of (r, s') \<Rightarrow> (r, s', l)),
      re_save = (\<lambda>op cp (s, l). case re_save env op cp s of
          (Inl x, s') \<Rightarrow> (Inl x, s', l) | (Inr u, s') \<Rightarrow> (Inr u, s', l @ [RevSave op cp])),
      re_control = (\<lambda>c (s, l). case re_control env c s of (r, s') \<Rightarrow> (r, s', l @ [RevCall c r])),
      re_cancelled = (\<lambda>(s, l). case re_cancelled env s of (r, s') \<Rightarrow> (r, s', l)),
      re_sha256 = re_sha256 env\<rparr>"

fun call_epoch :: "control_call \<Rightarrow> int" where
  "call_epoch (CtlPreflight n e) = e"
| "call_epoch (CtlStop n e) = e"
| "call_epoch (CtlPush n d e) = e"
| "call_epoch (CtlStartHead n e) = e"
| "call_epoch (CtlJoin n h e) = e"
| "call_epoch (CtlVerify ns h e) = e"

fun call_mutates :: "control_call \<Rightarrow> bool" where
  "call_mutates (CtlStop n e) = True"
| "call_mutates (CtlPush n d e) = True"
| "call_mutates (CtlStartHead n e) = True"
| "call_mutates c = False"

text \<open>A step is open in a checkpoint when nothing there says that it was carried out.\<close>

definition step_open :: "checkpoint \<Rightarrow> string \<Rightarrow> bool" where
  "step_open cp k \<longleftrightarrow>
     (if take 9 k = ''rollback:''
      then k @ '':ok'' \<notin> cp_completed cp \<and> k @ '':failed'' \<notin> cp_completed cp
      else k \<notin> cp_completed cp)"

definition inflight_open :: "checkpoint \<Rightarrow> bool" where
  "inflight_open cp \<longleftrightarrow> (\<forall>k. cp_inflight cp = Some k \<longrightarrow> step_open cp k)"

text \<open>The desired head may start: the expected nodes are down and the head has its manifest.\<close>

definition cluster_down :: "reconf_plan \<Rightarrow> checkpoint \<Rightarrow> bool" where
  "cluster_down p cp \<longleftrightarrow>
     list_all (\<lambda>n. step_key PhStop n \<in> cp_completed cp) (tp_node_ids (rp_expected p)) \<and>
     step_key PhPush (tp_head_id (rp_desired p)) \<in> cp_completed cp"

fun start_allowed :: "reconf_plan \<Rightarrow> control_call \<Rightarrow> checkpoint \<Rightarrow> bool" where
  "start_allowed p (CtlStartHead n e) cp \<longleftrightarrow>
     (if e = desired_epoch p then cluster_down p cp
      else list_ex (\<lambda>k. k \<in> cp_completed cp)
        [''rollback:stop:'' @ tp_head_id (rp_desired p) @ '':ok''])"
| "start_allowed p c cp \<longleftrightarrow> True"

text \<open>
  The step an adapter call carries out: at the epoch of the plan a step of the forward phases, one
  epoch later a step of the rollback, each with the nodes and the key that belong to it.
\<close>

fun step_of :: "reconf_plan \<Rightarrow> control_call \<Rightarrow> string \<Rightarrow> bool" where
  "step_of p (CtlPreflight n e) k \<longleftrightarrow> e = desired_epoch p \<and> k = ''preflight:'' @ node_id n \<and>
     n \<in> set (tp_nodes (rp_expected p)) \<union> set (tp_nodes (rp_desired p))"
| "step_of p (CtlStop n e) k \<longleftrightarrow>
     (if e = desired_epoch p then k = ''stop:'' @ node_id n \<and> n \<in> set (tp_nodes (rp_expected p))
      else k = ''rollback:stop:'' @ node_id n \<and> n = tp_head (rp_desired p))"
| "step_of p (CtlPush n d e) k \<longleftrightarrow>
     (if e = desired_epoch p then k = ''push:'' @ node_id n \<and> n \<in> set (tp_nodes (rp_desired p))
      else k = ''rollback:push:'' @ node_id n \<and> n \<in> set (tp_nodes (rp_expected p)))"
| "step_of p (CtlStartHead n e) k \<longleftrightarrow>
     (if e = desired_epoch p then k = ''start:'' @ node_id n \<and> n = tp_head (rp_desired p)
      else k = ''rollback:start:'' @ node_id n \<and> n = tp_head (rp_expected p))"
| "step_of p (CtlJoin n h e) k \<longleftrightarrow>
     (if e = desired_epoch p
      then k = ''join:'' @ node_id n \<and> n \<in> set (tp_nodes (rp_desired p)) \<and> h = tp_head (rp_desired p)
      else k = ''rollback:join:'' @ node_id n \<and> n \<in> set (tp_nodes (rp_expected p)) \<and> h = tp_head (rp_expected p))"
| "step_of p (CtlVerify ns h e) k \<longleftrightarrow>
     (if e = desired_epoch p
      then h = tp_head (rp_desired p) \<and>
        (k = ''verify:head'' \<and> ns = [h] \<or> k = ''verify:cluster'' \<and> ns = tp_nodes (rp_desired p))
      else h = tp_head (rp_expected p) \<and>
        (k = ''rollback:verify:'' @ node_id h \<and> ns = [h] \<or>
         k = ''rollback:verify:cluster'' \<and> ns = tp_nodes (rp_expected p)))"

lemma topology_node_Inr: "topology_node t nid = Inr n \<longleftrightarrow> List.find (\<lambda>n. node_id n = nid) (tp_nodes t) = Some n"
  by (simp add: topology_node_def split: option.split)

lemma topology_node_found: "topology_node t nid = Inr n \<Longrightarrow> node_id n = nid \<and> n \<in> set (tp_nodes t)"
  by (auto simp: topology_node_Inr find_Some_iff)

lemma reconf_node_found:
  "reconf_node p nid = Inr n \<Longrightarrow> node_id n = nid \<and> n \<in> set (tp_nodes (rp_expected p)) \<union> set (tp_nodes (rp_desired p))"
  by (auto simp: reconf_node_def dest: topology_node_found split: sum.splits)

lemma forward_steps [simp]:
  "reconf_node p nid = Inr n \<Longrightarrow> step_of p (CtlPreflight n (desired_epoch p)) (step_key PhPreflight nid)"
  "topology_node (rp_expected p) nid = Inr n \<Longrightarrow> step_of p (CtlStop n (desired_epoch p)) (step_key PhStop nid)"
  "topology_node (rp_desired p) nid = Inr n \<Longrightarrow> step_of p (CtlPush n d (desired_epoch p)) (step_key PhPush nid)"
  "topology_node (rp_desired p) nid = Inr n \<Longrightarrow>
     step_of p (CtlJoin n (tp_head (rp_desired p)) (desired_epoch p)) (step_key PhJoin nid)"
  "step_of p (CtlStartHead (tp_head (rp_desired p)) (desired_epoch p)) (step_key PhStart (tp_head_id (rp_desired p)))"
  "step_of p (CtlVerify [tp_head (rp_desired p)] (tp_head (rp_desired p)) (desired_epoch p)) (step_key PhVerify ''head'')"
  "step_of p (CtlVerify (tp_nodes (rp_desired p)) (tp_head (rp_desired p)) (desired_epoch p)) (step_key PhVerify ''cluster'')"
  by (auto simp: step_key_def tp_head_id_def dest: reconf_node_found topology_node_found)

definition rolled_back_to :: "reconf_plan \<Rightarrow> topology \<Rightarrow> bool" where
  "rolled_back_to p target \<longleftrightarrow> tp_epoch target = desired_epoch p + 1 \<and>
     tp_head target = tp_head (rp_expected p) \<and> tp_nodes target = tp_nodes (rp_expected p)"

lemma rolled_back_epoch: "rolled_back_to p target \<Longrightarrow> tp_epoch target = desired_epoch p + 1"
  by (simp add: rolled_back_to_def)

lemma rollback_steps [simp]:
  "k = ''rollback:stop:'' @ tp_head_id (rp_desired p) \<Longrightarrow>
     step_of p (CtlStop (tp_head (rp_desired p)) (desired_epoch p + 1)) k"
  "n \<in> set (tp_nodes (rp_expected p)) \<Longrightarrow> k = ''rollback:push:'' @ node_id n \<Longrightarrow>
     step_of p (CtlPush n d (desired_epoch p + 1)) k"
  "n \<in> set (tp_nodes (rp_expected p)) \<Longrightarrow> k = ''rollback:join:'' @ node_id n \<Longrightarrow>
     step_of p (CtlJoin n (tp_head (rp_expected p)) (desired_epoch p + 1)) k"
  "k = ''rollback:start:'' @ tp_head_id (rp_expected p) \<Longrightarrow>
     step_of p (CtlStartHead (tp_head (rp_expected p)) (desired_epoch p + 1)) k"
  "k = ''rollback:verify:'' @ tp_head_id (rp_expected p) \<Longrightarrow>
     step_of p (CtlVerify [tp_head (rp_expected p)] (tp_head (rp_expected p)) (desired_epoch p + 1)) k"
  "k = ''rollback:verify:cluster'' \<Longrightarrow>
     step_of p (CtlVerify (tp_nodes (rp_expected p)) (tp_head (rp_expected p)) (desired_epoch p + 1)) k"
  by (simp_all add: tp_head_id_def)

declare step_of.simps [simp del]

text \<open>
  The discipline of a run of the plan \<open>p\<close> that resumed with the steps \<open>done\<close>: an adapter call comes
  right after the save of a checkpoint that names the step it carries out as in flight, a mutating one after the journal
  was moved to its epoch; every saved checkpoint keeps the steps done and names an open step; and
  the journal is only moved to the two epochs of the plan.
\<close>

fun disciplined :: "reconf_plan \<Rightarrow> string set \<Rightarrow> reconf_event list \<Rightarrow> reconf_event \<Rightarrow> bool" where
  "disciplined p done h (RevCall c r) \<longleftrightarrow>
     (\<exists>cp. h \<noteq> [] \<and> last h = RevSave (rp_operation_id p) cp \<and>
       (\<exists>k. cp_inflight cp = Some k \<and> step_of p c k) \<and> start_allowed p c cp) \<and>
     call_epoch c \<in> {desired_epoch p, desired_epoch p + 1} \<and>
     (call_mutates c \<longrightarrow> RevAdvance (call_epoch c) \<in> set h)"
| "disciplined p done h (RevSave op cp) \<longleftrightarrow>
     op = rp_operation_id p \<and> done \<subseteq> cp_completed cp \<and> inflight_open cp"
| "disciplined p done h (RevAdvance e) \<longleftrightarrow> e \<in> {desired_epoch p, desired_epoch p + 1}"

text \<open>The rules below run one operation and hand over what it appended to the trace.\<close>

lemma poll_then [triple_intros]:
  "(\<And>c. triple (on_trace J) (k c) Q E) \<Longrightarrow>
   triple (on_trace J) (andthen (poll_token (logged_reconf env)) k) Q E"
  by (rule triple_andthen [where R = "\<lambda>_. on_trace J"])
    (auto simp: triple_def poll_token_def logged_reconf_def split: prod.splits)

lemma load_then:
  "(\<And>\<sigma> e. on_trace J \<sigma> \<Longrightarrow> E e \<sigma>) \<Longrightarrow> (\<And>x. triple (on_trace J) (k x) Q E) \<Longrightarrow>
   triple (on_trace J) (andthen (re_load (logged_reconf env) op) k) Q E"
  by (rule triple_andthen [where R = "\<lambda>_. on_trace J"])
    (auto simp: triple_def on_trace_def logged_reconf_def split: prod.splits sum.splits)

lemma save_trace:
  "(\<And>\<sigma> e. on_trace J \<sigma> \<Longrightarrow> E e \<sigma>) \<Longrightarrow>
   triple (on_trace J) (re_save (logged_reconf env) op cp)
     (\<lambda>_. on_trace (appended J (RevSave op cp))) E"
  by (auto simp: triple_def on_trace_def appended_def logged_reconf_def split: prod.splits sum.splits)

lemma advance_trace:
  "(\<And>\<sigma> e. on_trace J \<sigma> \<Longrightarrow> E e \<sigma>) \<Longrightarrow>
   triple (on_trace J) (re_advance (logged_reconf env) e)
     (\<lambda>_. on_trace (appended J (RevAdvance e))) E"
  by (auto simp: triple_def on_trace_def appended_def logged_reconf_def split: prod.splits sum.splits)

lemma control_trace:
  "triple (on_trace J) (call_control (logged_reconf env) c)
     (\<lambda>r. on_trace (appended J (RevCall c r))) E"
  by (auto simp: triple_def on_trace_def appended_def call_control_def logged_reconf_def
      split: prod.splits sum.splits)

lemma lift_py_triple: "triple P m Q (\<lambda>e. E (RcxRaise e)) \<Longrightarrow> triple P (lift_py m) Q E"
  unfolding lift_py_def by (rule triple_on_raise) (auto intro: triple_throw)

lemma advance_to_trace:
  "(\<And>\<sigma> e. on_trace J \<sigma> \<Longrightarrow> E (RcxRaise e) \<sigma>) \<Longrightarrow>
   triple (on_trace J) (lift_py (re_advance (logged_reconf env) e))
     (\<lambda>_. on_trace (appended J (RevAdvance e))) E"
  by (rule lift_py_triple [OF advance_trace]) auto

lemma save_then:
  "(\<And>\<sigma> e. on_trace J \<sigma> \<Longrightarrow> E e \<sigma>) \<Longrightarrow>
   (\<And>u. triple (on_trace (appended J (RevSave op cp))) (k u) Q E) \<Longrightarrow>
   triple (on_trace J) (andthen (re_save (logged_reconf env) op cp) k) Q E"
  by (rule triple_andthen [OF save_trace]) auto

lemma save_to_then:
  "(\<And>\<sigma> e. on_trace J \<sigma> \<Longrightarrow> E (RcxRaise e) \<sigma>) \<Longrightarrow>
   (\<And>u. triple (on_trace (appended J (RevSave (rp_operation_id p) cp))) (k u) Q E) \<Longrightarrow>
   triple (on_trace J) (andthen (save_to (logged_reconf env) p cp) k) Q E"
  unfolding save_to_def by (rule triple_andthen [OF lift_py_triple [OF save_trace]]) auto

lemma check_cancelled_then:
  "(\<And>\<sigma>. on_trace J \<sigma> \<Longrightarrow> E (RcxCancelled cp) \<sigma>) \<Longrightarrow> (\<And>u. triple (on_trace J) (k u) Q E) \<Longrightarrow>
   triple (on_trace J) (andthen (check_cancelled (logged_reconf env) cp) k) Q E"
  by (rule triple_andthen [where R = "\<lambda>_. on_trace J"])
    (auto simp: check_cancelled_def intro!: triple_intros)

lemma call_outcome_then:
  "(\<And>\<sigma> e. on_trace J \<sigma> \<Longrightarrow> E (RcxRaise e) \<sigma>) \<Longrightarrow> (\<And>oc. triple (on_trace J) (k oc) Q E) \<Longrightarrow>
   triple (on_trace J) (andthen (call_outcome (logged_reconf env) r) k) Q E"
proof (rule triple_andthen [where R = "\<lambda>_. on_trace J"])
  assume e: "\<And>\<sigma> e. on_trace J \<sigma> \<Longrightarrow> E (RcxRaise e) \<sigma>"
  have "triple (on_trace J)
      (case r of
          CtlRaises e \<Rightarrow>
            if is_exception e then
              andthen (poll_token (logged_reconf env)) (\<lambda>c.
                ret (if c then (so_failure ''cancelled'', True)
                     else (so_failure ''adapter.exception'', False)))
            else throw (RcxRaise e)
        | CtlResult a \<Rightarrow> ret (result_outcome a, ar_status a = ActCancelled)
        | CtlOther \<Rightarrow> ret (so_failure ''adapter.invalid_result'', False))
      (\<lambda>_. on_trace J) E"
    by (cases r) (auto intro!: triple_intros e)
  then show "triple (on_trace J) (call_outcome (logged_reconf env) r) (\<lambda>_. on_trace J) E"
    unfolding call_outcome_def by (rule triple_andthen) (auto intro!: triple_intros)
qed auto

section \<open>Every step keeps the discipline\<close>

abbreviation obeys :: "reconf_plan \<Rightarrow> string set \<Rightarrow> reconf_event list \<Rightarrow> bool" where
  "obeys p D \<equiv> preceded (disciplined p D)"

text \<open>What a forward step may change of a checkpoint.\<close>

definition advanced_from :: "checkpoint \<Rightarrow> checkpoint \<Rightarrow> bool" where
  "advanced_from cp cp' \<longleftrightarrow>
     cp_completed cp \<subseteq> cp_completed cp' \<and> inflight_open cp' \<and>
     cp_fingerprint cp' = cp_fingerprint cp \<and> cp_rollback_status cp' = cp_rollback_status cp \<and>
     cp_result cp' = cp_result cp"

definition called_from :: "checkpoint \<Rightarrow> string \<Rightarrow> checkpoint \<Rightarrow> step_outcome \<Rightarrow> bool" where
  "called_from cp key cp' o1 \<longleftrightarrow>
     advanced_from cp cp' \<and> cp_unavailable cp' = cp_unavailable cp \<and>
     (so_ok o1 \<longrightarrow> key \<in> cp_completed cp')"

fun thrown_from :: "checkpoint \<Rightarrow> reconf_exn \<Rightarrow> bool" where
  "thrown_from cp (RcxRaise e) = True"
| "thrown_from cp (RcxCancelled cp') = advanced_from cp cp'"
| "thrown_from cp (RcxPhaseFailed cp') = advanced_from cp cp'"

lemma advanced_refl: "inflight_open cp \<Longrightarrow> advanced_from cp cp"
  by (simp add: advanced_from_def)

lemma advanced_trans: "advanced_from a b \<Longrightarrow> advanced_from b c \<Longrightarrow> advanced_from a c"
  by (auto simp: advanced_from_def)

lemma thrown_trans: "advanced_from a b \<Longrightarrow> thrown_from b x \<Longrightarrow> thrown_from a x"
  by (cases x) (auto intro: advanced_trans)

lemma so_ok_simps [simp]: "so_ok so_success" "\<not> so_ok (so_failure c)"
  by (simp_all add: so_success_def so_failure_def)

lemma step_key_not_rollback: "ph \<noteq> PhRollback \<Longrightarrow> take 9 (step_key ph s) \<noteq> ''rollback:''"
  by (cases ph) (simp_all add: step_key_def)

lemma inflight_open_None [simp]: "cp_inflight cp = None \<Longrightarrow> inflight_open cp"
  by (simp add: inflight_open_def)

definition step_mutates :: "reconf_phase \<Rightarrow> bool" where
  "step_mutates ph \<longleftrightarrow> ph = PhStop \<or> ph = PhPush \<or> ph = PhStart"

lemma reconf_call_trace:
  assumes ph: "ph \<noteq> PhRollback"
    and act: "\<And>c. action = Inr c \<Longrightarrow> call_epoch c = desired_epoch p \<and>
      (call_mutates c \<longrightarrow> step_mutates ph) \<and> step_of p c (step_key ph suffix) \<and>
      (\<forall>cp'. cp_completed cp' = cp_completed cp \<longrightarrow> start_allowed p c cp')"
    and D: "D \<subseteq> cp_completed cp" and op: "inflight_open cp"
  shows "triple (on_trace (obeys p D))
    (reconf_call (logged_reconf env) p ph nid suffix action cp)
    (\<lambda>(cp', o1) \<sigma>. on_trace (obeys p D) \<sigma> \<and> called_from cp (step_key ph suffix) cp' o1)
    (\<lambda>x \<sigma>. on_trace (obeys p D) \<sigma> \<and> thrown_from cp x)"
    (is "triple ?I _ ?Q ?E")
proof -
  let ?k = "step_key ph suffix" and ?e = "desired_epoch p"
  let ?J1 = "\<lambda>l. obeys p D l \<and> (step_mutates ph \<longrightarrow> RevAdvance ?e \<in> set l)"
  let ?cp1 = "cp\<lparr>cp_inflight := Some ?k\<rparr>"
  let ?J2 = "\<lambda>l. ?J1 l \<and> l \<noteq> [] \<and> last l = RevSave (rp_operation_id p) ?cp1"
  have refl: "advanced_from cp cp" using op by (rule advanced_refl)
  have adv: "triple ?I
      (if ph = PhStop \<or> ph = PhPush \<or> ph = PhStart
       then lift_py (re_advance (logged_reconf env) (tp_epoch (rp_desired p))) else ret ())
      (\<lambda>_. on_trace ?J1) ?E"
    by (auto simp: step_mutates_def on_trace_def appended_def desired_epoch_def
        intro!: triple_ret triple_conseq [OF
          advance_to_trace [where J = "obeys p D" and E = ?E]])
  have run: "triple (on_trace ?J2) (run_action (logged_reconf env) action) (\<lambda>_. ?I) ?E"
  proof (cases action)
    case (Inl e)
    then show ?thesis by (auto simp: run_action_def intro!: triple_ret simp: on_trace_def)
  next
    case (Inr c)
    have "disciplined p D l (RevCall c r)" if "?J2 l" for l r
      using that act [OF Inr] by auto
    then show ?thesis unfolding Inr run_action_def sum.case
      by (intro triple_conseq [OF control_trace [where J = ?J2 and E = ?E]])
        (auto simp: on_trace_def appended_def simp del: disciplined.simps)
  qed
  have rest: "triple ?I (andthen (call_outcome (logged_reconf env) r)
      (settle_call (logged_reconf env) p ph nid ?k ?cp1)) ?Q ?E" for r
    unfolding settle_call_def Let_def using D op
    by (intro call_outcome_then save_to_then triple_if triple_throw triple_ret)
      (auto simp: on_trace_def appended_def add_report_def called_from_def advanced_from_def)
  have save1: "triple (on_trace ?J1) (save_to (logged_reconf env) p ?cp1) (\<lambda>_. on_trace ?J2) ?E"
    if "?k \<notin> cp_completed cp"
    unfolding save_to_def using that D op
    by (intro triple_conseq [OF lift_py_triple
          [OF save_trace [where J = ?J1 and E = "\<lambda>e. ?E (RcxRaise e)"]]])
      (auto simp: on_trace_def appended_def inflight_open_def step_open_def step_key_not_rollback ph)
  show ?thesis
    unfolding reconf_call_def Let_def
  proof (intro check_cancelled_then triple_if)
    show "?E (RcxCancelled cp) \<sigma>" if "on_trace (obeys p D) \<sigma>" for \<sigma>
      using that refl by simp
    show "triple ?I (ret (cp, so_success)) ?Q ?E" if "?k \<in> cp_completed cp"
      using that refl by (auto intro!: triple_ret simp: called_from_def)
  next
    fix u
    assume "?k \<notin> cp_completed cp" "cp_inflight cp \<noteq> None"
    show "triple ?I
       (andthen (save_to (logged_reconf env) p
            (add_report (cp\<lparr>cp_inflight := None\<rparr>) \<lparr>pr_phase = ph, pr_node_id = nid,
               pr_outcome = so_failure ''step.outcome_unknown''\<rparr>))
         (\<lambda>_. ret (add_report (cp\<lparr>cp_inflight := None\<rparr>) \<lparr>pr_phase = ph, pr_node_id = nid,
               pr_outcome = so_failure ''step.outcome_unknown''\<rparr>,
             so_failure ''step.outcome_unknown''))) ?Q ?E"
      using D by (intro save_to_then triple_ret)
        (auto simp: on_trace_def appended_def add_report_def called_from_def advanced_from_def)
  next
    fix u
    assume "?k \<notin> cp_completed cp"
    note save1 = save1 [OF this]
    show "triple ?I (execute_step (logged_reconf env) p ph nid ?k action cp) ?Q ?E"
      unfolding execute_step_def Let_def
      by (rule triple_andthen [OF adv], rule triple_andthen [OF save1],
          rule triple_andthen [OF run], rule rest)
  qed
qed

lemma reconf_call_then:
  assumes "ph \<noteq> PhRollback"
    and "\<And>c. action = Inr c \<Longrightarrow> call_epoch c = desired_epoch p \<and>
      (call_mutates c \<longrightarrow> step_mutates ph) \<and> step_of p c (step_key ph suffix) \<and>
      (\<forall>cp'. cp_completed cp' = cp_completed cp \<longrightarrow> start_allowed p c cp')"
    and "D \<subseteq> cp_completed cp" and "inflight_open cp"
    and k: "\<And>cp' o1. called_from cp (step_key ph suffix) cp' o1 \<Longrightarrow>
      triple (on_trace (obeys p D)) (k (cp', o1)) Q E"
    and e: "\<And>\<sigma> x. on_trace (obeys p D) \<sigma> \<Longrightarrow> thrown_from cp x \<Longrightarrow> E x \<sigma>"
  shows "triple (on_trace (obeys p D))
    (andthen (reconf_call (logged_reconf env) p ph nid suffix action cp) k) Q E"
proof (rule triple_andthen)
  show "triple (on_trace (obeys p D)) (reconf_call (logged_reconf env) p ph nid suffix action cp)
      (\<lambda>r \<sigma>. on_trace (obeys p D) \<sigma> \<and> called_from cp (step_key ph suffix) (fst r) (snd r)) E"
    by (rule triple_conseq [OF reconf_call_trace [OF assms(1-4)]]) (auto intro: e)
  show "triple (\<lambda>\<sigma>. on_trace (obeys p D) \<sigma> \<and> called_from cp (step_key ph suffix) (fst r) (snd r))
      (k r) Q E" for r
    using k [of "fst r" "snd r"] by (auto intro: triple_pure)
qed

text \<open>
  Between the phases: the trace obeys the discipline, and the checkpoint extends the one the run
  resumed from.
\<close>

definition phase_pre :: "reconf_plan \<Rightarrow> string set \<Rightarrow> checkpoint \<Rightarrow> checkpoint \<Rightarrow> bool" where
  "phase_pre p D cp0 cp \<longleftrightarrow> D \<subseteq> cp_completed cp \<and> advanced_from cp0 cp"

lemma phase_pre_called:
  "phase_pre p D cp0 cp \<Longrightarrow> called_from cp key cp' o1 \<Longrightarrow> phase_pre p D cp0 cp'"
  by (auto simp: phase_pre_def called_from_def advanced_from_def)

lemma phase_pre_open: "phase_pre p D cp0 cp \<Longrightarrow> inflight_open cp"
  by (simp add: phase_pre_def advanced_from_def)

lemma phase_pre_thrown: "phase_pre p D cp0 cp \<Longrightarrow> thrown_from cp x \<Longrightarrow> thrown_from cp0 x"
  by (auto simp: phase_pre_def intro: thrown_trans)

lemma phase_pre_unavailable [simp]:
  "phase_pre p D cp0 (cp\<lparr>cp_unavailable := u\<rparr>) \<longleftrightarrow> phase_pre p D cp0 cp"
  "phase_pre p D cp0 (cp\<lparr>cp_new_head_healthy := b\<rparr>) \<longleftrightarrow> phase_pre p D cp0 cp"
  by (auto simp: phase_pre_def advanced_from_def inflight_open_def step_open_def)

lemmas phase_facts = phase_pre_called phase_pre_open phase_pre_thrown

definition phase_exn :: "reconf_plan \<Rightarrow> string set \<Rightarrow> checkpoint \<Rightarrow> reconf_exn
    \<Rightarrow> 's \<times> reconf_event list \<Rightarrow> bool" where
  "phase_exn p D cp0 x \<sigma> \<longleftrightarrow> on_trace (obeys p D) \<sigma> \<and> D \<subseteq> cp_completed cp0 \<and> thrown_from cp0 x"

text \<open>A save of a checkpoint that keeps the discipline.\<close>

lemma phase_save_then:
  assumes "phase_pre p D cp0 cp" and "D \<subseteq> cp_completed cp0"
    and "triple (on_trace (obeys p D)) m Q (phase_exn p D cp0)"
  shows "triple (on_trace (obeys p D)) (andthen (save_to (logged_reconf env) p cp) (\<lambda>_. m)) Q
    (phase_exn p D cp0)"
proof (rule save_to_then)
  show "triple (on_trace (appended (obeys p D) (RevSave (rp_operation_id p) cp))) m Q
      (phase_exn p D cp0)"
    using assms(1) by (intro triple_pre [OF assms(3)])
      (auto simp: on_trace_def appended_def phase_pre_def advanced_from_def)
qed (use assms(2) in \<open>simp add: phase_exn_def\<close>)

lemma phase_call_then:
  assumes "phase_pre p D cp0 cp" and "D \<subseteq> cp_completed cp0" and "ph \<noteq> PhRollback"
    and "\<And>c. action = Inr c \<Longrightarrow> call_epoch c = desired_epoch p \<and>
      (call_mutates c \<longrightarrow> step_mutates ph) \<and> step_of p c (step_key ph suffix) \<and>
      (\<forall>cp'. cp_completed cp' = cp_completed cp \<longrightarrow> start_allowed p c cp')"
    and "\<And>cp' o1. phase_pre p D cp0 cp' \<Longrightarrow> called_from cp (step_key ph suffix) cp' o1 \<Longrightarrow>
      triple (on_trace (obeys p D)) (k (cp', o1)) Q (phase_exn p D cp0)"
  shows "triple (on_trace (obeys p D))
    (andthen (reconf_call (logged_reconf env) p ph nid suffix action cp) k) Q (phase_exn p D cp0)"
proof (intro reconf_call_then assms(3,4))
  from assms(1) show "D \<subseteq> cp_completed cp" and "inflight_open cp"
    by (simp_all add: phase_pre_def phase_pre_open [OF assms(1)])
  show "triple (on_trace (obeys p D)) (k (cp', o1)) Q (phase_exn p D cp0)"
    if "called_from cp (step_key ph suffix) cp' o1" for cp' o1
    using that by (intro assms(5) phase_pre_called [OF assms(1)])
  show "phase_exn p D cp0 x \<sigma>" if "on_trace (obeys p D) \<sigma>" "thrown_from cp x" for \<sigma> x
    using that assms(2) phase_pre_thrown [OF assms(1)] by (simp add: phase_exn_def)
qed

lemma phase_throw:
  "phase_pre p D cp0 cp \<Longrightarrow> D \<subseteq> cp_completed cp0 \<Longrightarrow>
   triple (on_trace (obeys p D)) (throw (RcxPhaseFailed cp)) Q (phase_exn p D cp0)"
  by (rule triple_throw) (simp add: phase_exn_def phase_pre_def)

definition critical_nodes :: "reconf_plan \<Rightarrow> string set" where
  "critical_nodes p = set (tp_node_ids (rp_expected p)) \<union> {tp_head_id (rp_desired p)}"

lemma preflight_one_trace:
  assumes "phase_pre p D cp0 (fst acc)" and "D \<subseteq> cp_completed cp0"
    and "snd acc = cp_unavailable (fst acc)" and "S \<inter> snd acc = {}" and "nid \<notin> S"
  shows "triple (on_trace (obeys p D)) (preflight_one (logged_reconf env) p nid acc)
    (\<lambda>acc' \<sigma>. on_trace (obeys p D) \<sigma> \<and> phase_pre p D cp0 (fst acc') \<and>
       snd acc' = cp_unavailable (fst acc') \<and>
       (S \<union> ({nid} \<inter> critical_nodes p)) \<inter> snd acc' = {})
    (phase_exn p D cp0)"
  unfolding preflight_one_def critical_nodes_def [symmetric] Let_def using assms
  by (intro phase_call_then)
    (auto simp: result_simps called_from_def split: prod.splits
      intro!: triple_if phase_save_then phase_throw triple_ret)

lemma reconf_preflight_trace:
  assumes "phase_pre p D cp0 cp" and "D \<subseteq> cp_completed cp0"
  shows "triple (on_trace (obeys p D)) (reconf_preflight (logged_reconf env) p cp)
    (\<lambda>cp' \<sigma>. on_trace (obeys p D) \<sigma> \<and> phase_pre p D cp0 cp' \<and>
       critical_nodes p \<inter> cp_unavailable cp' = {})
    (phase_exn p D cp0)"
proof -
  let ?ns = "fromkeys (tp_node_ids (rp_expected p) @ tp_node_ids (rp_desired p))"
  let ?I = "\<lambda>ys acc \<sigma>. on_trace (obeys p D) \<sigma> \<and> phase_pre p D cp0 (fst acc) \<and>
    snd acc = cp_unavailable (fst acc) \<and> (set ys \<inter> critical_nodes p) \<inter> snd acc = {}"
  have crit: "critical_nodes p \<subseteq> set ?ns"
    by (auto simp: critical_nodes_def tp_node_ids_def)
  have step: "triple (?I ys acc) (preflight_one (logged_reconf env) p x acc) (?I (ys @ [x]))
      (phase_exn p D cp0)" if xs: "?ns = ys @ x # zs" for ys x zs acc
  proof (rule triple_pure)
    assume f: "phase_pre p D cp0 (fst acc) \<and> snd acc = cp_unavailable (fst acc) \<and>
      (set ys \<inter> critical_nodes p) \<inter> snd acc = {}"
    have "distinct (ys @ x # zs)" using distinct_fromkeys [of "tp_node_ids (rp_expected p)
      @ tp_node_ids (rp_desired p)"] unfolding xs .
    then have "x \<notin> set ys \<inter> critical_nodes p" by auto
    with f assms(2) preflight_one_trace [of p D cp0 acc "set ys \<inter> critical_nodes p" x env]
    show "triple (on_trace (obeys p D)) (preflight_one (logged_reconf env) p x acc)
        (?I (ys @ [x])) (phase_exn p D cp0)"
      by (intro triple_conseq [OF preflight_one_trace [of p D cp0 acc "set ys \<inter> critical_nodes p" x env]])
        (auto simp: Int_Un_distrib2)
  qed
  show ?thesis
    unfolding reconf_preflight_def
  proof (rule triple_andthen)
    show "triple (on_trace (obeys p D)) (for_each (preflight_one (logged_reconf env) p) ?ns
        (cp, cp_unavailable cp)) (?I ?ns) (phase_exn p D cp0)"
      using assms by (intro triple_pre [OF triple_for_each_split [OF step]]) auto
    show "triple (?I ?ns acc) (ret (fst acc)) (\<lambda>cp' \<sigma>. on_trace (obeys p D) \<sigma> \<and>
        phase_pre p D cp0 cp' \<and> critical_nodes p \<inter> cp_unavailable cp' = {})
        (phase_exn p D cp0)" for acc
      by (rule triple_ret) (use crit in \<open>auto simp: Int_absorb1\<close>)
  qed
qed

definition stopped_upto :: "string list \<Rightarrow> checkpoint \<Rightarrow> bool" where
  "stopped_upto ns cp \<longleftrightarrow> (\<forall>n \<in> set ns. step_key PhStop n \<in> cp_completed cp)"

lemma reconf_stop_trace:
  assumes "phase_pre p D cp0 cp" and "D \<subseteq> cp_completed cp0"
    and "critical_nodes p \<inter> cp_unavailable cp = {}"
  shows "triple (on_trace (obeys p D)) (reconf_stop (logged_reconf env) p cp)
    (\<lambda>cp' \<sigma>. on_trace (obeys p D) \<sigma> \<and> phase_pre p D cp0 cp' \<and>
       critical_nodes p \<inter> cp_unavailable cp' = {} \<and> stopped_upto (tp_node_ids (rp_expected p)) cp')
    (phase_exn p D cp0)"
proof -
  let ?I = "\<lambda>ys c \<sigma>. on_trace (obeys p D) \<sigma> \<and> phase_pre p D cp0 c \<and>
    critical_nodes p \<inter> cp_unavailable c = {} \<and> stopped_upto ys c"
  have step: "triple (?I ys c) (stop_one (logged_reconf env) p x c) (?I (ys @ [x])) (phase_exn p D cp0)"
    if xs: "tp_node_ids (rp_expected p) = ys @ x # zs" for ys x zs c
  proof (rule triple_pure)
    assume f: "phase_pre p D cp0 c \<and> critical_nodes p \<inter> cp_unavailable c = {} \<and> stopped_upto ys c"
    have "x \<in> critical_nodes p" by (simp add: critical_nodes_def xs)
    with f have "x \<notin> cp_unavailable c" by auto
    with f assms(2) show "triple (on_trace (obeys p D)) (stop_one (logged_reconf env) p x c)
        (?I (ys @ [x])) (phase_exn p D cp0)"
      unfolding stop_one_def
      by (simp, intro phase_call_then)
        (auto simp: result_simps called_from_def advanced_from_def stopped_upto_def step_mutates_def
          split: prod.splits intro!: triple_if phase_throw triple_ret)
  qed
  show ?thesis unfolding reconf_stop_def using assms(1,3)
    by (intro triple_conseq [OF triple_for_each_split [of "tp_node_ids (rp_expected p)" ?I, OF step]])
      (auto simp: stopped_upto_def)
qed

lemma reconf_push_trace:
  assumes "phase_pre p D cp0 cp" and "D \<subseteq> cp_completed cp0"
    and "critical_nodes p \<inter> cp_unavailable cp = {}"
    and "stopped_upto (tp_node_ids (rp_expected p)) cp"
  shows "triple (on_trace (obeys p D)) (reconf_push (logged_reconf env) p cp)
    (\<lambda>cp' \<sigma>. on_trace (obeys p D) \<sigma> \<and> phase_pre p D cp0 cp' \<and> cluster_down p cp')
    (phase_exn p D cp0)"
proof -
  let ?h = "tp_head_id (rp_desired p)"
  let ?I = "\<lambda>ys c \<sigma>. on_trace (obeys p D) \<sigma> \<and> phase_pre p D cp0 c \<and> ?h \<notin> cp_unavailable c \<and>
    stopped_upto (tp_node_ids (rp_expected p)) c \<and>
    (?h \<in> set ys \<longrightarrow> step_key PhPush ?h \<in> cp_completed c)"
  have step: "triple (?I ys c) (push_one (logged_reconf env) p x c) (?I (ys @ [x]))
      (phase_exn p D cp0)" for ys x c
  proof (rule triple_pure)
    assume f: "phase_pre p D cp0 c \<and> ?h \<notin> cp_unavailable c \<and>
      stopped_upto (tp_node_ids (rp_expected p)) c \<and>
      (?h \<in> set ys \<longrightarrow> step_key PhPush ?h \<in> cp_completed c)"
    show "triple (on_trace (obeys p D)) (push_one (logged_reconf env) p x c) (?I (ys @ [x]))
        (phase_exn p D cp0)"
    proof (cases "x \<in> cp_unavailable c")
      case True
      with f show ?thesis unfolding push_one_def by (auto intro!: triple_ret)
    next
      case False
      with f assms(2) show ?thesis unfolding push_one_def
        by (simp, intro phase_call_then)
          (auto simp: result_simps called_from_def advanced_from_def stopped_upto_def
            step_mutates_def split: prod.splits intro!: triple_if phase_throw triple_ret)
    qed
  qed
  have "?h \<in> set (tp_node_ids (rp_desired p))" by (simp add: tp_node_ids_def)
  moreover have "?h \<notin> cp_unavailable cp" using assms(3) by (auto simp: critical_nodes_def)
  ultimately show ?thesis unfolding reconf_push_def using assms(1,4)
    by (intro triple_conseq [OF triple_for_each_split [of "tp_node_ids (rp_desired p)" ?I, OF step]])
      (auto simp: cluster_down_def stopped_upto_def list_all_iff)
qed

lemma reconf_start_trace:
  assumes "phase_pre p D cp0 cp" and "D \<subseteq> cp_completed cp0" and "cluster_down p cp"
  shows "triple (on_trace (obeys p D)) (reconf_start (logged_reconf env) p cp)
    (\<lambda>cp' \<sigma>. on_trace (obeys p D) \<sigma> \<and> phase_pre p D cp0 cp') (phase_exn p D cp0)"
  unfolding reconf_start_def using assms
  by (intro phase_call_then)
    (auto simp: step_mutates_def cluster_down_def
      split: prod.splits intro!: triple_if phase_throw triple_ret)

lemma reconf_verify_head_trace:
  assumes "phase_pre p D cp0 cp" and "D \<subseteq> cp_completed cp0"
  shows "triple (on_trace (obeys p D)) (reconf_verify_head (logged_reconf env) p cp)
    (\<lambda>cp' \<sigma>. on_trace (obeys p D) \<sigma> \<and> phase_pre p D cp0 cp') (phase_exn p D cp0)"
  unfolding reconf_verify_head_def Let_def using assms
  by (intro phase_call_then)
    (auto split: prod.splits intro!: triple_if phase_throw phase_save_then triple_ret)

lemma join_one_trace:
  assumes "phase_pre p D cp0 (fst acc)" and "D \<subseteq> cp_completed cp0"
  shows "triple (on_trace (obeys p D)) (join_one (logged_reconf env) p nid acc)
    (\<lambda>acc' \<sigma>. on_trace (obeys p D) \<sigma> \<and> phase_pre p D cp0 (fst acc')) (phase_exn p D cp0)"
proof (cases "nid \<in> cp_unavailable (fst acc)")
  case True
  with assms show ?thesis unfolding join_one_def by (auto intro!: triple_ret)
next
  case False
  with assms show ?thesis unfolding join_one_def
    by (simp, intro phase_call_then) (auto simp: result_simps split: prod.splits intro!: triple_ret)
qed

lemma reconf_join_trace:
  assumes "phase_pre p D cp0 cp" and "D \<subseteq> cp_completed cp0"
  shows "triple (on_trace (obeys p D)) (reconf_join (logged_reconf env) p cp)
    (\<lambda>acc \<sigma>. on_trace (obeys p D) \<sigma> \<and> phase_pre p D cp0 (fst acc)) (phase_exn p D cp0)"
  unfolding reconf_join_def using assms
  by (intro triple_pre [OF triple_for_each [where
        I = "\<lambda>acc \<sigma>. on_trace (obeys p D) \<sigma> \<and> phase_pre p D cp0 (fst acc)"]])
    (auto intro!: triple_pure join_one_trace)

lemma reconf_verify_trace:
  assumes "phase_pre p D cp0 cp" and "D \<subseteq> cp_completed cp0"
  shows "triple (on_trace (obeys p D)) (reconf_verify (logged_reconf env) p cp)
    (\<lambda>(cp', m, ok) \<sigma>. on_trace (obeys p D) \<sigma> \<and> phase_pre p D cp0 cp') (phase_exn p D cp0)"
  unfolding reconf_verify_def Let_def using assms
  by (intro phase_call_then) (auto split: prod.splits intro!: triple_ret)

lemma reconf_forward_trace:
  assumes "D \<subseteq> cp_completed cp" and "inflight_open cp"
  shows "triple (on_trace (obeys p D)) (reconf_forward (logged_reconf env) p cp)
    (\<lambda>(cp', r) \<sigma>. on_trace (obeys p D) \<sigma> \<and> phase_pre p D cp cp') (phase_exn p D cp)"
proof -
  have pre: "phase_pre p D cp cp" using assms by (simp add: phase_pre_def advanced_refl)
  show ?thesis
    unfolding reconf_forward_def
    apply (rule phase_then [OF reconf_preflight_trace [OF pre assms(1)]])
    apply (elim conjE, rule phase_then [OF reconf_stop_trace [OF _ assms(1)]], assumption+)
    apply (elim conjE, rule phase_then [OF reconf_push_trace [OF _ assms(1)]], assumption+)
    apply (elim conjE, rule phase_then [OF reconf_start_trace [OF _ assms(1)]], assumption+)
    apply (rule phase_then [OF reconf_verify_head_trace [OF _ assms(1)]], assumption)
    apply (rule phase_then [OF reconf_join_trace [OF _ assms(1)]], assumption)
    apply (simp add: case_prod_beta)
    apply (rule phase_then [OF triple_conseq [OF reconf_verify_trace [OF _ assms(1)], where
        Q = "\<lambda>x \<sigma>. on_trace (obeys p D) \<sigma> \<and> phase_pre p D cp (fst x)"]])
    apply assumption
    apply (auto simp: Let_def intro!: triple_ret)
    done
qed

section \<open>The rollback keeps the discipline\<close>

definition rolled_from :: "string set \<Rightarrow> rollback_locals \<Rightarrow> rollback_locals \<Rightarrow> bool" where
  "rolled_from D rl rl' \<longleftrightarrow>
     D \<subseteq> cp_completed (rl_checkpoint rl') \<and> inflight_open (rl_checkpoint rl') \<and>
     cp_completed (rl_checkpoint rl) \<subseteq> cp_completed (rl_checkpoint rl') \<and>
     cp_fingerprint (rl_checkpoint rl') = cp_fingerprint (rl_checkpoint rl)"

lemma rolled_trans: "rolled_from D a b \<Longrightarrow> rolled_from D b c \<Longrightarrow> rolled_from D a c"
  by (auto simp: rolled_from_def)

lemma rolled_failed [simp]:
  "rolled_from D rl0 (rl\<lparr>rl_failed := f\<rparr>) \<longleftrightarrow> rolled_from D rl0 rl"
  by (simp add: rolled_from_def)

definition pre_roll :: "reconf_plan \<Rightarrow> string set \<Rightarrow> rollback_locals \<Rightarrow> bool" where
  "pre_roll p D rl \<longleftrightarrow> rolled_from D rl rl"

definition stop_confirmed :: "reconf_plan \<Rightarrow> checkpoint \<Rightarrow> bool" where
  "stop_confirmed p cp \<longleftrightarrow>
     ''rollback:stop:'' @ tp_head_id (rp_desired p) @ '':ok'' \<in> cp_completed cp"

lemma safe_action_trace:
  "triple (on_trace J) (safe_action (logged_reconf env) c)
     (\<lambda>o1 \<sigma>. on_trace (\<lambda>l. \<exists>l0 r. J l0 \<and> l = l0 @ [RevCall c r]) \<sigma>)
     (\<lambda>e \<sigma>. on_trace (\<lambda>l. \<exists>l0 r. J l0 \<and> l = l0 @ [RevCall c r]) \<sigma>)"
  unfolding safe_action_def
  by (rule triple_andthen [OF control_trace])
    (auto simp: on_trace_def appended_def split: control_return.split
      intro!: triple_ret triple_throw triple_if)

lemma rollback_act_trace:
  assumes key: "take 9 key = ''rollback:''" and ep: "call_epoch action = desired_epoch p + 1" and step: "step_of p action key"
    and st: "\<And>cp'. cp_completed cp' = cp_completed (rl_checkpoint rl) \<Longrightarrow> start_allowed p action cp'"
    and pre: "rolled_from D rl0 rl"
  shows "triple (on_trace (obeys p D))
    (rollback_act (logged_reconf env) p (desired_epoch p + 1) key nid action rl)
    (\<lambda>x \<sigma>. on_trace (obeys p D) \<sigma> \<and> rolled_from D rl (fst x) \<and>
       (so_ok (snd x) \<longrightarrow> key @ '':ok'' \<in> cp_completed (rl_checkpoint (fst x))))
    (\<lambda>_. on_trace (obeys p D))" (is "triple ?I _ ?Q ?E")
proof -
  let ?cp = "rl_checkpoint rl" and ?e = "desired_epoch p + 1"
  let ?cp1 = "?cp\<lparr>cp_inflight := Some key\<rparr>"
  let ?J1 = "\<lambda>l. obeys p D l \<and> RevAdvance ?e \<in> set l"
  let ?J2 = "\<lambda>l. ?J1 l \<and> l \<noteq> [] \<and> last l = RevSave (rp_operation_id p) ?cp1"
  let ?J3 = "\<lambda>l. \<exists>l0 r. ?J2 l0 \<and> l = l0 @ [RevCall action r]"
  have rr: "rolled_from D rl rl" using pre by (auto simp: rolled_from_def)
  have D: "D \<subseteq> cp_completed ?cp" using rr by (simp add: rolled_from_def)
  show ?thesis
  proof (cases "key @ '':ok'' \<in> cp_completed ?cp \<or> key @ '':failed'' \<in> cp_completed ?cp")
    case True
    with rr show ?thesis unfolding rollback_act_def Let_def by (auto intro!: triple_ret)
  next
    case False
    have op1: "inflight_open ?cp1" using False key by (simp add: inflight_open_def step_open_def)
    have call: "obeys p D l" if "?J3 l" for l
      using that ep step st [of ?cp1] by auto
    have adv: "triple ?I (re_advance (logged_reconf env) ?e) (\<lambda>_. on_trace ?J1) ?E"
      by (rule triple_conseq [OF advance_trace [where J = "obeys p D" and E = "\<lambda>_. ?I"]])
        (auto simp: on_trace_def appended_def)
    have save: "triple (on_trace ?J1) (re_save (logged_reconf env) (rp_operation_id p) ?cp1)
        (\<lambda>_. on_trace ?J2) ?E"
      by (rule triple_conseq [OF save_trace [where J = ?J1 and E = "\<lambda>_. on_trace ?J1"]])
        (use D op1 in \<open>auto simp: on_trace_def appended_def\<close>)
    have act: "triple (on_trace ?J2) (safe_action (logged_reconf env) action) (\<lambda>_. ?I) ?E"
      by (rule triple_conseq [OF safe_action_trace [where J = ?J2]])
        (auto simp: on_trace_def dest!: call [simplified])
    have first: "triple ?I
        (if cp_inflight ?cp = Some key then ret (?cp, so_failure ''step.outcome_unknown'')
         else andthen (re_advance (logged_reconf env) ?e) (\<lambda>_.
             andthen (re_save (logged_reconf env) (rp_operation_id p) ?cp1) (\<lambda>_.
             andthen (safe_action (logged_reconf env) action) (\<lambda>o1. ret (?cp1, o1)))))
        (\<lambda>x \<sigma>. ?I \<sigma> \<and> cp_completed (fst x) = cp_completed ?cp \<and>
           cp_fingerprint (fst x) = cp_fingerprint ?cp) ?E"
    proof (rule triple_if)
      show "triple ?I (andthen (re_advance (logged_reconf env) ?e) (\<lambda>_.
             andthen (re_save (logged_reconf env) (rp_operation_id p) ?cp1) (\<lambda>_.
             andthen (safe_action (logged_reconf env) action) (\<lambda>o1. ret (?cp1, o1)))))
        (\<lambda>x \<sigma>. ?I \<sigma> \<and> cp_completed (fst x) = cp_completed ?cp \<and>
           cp_fingerprint (fst x) = cp_fingerprint ?cp) ?E"
        by (rule triple_andthen [OF adv], rule triple_andthen [OF save],
            rule triple_andthen [OF act]) (auto intro!: triple_ret)
    qed (auto intro!: triple_ret)
    show ?thesis
      unfolding rollback_act_def Let_def
      apply (rule triple_if)
      using False apply blast
      apply (rule triple_if)
      using False apply blast
      apply (rule phase_then [OF first])
      apply (simp only: case_prod_beta)
      apply (intro save_then triple_ret)
      using D apply (auto simp: on_trace_def appended_def rolled_from_def)
      done
  qed
qed

lemma rolled_act_then:
  assumes "take 9 key = ''rollback:''" and "call_epoch action = desired_epoch p + 1" and "step_of p action key"
    and "\<And>cp'. cp_completed cp' = cp_completed (rl_checkpoint rl) \<Longrightarrow> start_allowed p action cp'"
    and pre: "rolled_from D rl0 rl" and te: "te = desired_epoch p + 1"
    and k: "\<And>rl' o1. rolled_from D rl0 rl' \<Longrightarrow> rolled_from D rl rl' \<Longrightarrow>
      (so_ok o1 \<longrightarrow> key @ '':ok'' \<in> cp_completed (rl_checkpoint rl')) \<Longrightarrow>
      triple (on_trace (obeys p D)) (k (rl', o1)) Q (\<lambda>_. on_trace (obeys p D))"
  shows "triple (on_trace (obeys p D))
    (andthen (rollback_act (logged_reconf env) p te key nid action rl) k) Q
    (\<lambda>_. on_trace (obeys p D))"
  unfolding te
proof (rule phase_then [OF rollback_act_trace [OF assms(1-5)]])
  fix x :: "rollback_locals \<times> step_outcome"
  assume "rolled_from D rl (fst x) \<and>
    (so_ok (snd x) \<longrightarrow> key @ '':ok'' \<in> cp_completed (rl_checkpoint (fst x)))"
  then show "triple (on_trace (obeys p D)) (k x) Q (\<lambda>_. on_trace (obeys p D))"
    using k [of "fst x" "snd x"] rolled_trans [OF pre] by simp
qed

text \<open>While restoring: the candidate head is confirmed down.\<close>

definition restoring :: "reconf_plan \<Rightarrow> string set \<Rightarrow> rollback_locals \<Rightarrow> rollback_locals \<Rightarrow> bool" where
  "restoring p D rl0 rl \<longleftrightarrow> rolled_from D rl0 rl \<and> stop_confirmed p (rl_checkpoint rl)"

lemma restoring_rolled:
  "restoring p D rl0 rl \<Longrightarrow> rolled_from D rl rl' \<Longrightarrow> restoring p D rl0 rl'"
  by (auto simp: restoring_def rolled_from_def stop_confirmed_def)

lemma restoring_start:
  "restoring p D rl0 rl \<Longrightarrow> cp_completed cp' = cp_completed (rl_checkpoint rl) \<Longrightarrow>
   start_allowed p (CtlStartHead n (desired_epoch p + 1)) cp'"
  by (simp add: restoring_def stop_confirmed_def)

lemma restoring_from: "restoring p D rl0 rl \<Longrightarrow> rolled_from D rl0 rl"
  by (simp add: restoring_def)

lemma restoring_failed [simp]:
  "restoring p D rl0 (rl\<lparr>rl_failed := f\<rparr>) \<longleftrightarrow> restoring p D rl0 rl"
  by (simp add: restoring_def)

lemma rollback_push_one_trace:
  assumes "restoring p D rl0 (fst acc)" and "rolled_back_to p target" and "n \<in> set (tp_nodes target)"
  shows "triple (on_trace (obeys p D)) (rollback_push_one (logged_reconf env) p target n acc)
    (\<lambda>acc' \<sigma>. on_trace (obeys p D) \<sigma> \<and> restoring p D rl0 (fst acc')) (\<lambda>_. on_trace (obeys p D))"
  unfolding rollback_push_one_def using assms
  by (intro triple_if rolled_act_then [OF _ _ _ _ restoring_from [OF assms(1)] rolled_back_epoch [OF assms(2)]])
    (auto simp: rolled_back_to_def intro!: triple_ret intro: restoring_rolled)

lemma rollback_join_one_trace:
  assumes "restoring p D rl0 rl" and "rolled_back_to p target" and "n \<in> set (tp_nodes target)"
  shows "triple (on_trace (obeys p D)) (rollback_join_one (logged_reconf env) p target n rl)
    (\<lambda>rl' \<sigma>. on_trace (obeys p D) \<sigma> \<and> restoring p D rl0 rl') (\<lambda>_. on_trace (obeys p D))"
  unfolding rollback_join_one_def using assms
  by (intro triple_if rolled_act_then [OF _ _ _ _ restoring_from [OF assms(1)] rolled_back_epoch [OF assms(2)]])
    (auto simp: rolled_back_to_def intro!: triple_ret intro: restoring_rolled)

lemma rollback_finish_trace:
  assumes "restoring p D rl0 rl" and rolled: "rolled_back_to p target"
  shows "triple (on_trace (obeys p D)) (rollback_finish (logged_reconf env) p target rl)
    (\<lambda>acc \<sigma>. on_trace (obeys p D) \<sigma> \<and> restoring p D rl0 (fst acc)) (\<lambda>_. on_trace (obeys p D))"
proof -
  note te = rolled_back_epoch [OF rolled]
  have l: "triple (on_trace (obeys p D))
      (for_each (rollback_join_one (logged_reconf env) p target) (tp_workers target) rl)
      (\<lambda>rl' \<sigma>. on_trace (obeys p D) \<sigma> \<and> restoring p D rl0 rl') (\<lambda>_. on_trace (obeys p D))"
    using assms by (intro triple_pre [OF triple_for_each [where
        I = "\<lambda>rl' \<sigma>. on_trace (obeys p D) \<sigma> \<and> restoring p D rl0 rl'"]])
      (auto simp: tp_nodes_def intro!: triple_pure rollback_join_one_trace)
  show ?thesis unfolding rollback_finish_def
  proof (rule phase_then [OF l])
    fix rl1 assume r: "restoring p D rl0 rl1"
    show "triple (on_trace (obeys p D))
      (andthen (rollback_act (logged_reconf env) p (tp_epoch target) ''rollback:verify:cluster''
          ''cluster'' (CtlVerify (tp_nodes target) (tp_head target) (tp_epoch target)) rl1)
        (\<lambda>(rl2, o1). ret (if so_ok o1 then rl2
           else rl2\<lparr>rl_failed := rl_failed rl2 \<union> set (tp_worker_ids target)\<rparr>, so_ok o1)))
      (\<lambda>acc \<sigma>. on_trace (obeys p D) \<sigma> \<and> restoring p D rl0 (fst acc)) (\<lambda>_. on_trace (obeys p D))"
      by (intro rolled_act_then [OF _ _ _ _ restoring_from [OF r] te])
        (auto simp: te rolled [unfolded rolled_back_to_def] intro!: triple_ret intro: restoring_rolled [OF r])
  qed
qed

lemma rollback_restore_trace:
  assumes "restoring p D rl0 rl" and rolled: "rolled_back_to p target"
  shows "triple (on_trace (obeys p D)) (rollback_restore (logged_reconf env) p target rl)
    (\<lambda>acc \<sigma>. on_trace (obeys p D) \<sigma> \<and> restoring p D rl0 (fst acc)) (\<lambda>_. on_trace (obeys p D))"
proof -
  note te = rolled_back_epoch [OF rolled]
  let ?R = "\<lambda>acc \<sigma>. on_trace (obeys p D) \<sigma> \<and> restoring p D rl0 (fst acc)"
  have l: "triple (on_trace (obeys p D))
      (for_each (rollback_push_one (logged_reconf env) p target) (tp_nodes target) (rl, False))
      ?R (\<lambda>_. on_trace (obeys p D))"
    using assms by (intro triple_pre [OF triple_for_each [where I = ?R]])
      (auto intro!: triple_pure rollback_push_one_trace)
  have act: "triple (on_trace (obeys p D))
      (if b then rollback_act (logged_reconf env) p (tp_epoch target) key nid action (fst x)
       else ret (fst x, so_failure c)) ?R (\<lambda>_. on_trace (obeys p D))"
    if "restoring p D rl0 (fst x)" "take 9 key = ''rollback:''" "call_epoch action = tp_epoch target" "step_of p action key"
      "\<And>cp'. cp_completed cp' = cp_completed (rl_checkpoint (fst x)) \<Longrightarrow> start_allowed p action cp'"
    for b key nid action c and x :: "rollback_locals \<times> 'b"
  proof (rule triple_if)
    show "triple (on_trace (obeys p D)) (rollback_act (logged_reconf env) p (tp_epoch target)
        key nid action (fst x)) ?R (\<lambda>_. on_trace (obeys p D))"
      unfolding te by (rule triple_conseq [OF rollback_act_trace [OF that(2) _ that(4,5)
          restoring_from [OF that(1)]]]) (use that te in \<open>auto intro: restoring_rolled\<close>)
  qed (use that in \<open>auto intro!: triple_ret\<close>)
  have heads: "tp_head target = tp_head (rp_expected p)" "tp_head_id target = tp_head_id (rp_expected p)"
    using rolled by (simp_all add: rolled_back_to_def tp_head_id_def)
  show ?thesis unfolding rollback_restore_def case_prod_beta
    apply (rule phase_then [OF l])
    apply (rule phase_then [OF act], assumption)
    apply simp
    apply simp
    apply (simp only: heads te rollback_steps)
    apply (simp only: te, erule restoring_start, assumption)
    apply (rule phase_then [OF act], assumption)
    apply simp
    apply simp
    apply (simp only: heads te rollback_steps)
    apply simp
    apply (rule triple_if)
    apply (rule rollback_finish_trace [OF _ rolled], assumption)
    apply (rule triple_ret, simp)
    done
qed

definition sound_checkpoint :: "string set \<Rightarrow> checkpoint \<Rightarrow> bool" where
  "sound_checkpoint D cp \<longleftrightarrow> D \<subseteq> cp_completed cp \<and> inflight_open cp"

lemma reconf_rollback_trace:
  assumes "sound_checkpoint D cp"
  shows "triple (on_trace (obeys p D)) (reconf_rollback (logged_reconf env) p status cp)
    (\<lambda>x \<sigma>. on_trace (obeys p D) \<sigma> \<and> sound_checkpoint D (fst x)) (\<lambda>_. on_trace (obeys p D))"
proof (cases "with_epoch (rp_expected p) (tp_epoch (rp_desired p) + 1)")
  case (Inl e)
  then show ?thesis by (auto simp: reconf_rollback_def intro!: triple_throw)
next
  case (Inr target)
  have te: "tp_epoch target = desired_epoch p + 1"
    using Inr by (auto simp: with_epoch_def mk_ClusterTopology_def desired_epoch_def reconf_epoch_def
        Let_def result_simps split: if_splits)
  have rolled: "rolled_back_to p target"
    using Inr by (auto simp: with_epoch_def mk_ClusterTopology_def desired_epoch_def reconf_epoch_def rolled_back_to_def tp_nodes_def
        Let_def result_simps split: if_splits)
  let ?cp1 = "cp\<lparr>cp_rollback_status := Some status\<rparr>"
  let ?failed = "cp_unavailable cp \<union> pr_node_id ` {r \<in> set (cp_reports cp).
    pr_phase r = PhRollback \<and> \<not> so_ok (pr_outcome r)}"
  let ?rl = "\<lparr>rl_checkpoint = ?cp1, rl_reports = cp_reports cp, rl_failed = ?failed\<rparr>"
  let ?h = "tp_head_id (rp_desired p)"
  have open1: "inflight_open ?cp1"
    using assms by (simp add: sound_checkpoint_def inflight_open_def step_open_def)
  then have rl: "rolled_from D ?rl ?rl" using assms by (simp add: rolled_from_def sound_checkpoint_def)
  have after: "triple (on_trace (obeys p D))
     (if \<not> so_ok o1 then ret (rl_checkpoint rl1, rollback_result p status target False rl1)
      else andthen (rollback_restore (logged_reconf env) p target rl1) (\<lambda>(rl2, known).
        ret (rl_checkpoint rl2, rollback_result p status target known rl2)))
     (\<lambda>x \<sigma>. on_trace (obeys p D) \<sigma> \<and> sound_checkpoint D (fst x)) (\<lambda>_. on_trace (obeys p D))"
    if r: "rolled_from D ?rl rl1"
      and ok: "so_ok o1 \<longrightarrow> (''rollback:stop:'' @ ?h) @ '':ok'' \<in> cp_completed (rl_checkpoint rl1)"
    for rl1 and o1 :: step_outcome
  proof (cases "so_ok o1")
    case False
    with r show ?thesis by (auto intro!: triple_ret simp: sound_checkpoint_def rolled_from_def)
  next
    case True
    with r ok have "restoring p D ?rl rl1" by (simp add: restoring_def stop_confirmed_def)
    note restore = rollback_restore_trace [OF this rolled, of env]
    show ?thesis unfolding case_prod_beta using True
      by (intro triple_if phase_then [OF restore] triple_ret)
        (auto simp: restoring_def rolled_from_def sound_checkpoint_def)
  qed
  show ?thesis
    unfolding reconf_rollback_def Inr sum.case Let_def
  proof (rule save_then)
    show "triple (on_trace (appended (obeys p D) (RevSave (rp_operation_id p) ?cp1)))
      (andthen (rollback_act (logged_reconf env) p (tp_epoch target) (''rollback:stop:'' @ ?h) ?h
          (CtlStop (tp_head (rp_desired p)) (tp_epoch target)) ?rl)
        (\<lambda>(rl1, candidate_stop).
          if \<not> so_ok candidate_stop
          then ret (rl_checkpoint rl1, rollback_result p status target False rl1)
          else andthen (rollback_restore (logged_reconf env) p target rl1) (\<lambda>(rl2, known).
            ret (rl_checkpoint rl2, rollback_result p status target known rl2))))
      (\<lambda>x \<sigma>. on_trace (obeys p D) \<sigma> \<and> sound_checkpoint D (fst x)) (\<lambda>_. on_trace (obeys p D))"
    proof (rule triple_pre [OF rolled_act_then [OF _ _ _ _ rl te]])
      show "on_trace (obeys p D) \<sigma>"
        if "on_trace (appended (obeys p D) (RevSave (rp_operation_id p) ?cp1)) \<sigma>"
        for \<sigma> :: "'a \<times> reconf_event list"
        using that open1 assms by (auto simp: on_trace_def appended_def sound_checkpoint_def)
    qed (use te after in auto)
  qed auto
qed

lemma recover_from_trace:
  assumes "thrown_from cp0 x" and "D \<subseteq> cp_completed cp0"
  shows "triple (on_trace (obeys p D)) (recover_from (logged_reconf env) p x)
    (\<lambda>y \<sigma>. on_trace (obeys p D) \<sigma> \<and> sound_checkpoint D (fst y)) (\<lambda>_. on_trace (obeys p D))"
proof -
  have r: "triple (on_trace (obeys p D)) (reconf_recover (logged_reconf env) p cp st st2)
    (\<lambda>y \<sigma>. on_trace (obeys p D) \<sigma> \<and> sound_checkpoint D (fst y)) (\<lambda>_. on_trace (obeys p D))"
    if "advanced_from cp0 cp" for cp st st2
  proof -
    from that assms(2) have "sound_checkpoint D cp"
      by (auto simp: sound_checkpoint_def advanced_from_def)
    then show ?thesis unfolding reconf_recover_def
      by (intro triple_if reconf_rollback_trace triple_ret) auto
  qed
  show ?thesis using assms r
    by (cases x) (auto simp: recover_from_def intro!: triple_throw)
qed

lemma reconf_execute_trace:
  fixes env :: "'s reconf_env"
  assumes "reconf_execute (logged_reconf env) p (s, []) = (r, s', l)"
    and "re_load env (rp_operation_id p) s = (Inr loaded, s1)"
    and D: "D = (case loaded of None \<Rightarrow> {} | Some cp \<Rightarrow> cp_completed cp)"
    and "\<And>cp. loaded = Some cp \<Longrightarrow> inflight_open cp"
  shows "obeys p D l"
proof -
  let ?env = "logged_reconf env"
  have body: "triple (on_trace (obeys p D)) (reconf_resume ?env p cp)
     (\<lambda>_. on_trace (obeys p D)) (\<lambda>_. on_trace (obeys p D))" if "sound_checkpoint D cp" for cp
  proof (cases "cp_result cp")
    case (Some r)
    then show ?thesis by (auto simp: reconf_resume_def intro!: triple_ret)
  next
    case None
    let ?Q = "\<lambda>y \<sigma>. on_trace (obeys p D) \<sigma> \<and> sound_checkpoint D (fst y)"
    have fwd: "triple (on_trace (obeys p D)) (on_raise (reconf_forward ?env p cp) (recover_from ?env p))
        ?Q (\<lambda>_. on_trace (obeys p D))"
    proof (rule triple_on_raise [where F = "phase_exn p D cp"])
      show "triple (on_trace (obeys p D)) (reconf_forward ?env p cp) ?Q (phase_exn p D cp)"
        using that by (intro triple_conseq [OF reconf_forward_trace [where D = D and cp = cp]])
          (auto simp: sound_checkpoint_def phase_pre_def advanced_from_def)
      show "triple (phase_exn p D cp x) (recover_from ?env p x) ?Q (\<lambda>_. on_trace (obeys p D))" for x
        unfolding phase_exn_def by (rule triple_pure) (auto intro: recover_from_trace)
    qed
    have "triple (on_trace (obeys p D)) (case cp_rollback_status cp of
              Some status \<Rightarrow> reconf_rollback ?env p status cp
            | None \<Rightarrow> on_raise (reconf_forward ?env p cp) (recover_from ?env p))
        ?Q (\<lambda>_. on_trace (obeys p D))"
      using fwd reconf_rollback_trace [OF that] by (auto split: option.split)
    then show ?thesis unfolding reconf_resume_def None option.case
    proof (rule phase_then)
      show "triple (on_trace (obeys p D)) (case x of (cp1, r) \<Rightarrow>
          andthen (re_save ?env (rp_operation_id p) (cp1\<lparr>cp_result := Some r\<rparr>)) (\<lambda>_. ret r))
          (\<lambda>_. on_trace (obeys p D)) (\<lambda>_. on_trace (obeys p D))" if "sound_checkpoint D (fst x)" for x
        unfolding case_prod_beta using that by (intro save_then triple_ret)
          (auto simp: on_trace_def appended_def sound_checkpoint_def inflight_open_def step_open_def)
    qed
  qed
  let ?I = "on_trace (obeys p D) :: 's \<times> reconf_event list \<Rightarrow> bool"
  let ?P = "\<lambda>\<sigma>. ?I \<sigma> \<and> fst (re_load ?env (rp_operation_id p) \<sigma>) = Inr loaded"
  have ld: "triple ?P (re_load ?env (rp_operation_id p)) (\<lambda>x \<sigma>. ?I \<sigma> \<and> x = loaded) (\<lambda>_. ?I)"
    by (auto simp: triple_def logged_reconf_def split: prod.splits sum.splits)
  have op: "triple ?P (open_checkpoint ?env p) (\<lambda>c \<sigma>. ?I \<sigma> \<and> sound_checkpoint D c) (\<lambda>_. ?I)"
    unfolding open_checkpoint_def
  proof (rule phase_then [OF ld])
    let ?fp = "plan_fingerprint (re_sha256 ?env) p"
    fix x assume x: "x = loaded"
    show "triple ?I (case x of
         None \<Rightarrow> let cp = new_checkpoint ?fp in
           andthen (re_save ?env (rp_operation_id p) cp) (\<lambda>_. ret cp)
       | Some cp \<Rightarrow> if cp_fingerprint cp \<noteq> ?fp then throw RcmConflict else ret cp)
       (\<lambda>c \<sigma>. ?I \<sigma> \<and> sound_checkpoint D c) (\<lambda>_. ?I)"
    proof (cases loaded)
      case None
      have "sound_checkpoint D (new_checkpoint ?fp)"
        by (simp add: D None sound_checkpoint_def new_checkpoint_def)
      then show ?thesis unfolding x None option.case Let_def
        by (intro save_then triple_ret) (auto simp: on_trace_def appended_def sound_checkpoint_def)
    next
      case (Some cp)
      have "sound_checkpoint D cp" using assms(4) [OF Some] by (simp add: D Some sound_checkpoint_def)
      then show ?thesis unfolding x Some option.case
        by (intro triple_if triple_throw triple_ret) auto
    qed
  qed
  have exec: "triple ?P (reconf_execute ?env p) (\<lambda>_. ?I) (\<lambda>_. ?I)"
    unfolding reconf_execute_def by (rule phase_then [OF op body])
  have pre: "?P (s, [])" using assms(2) by (simp add: logged_reconf_def)
  show ?thesis
  proof (cases r)
    case (Inl e)
    from triple_Inl [OF exec pre assms(1) [unfolded Inl]] show ?thesis by simp
  next
    case (Inr x)
    from triple_Inr [OF exec pre assms(1) [unfolded Inr]] show ?thesis by simp
  qed
qed

section \<open>What a run keeps\<close>

text \<open>
  The interface of an environment that keeps a state predicate \<open>I\<close>: each operation the
  reconfigurator uses for the operation \<open>op\<close>, returning or raising, preserves it.
\<close>

locale keeps_invariant =
  fixes env :: "'s reconf_env" and I :: "'s \<Rightarrow> bool" and op :: string
  assumes load_keeps: "triple I (re_load env op) (\<lambda>_. I) (\<lambda>_. I)"
    and save_keeps: "triple I (re_save env op cp) (\<lambda>_. I) (\<lambda>_. I)"
    and advance_keeps: "triple I (re_advance env e) (\<lambda>_. I) (\<lambda>_. I)"
    and control_keeps: "I s \<Longrightarrow> re_control env c s = (r, s') \<Longrightarrow> I s'"
    and cancelled_keeps: "I s \<Longrightarrow> re_cancelled env s = (b, s') \<Longrightarrow> I s'"
begin

abbreviation kept :: "('s, 'e, 'a) eff \<Rightarrow> bool" where
  "kept \<equiv> keeps I"

lemma keeps_return: "(\<And>e. kept (f e)) \<Longrightarrow> (\<And>a. kept (g a)) \<Longrightarrow> kept h \<Longrightarrow>
   kept (case r of CtlRaises e \<Rightarrow> f e | CtlResult a \<Rightarrow> g a | CtlOther \<Rightarrow> h)"
  by (cases r) simp_all

lemma keeps_load: "op' = op \<Longrightarrow> kept (re_load env op')"
  and keeps_save: "op' = op \<Longrightarrow> kept (re_save env op' cp)"
  and keeps_advance: "kept (re_advance env e)"
  by (simp_all add: keeps_def load_keeps save_keeps advance_keeps)

lemma keeps_poll: "kept (poll_token env)"
  by (auto simp: keeps_def triple_def poll_token_def split: prod.splits intro: cancelled_keeps)

lemma keeps_control: "kept (call_control env c)"
  by (auto simp: keeps_def triple_def call_control_def split: prod.splits intro: control_keeps)

lemma keeps_lift: "kept m \<Longrightarrow> kept (lift_py m)"
  unfolding lift_py_def by (intro keep_on_raise keep_throw)

lemmas keeps_rules = keep_intros keeps_return keeps_load keeps_save keeps_advance keeps_poll
  keeps_control keeps_lift

end
context keeps_invariant
begin

lemma keeps_call:
  assumes "rp_operation_id p = op"
  shows "kept (reconf_call env p ph nid suffix action cp)"
  unfolding reconf_call_def check_cancelled_def execute_step_def settle_call_def call_outcome_def
    run_action_def save_to_def Let_def by (intro keeps_rules assms)

lemma keeps_forward:
  assumes "rp_operation_id p = op"
  shows "kept (reconf_forward env p cp)"
  unfolding reconf_forward_def reconf_preflight_def preflight_one_def reconf_stop_def stop_one_def
    reconf_push_def push_one_def reconf_start_def reconf_verify_head_def reconf_join_def
    join_one_def reconf_verify_def save_to_def Let_def
  by (intro keeps_rules keeps_call assms)

lemma keeps_act:
  assumes "rp_operation_id p = op"
  shows "kept (rollback_act env p te key nid action rl)"
  unfolding rollback_act_def safe_action_def Let_def by (intro keeps_rules assms)

lemma keeps_rollback:
  assumes "rp_operation_id p = op"
  shows "kept (reconf_rollback env p status cp)"
  unfolding reconf_rollback_def rollback_restore_def rollback_push_one_def rollback_finish_def
    rollback_join_one_def Let_def
  by (intro keeps_rules keeps_act assms)

lemma keeps_recover:
  assumes "rp_operation_id p = op"
  shows "kept (recover_from env p x)"
  unfolding recover_from_def reconf_recover_def
  by (cases x) (auto intro!: keeps_rules keeps_rollback assms)

lemma keeps_resume:
  assumes "rp_operation_id p = op"
  shows "kept (reconf_resume env p cp)"
  unfolding reconf_resume_def
  by (intro keeps_rules keeps_forward keeps_recover keeps_rollback assms)

lemma keeps_execute:
  assumes "rp_operation_id p = op"
  shows "kept (reconf_execute env p)"
  unfolding reconf_execute_def open_checkpoint_def Let_def
  by (intro keeps_rules keeps_resume assms)

lemma resume_keeps:
  assumes "rp_operation_id p = op" and "reconf_resume env p cp s = (r, s')" and "I s"
  shows "I s'"
  using keeps_resume [OF assms(1), of cp] assms(2,3)
  by (auto simp: keeps_def triple_def split: prod.splits sum.splits dest!: spec [of _ s])

lemma execute_keeps:
  assumes "rp_operation_id p = op" and "reconf_execute env p s = (r, s')" and "I s"
  shows "I s'"
  using keeps_execute [OF assms(1)] assms(2,3)
  by (auto simp: keeps_def triple_def split: prod.splits sum.splits dest!: spec [of _ s])

end

section \<open>Runs over the in-memory journal\<close>

definition on_journal :: "(memory_journal, pyexn, 'a) eff \<Rightarrow> (memory_journal \<times> 'w, pyexn, 'a) eff" where
  "on_journal m s = (case m (fst s) of (r, j) \<Rightarrow> (r, j, snd s))"

definition memory_env ::
    "(control_call \<Rightarrow> 'w \<Rightarrow> control_return \<times> 'w) \<Rightarrow> ('w \<Rightarrow> bool \<times> 'w) \<Rightarrow> (string \<Rightarrow> string)
       \<Rightarrow> (memory_journal \<times> 'w) reconf_env" where
  "memory_env control cancelled sha256 =
     \<lparr>re_claim = (\<lambda>op e. on_journal (mj_claim op e)),
      re_release = (\<lambda>op. on_journal (mj_release op)),
      re_advance = (\<lambda>e. on_journal (mj_advance_epoch e)),
      re_load = (\<lambda>op. on_journal (mj_load op)),
      re_save = (\<lambda>op cp. on_journal (mj_save op cp)),
      re_control = (\<lambda>c (j, w). case control c w of (r, w') \<Rightarrow> (r, j, w')),
      re_cancelled = (\<lambda>(j, w). case cancelled w of (b, w') \<Rightarrow> (b, j, w')),
      re_sha256 = sha256\<rparr>"

text \<open>What a claimed run keeps of the journal, and the fingerprint of its record.\<close>

definition claimed_by :: "string \<Rightarrow> memory_journal \<Rightarrow> int \<Rightarrow> memory_journal \<times> 'w \<Rightarrow> bool" where
  "claimed_by op j0 e0 s \<longleftrightarrow>
     mj_active (fst s) = Some op \<and> mj_unfinished (fst s) \<in> {None, Some op} \<and>
     (\<exists>e. mj_epoch (fst s) = Some e \<and> e0 \<le> e) \<and>
     (\<forall>q. q \<noteq> op \<longrightarrow> mj_records (fst s) q = mj_records j0 q)"

definition record_of_plan :: "string \<Rightarrow> string \<Rightarrow> memory_journal \<times> 'w \<Rightarrow> bool" where
  "record_of_plan op fp s \<longleftrightarrow>
     (\<exists>cp. mj_records (fst s) op = Some cp \<and> cp_fingerprint cp = fp)"

interpretation claim_kept: keeps_invariant "memory_env control cancelled sha256"
    "claimed_by op j0 e0" op for control cancelled sha256 op j0 e0
  by unfold_locales
    (auto simp: triple_def claimed_by_def memory_env_def on_journal_def mj_load_def mj_save_def
      mj_advance_epoch_def reconf_epoch_def Let_def split: prod.splits sum.splits option.splits if_splits)

interpretation fingerprint_kept: keeps_invariant "memory_env control cancelled sha256"
    "record_of_plan op fp" op for control cancelled sha256 op fp
  by unfold_locales
    (auto simp: triple_def record_of_plan_def memory_env_def on_journal_def mj_load_def mj_save_def
      mj_advance_epoch_def reconf_epoch_def Let_def split: prod.splits sum.splits option.splits if_splits)

lemma reconf_run_cases:
  assumes "reconf_run env p lease m s = (r, m', s')"
  obtains (refused) e where "r = Inl e" "m' = m" "s' = s"
  | (claimed) "lease_active m lease" "ml_request_id lease = rp_operation_id p"
      "ml_epoch lease = tp_epoch (rp_expected p)" "fst (lease_claim m lease)"
      "reconf_claimed env p s = (r, s')" "m' = m"
proof -
  have undo: "lease_release_claim m1 lease = m" if "lease_claim m lease = (True, m1)" for m1
    using that by (auto simp: lease_claim_def lease_release_claim_def fun_upd_idem
        split: option.splits if_splits)
  have noop: "m1 = m" if "lease_claim m lease = (False, m1)" for m1
    using that by (auto simp: lease_claim_def split: option.splits if_splits)
  show thesis
  proof (cases "lease_active m lease \<and> ml_request_id lease = rp_operation_id p \<and>
      ml_epoch lease = tp_epoch (rp_expected p) \<and> fst (lease_claim m lease)")
    case True
    then obtain m1 where "lease_claim m lease = (True, m1)" by (cases "lease_claim m lease") auto
    with True assms undo show thesis
      by (intro claimed) (auto simp: reconf_run_def split: prod.splits)
  next
    case False
    with assms noop have "(\<exists>e. r = Inl e) \<and> m' = m \<and> s' = s"
      by (auto simp: reconf_run_def split: prod.splits if_splits bool.splits)
    then show thesis using refused by blast
  qed
qed

lemma memory_claimed_cases:
  assumes "reconf_claimed (memory_env control cancelled sha256) p (j, w) = (r, j', w')"
  obtains (refused) e where "r = Inl e" "j' = j" "w' = w"
  | (executed) j1 j2 where "mj_claim (rp_operation_id p) (tp_epoch (rp_expected p)) j = (Inr True, j1)"
      "reconf_execute (memory_env control cancelled sha256) p (j1, w) = (r, j2, w')"
      "\<And>j0 e0. claimed_by (rp_operation_id p) j0 e0 (j1, w) \<Longrightarrow>
         claimed_by (rp_operation_id p) j0 e0 (j2, w')"
      "j' = j2\<lparr>mj_active := None\<rparr>"
proof -
  let ?env = "memory_env control cancelled sha256" and ?op = "rp_operation_id p"
  obtain c j1 where c: "mj_claim ?op (tp_epoch (rp_expected p)) j = (c, j1)" by fastforce
  have same: "j1 = j" if "c \<noteq> Inr True"
    using c that by (auto simp: mj_claim_def Let_def split: sum.splits if_splits)
  show thesis
  proof (cases "c = Inr True")
    case False
    with assms c same have "(\<exists>e. r = Inl e) \<and> j' = j \<and> w' = w"
      by (auto simp: reconf_claimed_def andthen_def memory_env_def on_journal_def throw_def
          split: sum.splits prod.splits if_splits)
    then show thesis using refused by blast
  next
    case True
    obtain r1 j2 w2 where x: "reconf_execute ?env p (j1, w) = (r1, j2, w2)" by (metis prod_cases3)
    have k: "claimed_by ?op j0 e0 (j2, w2)" if "claimed_by ?op j0 e0 (j1, w)" for j0 e0
      using claim_kept.execute_keeps [OF refl x] that .
    have tok: "reconf_token ?op = Inr ?op"
      using c True by (auto simp: mj_claim_def result_simps reconf_token_def
          split: sum.splits if_splits)
    obtain e1 where "mj_epoch j1 = Some e1" "mj_active j1 = Some ?op"
      "mj_unfinished j1 \<in> {None, Some ?op}"
      using c True by (auto simp: mj_claim_def Let_def split: sum.splits if_splits option.splits)
    then have "claimed_by ?op j1 e1 (j1, w)" by (simp add: claimed_by_def)
    then have "mj_active j2 = Some ?op" using k by (auto simp: claimed_by_def)
    then have rel: "re_release ?env ?op (j2, w2) = (Inr (), j2\<lparr>mj_active := None\<rparr>, w2)"
      by (simp add: memory_env_def on_journal_def mj_release_def tok)
    have "re_claim ?env ?op (tp_epoch (rp_expected p)) (j, w) = (Inr True, j1, w)"
      using c True by (simp add: memory_env_def on_journal_def)
    with assms x rel have eq: "r1 = r" "j' = j2\<lparr>mj_active := None\<rparr>" "w2 = w'"
      by (auto simp: reconf_claimed_def andthen_def finally_do_def)
    show thesis
    proof (rule executed)
      show "mj_claim ?op (tp_epoch (rp_expected p)) j = (Inr True, j1)" using c True by simp
      show "reconf_execute ?env p (j1, w) = (r, j2, w')" using x eq by simp
      show "claimed_by ?op j0 e0 (j2, w')" if "claimed_by ?op j0 e0 (j1, w)" for j0 e0
        using k that eq by simp
    qed (fact eq)
  qed
qed

lemma claim_establishes:
  assumes "mj_claim op e j = (Inr True, j1)"
  shows "mj_active j = None" "reconf_token op = Inr op"
    "claimed_by op j (case mj_epoch j of None \<Rightarrow> e | Some e0 \<Rightarrow> e0) (j1, w)"
    "mj_records j1 = mj_records j" "mj_epoch j = None \<longrightarrow> mj_epoch j1 = Some e"
  using assms by (auto simp: mj_claim_def Let_def claimed_by_def result_simps reconf_token_def
      reconf_epoch_def split: sum.splits if_splits option.splits)
lemma open_checkpoint_memory:
  assumes "open_checkpoint (memory_env control cancelled sha256) p s = (Inr cp, s')"
  shows "mj_records (fst s') (rp_operation_id p) = Some cp"
    "cp_fingerprint cp = plan_fingerprint sha256 p"
  using assms
  by (auto simp: open_checkpoint_def andthen_def memory_env_def on_journal_def mj_load_def
      mj_save_def ret_def throw_def Let_def new_checkpoint_def
      split: prod.splits sum.splits option.splits if_splits)

lemma execute_returns:
  assumes "reconf_execute (memory_env control cancelled sha256) p s = (Inr r, s')"
  shows "\<exists>cp. mj_records (fst s') (rp_operation_id p) = Some cp \<and> cp_result cp = Some r \<and>
    cp_fingerprint cp = plan_fingerprint sha256 p"
proof -
  let ?env = "memory_env control cancelled sha256" and ?op = "rp_operation_id p"
  obtain cp s1 where o1: "open_checkpoint ?env p s = (Inr cp, s1)"
    and res: "reconf_resume ?env p cp s1 = (Inr r, s')"
    using assms by (auto simp: reconf_execute_def andthen_def split: prod.splits sum.splits)
  note op = open_checkpoint_memory [OF o1]
  show ?thesis
  proof (cases "cp_result cp")
    case (Some r')
    with res op show ?thesis by (auto simp: reconf_resume_def ret_def)
  next
    case None
    from op have "record_of_plan ?op (plan_fingerprint sha256 p) s1" by (simp add: record_of_plan_def)
    from fingerprint_kept.resume_keeps [OF refl res this]
    have fp: "record_of_plan ?op (plan_fingerprint sha256 p) s'" .
    from res None obtain cp1 s2 where
      "re_save ?env ?op (cp1\<lparr>cp_result := Some r\<rparr>) s2 = (Inr (), s')"
      by (auto simp: reconf_resume_def andthen_def ret_def split: prod.splits sum.splits)
    then have "mj_records (fst s') ?op = Some (cp1\<lparr>cp_result := Some r\<rparr>)"
      by (auto simp: memory_env_def on_journal_def mj_save_def Let_def
          split: prod.splits sum.splits if_splits)
    with fp show ?thesis by (auto simp: record_of_plan_def)
  qed
qed

section \<open>Properties\<close>

text \<open>
  C6: a run gives back what it claimed and keeps to its own record. Whatever it returns or raises,
  however the adapter behaves, the maintenance lease is in the state it was in before, the journal
  has the same active claim, the records of other operations are untouched, and the journal's epoch
  has not moved backward.
\<close>

theorem reconf_run_frame:
  assumes "reconf_run (memory_env control cancelled sha256) p lease m (j, w) = (r, m', j', w')"
  shows "m' = m \<and> mj_active j' = mj_active j \<and>
    (\<forall>q. q \<noteq> rp_operation_id p \<longrightarrow> mj_records j' q = mj_records j q) \<and>
    (\<forall>e0. mj_epoch j = Some e0 \<longrightarrow> (\<exists>e. mj_epoch j' = Some e \<and> e0 \<le> e))"
  using assms
proof (cases rule: reconf_run_cases)
  case (claimed)
  from claimed(5) show ?thesis
  proof (cases rule: memory_claimed_cases)
    case (executed j1 j2)
    note est = claim_establishes [OF executed(1)]
    from executed(3) [OF est(3)] executed(4) est(1) claimed(6) show ?thesis
      by (auto simp: claimed_by_def)
  qed (use claimed in auto)
qed auto

text \<open>
  C5: the result of a reconfiguration is durable. When a run returns, the journal holds the result
  under the plan's fingerprint, and running the same plan again, with the adapter in any state and
  behaving in any way, returns the same result without calling it and leaves the journal as it is.
\<close>

theorem reconf_result_durable:
  assumes "reconf_run (memory_env control cancelled sha256) p lease m (j, w) = (Inr r, m', j', w')"
  shows "(\<exists>cp. mj_records j' (rp_operation_id p) = Some cp \<and> cp_result cp = Some r \<and>
      cp_fingerprint cp = plan_fingerprint sha256 p) \<and>
    reconf_run (memory_env control2 cancelled2 sha256) p lease m' (j', w2) = (Inr r, m', j', w2)"
  using assms
proof (cases rule: reconf_run_cases)
  case claimed
  let ?op = "rp_operation_id p" and ?env2 = "memory_env control2 cancelled2 sha256"
  from claimed(5) show ?thesis
  proof (cases rule: memory_claimed_cases)
    case (executed j1 j2)
    note est = claim_establishes [OF executed(1)]
    from execute_returns [OF executed(2)] obtain cp where
      cp: "mj_records j2 ?op = Some cp" "cp_result cp = Some r"
        "cp_fingerprint cp = plan_fingerprint sha256 p" by auto
    from executed(3) [OF est(3)] have j2: "mj_active j2 = Some ?op" "mj_epoch j2 \<noteq> None"
      "mj_unfinished j2 \<in> {None, Some ?op}" by (auto simp: claimed_by_def)
    have e0: "0 \<le> tp_epoch (rp_expected p)"
      using executed(1) by (auto simp: mj_claim_def reconf_epoch_def result_simps
          split: sum.splits if_splits)
    have "mj_claim ?op (tp_epoch (rp_expected p)) j' = (Inr True, j2)"
      using cp j2 executed(4) est(2) e0 by (auto simp: mj_claim_def reconf_epoch_def)
    moreover have "reconf_execute ?env2 p (j2, w2) = (Inr r, j2, w2)"
      using cp est(2) by (simp add: reconf_execute_def open_checkpoint_def reconf_resume_def
          andthen_def ret_def memory_env_def on_journal_def mj_load_def)
    moreover have "mj_release ?op j2 = (Inr (), j')"
      using j2 est(2) executed(4) by (simp add: mj_release_def)
    ultimately have "reconf_claimed ?env2 p (j', w2) = (Inr r, j', w2)"
      by (simp add: reconf_claimed_def andthen_def finally_do_def memory_env_def on_journal_def)
    moreover obtain m1 where "lease_claim m lease = (True, m1)"
      using claimed(4) by (cases "lease_claim m lease") auto
    moreover from this have "lease_release_claim m1 lease = m"
      by (auto simp: lease_claim_def lease_release_claim_def fun_upd_idem
          split: option.splits if_splits)
    ultimately show ?thesis using claimed(1-3,6) cp executed(4)
      by (auto simp: reconf_run_def)
  qed simp
qed simp
text \<open>The steps an operation's record says were carried out.\<close>

definition done_steps :: "memory_journal \<Rightarrow> string \<Rightarrow> string set" where
  "done_steps j op = (case mj_records j op of None \<Rightarrow> {} | Some cp \<Rightarrow> cp_completed cp)"

definition record_sound :: "memory_journal \<Rightarrow> string \<Rightarrow> bool" where
  "record_sound j op \<longleftrightarrow> (case mj_records j op of None \<Rightarrow> True | Some cp \<Rightarrow> inflight_open cp)"

lemma reconf_run_trace:
  assumes "reconf_run (logged_reconf (memory_env control cancelled sha256)) p lease m ((j, w), [])
      = (r, m', s', l)"
    and "record_sound j (rp_operation_id p)"
  shows "obeys p (done_steps j (rp_operation_id p)) l"
  using assms(1)
proof (cases rule: reconf_run_cases)
  case claimed
  let ?env = "memory_env control cancelled sha256" and ?op = "rp_operation_id p"
  obtain c j1 where c: "mj_claim ?op (tp_epoch (rp_expected p)) j = (c, j1)" by fastforce
  have cl: "re_claim (logged_reconf ?env) ?op (tp_epoch (rp_expected p)) ((j, w), []) =
      (c, (j1, w), [])"
    using c by (simp add: logged_reconf_def memory_env_def on_journal_def)
  show ?thesis
  proof (cases "c = Inr True")
    case False
    with claimed(5) cl have "l = []"
      by (auto simp: reconf_claimed_def andthen_def throw_def split: sum.splits)
    then show ?thesis by simp
  next
    case True
    obtain r1 s2 l2 where x: "reconf_execute (logged_reconf ?env) p ((j1, w), []) = (r1, s2, l2)"
      by (metis prod_cases3)
    from c True have est: "reconf_token ?op = Inr ?op" "mj_records j1 = mj_records j"
      using claim_establishes by auto
    have ld: "re_load ?env ?op (j1, w) = (Inr (mj_records j ?op), j1, w)"
      using est by (simp add: memory_env_def on_journal_def mj_load_def)
    have "l = l2" using claimed(5) cl True x
      by (auto simp: reconf_claimed_def andthen_def finally_do_def logged_reconf_def
          split: sum.splits prod.splits)
    moreover have "obeys p (done_steps j ?op) l2"
      by (rule reconf_execute_trace [OF x ld])
        (use assms(2) in \<open>auto simp: done_steps_def record_sound_def\<close>)
    ultimately show ?thesis by simp
  qed
qed simp

text \<open>
  C1: the journal is written ahead of every action. Just before each adapter call the run saved a
  checkpoint that names, as in flight, the very step the call carries out: its key is that of this
  operation on this node, forward or rollback, and the node, head and epoch are those of the
  plan's topologies. That step is not one the checkpoint, or the record the run resumed from, says
  was carried out; and before a stop, push or start the journal was moved to the epoch of the
  call. So at a crash the record names the one step whose outcome is unknown, and no step recorded
  as done is ever carried out again.
\<close>

theorem reconf_write_ahead:
  assumes "reconf_run (logged_reconf (memory_env control cancelled sha256)) p lease m ((j, w), [])
      = (r, m', s', l)"
    and "record_sound j (rp_operation_id p)"
  shows "preceded (\<lambda>h e. case e of
      RevCall c res \<Rightarrow> (\<exists>h0 cp k. h = h0 @ [RevSave (rp_operation_id p) cp] \<and>
        cp_inflight cp = Some k \<and> step_of p c k \<and> step_open cp k \<and>
        done_steps j (rp_operation_id p) \<subseteq> cp_completed cp \<and>
        call_epoch c \<in> {desired_epoch p, desired_epoch p + 1} \<and>
        (call_mutates c \<longrightarrow> RevAdvance (call_epoch c) \<in> set h0))
    | RevSave q cp \<Rightarrow> q = rp_operation_id p \<and> inflight_open cp
    | RevAdvance e1 \<Rightarrow> e1 \<in> {desired_epoch p, desired_epoch p + 1}) l"
  unfolding preceded_def
proof (intro allI impI)
  let ?D = "done_steps j (rp_operation_id p)" and ?op = "rp_operation_id p"
  fix h e post
  assume l: "l = h @ e # post"
  note ob = reconf_run_trace [OF assms, unfolded l]
  show "case e of
      RevCall c res \<Rightarrow> (\<exists>h0 cp k. h = h0 @ [RevSave ?op cp] \<and> cp_inflight cp = Some k \<and>
        step_of p c k \<and> step_open cp k \<and> ?D \<subseteq> cp_completed cp \<and>
        call_epoch c \<in> {desired_epoch p, desired_epoch p + 1} \<and> (call_mutates c \<longrightarrow> RevAdvance (call_epoch c) \<in> set h0))
    | RevSave q cp \<Rightarrow> q = ?op \<and> inflight_open cp
    | RevAdvance e1 \<Rightarrow> e1 \<in> {desired_epoch p, desired_epoch p + 1}"
  proof (cases e)
    case (RevCall c res)
    from precededD [OF ob] RevCall obtain cp k where cp: "h \<noteq> []" "last h = RevSave ?op cp"
      "cp_inflight cp = Some k" "step_of p c k"
        and m: "call_epoch c \<in> {desired_epoch p, desired_epoch p + 1}" "call_mutates c \<longrightarrow> RevAdvance (call_epoch c) \<in> set h"
      by auto
    then obtain h0 where h: "h = h0 @ [RevSave ?op cp]"
      by (metis append_butlast_last_id)
    with ob have "preceded (disciplined p ?D) (h0 @ RevSave ?op cp # RevCall c res # post)"
      by (simp add: RevCall)
    from precededD [OF this] have "?D \<subseteq> cp_completed cp" "inflight_open cp" by auto
    with cp m h RevCall show ?thesis by (auto simp: inflight_open_def)
  qed (use precededD [OF ob] in auto)
qed

text \<open>
  C4: the desired head starts only on a stopped cluster. When a run calls \<open>start_head\<close> at the desired
  epoch, the checkpoint saved just before records the stop of every node of the expected topology
  and the push of the manifest to the new head as carried out. A \<open>start_head\<close> at any other epoch is
  the rollback's, and comes after the confirmed stop of the candidate head.
\<close>

theorem reconf_start_after_stop:
  assumes "reconf_run (logged_reconf (memory_env control cancelled sha256)) p lease m ((j, w), [])
      = (r, m', s', l)"
    and "record_sound j (rp_operation_id p)"
    and "l = h @ RevCall (CtlStartHead n e) res # post"
  shows "\<exists>cp. h \<noteq> [] \<and> last h = RevSave (rp_operation_id p) cp \<and>
    (if e = desired_epoch p
     then (\<forall>q \<in> set (tp_node_ids (rp_expected p)). ''stop:'' @ q \<in> cp_completed cp) \<and>
       ''push:'' @ tp_head_id (rp_desired p) \<in> cp_completed cp
     else e = desired_epoch p + 1 \<and>
       ''rollback:stop:'' @ tp_head_id (rp_desired p) @ '':ok'' \<in> cp_completed cp)"
  using precededD [OF reconf_run_trace [OF assms(1,2), unfolded assms(3)]]
  by (auto simp: cluster_down_def list_all_iff step_key_def split: if_splits)

section \<open>The properties at a concrete reconfiguration\<close>

text \<open>The head moves from the node \<open>a\<close> to the node \<open>b\<close>, over an adapter that always succeeds.\<close>

definition demo_node :: "string \<Rightarrow> node" where
  "demo_node nid = \<lparr>node_id = nid, node_address = nid, node_role = RoleHead, node_enabled = True,
     node_capabilities = []\<rparr>"

definition demo_plan :: reconf_plan where
  "demo_plan = \<lparr>rp_operation_id = ''op'',
     rp_expected = \<lparr>tp_epoch = 0, tp_head = demo_node ''a'', tp_workers = []\<rparr>,
     rp_desired = \<lparr>tp_epoch = 1, tp_head = demo_node ''b'', tp_workers = []\<rparr>\<rparr>"

definition demo_control :: "control_call \<Rightarrow> unit \<Rightarrow> control_return \<times> unit" where
  "demo_control c w = (CtlResult \<lparr>ar_status = ActSucceeded, ar_code = ''ok'', ar_message = [],
     ar_retryable = False, ar_details = []\<rparr>, w)"

definition demo_env :: "(memory_journal \<times> unit) reconf_env" where
  "demo_env = memory_env demo_control (\<lambda>w. (False, w)) (\<lambda>s. ''digest'')"

definition demo_lease :: maintenance_lease where
  "demo_lease = \<lparr>ml_ref = 0, ml_request_id = ''op'', ml_epoch = 0, ml_token = 0\<rparr>"

definition demo_maintenance :: maintenance where
  "demo_maintenance = \<lparr>mw_lease = Some demo_lease,
     mw_tokens = [0 \<mapsto> \<lparr>lt_active = True, lt_in_use = False\<rparr>], mw_next = 1\<rparr>"

theorem reconf_run_frame_witness:
  "mj_active (fst (snd (snd (reconf_run demo_env demo_plan demo_lease demo_maintenance
     (init_journal, ()))))) = None"
proof -
  obtain r m' j' w' where "reconf_run demo_env demo_plan demo_lease demo_maintenance
      (init_journal, ()) = (r, m', j', w')" by (metis prod_cases4)
  from reconf_run_frame [OF this [unfolded demo_env_def]] this show ?thesis
    by (simp add: init_journal_def)
qed

lemma demo_run_succeeds:
  "(case fst (reconf_run demo_env demo_plan demo_lease demo_maintenance (init_journal, ())) of
      Inl e \<Rightarrow> False | Inr r \<Rightarrow> rr_status r = RcSucceeded)"
  by code_simp

theorem reconf_result_durable_witness:
  "\<exists>r m' j'. rr_status r = RcSucceeded \<and>
     reconf_run demo_env demo_plan demo_lease m' (j', ()) = (Inr r, m', j', ())"
proof -
  obtain r m' j' w' where run: "reconf_run demo_env demo_plan demo_lease demo_maintenance
      (init_journal, ()) = (r, m', j', w')" by (metis prod_cases4)
  with demo_run_succeeds obtain r1 where "r = Inr r1" "rr_status r1 = RcSucceeded"
    by (auto split: sum.splits)
  with reconf_result_durable [of demo_control "\<lambda>w. (False, w)" "\<lambda>s. ''digest''" demo_plan demo_lease
      demo_maintenance init_journal "()" r1 m' j' w' demo_control "\<lambda>w. (False, w)" "()"] run
  show ?thesis unfolding demo_env_def by blast
qed

definition demo_trace :: "reconf_event list" where
  "demo_trace = snd (snd (snd (reconf_run (logged_reconf demo_env) demo_plan demo_lease
     demo_maintenance ((init_journal, ()), []))))"

fun starts_head :: "reconf_event \<Rightarrow> bool" where
  "starts_head (RevCall (CtlStartHead n e) res) = (e = 1)"
| "starts_head _ = False"

fun_cases starts_headE: "starts_head e"

lemma demo_trace_starts:
  obtains h n res post where "demo_trace = h @ RevCall (CtlStartHead n 1) res # post"
proof -
  have "list_ex starts_head demo_trace" by code_simp
  then obtain e where "e \<in> set demo_trace" "starts_head e" by (auto simp: list_ex_iff)
  with that show thesis by (metis split_list starts_headE)
qed

lemma demo_run:
  obtains r m' s' where "reconf_run (logged_reconf demo_env) demo_plan demo_lease
      demo_maintenance ((init_journal, ()), []) = (r, m', s', demo_trace)"
  unfolding demo_trace_def by (metis prod.collapse)

lemma record_sound_init: "record_sound init_journal op"
  by (simp add: record_sound_def init_journal_def)

theorem reconf_start_after_stop_witness:
  "\<exists>h cp post n res. demo_trace = h @ RevCall (CtlStartHead n 1) res # post \<and>
     last h = RevSave ''op'' cp \<and> ''stop:a'' \<in> cp_completed cp \<and> ''push:b'' \<in> cp_completed cp"
proof -
  obtain r m' s' where run: "reconf_run (logged_reconf demo_env) demo_plan demo_lease
      demo_maintenance ((init_journal, ()), []) = (r, m', s', demo_trace)" by (rule demo_run)
  obtain h n res post where l: "demo_trace = h @ RevCall (CtlStartHead n 1) res # post"
    by (rule demo_trace_starts)
  from reconf_start_after_stop [OF run [unfolded demo_env_def] record_sound_init l] l show ?thesis
    by (auto simp: demo_plan_def desired_epoch_def tp_node_ids_def tp_worker_ids_def tp_head_id_def
        demo_node_def)
qed

theorem reconf_write_ahead_witness:
  "\<exists>h cp n res post. demo_trace = h @ [RevSave ''op'' cp, RevCall (CtlStartHead n 1) res] @ post \<and>
     cp_inflight cp = Some ''start:b'' \<and> step_open cp ''start:b''"
proof -
  obtain r m' s' where run: "reconf_run (logged_reconf demo_env) demo_plan demo_lease
      demo_maintenance ((init_journal, ()), []) = (r, m', s', demo_trace)" by (rule demo_run)
  obtain h n res post where l: "demo_trace = h @ RevCall (CtlStartHead n 1) res # post"
    by (rule demo_trace_starts)
  from precededD [OF reconf_write_ahead [OF run [unfolded demo_env_def] record_sound_init,
        unfolded l]] l
  show ?thesis
    by (auto simp: demo_plan_def desired_epoch_def step_of.simps demo_node_def) blast
qed

section \<open>The journal serialises reconfigurations\<close>

text \<open>
  The protocol the reconfigurator keeps with a journal: it saves and advances for the operation
  that holds the claim only, and never overwrites a finished record with an unfinished one.
\<close>

inductive journal_step :: "memory_journal \<Rightarrow> memory_journal \<Rightarrow> bool" where
  js_claim: "mj_claim op e j = (r, j') \<Longrightarrow> journal_step j j'"
| js_release: "mj_release op j = (r, j') \<Longrightarrow> journal_step j j'"
| js_advance: "mj_advance_epoch e j = (r, j') \<Longrightarrow> journal_step j j'"
| js_save: "mj_save op cp j = (r, j') \<Longrightarrow> mj_active j = Some op \<Longrightarrow>
    (\<And>old. mj_records j op = Some old \<Longrightarrow> cp_result old \<noteq> None \<Longrightarrow> cp_result cp \<noteq> None) \<Longrightarrow>
    journal_step j j'"

inductive_cases journal_stepE: "journal_step j j'"

inductive journal_reachable :: "memory_journal \<Rightarrow> bool" where
  jr_init: "journal_reachable init_journal"
| jr_step: "journal_reachable j \<Longrightarrow> journal_step j j' \<Longrightarrow> journal_reachable j'"

definition journal_inv :: "memory_journal \<Rightarrow> bool" where
  "journal_inv j \<longleftrightarrow>
     (\<forall>op cp. mj_records j op = Some cp \<longrightarrow> cp_result cp = None \<longrightarrow> mj_unfinished j = Some op) \<and>
     (\<forall>op. mj_active j = Some op \<longrightarrow>
        mj_unfinished j = Some op \<or>
        mj_unfinished j = None \<and> (\<exists>cp. mj_records j op = Some cp \<and> cp_result cp \<noteq> None))"

lemma mj_claim_effect:
  assumes "mj_claim op e j = (r, j')"
  shows "j' = j \<or> (mj_records j' = mj_records j \<and> mj_active j' = Some op \<and>
    mj_unfinished j \<in> {None, Some op} \<and>
    mj_unfinished j' = (case mj_records j op of None \<Rightarrow> Some op
      | Some cp \<Rightarrow> if cp_result cp = None then Some op else mj_unfinished j))"
  using assms by (auto simp: mj_claim_def Let_def split: sum.splits if_splits option.splits)

lemma mj_save_effect:
  assumes "mj_save op cp j = (r, j')"
  shows "j' = j \<or> (mj_records j' = (mj_records j)(op \<mapsto> cp) \<and> mj_active j' = mj_active j \<and>
    mj_unfinished j' = (if cp_result cp \<noteq> None \<and> mj_unfinished j = Some op then None
      else mj_unfinished j))"
  using assms by (auto simp: mj_save_def Let_def split: sum.splits if_splits)

lemma journal_step_inv: "journal_step j j' \<Longrightarrow> journal_inv j \<Longrightarrow> journal_inv j'"
proof (induction rule: journal_step.induct)
  case (js_claim op e j r j')
  consider "j' = j" | "mj_records j' = mj_records j" "mj_active j' = Some op"
      "mj_unfinished j \<in> {None, Some op}" "mj_unfinished j' = (case mj_records j op of
        None \<Rightarrow> Some op | Some cp \<Rightarrow> if cp_result cp = None then Some op else mj_unfinished j)"
    using mj_claim_effect [OF js_claim(1)] by blast
  then show ?case
  proof cases
    case 2
    have "mj_unfinished j' = Some q" if "mj_records j q = Some cp" "cp_result cp = None" for q cp
    proof -
      have "mj_unfinished j = Some q" using js_claim(2) that by (simp add: journal_inv_def)
      with 2(3) have "q = op" by simp
      with 2(4) that show ?thesis by simp
    qed
    moreover have "mj_unfinished j' = Some op \<or> mj_unfinished j' = None \<and>
        (\<exists>cp. mj_records j op = Some cp \<and> cp_result cp \<noteq> None)"
      using 2(3,4) by (cases "mj_records j op") auto
    ultimately show ?thesis using 2(1,2) unfolding journal_inv_def by simp
  qed (use js_claim in simp)
next
  case (js_release op j r j')
  then have "mj_records j' = mj_records j \<and> mj_unfinished j' = mj_unfinished j \<and>
      (mj_active j' = mj_active j \<or> mj_active j' = None)"
    by (auto simp: mj_release_def split: sum.splits if_splits)
  with js_release(2) show ?case unfolding journal_inv_def by auto
next
  case (js_advance e j r j')
  then have "mj_records j' = mj_records j \<and> mj_unfinished j' = mj_unfinished j \<and>
      mj_active j' = mj_active j"
    by (auto simp: mj_advance_epoch_def split: sum.splits if_splits option.splits)
  with js_advance(2) show ?case unfolding journal_inv_def by auto
next
  case (js_save op cp j r j')
  consider "j' = j" | "mj_records j' = (mj_records j)(op \<mapsto> cp)" "mj_active j' = mj_active j"
      "mj_unfinished j' = (if cp_result cp \<noteq> None \<and> mj_unfinished j = Some op then None
        else mj_unfinished j)"
    using mj_save_effect [OF js_save(1)] by blast
  then show ?case
  proof cases
    case 2
    have open_j: "mj_unfinished j = Some q" if "mj_records j q = Some c" "cp_result c = None" for q c
      using js_save(4) that by (simp add: journal_inv_def)
    have act: "mj_unfinished j = Some op \<or> mj_unfinished j = None \<and> cp_result cp \<noteq> None"
      using js_save(2-4) unfolding journal_inv_def by blast
    have "mj_unfinished j' = Some q" if "mj_records j' q = Some c" "cp_result c = None" for q c
      using that 2 act open_j [of q c] by (auto split: if_splits)
    then show ?thesis using 2 act js_save(2) unfolding journal_inv_def by auto
  qed (use js_save in simp)
qed

lemma journal_reachable_inv: "journal_reachable j \<Longrightarrow> journal_inv j"
  by (induction rule: journal_reachable.induct)
    (auto simp: journal_step_inv, simp add: journal_inv_def init_journal_def)

text \<open>
  C7: one reconfiguration at a time. In every journal reached by the protocol, at most one operation
  has an unfinished record, and as long as it has, or holds the claim, the claim of any other
  operation is refused; so a half-done topology change is finished before another one begins.
\<close>

theorem journal_serialises:
  assumes "journal_reachable j" and "mj_records j op = Some cp" and "cp_result cp = None"
    and "q \<noteq> op"
  shows "fst (mj_claim q e j) \<noteq> Inr True \<and>
    (\<forall>cp'. mj_records j q = Some cp' \<longrightarrow> cp_result cp' \<noteq> None) \<and>
    (mj_active j = None \<or> mj_active j = Some op)"
proof -
  from journal_reachable_inv [OF assms(1)] assms(2-4)
  have u: "mj_unfinished j = Some op" and a: "mj_active j = None \<or> mj_active j = Some op"
    and o1: "\<forall>cp'. mj_records j q = Some cp' \<longrightarrow> cp_result cp' \<noteq> None"
    by (auto simp: journal_inv_def) (metis not_None_eq option.inject)+
  from u assms(4) have "fst (mj_claim q e j) \<noteq> Inr True"
    by (auto simp: mj_claim_def Let_def split: sum.splits)
  with a o1 show ?thesis by simp
qed

theorem journal_serialises_witness:
  "fst (mj_claim ''other'' 0 \<lparr>mj_records = [''op'' \<mapsto> new_checkpoint ''fp''], mj_active = None,
     mj_unfinished = Some ''op'', mj_epoch = Some 0\<rparr>) \<noteq> Inr True"
proof -
  let ?j1 = "init_journal\<lparr>mj_active := Some ''op'', mj_unfinished := Some ''op'', mj_epoch := Some 0\<rparr>"
  let ?j2 = "?j1\<lparr>mj_records := [''op'' \<mapsto> new_checkpoint ''fp'']\<rparr>"
  have "mj_claim ''op'' 0 init_journal = (Inr True, ?j1)"
    by (simp add: mj_claim_def init_journal_def reconf_token_def reconf_epoch_def code_chars_def)
  from jr_step [OF jr_init js_claim [OF this]] have "journal_reachable ?j1" .
  moreover have "mj_save ''op'' (new_checkpoint ''fp'') ?j1 = (Inr (), ?j2)"
    by (simp add: mj_save_def init_journal_def reconf_token_def code_chars_def new_checkpoint_def)
  then have "journal_step ?j1 ?j2" by (rule js_save) (simp_all add: init_journal_def)
  moreover have "mj_release ''op'' ?j2 = (Inr (), ?j2\<lparr>mj_active := None\<rparr>)"
    by (simp add: mj_release_def reconf_token_def code_chars_def)
  then have "journal_step ?j2 (?j2\<lparr>mj_active := None\<rparr>)" by (rule js_release)
  ultimately have "journal_reachable (?j2\<lparr>mj_active := None\<rparr>)" by (blast intro: jr_step)
  from journal_serialises [OF this, of "''op''" "new_checkpoint ''fp''" "''other''" 0]
  show ?thesis by (simp add: new_checkpoint_def init_journal_def)
qed
section \<open>Two corners of the recovery\<close>

text \<open>
  A crash while the node \<open>a\<close> was being stopped: the journal was moved to epoch 1 and the record
  names \<open>stop:a\<close> as in flight.
\<close>

definition crashed_checkpoint :: checkpoint where
  "crashed_checkpoint = (new_checkpoint ''digest'')
     \<lparr>cp_completed := {''preflight:a'', ''preflight:b''}, cp_inflight := Some ''stop:a''\<rparr>"

definition crashed_journal :: "checkpoint \<Rightarrow> memory_journal" where
  "crashed_journal cp = \<lparr>mj_records = [''op'' \<mapsto> cp], mj_active = None,
     mj_unfinished = Some ''op'', mj_epoch = Some 1\<rparr>"

text \<open>
  A resumed run that is cancelled before its first step reports the expected topology at its old
  epoch as the known effective state, although the stop in flight may have been carried out:
  \<open>_needs_rollback\<close> looks at the reports and not at \<open>inflight_step\<close>.
\<close>

theorem cancelled_resume_drops_inflight_step:
  "case fst (reconf_run (memory_env demo_control (\<lambda>w. (True, w)) (\<lambda>s. ''digest'')) demo_plan
     demo_lease demo_maintenance (crashed_journal crashed_checkpoint, ())) of
     Inl e \<Rightarrow> False
   | Inr r \<Rightarrow> rr_status r = RcCancelled \<and> rr_effective_state_known r \<and> rr_effective_epoch r = 0 \<and>
       rr_effective_head_id r = ''a'' \<and> \<not> rr_rollback_performed r"
  by code_simp

text \<open>
  When a worker of the desired topology had failed its preflight, the resumed run retries that
  preflight first. It is the preflight that gets \<open>step.outcome_unknown\<close> and clears the mark, and
  the stop that was in flight is carried out a second time.
\<close>

definition worker_plan :: reconf_plan where
  "worker_plan = demo_plan\<lparr>rp_desired := \<lparr>tp_epoch = 1, tp_head = demo_node ''b'',
     tp_workers = [(demo_node ''w'')\<lparr>node_role := RoleWorker\<rparr>]\<rparr>\<rparr>"

fun is_stop_call :: "reconf_event \<Rightarrow> bool" where
  "is_stop_call (RevCall (CtlStop n e) res) = True"
| "is_stop_call _ = False"

theorem inflight_mark_taken_by_other_step:
  "list_ex is_stop_call (snd (snd (snd (reconf_run (logged_reconf demo_env) worker_plan demo_lease
     demo_maintenance ((crashed_journal (crashed_checkpoint\<lparr>cp_unavailable := {''w''}\<rparr>), ()), [])))))"
  by code_simp

end
