(* ===== verification/Runtime.thy ===== *)
theory Runtime
  imports Prelude "HOL-Library.Sublist"
begin

text \<open>
  \<open>rcm/runtime.py\<close>: the coordinator that starts the long-lived components in order, stops them in
  reverse order under one shared deadline, and keeps the components it could not join. The
  components, the clock and the other threads that may cancel are an environment \<open>'w\<close> that every
  call may change; a component is named by its unit, whose name is unique. The transition lock
  makes \<open>start\<close> and \<open>stop\<close> atomic with respect to each other; components that call back into the
  coordinator are not modelled.
\<close>

section \<open>State and environment\<close>

datatype runtime_state = RtStopped | RtStarting | RtRunning | RtStopping | RtFailed

definition safe_token :: "string \<Rightarrow> bool" where
  "safe_token s \<longleftrightarrow> s \<noteq> [] \<and> \<not> list_ex (\<lambda>c. ord c < 33) s"

definition mk_RuntimeUnit :: "pyval \<Rightarrow> string result" where
  "mk_RuntimeUnit name =
     (case name of
        PStr s \<Rightarrow> if safe_token s then Inr s else Inl ValueError
      | _ \<Rightarrow> Inl ValueError)"

definition runtime_timeout :: "pyval \<Rightarrow> rat result" where
  "runtime_timeout v =
     (case v of
        PInt n \<Rightarrow> bindE (float_of_int n) (\<lambda>r. if r < 0 then Inl ValueError else Inr r)
      | PFloat (Finite r) \<Rightarrow> if r < 0 then Inl ValueError else Inr r
      | _ \<Rightarrow> Inl ValueError)"

record runtime =
  rt_units :: "string list"
  rt_shutdown_timeout :: rat
  rt_state :: runtime_state
  rt_active :: "string list"
  rt_cancelled :: bool
  rt_failure :: "string option"

record runtime_snapshot =
  rs_state :: runtime_state
  rs_configured :: "string list"
  rs_active :: "string list"
  rs_cancellation_requested :: bool
  rs_failure_code :: "string option"

text \<open>
  \<open>env_start\<close> yields the exception raised, if any, and whether the cancellation token was set
  during the call; \<open>env_join\<close> the exception or the returned object; \<open>env_poll\<close> whether another
  thread set the token since the last look at it.
\<close>

record 'w runtime_env =
  env_start :: "string \<Rightarrow> 'w \<Rightarrow> pyexn option \<times> bool \<times> 'w"
  env_stop :: "string \<Rightarrow> rat \<Rightarrow> 'w \<Rightarrow> pyexn option \<times> 'w"
  env_join :: "string \<Rightarrow> rat \<Rightarrow> 'w \<Rightarrow> (pyexn + pyval) \<times> 'w"
  env_monotonic :: "'w \<Rightarrow> rat \<times> 'w"
  env_poll :: "'w \<Rightarrow> bool \<times> 'w"

definition mk_RuntimeCoordinator :: "string list \<Rightarrow> pyval \<Rightarrow> runtime result" where
  "mk_RuntimeCoordinator names shutdown_timeout_seconds =
     (if card (set names) \<noteq> length names then Inl ValueError
      else bindE (runtime_timeout shutdown_timeout_seconds) (\<lambda>t.
        Inr \<lparr>rt_units = names, rt_shutdown_timeout = t, rt_state = RtStopped, rt_active = [],
             rt_cancelled = False, rt_failure = None\<rparr>))"

definition snapshot_of :: "runtime \<Rightarrow> runtime_snapshot" where
  "snapshot_of rt =
     \<lparr>rs_state = rt_state rt, rs_configured = rt_units rt, rs_active = rt_active rt,
      rs_cancellation_requested = rt_cancelled rt, rs_failure_code = rt_failure rt\<rparr>"

section \<open>Shutdown\<close>

text \<open>\<open>if first_failure is None: first_failure = \<dots>\<close>\<close>

definition first_failure :: "string option \<Rightarrow> string \<Rightarrow> string option" where
  "first_failure f s = (case f of None \<Rightarrow> Some s | Some _ \<Rightarrow> f)"

text \<open>The first loop of \<open>_shutdown\<close>: every active component is asked to stop.\<close>

fun stop_units ::
    "'w runtime_env \<Rightarrow> rat \<Rightarrow> string list \<Rightarrow> string option \<Rightarrow> 'w \<Rightarrow> string option \<times> 'w" where
  "stop_units env deadline [] f w = (f, w)"
| "stop_units env deadline (u # us) f w =
     (let (now, w1) = env_monotonic env w;
          (raised, w2) = env_stop env u (max 0 (deadline - now)) w1;
          f' = (if raised \<noteq> None then first_failure f (u @ '':stop:error'') else f)
      in stop_units env deadline us f' w2)"

text \<open>
  What one \<open>join\<close> means: the component joined only if \<open>join\<close> returned \<open>True\<close>. The failure code is
  the one recorded when no failure was recorded before.
\<close>

definition join_verdict :: "string \<Rightarrow> pyexn + pyval \<Rightarrow> bool \<times> string option" where
  "join_verdict u outcome =
     (case outcome of
        Inl _ \<Rightarrow> (False, Some (u @ '':join:error''))
      | Inr (PBool True) \<Rightarrow> (True, None)
      | Inr (PBool False) \<Rightarrow> (False, Some (u @ '':join:timeout''))
      | Inr _ \<Rightarrow> (False, Some (u @ '':join:invalid_result'')))"

fun join_units ::
    "'w runtime_env \<Rightarrow> rat \<Rightarrow> string list \<Rightarrow> string option \<Rightarrow> string list \<Rightarrow> 'w
       \<Rightarrow> string option \<times> string list \<times> 'w" where
  "join_units env deadline [] f unresolved w = (f, unresolved, w)"
| "join_units env deadline (u # us) f unresolved w =
     (let (now, w1) = env_monotonic env w;
          (outcome, w2) = env_join env u (max 0 (deadline - now)) w1;
          (joined, code) = join_verdict u outcome;
          f' = (case code of None \<Rightarrow> f | Some c \<Rightarrow> first_failure f c)
      in join_units env deadline us f'
           (if joined then unresolved else unresolved @ [u]) w2)"

definition runtime_shutdown ::
    "'w runtime_env \<Rightarrow> rat \<Rightarrow> runtime_state \<Rightarrow> runtime \<Rightarrow> 'w
       \<Rightarrow> string option \<times> runtime \<times> 'w" where
  "runtime_shutdown env timeout final_state rt w =
     (let (now, w0) = env_monotonic env w;
          deadline = now + timeout;
          active = rev (rt_active rt);
          (f1, w1) = stop_units env deadline active None w0;
          (f2, unresolved, w2) = join_units env deadline active f1 [] w1;
          rt1 = rt\<lparr>rt_active := filter (\<lambda>u. u \<in> set unresolved) (rt_active rt)\<rparr>;
          rt2 = (if f2 = None
                 then (if final_state = RtStopped
                       then rt1\<lparr>rt_state := final_state, rt_failure := None\<rparr>
                       else rt1\<lparr>rt_state := final_state\<rparr>)
                 else rt1)
      in (f2, rt2, w2))"

section \<open>Start\<close>

text \<open>\<open>raise_if_cancelled\<close> after looking at the token: another thread may have set it.\<close>

definition poll_cancelled :: "'w runtime_env \<Rightarrow> runtime \<Rightarrow> 'w \<Rightarrow> runtime \<times> 'w" where
  "poll_cancelled env rt w =
     (let (c, w1) = env_poll env w in (rt\<lparr>rt_cancelled := rt_cancelled rt \<or> c\<rparr>, w1))"

fun start_units ::
    "'w runtime_env \<Rightarrow> string list \<Rightarrow> runtime \<Rightarrow> 'w \<Rightarrow> pyexn option \<times> runtime \<times> 'w" where
  "start_units env [] rt w = (None, rt, w)"
| "start_units env (u # us) rt w =
     (let (rt1, w1) = poll_cancelled env rt w in
      if rt_cancelled rt1 then (Some RuntimeCancelledError, rt1, w1)
      else
        let rt2 = rt1\<lparr>rt_active := rt_active rt1 @ [u]\<rparr>;
            (raised, c, w2) = env_start env u w1;
            rt3 = rt2\<lparr>rt_cancelled := rt_cancelled rt2 \<or> c\<rparr>
        in case raised of
             Some e \<Rightarrow> (Some e, rt3, w2)
           | None \<Rightarrow>
               let (rt4, w3) = poll_cancelled env rt3 w2 in
               if rt_cancelled rt4 then (Some RuntimeCancelledError, rt4, w3)
               else start_units env us rt4 w3)"

definition runtime_start ::
    "'w runtime_env \<Rightarrow> runtime \<Rightarrow> 'w \<Rightarrow> runtime_snapshot result \<times> runtime \<times> 'w" where
  "runtime_start env rt w =
     (if rt_state rt = RtRunning then (Inr (snapshot_of rt), rt, w)
      else if rt_state rt = RtStarting \<or> rt_state rt = RtStopping
        then (Inl RuntimeLifecycleError, rt, w)
      else if rt_active rt \<noteq> [] then (Inl RuntimeLifecycleError, rt, w)
      else
        let rt1 = rt\<lparr>rt_state := RtStarting, rt_failure := None, rt_cancelled := False\<rparr>;
            (raised, rt2, w2) = start_units env (rt_units rt) rt1 w
        in case raised of
             None \<Rightarrow> let rt3 = rt2\<lparr>rt_state := RtRunning\<rparr> in (Inr (snapshot_of rt3), rt3, w2)
           | Some e \<Rightarrow>
               let rt3 = rt2\<lparr>rt_cancelled := True, rt_failure := Some ''start_error''\<rparr>;
                   (f, rt4, w4) =
                     runtime_shutdown env (rt_shutdown_timeout rt3) RtFailed rt3 w2;
                   rt5 = (if f \<noteq> None then rt4\<lparr>rt_failure := f\<rparr> else rt4);
                   rt6 = rt5\<lparr>rt_state := RtFailed\<rparr>
               in (Inl (if e = KeyboardInterrupt \<or> e = SystemExit then e else RuntimeStartError),
                   rt6, w4))"

section \<open>Stop and cancel\<close>

definition runtime_cancel :: "runtime \<Rightarrow> runtime" where
  "runtime_cancel rt = rt\<lparr>rt_cancelled := True\<rparr>"

definition runtime_stop_locked ::
    "'w runtime_env \<Rightarrow> pyval \<Rightarrow> runtime \<Rightarrow> 'w \<Rightarrow> runtime_snapshot result \<times> runtime \<times> 'w" where
  "runtime_stop_locked env timeout_seconds rt w =
     (case (if timeout_seconds = PNone then Inr (rt_shutdown_timeout rt)
            else runtime_timeout timeout_seconds) of
        Inl e \<Rightarrow> (Inl e, rt, w)
      | Inr timeout \<Rightarrow>
          if rt_state rt = RtStopped \<and> rt_active rt = [] then (Inr (snapshot_of rt), rt, w)
          else if rt_state rt = RtStopping then (Inr (snapshot_of rt), rt, w)
          else
            let rt1 = rt\<lparr>rt_state := RtStopping, rt_cancelled := True\<rparr>;
                (f, rt2, w2) = runtime_shutdown env timeout RtStopped rt1 w
            in case f of
                 None \<Rightarrow> (Inr (snapshot_of rt2), rt2, w2)
               | Some c \<Rightarrow>
                   (Inl RuntimeShutdownError, rt2\<lparr>rt_state := RtFailed, rt_failure := Some c\<rparr>, w2))"

definition runtime_stop ::
    "'w runtime_env \<Rightarrow> pyval \<Rightarrow> runtime \<Rightarrow> 'w \<Rightarrow> runtime_snapshot result \<times> runtime \<times> 'w" where
  "runtime_stop env timeout_seconds rt w =
     runtime_stop_locked env timeout_seconds (runtime_cancel rt) w"

section \<open>Runs\<close>

inductive runtime_step :: "'w runtime_env \<Rightarrow> runtime \<times> 'w \<Rightarrow> runtime \<times> 'w \<Rightarrow> bool"
  for env where
  run_start: "runtime_start env rt w = (r, rt', w') \<Longrightarrow> runtime_step env (rt, w) (rt', w')"
| run_stop: "runtime_stop env t rt w = (r, rt', w') \<Longrightarrow> runtime_step env (rt, w) (rt', w')"
| run_cancel: "runtime_step env (rt, w) (runtime_cancel rt, w)"

inductive runtime_reachable :: "'w runtime_env \<Rightarrow> runtime \<times> 'w \<Rightarrow> bool" for env where
  reach_init: "mk_RuntimeCoordinator names t = Inr rt \<Longrightarrow> runtime_reachable env (rt, w)"
| reach_step: "runtime_reachable env s \<Longrightarrow> runtime_step env s s' \<Longrightarrow> runtime_reachable env s'"

text \<open>What holds of a coordinator between calls.\<close>

definition runtime_inv :: "runtime \<Rightarrow> bool" where
  "runtime_inv rt \<longleftrightarrow>
     distinct (rt_units rt) \<and> subseq (rt_active rt) (rt_units rt) \<and>
     rt_state rt \<in> {RtStopped, RtRunning, RtFailed} \<and>
     (rt_state rt = RtRunning \<longrightarrow> rt_active rt = rt_units rt) \<and>
     (rt_state rt = RtStopped \<longrightarrow> rt_active rt = []) \<and>
     (rt_failure rt = None \<longleftrightarrow> rt_state rt \<noteq> RtFailed)"

lemma join_verdict_code: "join_verdict u o1 = (j, c) \<Longrightarrow> j \<longleftrightarrow> c = None"
  by (auto simp: join_verdict_def split: sum.splits pyval.splits bool.splits)

lemma first_failure_not_None [simp]: "first_failure f s \<noteq> None"
  by (simp add: first_failure_def split: option.splits)

lemma first_failure_Some [simp]: "first_failure (Some f) s = Some f"
  by (simp add: first_failure_def)

text \<open>A recorded failure is never lost, and every component that did not join leaves one.\<close>

lemma join_units_unresolved:
  "join_units env d us f unr w = (f', unr', w') \<Longrightarrow>
     set unr \<subseteq> set unr' \<and> set unr' \<subseteq> set unr \<union> set us \<and>
     (f \<noteq> None \<longrightarrow> f' = f) \<and> (f' = None \<longrightarrow> unr' = unr)"
proof (induction env d us f unr w rule: join_units.induct)
  case (2 env d u us f unr w)
  obtain now w1 where 1: "env_monotonic env w = (now, w1)" by fastforce
  obtain out w2 where 2: "env_join env u (max 0 (d - now)) w1 = (out, w2)" by fastforce
  obtain j c where 3: "join_verdict u out = (j, c)" by fastforce
  have j: "j \<longleftrightarrow> c = None" using 3 by (rule join_verdict_code)
  have "join_units env d us (case c of None \<Rightarrow> f | Some x \<Rightarrow> first_failure f x)
      (if j then unr else unr @ [u]) w2 = (f', unr', w')"
    using "2.prems" by (simp add: 1 2 3)
  from "2.IH" [OF 1 [symmetric] refl 2 [symmetric] refl 3 [symmetric] refl refl this] j
  show ?case by (cases c) (auto split: option.splits)
qed simp

lemma runtime_shutdown_facts:
  assumes "runtime_shutdown env t fin rt w = (f, rt', w')"
  shows "rt_units rt' = rt_units rt \<and> subseq (rt_active rt') (rt_active rt) \<and>
    (f = None \<longrightarrow> rt_active rt' = [] \<and> rt_state rt' = fin \<and>
       rt_failure rt' = (if fin = RtStopped then None else rt_failure rt)) \<and>
    (f \<noteq> None \<longrightarrow> rt_state rt' = rt_state rt \<and> rt_failure rt' = rt_failure rt)"
proof -
  from assms obtain f1 w1 unr d w2 where
    j: "join_units env d (rev (rt_active rt)) f1 [] w1 = (f, unr, w2)"
    and rt': "rt' = (let rt1 = rt\<lparr>rt_active := filter (\<lambda>u. u \<in> set unr) (rt_active rt)\<rparr> in
       if f = None then (if fin = RtStopped
          then rt1\<lparr>rt_state := fin, rt_failure := None\<rparr> else rt1\<lparr>rt_state := fin\<rparr>) else rt1)"
    by (auto simp: runtime_shutdown_def Let_def split: prod.splits)
  from join_units_unresolved [OF j] show ?thesis
    by (auto simp: rt' Let_def)
qed

text \<open>What a run of the start loop over \<open>us\<close> leaves, whether or not it ends with an exception.\<close>

definition start_post :: "string list \<Rightarrow> runtime \<Rightarrow> pyexn option \<Rightarrow> runtime \<Rightarrow> bool" where
  "start_post us rt r rt' \<longleftrightarrow>
     (\<exists>ps. prefix ps us \<and> rt_active rt' = rt_active rt @ ps \<and> (r = None \<longrightarrow> ps = us)) \<and>
     rt_units rt' = rt_units rt \<and> rt_state rt' = rt_state rt \<and> rt_failure rt' = rt_failure rt \<and>
     rt_shutdown_timeout rt' = rt_shutdown_timeout rt \<and>
     (r = None \<longrightarrow> rt_cancelled rt' = (us = [] \<and> rt_cancelled rt))"

lemma start_post_stop:
  assumes "rt' = rt\<lparr>rt_active := rt_active rt @ ps, rt_cancelled := c\<rparr>" and "prefix ps us"
  shows "start_post us rt (Some e) rt'"
  using assms by (auto simp: start_post_def)

lemma start_post_Cons:
  assumes "start_post us rt1 r rt'"
    and "rt1 = rt\<lparr>rt_active := rt_active rt @ [u], rt_cancelled := False\<rparr>"
  shows "start_post (u # us) rt r rt'"
  using assms by (fastforce simp: start_post_def)

lemma start_units_facts:
  "start_units env us rt w = (r, rt', w') \<Longrightarrow> start_post us rt r rt'"
proof (induction us arbitrary: rt w)
  case Nil
  then show ?case by (auto simp: start_post_def)
next
  case (Cons u us)
  obtain c1 w1 where 1: "env_poll env w = (c1, w1)" by fastforce
  obtain x c2 w2 where 2: "env_start env u w1 = (x, c2, w2)" by (metis prod_cases3)
  obtain c3 w3 where 3: "env_poll env w2 = (c3, w3)" by fastforce
  let ?c1 = "rt_cancelled rt \<or> c1"
  let ?c3 = "rt_cancelled rt \<or> c1 \<or> c2 \<or> c3"
  note eqs = Cons.prems 1 2 3
  consider "?c1" | e where "\<not> ?c1" "x = Some e" | "\<not> ?c1" "x = None" "?c3"
    | "\<not> ?c3" "x = None" by (cases x) auto
  then show ?case
  proof cases
    case 1
    with eqs have "r = Some RuntimeCancelledError" "rt' = rt\<lparr>rt_cancelled := True\<rparr>"
      by (auto simp: poll_cancelled_def Let_def)
    then show ?thesis
      by (auto intro!: start_post_stop [where ps = "[]" and c = True])
  next
    case 2
    with eqs show ?thesis
      by (auto simp: poll_cancelled_def Let_def
          intro!: start_post_stop [where ps = "[u]" and c = c2])
  next
    case 3
    with eqs show ?thesis
      by (auto simp: poll_cancelled_def Let_def
          intro!: start_post_stop [where ps = "[u]" and c = True])
  next
    case 4
    with eqs have "start_units env us
        (rt\<lparr>rt_cancelled := False, rt_active := rt_active rt @ [u]\<rparr>) w3 = (r, rt', w')"
      by (auto simp: poll_cancelled_def Let_def)
    from Cons.IH [OF this] show ?thesis by (rule start_post_Cons) simp
  qed
qed

lemma runtime_start_cases:
  assumes "runtime_start env rt w = (r, rt', w')"
  obtains (kept) "rt' = rt" "w' = w"
      "r = (if rt_state rt = RtRunning then Inr (snapshot_of rt) else Inl RuntimeLifecycleError)"
      "rt_state rt \<in> {RtRunning, RtStarting, RtStopping} \<or> rt_active rt \<noteq> []"
  | (started) rt2 where "rt_state rt \<notin> {RtRunning, RtStarting, RtStopping}" "rt_active rt = []"
      "start_units env (rt_units rt)
         (rt\<lparr>rt_state := RtStarting, rt_failure := None, rt_cancelled := False\<rparr>) w = (None, rt2, w')"
      "rt' = rt2\<lparr>rt_state := RtRunning\<rparr>" "r = Inr (snapshot_of rt')"
  | (failed) e rt2 w2 f rt4 where "rt_state rt \<notin> {RtRunning, RtStarting, RtStopping}"
      "rt_active rt = []"
      "start_units env (rt_units rt)
         (rt\<lparr>rt_state := RtStarting, rt_failure := None, rt_cancelled := False\<rparr>) w
           = (Some e, rt2, w2)"
      "runtime_shutdown env (rt_shutdown_timeout rt2) RtFailed
         (rt2\<lparr>rt_cancelled := True, rt_failure := Some ''start_error''\<rparr>) w2 = (f, rt4, w')"
      "rt' = rt4\<lparr>rt_state := RtFailed,
         rt_failure := (if f = None then rt_failure rt4 else f)\<rparr>"
      "r = Inl (if e = KeyboardInterrupt \<or> e = SystemExit then e else RuntimeStartError)"
proof -
  let ?rt1 = "rt\<lparr>rt_state := RtStarting, rt_failure := None, rt_cancelled := False\<rparr>"
  consider "rt_state rt \<in> {RtRunning, RtStarting, RtStopping} \<or> rt_active rt \<noteq> []"
    | "rt_state rt \<notin> {RtRunning, RtStarting, RtStopping}" "rt_active rt = []" by blast
  then show thesis
  proof cases
    case 1
    with assms show thesis
      by (intro kept) (auto simp: runtime_start_def split: if_splits)
  next
    case 2
    obtain x rt2 w2 where s: "start_units env (rt_units rt) ?rt1 w = (x, rt2, w2)"
      by (metis prod_cases3)
    show thesis
    proof (cases x)
      case None
      with assms 2 s show thesis
        by (intro started [of rt2]) (auto simp: runtime_start_def Let_def)
    next
      case (Some e)
      obtain f rt4 w4 where d: "runtime_shutdown env (rt_shutdown_timeout rt2) RtFailed
         (rt2\<lparr>rt_cancelled := True, rt_failure := Some ''start_error''\<rparr>) w2 = (f, rt4, w4)"
        by (metis prod_cases3)
      with assms 2 s Some show thesis
        by (intro failed [of e rt2 w2 f rt4]) (auto simp: runtime_start_def Let_def)
    qed
  qed
qed

lemma runtime_stop_cases:
  assumes "runtime_stop env t rt w = (r, rt', w')"
  obtains (refused) e where "r = Inl e" "rt' = runtime_cancel rt" "w' = w" "t \<noteq> PNone"
  | (kept) "r = Inr (snapshot_of rt')" "rt' = runtime_cancel rt" "w' = w"
      "rt_state rt = RtStopped \<and> rt_active rt = [] \<or> rt_state rt = RtStopping"
  | (ran) timeout f rt2 where
      "runtime_shutdown env timeout RtStopped (rt\<lparr>rt_state := RtStopping, rt_cancelled := True\<rparr>) w
         = (f, rt2, w')"
      "\<not> (rt_state rt = RtStopped \<and> rt_active rt = [])"
      "r = (case f of None \<Rightarrow> Inr (snapshot_of rt2) | Some c \<Rightarrow> Inl RuntimeShutdownError)"
      "rt' = (case f of None \<Rightarrow> rt2
              | Some c \<Rightarrow> rt2\<lparr>rt_state := RtFailed, rt_failure := Some c\<rparr>)"
      "timeout = (if t = PNone then rt_shutdown_timeout rt else timeout)"
proof -
  let ?t = "if t = PNone then Inr (rt_shutdown_timeout rt) else runtime_timeout t"
  show thesis
  proof (cases ?t)
    case (Inl e)
    with assms show thesis
      by (intro refused [of e])
        (auto simp: runtime_stop_def runtime_stop_locked_def runtime_cancel_def split: if_splits)
  next
    case (Inr timeout)
    show thesis
    proof (cases "rt_state rt = RtStopped \<and> rt_active rt = [] \<or> rt_state rt = RtStopping")
      case True
      with assms Inr show thesis
        by (intro kept)
          (auto simp: runtime_stop_def runtime_stop_locked_def runtime_cancel_def split: if_splits)
    next
      case False
      obtain f rt2 w2 where d: "runtime_shutdown env timeout RtStopped
          (rt\<lparr>rt_state := RtStopping, rt_cancelled := True\<rparr>) w = (f, rt2, w2)"
        by (metis prod_cases3)
      with assms Inr False show thesis
        by (intro ran [of timeout f rt2])
          (auto simp: runtime_stop_def runtime_stop_locked_def runtime_cancel_def Let_def
            split: if_splits option.splits)
    qed
  qed
qed

section \<open>The invariant\<close>

lemma runtime_inv_init: "mk_RuntimeCoordinator names t = Inr rt \<Longrightarrow> runtime_inv rt"
  by (auto simp: mk_RuntimeCoordinator_def runtime_inv_def result_simps card_distinct
      split: if_splits)

lemma runtime_start_inv:
  assumes "runtime_start env rt w = (r, rt', w')" and "runtime_inv rt"
  shows "runtime_inv rt'"
  using assms(1)
proof (cases rule: runtime_start_cases)
  case kept
  with assms(2) show ?thesis by simp
next
  case (started rt2)
  from start_units_facts [OF started(3)] started assms(2) show ?thesis
    by (auto simp: start_post_def runtime_inv_def)
next
  case (failed e rt2 w2 f rt4)
  from start_units_facts [OF failed(3)] failed(2)
  have "rt_units rt2 = rt_units rt" "prefix (rt_active rt2) (rt_units rt)"
    by (auto simp: start_post_def)
  then have "rt_units rt4 = rt_units rt \<and> subseq (rt_active rt4) (rt_units rt)
      \<and> (f = None \<longrightarrow> rt_failure rt4 = Some ''start_error'')"
    using runtime_shutdown_facts [OF failed(4)]
    by (auto intro: subseq_order.order_trans prefix_imp_subseq)
  with failed(5) assms(2) show ?thesis by (auto simp: runtime_inv_def)
qed

lemma runtime_stop_inv:
  assumes "runtime_stop env t rt w = (r, rt', w')" and "runtime_inv rt"
  shows "runtime_inv rt'"
  using assms(1)
proof (cases rule: runtime_stop_cases)
  case (refused e)
  with assms(2) show ?thesis by (simp add: runtime_inv_def runtime_cancel_def)
next
  case kept
  with assms(2) show ?thesis by (simp add: runtime_inv_def runtime_cancel_def)
next
  case (ran timeout f rt2)
  from runtime_shutdown_facts [OF ran(1)] assms(2)
  have "rt_units rt2 = rt_units rt" "subseq (rt_active rt2) (rt_units rt)"
      "f = None \<longrightarrow> rt_active rt2 = [] \<and> rt_state rt2 = RtStopped \<and> rt_failure rt2 = None"
    by (auto simp: runtime_inv_def intro: subseq_order.order_trans)
  with ran(4) assms(2) show ?thesis by (auto simp: runtime_inv_def split: option.splits)
qed

lemma runtime_step_inv:
  "runtime_step env s s' \<Longrightarrow> runtime_inv (fst s) \<Longrightarrow> runtime_inv (fst s')"
proof (induction rule: runtime_step.induct)
  case (run_start rt w r rt' w')
  then show ?case using runtime_start_inv [of env rt w r rt' w'] by simp
next
  case (run_stop t rt w r rt' w')
  then show ?case using runtime_stop_inv [of env t rt w r rt' w'] by simp
next
  case (run_cancel rt w)
  then show ?case by (simp add: runtime_inv_def runtime_cancel_def)
qed

lemma runtime_reachable_inv: "runtime_reachable env s \<Longrightarrow> runtime_inv (fst s)"
proof (induction rule: runtime_reachable.induct)
  case (reach_init names t rt w)
  then show ?case using runtime_inv_init by simp
next
  case (reach_step s s')
  then show ?case using runtime_step_inv by blast
qed

section \<open>Recording the calls\<close>

text \<open>
  \<open>logged env\<close> behaves like \<open>env\<close> and records, in order, every call made on a component, with
  the time limit it was given and what came of it.
\<close>

datatype runtime_call =
    CStart string
  | CStop string rat "pyexn option"
  | CJoin string rat "pyexn + pyval"

fun call_unit :: "runtime_call \<Rightarrow> string" where
  "call_unit (CStart u) = u"
| "call_unit (CStop u t x) = u"
| "call_unit (CJoin u t x) = u"

fun call_limit :: "runtime_call \<Rightarrow> rat" where
  "call_limit (CStart u) = 0"
| "call_limit (CStop u t x) = t"
| "call_limit (CJoin u t x) = t"

definition logged :: "'w runtime_env \<Rightarrow> ('w \<times> runtime_call list) runtime_env" where
  "logged env =
     \<lparr>env_start = (\<lambda>u (w, l). case env_start env u w of (x, c, w') \<Rightarrow> (x, c, w', l @ [CStart u])),
      env_stop = (\<lambda>u t (w, l). case env_stop env u t w of (x, w') \<Rightarrow> (x, w', l @ [CStop u t x])),
      env_join = (\<lambda>u t (w, l). case env_join env u t w of (x, w') \<Rightarrow> (x, w', l @ [CJoin u t x])),
      env_monotonic = (\<lambda>(w, l). case env_monotonic env w of (x, w') \<Rightarrow> (x, w', l)),
      env_poll = (\<lambda>(w, l). case env_poll env w of (x, w') \<Rightarrow> (x, w', l))\<rparr>"

fun is_stop :: "runtime_call \<Rightarrow> bool" where
  "is_stop (CStop u t x) = True" | "is_stop c = False"

fun is_join :: "runtime_call \<Rightarrow> bool" where
  "is_join (CJoin u t x) = True" | "is_join c = False"

text \<open>
  What a recorded call says: the component joined only if \<open>join\<close> returned \<open>True\<close>, and the failure
  code a call leaves, read off its recorded outcome.
\<close>

definition call_joined :: "runtime_call \<Rightarrow> bool" where
  "call_joined c \<longleftrightarrow> (\<exists>u t. c = CJoin u t (Inr (PBool True)))"

definition call_failure :: "runtime_call \<Rightarrow> string option" where
  "call_failure c = (case c of
      CStart u \<Rightarrow> None
    | CStop u t x \<Rightarrow> if x = None then None else Some (u @ '':stop:error'')
    | CJoin u t x \<Rightarrow>
        if x = Inr (PBool True) then None
        else if x = Inr (PBool False) then Some (u @ '':join:timeout'')
        else if \<exists>v. x = Inr v then Some (u @ '':join:invalid_result'')
        else Some (u @ '':join:error''))"

fun first_code :: "runtime_call list \<Rightarrow> string option" where
  "first_code [] = None"
| "first_code (c # cs) = (case call_failure c of Some x \<Rightarrow> Some x | None \<Rightarrow> first_code cs)"

lemma first_code_append:
  "first_code (a @ b) = (case first_code a of Some x \<Rightarrow> Some x | None \<Rightarrow> first_code b)"
  by (induction a) (auto split: option.splits)


lemma join_verdict_recorded:
  "join_verdict u x = (call_joined (CJoin u t x), call_failure (CJoin u t x))"
  by (cases x) (auto simp: join_verdict_def call_joined_def call_failure_def
      split: pyval.splits bool.splits)

lemma stop_units_log:
  "stop_units (logged env) d us f (w, l) = (f', w', l') \<Longrightarrow>
     \<exists>ts. l' = l @ ts \<and> map call_unit ts = us \<and> list_all is_stop ts \<and>
       f' = (case f of Some x \<Rightarrow> Some x | None \<Rightarrow> first_code ts)"
proof (induction us arbitrary: f w l)
  case (Cons u us)
  obtain now w1 where 1: "env_monotonic env w = (now, w1)" by fastforce
  obtain x w2 where 2: "env_stop env u (max 0 (d - now)) w1 = (x, w2)" by fastforce
  let ?c = "CStop u (max 0 (d - now)) x"
  let ?f = "if x \<noteq> None then first_failure f (u @ '':stop:error'') else f"
  from Cons.prems 1 2 have
    "stop_units (logged env) d us ?f (w2, l @ [?c]) = (f', w', l')"
    by (auto simp: logged_def Let_def)
  from Cons.IH [OF this] obtain ts where
    "l' = (l @ [?c]) @ ts" "map call_unit ts = us" "list_all is_stop ts"
    "f' = (case ?f of Some x \<Rightarrow> Some x | None \<Rightarrow> first_code ts)" by blast
  then show ?case
    by (intro exI [of _ "?c # ts"])
      (auto simp: call_failure_def first_failure_def split: option.splits)
qed (auto split: option.splits)

lemma join_units_log:
  "join_units (logged env) d us f unr (w, l) = (f', unr', w', l') \<Longrightarrow>
     \<exists>ts. l' = l @ ts \<and> map call_unit ts = us \<and> list_all is_join ts \<and>
       f' = (case f of Some x \<Rightarrow> Some x | None \<Rightarrow> first_code ts) \<and>
       unr' = unr @ map call_unit (filter (\<lambda>c. \<not> call_joined c) ts)"
proof (induction us arbitrary: f unr w l)
  case (Cons u us)
  obtain now w1 where 1: "env_monotonic env w = (now, w1)" by fastforce
  obtain x w2 where 2: "env_join env u (max 0 (d - now)) w1 = (x, w2)" by fastforce
  let ?c = "CJoin u (max 0 (d - now)) x"
  let ?f = "case call_failure ?c of None \<Rightarrow> f | Some c \<Rightarrow> first_failure f c"
  let ?u = "if call_joined ?c then unr else unr @ [u]"
  from Cons.prems 1 2 have
    "join_units (logged env) d us ?f ?u (w2, l @ [?c]) = (f', unr', w', l')"
    by (auto simp: logged_def Let_def join_verdict_recorded [where t = "max 0 (d - now)"])
  from Cons.IH [OF this] obtain ts where
    "l' = (l @ [?c]) @ ts" "map call_unit ts = us" "list_all is_join ts"
    "f' = (case ?f of Some x \<Rightarrow> Some x | None \<Rightarrow> first_code ts)"
    "unr' = ?u @ map call_unit (filter (\<lambda>c. \<not> call_joined c) ts)" by blast
  then show ?case
    by (intro exI [of _ "?c # ts"]) (auto simp: first_failure_def split: option.splits)
qed (auto split: option.splits)

text \<open>
  The calls of one shutdown: every active component is stopped and then joined in reverse order, the
  recorded failure is that of the first call that left one, and a component stays active exactly
  if a join of it did not return \<open>True\<close>.
\<close>

lemma runtime_shutdown_log:
  assumes "runtime_shutdown (logged env) t fin rt (w, l) = (f, rt', w', l')"
  shows "\<exists>stops joins. l' = l @ stops @ joins \<and>
    list_all is_stop stops \<and> map call_unit stops = rev (rt_active rt) \<and>
    list_all is_join joins \<and> map call_unit joins = rev (rt_active rt) \<and>
    f = first_code (stops @ joins) \<and>
    rt_active rt' = filter (\<lambda>u. \<exists>c \<in> set joins. call_unit c = u \<and> \<not> call_joined c) (rt_active rt)"
proof -
  obtain now w0 where 0: "env_monotonic env w = (now, w0)" by fastforce
  obtain f1 w1 l1 where 1: "stop_units (logged env) (now + t) (rev (rt_active rt)) None (w0, l)
      = (f1, w1, l1)" by (metis prod_cases3)
  obtain f2 unr w2 l2 where 2: "join_units (logged env) (now + t) (rev (rt_active rt)) f1 [] (w1, l1)
      = (f2, unr, w2, l2)" by (metis prod_cases4)
  from assms 0 1 2 have r: "l' = l2" "f = f2"
    "rt_active rt' = filter (\<lambda>u. u \<in> set unr) (rt_active rt)"
    by (auto simp: runtime_shutdown_def logged_def Let_def split: if_splits)
  moreover from stop_units_log [OF 1] obtain stops where
    "l1 = l @ stops" "map call_unit stops = rev (rt_active rt)" "list_all is_stop stops"
    "f1 = first_code stops" by auto
  moreover from join_units_log [OF 2] obtain joins where
    "l2 = l1 @ joins" "map call_unit joins = rev (rt_active rt)" "list_all is_join joins"
    "f2 = (case f1 of Some x \<Rightarrow> Some x | None \<Rightarrow> first_code joins)"
    "unr = map call_unit (filter (\<lambda>c. \<not> call_joined c) joins)" by auto
  moreover have "(u \<in> set (map call_unit (filter (\<lambda>c. \<not> call_joined c) joins))) \<longleftrightarrow>
      (\<exists>c \<in> set joins. call_unit c = u \<and> \<not> call_joined c)" for u by auto
  ultimately show ?thesis
    by (intro exI [of _ stops] exI [of _ joins]) (simp add: first_code_append)
qed

lemma start_units_log:
  "start_units (logged env) us rt (w, l) = (r, rt', w', l') \<Longrightarrow>
     \<exists>ps. prefix ps us \<and> rt_active rt' = rt_active rt @ ps \<and> l' = l @ map CStart ps"
proof (induction us arbitrary: rt w l)
  case (Cons u us)
  obtain c1 w1 where 1: "env_poll env w = (c1, w1)" by fastforce
  obtain x c2 w2 where 2: "env_start env u w1 = (x, c2, w2)" by (metis prod_cases3)
  obtain c3 w3 where 3: "env_poll env w2 = (c3, w3)" by fastforce
  let ?c3 = "rt_cancelled rt \<or> c1 \<or> c2 \<or> c3"
  have eqs: "env_poll (logged env) (w, l) = (c1, w1, l)"
    "env_start (logged env) u (w1, l) = (x, c2, w2, l @ [CStart u])"
    "env_poll (logged env) (w2, l @ [CStart u]) = (c3, w3, l @ [CStart u])"
    using 1 2 3 by (simp_all add: logged_def)
  show ?case
  proof (cases "rt_cancelled rt \<or> c1")
    case True
    with Cons.prems eqs show ?thesis
      by (intro exI [of _ "[]"]) (auto simp: poll_cancelled_def Let_def)
  next
    case go: False
    show ?thesis
    proof (cases "x = None \<and> \<not> ?c3")
      case False
      with go Cons.prems eqs show ?thesis
        by (intro exI [of _ "[u]"])
          (auto simp: poll_cancelled_def Let_def split: option.splits if_splits)
    next
      case True
      with go Cons.prems eqs have "start_units (logged env) us
          (rt\<lparr>rt_active := rt_active rt @ [u], rt_cancelled := False\<rparr>) (w3, l @ [CStart u])
            = (r, rt', w', l')"
        by (auto simp: poll_cancelled_def Let_def)
      from Cons.IH [OF this] obtain ps where
        "prefix ps us" "rt_active rt' = rt_active rt @ u # ps" "l' = l @ map CStart (u # ps)"
        by auto
      then show ?thesis by (intro exI [of _ "u # ps"]) simp
    qed
  qed
qed simp

section \<open>The shared deadline\<close>

text \<open>\<open>clock_monotone time env\<close>: \<open>time w\<close> is the clock of the world \<open>w\<close> and it never goes back.\<close>

definition clock_monotone :: "('w \<Rightarrow> rat) \<Rightarrow> 'w runtime_env \<Rightarrow> bool" where
  "clock_monotone time env \<longleftrightarrow>
     (\<forall>w now w'. env_monotonic env w = (now, w') \<longrightarrow> time w \<le> now \<and> now \<le> time w') \<and>
     (\<forall>u t w x w'. env_stop env u t w = (x, w') \<longrightarrow> time w \<le> time w') \<and>
     (\<forall>u t w x w'. env_join env u t w = (x, w') \<longrightarrow> time w \<le> time w')"

lemma stop_units_limits:
  assumes "clock_monotone time env"
  shows "stop_units (logged env) d us f (w, l) = (f', w', l') \<Longrightarrow> d - time w \<le> t \<Longrightarrow> 0 \<le> t \<Longrightarrow>
     (\<forall>c \<in> set l. call_limit c \<in> {0..t}) \<Longrightarrow>
     d - time w' \<le> t \<and> (\<forall>c \<in> set l'. call_limit c \<in> {0..t})"
proof (induction us arbitrary: f w l)
  case (Cons u us)
  obtain now w1 where 1: "env_monotonic env w = (now, w1)" by fastforce
  obtain x w2 where 2: "env_stop env u (max 0 (d - now)) w1 = (x, w2)" by fastforce
  let ?c = "CStop u (max 0 (d - now)) x"
  from 1 2 assms have t: "time w \<le> now" "now \<le> time w1" "time w1 \<le> time w2"
    by (auto simp: clock_monotone_def)
  from Cons.prems(1) 1 2 obtain f2 where
    "stop_units (logged env) d us f2 (w2, l @ [?c]) = (f', w', l')"
    by (auto simp: logged_def Let_def)
  then show ?case by (rule Cons.IH) (use t Cons.prems in auto)
qed simp

lemma join_units_limits:
  assumes "clock_monotone time env"
  shows "join_units (logged env) d us f unr (w, l) = (f', unr', w', l') \<Longrightarrow> d - time w \<le> t \<Longrightarrow>
     0 \<le> t \<Longrightarrow> (\<forall>c \<in> set l. call_limit c \<in> {0..t}) \<Longrightarrow>
     (\<forall>c \<in> set l'. call_limit c \<in> {0..t})"
proof (induction us arbitrary: f unr w l)
  case (Cons u us)
  obtain now w1 where 1: "env_monotonic env w = (now, w1)" by fastforce
  obtain x w2 where 2: "env_join env u (max 0 (d - now)) w1 = (x, w2)" by fastforce
  let ?c = "CJoin u (max 0 (d - now)) x"
  from 1 2 assms have t: "time w \<le> now" "now \<le> time w1" "time w1 \<le> time w2"
    by (auto simp: clock_monotone_def)
  from Cons.prems(1) 1 2 obtain f2 unr2 where
    "join_units (logged env) d us f2 unr2 (w2, l @ [?c]) = (f', unr', w', l')"
    by (auto simp: logged_def Let_def split: prod.splits)
  then show ?case by (rule Cons.IH) (use t Cons.prems in auto)
qed simp

section \<open>Properties\<close>

text \<open>
  C23: the coordinator's bookkeeping never drifts. In every state reachable by \<open>start\<close>, \<open>stop\<close> and
  \<open>cancel\<close> with any components, the active components are a subsequence of the configured ones,
  RUNNING means that all of them are active, STOPPED that none is, and a failure code is present
  exactly in the FAILED state.
\<close>

theorem runtime_invariant:
  assumes "runtime_reachable env (rt, w)"
  shows "rt_state rt \<in> {RtStopped, RtRunning, RtFailed} \<and>
    subseq (rt_active rt) (rt_units rt) \<and> distinct (rt_active rt) \<and>
    (rt_state rt = RtRunning \<longrightarrow> rt_active rt = rt_units rt) \<and>
    (rt_state rt = RtStopped \<longrightarrow> rt_active rt = []) \<and>
    (rt_failure rt = None \<longleftrightarrow> rt_state rt \<noteq> RtFailed)"
  using runtime_reachable_inv [OF assms]
  by (auto simp: runtime_inv_def subseq_conv_nths)

text \<open>
  C24: start is all or nothing. From a state with nothing active, either every configured component
  is started, in order and once, and the coordinator is RUNNING; or the components whose start was
  attempted (a prefix of the configuration) are each stopped and then each joined in reverse order,
  and the coordinator is FAILED.
\<close>

theorem runtime_start_all_or_nothing:
  assumes "runtime_start (logged env) rt (w, l) = (r, rt', w', l')"
    and "rt_state rt \<in> {RtStopped, RtFailed}" and "rt_active rt = []"
  shows "(rt_state rt' = RtRunning \<and> r = Inr (snapshot_of rt') \<and> rt_active rt' = rt_units rt \<and>
      l' = l @ map CStart (rt_units rt)) \<or>
    (\<exists>ps stops joins. prefix ps (rt_units rt) \<and> rt_state rt' = RtFailed \<and> (\<exists>e. r = Inl e) \<and>
      set (rt_active rt') \<subseteq> set ps \<and> rt_cancelled rt' \<and>
      l' = l @ map CStart ps @ stops @ joins \<and>
      list_all is_stop stops \<and> map call_unit stops = rev ps \<and>
      list_all is_join joins \<and> map call_unit joins = rev ps)"
  using assms(1)
proof (cases rule: runtime_start_cases)
  case kept
  with assms show ?thesis by auto
next
  case (started rt2)
  from start_units_log [OF started(3)] start_units_facts [OF started(3)] started(2,4,5)
  show ?thesis by (auto simp: start_post_def)
next
  case (failed e rt2 w2 f rt4)
  obtain w2a l2 where w2: "w2 = (w2a, l2)" by fastforce
  from start_units_log [OF failed(3) [unfolded w2]] failed(2) obtain ps where
    ps: "prefix ps (rt_units rt)" "rt_active rt2 = ps" "l2 = l @ map CStart ps" by auto
  have c: "rt_cancelled rt4" and a: "set (rt_active rt4) \<subseteq> set ps"
    using failed(4) ps(2)
    by (auto simp: runtime_shutdown_def Let_def split: prod.splits if_splits)
  from runtime_shutdown_log [OF failed(4) [unfolded w2]] ps obtain stops joins where
    "l' = l2 @ stops @ joins" "list_all is_stop stops" "list_all is_join joins"
    "map call_unit stops = rev ps" "map call_unit joins = rev ps" by auto
  with ps c a failed(5,6) show ?thesis
    by (intro disjI2 exI [of _ ps] exI [of _ stops] exI [of _ joins]) auto
qed


text \<open>
  The shutdown deadline is shared. If the clock never goes back, no component is given more
  than the remaining part of the timeout, and never a negative limit, however long the components
  before it took.
\<close>

theorem shutdown_limits_bounded:
  assumes "clock_monotone time env" and "0 \<le> t"
    and "runtime_shutdown (logged env) t fin rt (w, []) = (f, rt', w', l')"
  shows "\<forall>c \<in> set l'. call_limit c \<in> {0..t}"
proof -
  obtain now w0 where 0: "env_monotonic env w = (now, w0)" by fastforce
  obtain f1 w1 l1 where 1: "stop_units (logged env) (now + t) (rev (rt_active rt)) None (w0, [])
      = (f1, w1, l1)" by (metis prod_cases3)
  obtain f2 unr w2 l2 where 2: "join_units (logged env) (now + t) (rev (rt_active rt)) f1 [] (w1, l1)
      = (f2, unr, w2, l2)" by (metis prod_cases4)
  from assms(3) 0 1 2 have l': "l' = l2" by (auto simp: runtime_shutdown_def logged_def Let_def)
  from assms(1) 0 have "now \<le> time w0" by (auto simp: clock_monotone_def)
  then have s: "now + t - time w1 \<le> t \<and> (\<forall>c \<in> set l1. call_limit c \<in> {0..t})"
    using stop_units_limits [OF assms(1) 1, of t] assms(2) by simp
  show ?thesis unfolding l'
    using join_units_limits [OF assms(1) 2, of t] s assms(2) by simp
qed

section \<open>The properties at concrete components\<close>

text \<open>
  Two components over a world that counts seconds: each call takes one second, and the component
  \<open>slow\<close> does not join.
\<close>

definition demo_runtime_env :: "rat runtime_env" where
  "demo_runtime_env =
     \<lparr>env_start = (\<lambda>u w. (None, False, w + 1)),
      env_stop = (\<lambda>u t w. (None, w + 1)),
      env_join = (\<lambda>u t w. (Inr (PBool (u \<noteq> ''slow'')), w + 1)),
      env_monotonic = (\<lambda>w. (w, w)),
      env_poll = (\<lambda>w. (False, w))\<rparr>"

definition demo_runtime :: runtime where
  "demo_runtime =
     \<lparr>rt_units = [''ui'', ''slow''], rt_shutdown_timeout = 5, rt_state = RtStopped, rt_active = [],
      rt_cancelled = False, rt_failure = None\<rparr>"

theorem runtime_invariant_witness:
  "rt_state (fst (snd (runtime_start demo_runtime_env demo_runtime 0)))
     \<in> {RtStopped, RtRunning, RtFailed}"
proof -
  have m: "mk_RuntimeCoordinator [''ui'', ''slow''] (PInt 5) = Inr demo_runtime"
    by code_simp
  obtain r rt' w' where s: "runtime_start demo_runtime_env demo_runtime 0 = (r, rt', w')"
    by (metis prod_cases3)
  from reach_step [OF reach_init [OF m] run_start [OF s]]
  have "runtime_reachable demo_runtime_env (rt', w')" .
  from runtime_invariant [OF this] s show ?thesis by simp
qed

theorem runtime_start_all_or_nothing_witness:
  "snd (snd (snd (runtime_start (logged demo_runtime_env) demo_runtime (0, []))))
     = [CStart ''ui'', CStart ''slow'']"
proof -
  have s: "runtime_start (logged demo_runtime_env) demo_runtime (0, []) =
      (Inr (snapshot_of (demo_runtime\<lparr>rt_state := RtRunning, rt_active := [''ui'', ''slow'']\<rparr>)),
       demo_runtime\<lparr>rt_state := RtRunning, rt_active := [''ui'', ''slow'']\<rparr>, 2,
       [CStart ''ui'', CStart ''slow''])" by code_simp
  have i: "rt_state demo_runtime = RtStopped" "rt_active demo_runtime = []"
    by (simp_all add: demo_runtime_def)
  from runtime_start_all_or_nothing [OF s] i show ?thesis using s by (simp add: demo_runtime_def)
qed

definition demo_running :: runtime where
  "demo_running = demo_runtime\<lparr>rt_state := RtRunning, rt_active := [''ui'', ''slow'']\<rparr>"


theorem shutdown_limits_bounded_witness:
  "call_limit (CStop ''ui'' 4 None) \<in> {0..5} \<and> call_limit (CJoin ''ui'' 2 (Inr (PBool True))) \<in> {0..5}"
proof -
  have m: "clock_monotone (\<lambda>w. w) demo_runtime_env"
    by (auto simp: clock_monotone_def demo_runtime_env_def)
  have s: "runtime_shutdown (logged demo_runtime_env) 5 RtStopped demo_running (0, []) =
     (Some ''slow:join:timeout'', demo_running\<lparr>rt_active := [''slow'']\<rparr>, 4,
      [CStop ''slow'' 5 None, CStop ''ui'' 4 None,
       CJoin ''slow'' 3 (Inr (PBool False)), CJoin ''ui'' 2 (Inr (PBool True))])" by code_simp
  from shutdown_limits_bounded [OF m _ s] show ?thesis by simp
qed

end
