(* ===== verification/Monitoring.thy ===== *)
theory Monitoring
  imports Core Effects
begin

text \<open>
  \<open>src/rcm/monitoring.py\<close>: polling the sensor of each node at most once per interval, backing off
  while it fails, and answering with the last good sample as long as it is fresh. The sensor and
  the two clocks are parameters acting on a world \<open>'w\<close>. Times and durations are exact rationals.
\<close>

section \<open>The policy\<close>

definition positive_number :: "pyval \<Rightarrow> rat option \<Rightarrow> rat result" where
  "positive_number v maximum =
     (case v of
        PInt n \<Rightarrow> bindE (float_of_int n) (\<lambda>r.
          if r \<le> 0 \<or> (case maximum of None \<Rightarrow> False | Some m \<Rightarrow> m < r) then Inl ValueError
          else Inr r)
      | PFloat (Finite r) \<Rightarrow>
          if r \<le> 0 \<or> (case maximum of None \<Rightarrow> False | Some m \<Rightarrow> m < r) then Inl ValueError
          else Inr r
      | _ \<Rightarrow> Inl ValueError)"

record monitoring_policy =
  mp_interval :: rat
  mp_stale_after :: rat
  mp_maximum_backoff :: rat
  mp_multiplier :: rat

definition mk_MonitoringPolicy ::
    "pyval \<Rightarrow> pyval \<Rightarrow> pyval \<Rightarrow> pyval \<Rightarrow> monitoring_policy result" where
  "mk_MonitoringPolicy interval_seconds stale_after_seconds maximum_backoff_seconds
      backoff_multiplier =
     bindE (positive_number interval_seconds (Some 31536000)) (\<lambda>interval.
     bindE (positive_number stale_after_seconds (Some 31536000)) (\<lambda>stale.
     bindE (positive_number maximum_backoff_seconds (Some 31536000)) (\<lambda>maximum.
     bindE (positive_number backoff_multiplier None) (\<lambda>multiplier.
     if stale < interval * 2 then Inl ValueError
     else if maximum < interval then Inl ValueError
     else if multiplier < 1 then Inl ValueError
     else Inr \<lparr>mp_interval = interval, mp_stale_after = stale, mp_maximum_backoff = maximum,
               mp_multiplier = multiplier\<rparr>))))"

section \<open>States and observations\<close>

record monitoring_observation =
  mo_snapshot :: metric_snapshot
  mo_last_attempt_state :: metric_state
  mo_last_good :: "metric_snapshot option"
  mo_age_seconds :: "rat option"
  mo_consecutive_failures :: nat
  mo_next_poll_seconds :: rat

record node_monitoring =
  nm_snapshot :: metric_snapshot
  nm_last_good :: "metric_snapshot option"
  nm_failures :: nat
  nm_next_due :: rat
  nm_sequence :: int

type_synonym monitoring_states = "string \<Rightarrow> node_monitoring option"

datatype sensor_return = SensorRaises pyexn | SensorSnapshot metric_snapshot | SensorOther

record 'w monitor_env =
  mon_policy :: monitoring_policy
  mon_monotonic :: "'w \<Rightarrow> rat \<times> 'w"
  mon_monotonic_ns :: "'w \<Rightarrow> int \<times> 'w"
  mon_sample :: "string \<Rightarrow> 'w \<Rightarrow> sensor_return \<times> 'w"

definition monitor_node_id :: "string \<Rightarrow> unit result" where
  "monitor_node_id s =
     (if s = [] \<or> 128 < length s \<or> list_ex (\<lambda>c. ord c < 33 \<or> ord c = 127) s
      then Inl ValueError else Inr ())"

fun detail_for_state :: "metric_state \<Rightarrow> string" where
  "detail_for_state MUnavailable = ''sensor_unavailable''"
| "detail_for_state MUnsupported = ''sensor_unsupported''"
| "detail_for_state MPermissionDenied = ''sensor_permission_denied''"
| "detail_for_state MStale = ''sample_expired''"
| "detail_for_state MOk = ''sensor_contract_invalid''"

definition stale_after_ns :: "monitoring_policy \<Rightarrow> int" where
  "stale_after_ns p = floor (mp_stale_after p * 1000000000)"

text \<open>The loop of \<open>_backoff\<close>: \<open>None\<close> is its early return of the maximum.\<close>

fun backoff_loop :: "monitoring_policy \<Rightarrow> nat \<Rightarrow> rat \<Rightarrow> rat option" where
  "backoff_loop p 0 delay = Some delay"
| "backoff_loop p (Suc n) delay =
     (if mp_maximum_backoff p / mp_multiplier p \<le> delay then None
      else backoff_loop p n (delay * mp_multiplier p))"

definition monitor_backoff :: "monitoring_policy \<Rightarrow> metric_state \<Rightarrow> nat \<Rightarrow> rat" where
  "monitor_backoff p state failures =
     (if state = MUnsupported \<or> state = MPermissionDenied then mp_maximum_backoff p
      else (case backoff_loop p failures (mp_interval p) of
          None \<Rightarrow> mp_maximum_backoff p
        | Some delay \<Rightarrow> min delay (mp_maximum_backoff p)))"

text \<open>A snapshot without readings, through the constructor of \<open>MetricSnapshot\<close>.\<close>

definition bare_snapshot ::
    "string \<Rightarrow> int \<Rightarrow> int \<Rightarrow> metric_state \<Rightarrow> string \<Rightarrow> metric_snapshot result" where
  "bare_snapshot nid observed sequence state detail =
     mk_MetricSnapshot nid observed sequence state PNone PNone PNone detail"

definition metric_value :: "rat option \<Rightarrow> pyval" where
  "metric_value v = (case v of None \<Rightarrow> PNone | Some r \<Rightarrow> PFloat (Finite r))"

definition resequenced :: "metric_snapshot \<Rightarrow> int \<Rightarrow> metric_snapshot result" where
  "resequenced s sequence =
     mk_MetricSnapshot (ms_node_id s) (ms_observed_at_ns s) sequence (ms_state s)
       (metric_value (ms_cpu_percent s)) (metric_value (ms_memory_percent s))
       (metric_value (ms_temperature_celsius s)) (ms_detail_code s)"

section \<open>Operations\<close>

definition monitor_observation ::
    "'w monitor_env \<Rightarrow> node_monitoring \<Rightarrow> rat \<Rightarrow> 'w \<Rightarrow> monitoring_observation result \<times> 'w" where
  "monitor_observation env st now w =
     (let obs = (\<lambda>snapshot age. \<lparr>mo_snapshot = snapshot,
            mo_last_attempt_state = ms_state (nm_snapshot st), mo_last_good = nm_last_good st,
            mo_age_seconds = age, mo_consecutive_failures = nm_failures st,
            mo_next_poll_seconds = max 0 (nm_next_due st - now)\<rparr>)
      in case nm_last_good st of
          None \<Rightarrow> (Inr (obs (nm_snapshot st) None), w)
        | Some good \<Rightarrow>
            let (now_ns, w1) = mon_monotonic_ns env w;
                age_ns = max 0 (now_ns - ms_observed_at_ns good);
                age = Some (rat_of_int age_ns / 1000000000)
            in if stale_after_ns (mon_policy env) < age_ns then
                 (case bare_snapshot (ms_node_id good) (ms_observed_at_ns good) (nm_sequence st)
                     MStale ''sample_expired'' of
                    Inl e \<Rightarrow> (Inl e, w1)
                  | Inr s \<Rightarrow> (Inr (obs s age), w1))
               else if ms_state (nm_snapshot st) = MUnavailable
                   \<or> ms_state (nm_snapshot st) = MStale then (Inr (obs good age), w1)
               else (Inr (obs (nm_snapshot st) age), w1))"

text \<open>
  What one sample means: an accepted snapshot (\<open>Inr\<close>) or the state and detail code of a failed
  attempt. An exception outside \<open>Exception\<close> is not caught.
\<close>

definition classify_sample ::
    "monitoring_policy \<Rightarrow> string \<Rightarrow> int \<Rightarrow> sensor_return
       \<Rightarrow> (metric_state \<times> string + metric_snapshot) result" where
  "classify_sample p nid now_ns r =
     (case r of
        SensorRaises e \<Rightarrow>
          if \<not> is_exception e then Inl e
          else Inr (Inl (if e = RcmUnsupported then (MUnsupported, ''sensor_unsupported'')
            else if e = RcmPermissionDenied then (MPermissionDenied, ''sensor_permission_denied'')
            else if e = RcmUnavailable \<or> e = RcmStale then (MUnavailable, ''sensor_unavailable'')
            else (MUnavailable, ''sensor_failure'')))
      | SensorOther \<Rightarrow> Inr (Inl (MUnavailable, ''sensor_contract_invalid''))
      | SensorSnapshot s \<Rightarrow>
          if ms_node_id s \<noteq> nid \<or> now_ns < ms_observed_at_ns s
            then Inr (Inl (MUnavailable, ''sensor_contract_invalid''))
          else if ms_state s \<noteq> MOk then Inr (Inl (ms_state s, detail_for_state (ms_state s)))
          else if stale_after_ns p < now_ns - ms_observed_at_ns s
            then Inr (Inl (MStale, ''sample_expired''))
          else Inr (Inr s))"

text \<open>The state \<open>poll\<close> records for a classified sample.\<close>

definition recorded_state ::
    "monitoring_policy \<Rightarrow> string \<Rightarrow> rat \<Rightarrow> int \<Rightarrow> node_monitoring option
       \<Rightarrow> metric_state \<times> string + metric_snapshot \<Rightarrow> node_monitoring result" where
  "recorded_state p nid now now_ns current c =
     (let sequence = (case current of None \<Rightarrow> 0 | Some st \<Rightarrow> nm_sequence st + 1);
          last_good = (case current of None \<Rightarrow> None | Some st \<Rightarrow> nm_last_good st);
          failures = (case current of None \<Rightarrow> 0 | Some st \<Rightarrow> nm_failures st)
      in case c of
          Inr s \<Rightarrow> bindE (resequenced s sequence) (\<lambda>fresh.
            Inr \<lparr>nm_snapshot = fresh, nm_last_good = Some fresh, nm_failures = 0,
                 nm_next_due = now + mp_interval p, nm_sequence = sequence\<rparr>)
        | Inl (state, detail) \<Rightarrow>
            bindE (bare_snapshot nid now_ns sequence state detail) (\<lambda>snapshot.
            Inr \<lparr>nm_snapshot = snapshot, nm_last_good = last_good, nm_failures = failures + 1,
                 nm_next_due = now + monitor_backoff p state (failures + 1),
                 nm_sequence = sequence\<rparr>))"

definition monitor_poll ::
    "'w monitor_env \<Rightarrow> string \<Rightarrow> monitoring_states \<Rightarrow> 'w
       \<Rightarrow> monitoring_observation result \<times> monitoring_states \<times> 'w" where
  "monitor_poll env nid sts w =
     (case monitor_node_id nid of
        Inl e \<Rightarrow> (Inl e, sts, w)
      | Inr _ \<Rightarrow>
          let (now, w1) = mon_monotonic env w in
          if (case sts nid of None \<Rightarrow> False | Some st \<Rightarrow> now < nm_next_due st) then
            (case monitor_observation env (the (sts nid)) now w1 of (r, w2) \<Rightarrow> (r, sts, w2))
          else
            let (now_ns, w2) = mon_monotonic_ns env w1;
                (sampled, w3) = mon_sample env nid w2
            in case bindE (classify_sample (mon_policy env) nid now_ns sampled)
                 (recorded_state (mon_policy env) nid now now_ns (sts nid)) of
                 Inl e \<Rightarrow> (Inl e, sts, w3)
               | Inr st \<Rightarrow>
                   (case monitor_observation env st now w3 of
                      (r, w4) \<Rightarrow> (r, sts(nid \<mapsto> st), w4)))"

definition monitor_current ::
    "'w monitor_env \<Rightarrow> string \<Rightarrow> monitoring_states \<Rightarrow> 'w \<Rightarrow> monitoring_observation result \<times> 'w" where
  "monitor_current env nid sts w =
     (case monitor_node_id nid of
        Inl e \<Rightarrow> (Inl e, w)
      | Inr _ \<Rightarrow>
          let (now, w1) = mon_monotonic env w in
          (case sts nid of
             Some st \<Rightarrow> monitor_observation env st now w1
           | None \<Rightarrow>
               let (now_ns, w2) = mon_monotonic_ns env w1 in
               (bindE (bare_snapshot nid now_ns 0 MUnavailable ''not_sampled'') (\<lambda>s.
                  Inr \<lparr>mo_snapshot = s, mo_last_attempt_state = MUnavailable, mo_last_good = None,
                    mo_age_seconds = None, mo_consecutive_failures = 0,
                    mo_next_poll_seconds = 0\<rparr>), w2)))"

definition monitor_reset ::
    "string option \<Rightarrow> monitoring_states \<Rightarrow> unit result \<times> monitoring_states" where
  "monitor_reset nid sts =
     (case nid of
        None \<Rightarrow> (Inr (), (\<lambda>_. None))
      | Some n \<Rightarrow>
          (case monitor_node_id n of
             Inl e \<Rightarrow> (Inl e, sts)
           | Inr _ \<Rightarrow> (Inr (), sts(n := None))))"

inductive monitor_reachable :: "'w monitor_env \<Rightarrow> monitoring_states \<Rightarrow> bool" for env where
  mon_init: "monitor_reachable env (\<lambda>_. None)"
| mon_poll: "monitor_reachable env sts \<Longrightarrow> monitor_poll env nid sts w = (r, sts', w') \<Longrightarrow>
    monitor_reachable env sts'"
| mon_reset: "monitor_reachable env sts \<Longrightarrow> monitor_reset nid sts = (r, sts') \<Longrightarrow>
    monitor_reachable env sts'"

section \<open>The backoff\<close>

lemma policy_bounds:
  assumes "mk_MonitoringPolicy a b c d = Inr p"
  shows "0 < mp_interval p" "mp_interval p \<le> mp_maximum_backoff p" "1 \<le> mp_multiplier p"
    "2 * mp_interval p \<le> mp_stale_after p"
  using assms
  by (auto simp: mk_MonitoringPolicy_def positive_number_def result_simps
      split: if_splits pyval.splits pyfloat.splits)

lemma backoff_loop_closed:
  assumes "1 \<le> mp_multiplier p" and "0 < d"
  shows "(case backoff_loop p n d of None \<Rightarrow> mp_maximum_backoff p | Some x \<Rightarrow> min x (mp_maximum_backoff p))
    = min (d * mp_multiplier p ^ n) (mp_maximum_backoff p)"
  using assms(2)
proof (induction n arbitrary: d)
  case (Suc n)
  let ?k = "mp_multiplier p" and ?m = "mp_maximum_backoff p"
  have k: "0 < ?k" and pow: "1 \<le> ?k ^ n" using assms(1) by (auto simp: one_le_power)
  show ?case
  proof (cases "?m / ?k \<le> d")
    case True
    then have "?m \<le> d * ?k" using k by (simp add: pos_divide_le_eq)
    also have "\<dots> \<le> d * ?k * ?k ^ n" using pow k Suc.prems by simp
    finally show ?thesis using True by (simp add: mult.assoc)
  next
    case False
    with Suc.IH [of "d * ?k"] Suc.prems k show ?thesis by (simp add: mult.assoc)
  qed
qed simp

lemma backoff_closed:
  assumes "mk_MonitoringPolicy a b c d = Inr p"
  shows "monitor_backoff p state n =
    (if state = MUnsupported \<or> state = MPermissionDenied then mp_maximum_backoff p
     else min (mp_interval p * mp_multiplier p ^ n) (mp_maximum_backoff p))"
  using backoff_loop_closed [of p "mp_interval p" n] policy_bounds [OF assms]
  by (simp add: monitor_backoff_def)

lemma backoff_bounds:
  assumes "mk_MonitoringPolicy a b c d = Inr p"
  shows "mp_interval p \<le> monitor_backoff p state n" "monitor_backoff p state n \<le> mp_maximum_backoff p"
proof -
  note b = policy_bounds [OF assms]
  have "mp_interval p * 1 \<le> mp_interval p * mp_multiplier p ^ n"
    using b one_le_power [of "mp_multiplier p" n] by (intro mult_left_mono) auto
  with b show "mp_interval p \<le> monitor_backoff p state n" "monitor_backoff p state n \<le> mp_maximum_backoff p"
    by (auto simp: backoff_closed [OF assms])
qed

section \<open>What the recorded states mean\<close>

definition node_inv :: "string \<Rightarrow> node_monitoring \<Rightarrow> bool" where
  "node_inv nid st \<longleftrightarrow>
     ms_node_id (nm_snapshot st) = nid \<and>
     (nm_failures st = 0 \<longleftrightarrow> ms_state (nm_snapshot st) = MOk) \<and>
     (ms_state (nm_snapshot st) = MOk \<longrightarrow> nm_last_good st = Some (nm_snapshot st)) \<and>
     (\<forall>g. nm_last_good st = Some g \<longrightarrow> ms_state g = MOk \<and> ms_node_id g = nid)"

lemma snapshot_fields:
  assumes "mk_MetricSnapshot nid t sq state c m x detail = Inr s"
  shows "ms_node_id s = nid" "ms_state s = state" "ms_observed_at_ns s = t" "ms_sequence s = sq"
  using assms by (auto simp: mk_MetricSnapshot_def result_simps Let_def split: if_splits)

lemma recorded_state_inv:
  assumes "bindE (classify_sample p nid now_ns r) (recorded_state p nid now now_ns current) = Inr st"
    and "\<And>old. current = Some old \<Longrightarrow> node_inv nid old"
  shows "node_inv nid st"
proof -
  obtain cl where c: "classify_sample p nid now_ns r = Inr cl"
    and s: "recorded_state p nid now now_ns current cl = Inr st"
    using assms(1) by (auto simp: result_simps)
  show ?thesis
  proof (cases cl)
    case (Inr m)
    with c have "ms_node_id m = nid" "ms_state m = MOk"
      by (auto simp: classify_sample_def split: sensor_return.splits if_splits)
    moreover from s Inr obtain fresh sq where f: "resequenced m sq = Inr fresh"
      and st: "nm_snapshot st = fresh" "nm_last_good st = Some fresh" "nm_failures st = 0"
      by (auto simp: recorded_state_def Let_def result_simps)
    moreover from f have "ms_node_id fresh = ms_node_id m" "ms_state fresh = ms_state m"
      by (simp_all add: resequenced_def snapshot_fields)
    ultimately show ?thesis by (simp add: node_inv_def)
  next
    case (Inl sd)
    then obtain state detail where sd: "cl = Inl (state, detail)" by (cases sd) auto
    with c have "state \<noteq> MOk"
      by (auto simp: classify_sample_def split: sensor_return.splits if_splits)
    moreover from s sd obtain snap sq where f: "bare_snapshot nid now_ns sq state detail = Inr snap"
      and st: "nm_snapshot st = snap" "nm_failures st \<noteq> 0"
        "nm_last_good st = (case current of None \<Rightarrow> None | Some old \<Rightarrow> nm_last_good old)"
      by (auto simp: recorded_state_def Let_def result_simps)
    moreover from f have "ms_node_id snap = nid" "ms_state snap = state"
      by (simp_all add: bare_snapshot_def snapshot_fields)
    moreover have "ms_state g = MOk \<and> ms_node_id g = nid" if "nm_last_good st = Some g" for g
      using st(3) that assms(2) by (cases current) (simp_all add: node_inv_def)
    ultimately show ?thesis unfolding node_inv_def by simp
  qed
qed

lemma monitor_poll_cases:
  assumes "monitor_poll env nid sts w = (r, sts', w')"
  obtains (refused) e where "r = Inl e" "sts' = sts"
  | (early) t w1 st where "mon_monotonic env w = (t, w1)" "sts nid = Some st" "t < nm_next_due st"
      "monitor_observation env st t w1 = (r, w')" "sts' = sts"
  | (sampled) t w1 now_ns w2 s w3 st where "mon_monotonic env w = (t, w1)"
      "mon_monotonic_ns env w1 = (now_ns, w2)" "mon_sample env nid w2 = (s, w3)"
      "bindE (classify_sample (mon_policy env) nid now_ns s)
         (recorded_state (mon_policy env) nid t now_ns (sts nid)) = Inr st"
      "monitor_observation env st t w3 = (r, w')" "sts' = sts(nid \<mapsto> st)"
      "case sts nid of None \<Rightarrow> True | Some old \<Rightarrow> nm_next_due old \<le> t"
proof -
  obtain t w1 where 1: "mon_monotonic env w = (t, w1)" by fastforce
  obtain now_ns w2 where 2: "mon_monotonic_ns env w1 = (now_ns, w2)" by fastforce
  obtain s w3 where 3: "mon_sample env nid w2 = (s, w3)" by fastforce
  show thesis
  proof (cases "monitor_node_id nid")
    case (Inl e)
    with assms show thesis by (intro refused) (auto simp: monitor_poll_def)
  next
    case (Inr u)
    show thesis
    proof (cases "case sts nid of None \<Rightarrow> False | Some st \<Rightarrow> t < nm_next_due st")
      case True
      with assms Inr 1 show thesis
        by (auto simp: monitor_poll_def intro: early split: option.splits prod.splits)
    next
      case False
      with assms Inr 1 2 3 show thesis
        by (auto simp: monitor_poll_def not_less intro: sampled refused
            split: sum.splits prod.splits option.splits)
    qed
  qed
qed

lemma monitor_reachable_inv:
  "monitor_reachable env sts \<Longrightarrow> sts nid = Some st \<Longrightarrow> node_inv nid st"
proof (induction arbitrary: nid st rule: monitor_reachable.induct)
  case (mon_poll sts nid0 w r sts' w')
  from mon_poll(2) show ?case
  proof (cases rule: monitor_poll_cases)
    case (sampled t w1 now_ns w2 s w3 st0)
    with mon_poll show ?thesis
      by (auto split: if_splits intro: recorded_state_inv)
  qed (use mon_poll in auto)
next
  case (mon_reset sts n r sts')
  then show ?case by (auto simp: monitor_reset_def split: option.splits sum.splits if_splits)
qed simp

lemma age_bound:
  assumes "n \<le> floor (r * 1000000000)"
  shows "rat_of_int n / 1000000000 \<le> r"
proof -
  from assms have "rat_of_int n \<le> r * 1000000000" by (simp add: le_floor_iff)
  then show ?thesis by simp
qed

lemma observation_ok:
  assumes "monitor_observation env st now w = (Inr obs, w')" and "node_inv nid st"
    and "ms_state (mo_snapshot obs) = MOk"
  shows "ms_node_id (mo_snapshot obs) = nid \<and> mo_last_good obs = Some (mo_snapshot obs) \<and>
    (\<exists>age. mo_age_seconds obs = Some age \<and> 0 \<le> age \<and> age \<le> mp_stale_after (mon_policy env))"
proof (cases "nm_last_good st")
  case None
  with assms show ?thesis by (auto simp: monitor_observation_def node_inv_def)
next
  case (Some g)
  obtain now_ns w1 where c: "mon_monotonic_ns env w = (now_ns, w1)" by fastforce
  let ?age = "max 0 (now_ns - ms_observed_at_ns g)"
  have b: "rat_of_int ?age / 1000000000 \<le> mp_stale_after (mon_policy env)"
    if "\<not> stale_after_ns (mon_policy env) < ?age"
    using that by (intro age_bound) (simp add: stale_after_ns_def not_less)
  have z: "0 \<le> rat_of_int ?age / 1000000000" by simp
  have stale: "stale_after_ns (mon_policy env) < ?age \<Longrightarrow> False"
    using assms(1,3) Some c
    by (auto simp: monitor_observation_def bare_snapshot_def Let_def snapshot_fields
        simp del: max_less_iff_conj less_max_iff_disj split: sum.splits)
  have age: "mo_age_seconds obs = Some (rat_of_int ?age / 1000000000)"
    using assms(1) Some c by (auto simp: monitor_observation_def Let_def split: if_splits sum.splits)
  have "ms_node_id (mo_snapshot obs) = nid \<and> mo_last_good obs = Some (mo_snapshot obs)"
    using assms Some c stale
    by (auto simp: monitor_observation_def node_inv_def Let_def split: if_splits sum.splits)
  with age z b stale show ?thesis by blast
qed

text \<open>How long the sensor of a node is left alone after the attempt that recorded \<open>st\<close>.\<close>

definition recorded_delay :: "monitoring_policy \<Rightarrow> node_monitoring \<Rightarrow> rat" where
  "recorded_delay p st =
     (if ms_state (nm_snapshot st) = MOk then mp_interval p
      else if ms_state (nm_snapshot st) \<in> {MUnsupported, MPermissionDenied} then mp_maximum_backoff p
      else min (mp_interval p * mp_multiplier p ^ nm_failures st) (mp_maximum_backoff p))"

lemma recorded_exactly:
  assumes "mk_MonitoringPolicy a b c d = Inr p"
    and "bindE (classify_sample p nid now_ns r) (recorded_state p nid now now_ns current) = Inr st"
  shows "nm_next_due st = now + recorded_delay p st \<and>
    nm_failures st = (if ms_state (nm_snapshot st) = MOk then 0
      else Suc (case current of None \<Rightarrow> 0 | Some old \<Rightarrow> nm_failures old))"
proof -
  obtain cl where c: "classify_sample p nid now_ns r = Inr cl"
    and s: "recorded_state p nid now now_ns current cl = Inr st"
    using assms(2) by (auto simp: result_simps)
  show ?thesis
  proof (cases cl)
    case (Inr m)
    with c have "ms_state m = MOk"
      by (auto simp: classify_sample_def split: sensor_return.splits if_splits)
    with s Inr show ?thesis
      by (auto simp: recorded_state_def Let_def result_simps recorded_delay_def resequenced_def
          snapshot_fields)
  next
    case (Inl sd)
    then obtain state detail where sd: "cl = Inl (state, detail)" by (cases sd) auto
    with c have "state \<noteq> MOk"
      by (auto simp: classify_sample_def split: sensor_return.splits if_splits)
    with s sd show ?thesis
      by (auto simp: recorded_state_def Let_def result_simps recorded_delay_def bare_snapshot_def
          snapshot_fields backoff_closed [OF assms(1)] split: option.splits)
  qed
qed

text \<open>
  Calls made before the time \<open>due\<close> of one node: polls of any node, those of this one while the clock
  is before \<open>due\<close>, and resets of single other nodes. (\<open>current\<close> changes nothing.)
\<close>

inductive calls_before ::
    "'w monitor_env \<Rightarrow> string \<Rightarrow> rat \<Rightarrow> monitoring_states \<Rightarrow> monitoring_states \<Rightarrow> bool"
  for env nid due where
  before_none: "calls_before env nid due sts sts"
| before_poll: "calls_before env nid due sts sts1 \<Longrightarrow> monitor_poll env n sts1 w = (r, sts2, w') \<Longrightarrow>
    (n = nid \<longrightarrow> fst (mon_monotonic env w) < due) \<Longrightarrow> calls_before env nid due sts sts2"
| before_reset: "calls_before env nid due sts sts1 \<Longrightarrow> n \<noteq> nid \<Longrightarrow>
    monitor_reset (Some n) sts1 = (r, sts2) \<Longrightarrow> calls_before env nid due sts sts2"

lemma calls_before_keep:
  "calls_before env nid due sts sts' \<Longrightarrow> sts nid = Some st \<Longrightarrow> nm_next_due st = due \<Longrightarrow>
     sts' nid = Some st"
proof (induction rule: calls_before.induct)
  case (before_poll sts sts1 n w r sts2 w')
  from before_poll(2) show ?case
    by (cases rule: monitor_poll_cases) (use before_poll in auto)
next
  case (before_reset sts sts1 n r sts2)
  then show ?case by (auto simp: monitor_reset_def split: sum.splits)
qed simp

section \<open>Properties\<close>

text \<open>
  C27: the backoff loop computes its closed form. For an accepted policy, after \<open>n\<close> failures the delay
  is the interval multiplied \<open>n\<close> times and capped at the maximum (at once the maximum for a sensor
  that is unsupported or not permitted); it is never below the interval, never above the maximum,
  and never shrinks with another failure.
\<close>

theorem backoff_closed_form:
  assumes "mk_MonitoringPolicy interval stale maximum multiplier = Inr p"
  shows "monitor_backoff p state n =
      (if state = MUnsupported \<or> state = MPermissionDenied then mp_maximum_backoff p
       else min (mp_interval p * mp_multiplier p ^ n) (mp_maximum_backoff p)) \<and>
    mp_interval p \<le> monitor_backoff p state n \<and> monitor_backoff p state n \<le> mp_maximum_backoff p \<and>
    monitor_backoff p state n \<le> monitor_backoff p state (Suc n)"
proof -
  note b = policy_bounds [OF assms]
  have "mp_interval p * mp_multiplier p ^ n * 1 \<le> mp_interval p * mp_multiplier p ^ n * mp_multiplier p"
    using b by (intro mult_left_mono) auto
  then have "monitor_backoff p state n \<le> monitor_backoff p state (Suc n)"
    by (auto simp: backoff_closed [OF assms] mult_ac)
  with backoff_bounds [OF assms] backoff_closed [OF assms] show ?thesis by simp
qed

text \<open>
  C28: the sensor is not asked too early. When a poll at time \<open>t\<close> recorded an attempt \<open>st\<close>, the next
  one is due exactly \<open>d\<close> later: one interval after a good sample; after a failed one the maximum for
  an unsupported or forbidden sensor, else the interval multiplied once per failure in a row, capped at
  the maximum (the count is one more than before, and zero after a good sample). Until then, whatever
  other polls and resets of other nodes come between, a poll of the node changes no state and does
  not depend on the sensor. A reset of the node itself, and an attempt that could not be recorded
  because the snapshot was refused, put no delay on the next poll.
\<close>

theorem monitor_rate_limited:
  assumes "mk_MonitoringPolicy interval stale maximum multiplier = Inr p" and "mon_policy env = p"
    and "mon_monotonic env w = (t, w1)"
    and "monitor_poll env nid sts w = (r, sts', w')" and "sts' nid = Some st" and "sts nid \<noteq> Some st"
    and "d = (if ms_state (nm_snapshot st) = MOk then mp_interval p
      else if ms_state (nm_snapshot st) \<in> {MUnsupported, MPermissionDenied} then mp_maximum_backoff p
      else min (mp_interval p * mp_multiplier p ^ nm_failures st) (mp_maximum_backoff p))"
    and "calls_before env nid (t + d) sts' sts2"
    and "mon_monotonic env w2 = (t2, w3)" and "t2 < t + d"
  shows "nm_failures st = (if ms_state (nm_snapshot st) = MOk then 0
      else Suc (case sts nid of None \<Rightarrow> 0 | Some old \<Rightarrow> nm_failures old)) \<and>
    nm_next_due st = t + d \<and> sts2 nid = Some st \<and>
    fst (snd (monitor_poll env nid sts2 w2)) = sts2 \<and>
    monitor_poll (env\<lparr>mon_sample := sample\<rparr>) nid sts2 w2 = monitor_poll env nid sts2 w2"
  using assms(4)
proof (cases rule: monitor_poll_cases)
  case (sampled t' w1' now_ns w2' s w3' st')
  have d: "d = recorded_delay p st" by (simp add: assms(7) recorded_delay_def)
  have st: "st' = st" using sampled(6) assms(5) by simp
  have t: "t' = t" using sampled(1) assms(3) by simp
  note due = recorded_exactly [OF assms(1) sampled(4) [unfolded st t assms(2)]]
  have keep: "sts2 nid = Some st"
    using calls_before_keep [OF assms(8,5)] due by (simp add: d)
  have early: "t2 < nm_next_due st" using due assms(10) by (simp add: d)
  have ok: "monitor_node_id nid = Inr ()"
    using assms(4-6) by (auto simp: monitor_poll_def split: sum.splits)
  have obs: "monitor_observation (env\<lparr>mon_sample := sample\<rparr>) st now v = monitor_observation env st now v"
    for now v by (cases "nm_last_good st") (simp_all add: monitor_observation_def)
  have "monitor_poll env nid sts2 w2 =
      (case monitor_observation env st t2 w3 of (r, v) \<Rightarrow> (r, sts2, v))"
    "monitor_poll (env\<lparr>mon_sample := sample\<rparr>) nid sts2 w2 =
      (case monitor_observation env st t2 w3 of (r, v) \<Rightarrow> (r, sts2, v))"
    using early assms(9) ok by (simp_all add: monitor_poll_def keep obs)
  with due keep show ?thesis by (simp add: d split: prod.split)
qed (use assms(5,6) in auto)

text \<open>
  A good answer is a fresh sample. In every reachable state, an observation in the state OK,
  whether from \<open>poll\<close> or from \<open>current\<close>, is the last good sample of that very node, and its reported
  age is at most \<open>stale_after_seconds\<close>; failed attempts never turn into readings.
\<close>

theorem monitor_ok_is_fresh:
  assumes "monitor_reachable env sts"
    and "monitor_poll env nid sts w = (Inr obs, sts', w') \<or> monitor_current env nid sts w = (Inr obs, w')"
    and "ms_state (mo_snapshot obs) = MOk"
  shows "ms_node_id (mo_snapshot obs) = nid \<and> mo_last_good obs = Some (mo_snapshot obs) \<and>
    (\<exists>age. mo_age_seconds obs = Some age \<and> 0 \<le> age \<and> age \<le> mp_stale_after (mon_policy env))"
  using assms(2)
proof
  assume p: "monitor_poll env nid sts w = (Inr obs, sts', w')"
  then show ?thesis
  proof (cases rule: monitor_poll_cases)
    case (early t w1 st)
    from observation_ok [OF early(4) monitor_reachable_inv [OF assms(1) early(2)] assms(3)]
    show ?thesis .
  next
    case (sampled t w1 now_ns w2 s w3 st)
    have "node_inv nid st"
      using mon_poll [OF assms(1) p] sampled(6) by (auto intro: monitor_reachable_inv)
    from observation_ok [OF sampled(5) this assms(3)] show ?thesis .
  qed simp
next
  assume c: "monitor_current env nid sts w = (Inr obs, w')"
  obtain t w1 where t: "mon_monotonic env w = (t, w1)" by fastforce
  show ?thesis
  proof (cases "sts nid")
    case None
    with c assms(3) show ?thesis
      by (auto simp: monitor_current_def bare_snapshot_def result_simps Let_def snapshot_fields
          split: sum.splits prod.splits)
  next
    case (Some st)
    with c t have "monitor_observation env st t w1 = (Inr obs, w')"
      by (auto simp: monitor_current_def split: sum.splits)
    from observation_ok [OF this monitor_reachable_inv [OF assms(1) Some] assms(3)] show ?thesis .
  qed
qed

section \<open>The properties at a concrete sensor\<close>

text \<open>A world that counts seconds, and a sensor that reads 42 degrees.\<close>

definition demo_monitor :: "rat monitor_env" where
  "demo_monitor =
     \<lparr>mon_policy = \<lparr>mp_interval = 1, mp_stale_after = 5, mp_maximum_backoff = 60, mp_multiplier = 2\<rparr>,
      mon_monotonic = (\<lambda>w. (w, w)), mon_monotonic_ns = (\<lambda>w. (floor (w * 1000000000), w)),
      mon_sample = (\<lambda>n w. (SensorSnapshot \<lparr>ms_node_id = n, ms_observed_at_ns = 0, ms_sequence = 0,
        ms_state = MOk, ms_cpu_percent = None, ms_memory_percent = None,
        ms_temperature_celsius = Some 42, ms_detail_code = []\<rparr>, w))\<rparr>"

lemma demo_policy:
  "mk_MonitoringPolicy (PInt 1) (PInt 5) (PInt 60) (PInt 2) = Inr (mon_policy demo_monitor)"
  by code_simp

theorem backoff_closed_form_witness:
  "monitor_backoff (mon_policy demo_monitor) MUnavailable 3 = 8"
  using backoff_closed_form [OF demo_policy, of MUnavailable 3] by (simp add: demo_monitor_def)

lemma demo_poll:
  obtains obs sts w where "monitor_poll demo_monitor ''n'' (\<lambda>_. None) 1 = (Inr obs, sts, w)"
    "ms_state (mo_snapshot obs) = MOk"
proof -
  have "case fst (monitor_poll demo_monitor ''n'' (\<lambda>_. None) 1) of
      Inl e \<Rightarrow> False | Inr obs \<Rightarrow> ms_state (mo_snapshot obs) = MOk" by code_simp
  with that show thesis by (cases "monitor_poll demo_monitor ''n'' (\<lambda>_. None) 1")
      (auto split: sum.splits)
qed

text \<open>A sensor whose attempts fail: the first failure puts two seconds between the attempts.\<close>

definition failing_monitor :: "rat monitor_env" where
  "failing_monitor = demo_monitor\<lparr>mon_sample := (\<lambda>n w. (SensorRaises RcmStale, w))\<rparr>"

theorem monitor_rate_limited_witness:
  "\<exists>sts. monitor_poll demo_monitor ''n'' sts (5/2) = monitor_poll failing_monitor ''n'' sts (5/2)"
proof -
  let ?st = "\<lparr>nm_snapshot = \<lparr>ms_node_id = ''n'', ms_observed_at_ns = 1000000000, ms_sequence = 0,
        ms_state = MUnavailable, ms_cpu_percent = None, ms_memory_percent = None,
        ms_temperature_celsius = None, ms_detail_code = ''sensor_unavailable''\<rparr>,
      nm_last_good = None, nm_failures = 1, nm_next_due = 3, nm_sequence = 0\<rparr>"
  obtain r sts w where p: "monitor_poll failing_monitor ''n'' (\<lambda>_. None) 1 = (r, sts, w)"
    by (metis prod_cases3)
  have "fst (snd (monitor_poll failing_monitor ''n'' (\<lambda>_. None) 1)) ''n'' = Some ?st" by code_simp
  with p have st: "sts ''n'' = Some ?st" by simp
  have m: "mon_monotonic failing_monitor v = (v, v)" for v
    by (simp add: failing_monitor_def demo_monitor_def)
  have pol: "mon_policy failing_monitor = mon_policy demo_monitor" by (simp add: failing_monitor_def)
  have orig: "failing_monitor\<lparr>mon_sample := mon_sample demo_monitor\<rparr> = demo_monitor"
    by (simp add: failing_monitor_def)
  have d: "(5/2 :: rat) < 1 + 2" "(2 :: rat) = (if ms_state (nm_snapshot ?st) = MOk
      then mp_interval (mon_policy demo_monitor)
      else if ms_state (nm_snapshot ?st) \<in> {MUnsupported, MPermissionDenied}
      then mp_maximum_backoff (mon_policy demo_monitor)
      else min (mp_interval (mon_policy demo_monitor)
        * mp_multiplier (mon_policy demo_monitor) ^ nm_failures ?st)
        (mp_maximum_backoff (mon_policy demo_monitor)))"
    by (simp_all add: demo_monitor_def)
  from monitor_rate_limited [OF demo_policy pol m p st _ d(2) before_none m d(1),
      of "mon_sample demo_monitor"] orig show ?thesis by auto
qed

theorem monitor_ok_is_fresh_witness:
  "\<exists>obs sts w. monitor_poll demo_monitor ''n'' (\<lambda>_. None) 1 = (Inr obs, sts, w) \<and>
     mo_last_good obs = Some (mo_snapshot obs)"
proof -
  obtain obs sts w where p: "monitor_poll demo_monitor ''n'' (\<lambda>_. None) 1 = (Inr obs, sts, w)"
    "ms_state (mo_snapshot obs) = MOk" by (rule demo_poll)
  from monitor_ok_is_fresh [OF mon_init disjI1 [OF p(1)] p(2)] p show ?thesis by blast
qed

end
