(* ===== verification/Cleanup.thy ===== *)
theory Cleanup
  imports Effects
begin

text \<open>
  \<open>src/rcm/cleanup.py\<close>: selecting local processes by image name, command fingerprint, owner and
  session, and ending the selected ones gracefully or by force, with their identity checked again
  before each destructive step. The process backend and the clocks are parameters acting on a world
  \<open>'w\<close>. A \<open>CleanupCandidate\<close> is compared with \<open>is\<close>, so it carries the identity of its object.
\<close>

section \<open>Identities, observations, rules and policies\<close>

record process_identity =
  pi_pid :: int
  pi_create_time :: rat
  pi_image_name :: string
  pi_owner_token :: string
  pi_session_id :: int

definition positive_integer :: "pyval \<Rightarrow> int result" where
  "positive_integer v =
     (case v of PInt n \<Rightarrow> if n \<le> 0 then Inl ValueError else Inr n | _ \<Rightarrow> Inl ValueError)"

definition cleanup_number :: "pyval \<Rightarrow> rat result" where
  "cleanup_number v =
     (case v of
        PInt n \<Rightarrow> float_of_int n
      | PFloat (Finite r) \<Rightarrow> Inr r
      | _ \<Rightarrow> Inl ValueError)"

definition cleanup_duration :: "pyval \<Rightarrow> rat result" where
  "cleanup_duration v = bindE (cleanup_number v) (\<lambda>r. if r < 0 then Inl ValueError else Inr r)"

definition cleanup_session :: "pyval \<Rightarrow> int result" where
  "cleanup_session v =
     (case v of PInt n \<Rightarrow> if n < 0 then Inl ValueError else Inr n | _ \<Rightarrow> Inl ValueError)"

definition unsafe_name_char :: "char \<Rightarrow> bool" where
  "unsafe_name_char c \<longleftrightarrow> c = CHR ''/'' \<or> c = CHR 0x5C \<or> c = CHR 0x00"

definition mk_ProcessIdentity ::
    "pyval \<Rightarrow> pyval \<Rightarrow> string \<Rightarrow> string \<Rightarrow> pyval \<Rightarrow> process_identity result" where
  "mk_ProcessIdentity pid create_time image_name owner_token session_id =
     bindE (positive_integer pid) (\<lambda>n.
     bindE (bindE (cleanup_number create_time) (\<lambda>r. if r \<le> 0 then Inl ValueError else Inr r)) (\<lambda>t.
     if image_name = [] \<or> 255 < length image_name \<or> list_ex unsafe_name_char image_name
        \<or> list_ex (\<lambda>c. ord c < 32) image_name then Inl ValueError
     else if \<not> is_digest owner_token then Inl ValueError
     else bindE (cleanup_session session_id) (\<lambda>s.
       Inr \<lparr>pi_pid = n, pi_create_time = t, pi_image_name = image_name,
            pi_owner_token = owner_token, pi_session_id = s\<rparr>)))"

record process_observation =
  po_identity :: process_identity
  po_fingerprint :: string
  po_connections :: int

definition mk_ProcessObservation ::
    "process_identity \<Rightarrow> string \<Rightarrow> pyval \<Rightarrow> process_observation result" where
  "mk_ProcessObservation identity fingerprint connections =
     (if \<not> is_digest fingerprint then Inl ValueError
      else bindE (cleanup_session connections) (\<lambda>n.
        Inr \<lparr>po_identity = identity, po_fingerprint = fingerprint, po_connections = n\<rparr>))"

record cleanup_rule =
  cr_rule_id :: string
  cr_image_names :: "string list"
  cr_fingerprints :: "string list"
  cr_minimum_age :: rat
  cr_allow_connections :: bool
  cr_case_sensitive :: bool

definition safe_rule_id :: "string \<Rightarrow> bool" where
  "safe_rule_id s \<longleftrightarrow>
     (case s of
        [] \<Rightarrow> False
      | c # cs \<Rightarrow> is_alnum c \<and> length cs \<le> 63 \<and>
          list_all (\<lambda>d. is_alnum d \<or> d \<in> set ''._-'') cs)"

text \<open>The image names as they are compared, as code points.\<close>

definition normal_name :: "bool \<Rightarrow> string \<Rightarrow> nat list" where
  "normal_name case_sensitive name = (if case_sensitive then map ord name else fold_text name)"

definition mk_CleanupRule ::
    "string \<Rightarrow> string list \<Rightarrow> string list \<Rightarrow> pyval \<Rightarrow> bool \<Rightarrow> bool \<Rightarrow> cleanup_rule result" where
  "mk_CleanupRule rid images fingerprints minimum_age allow_connections case_sensitive =
     (if \<not> safe_rule_id rid then Inl ValueError
      else if images = [] \<or> list_ex (\<lambda>n. n = [] \<or> 255 < length n \<or> list_ex unsafe_name_char n) images
        then Inl ValueError
      else let normalized = map (normal_name case_sensitive) images in
      if length normalized \<noteq> card (set normalized) then Inl ValueError
      else if fingerprints = [] \<or> list_ex (\<lambda>f. \<not> is_digest f) fingerprints
          \<or> length fingerprints \<noteq> card (set fingerprints) then Inl ValueError
      else bindE (cleanup_duration minimum_age) (\<lambda>age.
        Inr \<lparr>cr_rule_id = rid, cr_image_names = images, cr_fingerprints = fingerprints,
             cr_minimum_age = age, cr_allow_connections = allow_connections,
             cr_case_sensitive = case_sensitive\<rparr>))"

definition rule_matches :: "cleanup_rule \<Rightarrow> process_observation \<Rightarrow> rat \<Rightarrow> bool" where
  "rule_matches r ob age \<longleftrightarrow>
     normal_name (cr_case_sensitive r) (pi_image_name (po_identity ob))
       \<in> set (map (normal_name (cr_case_sensitive r)) (cr_image_names r)) \<and>
     po_fingerprint ob \<in> set (cr_fingerprints r) \<and>
     cr_minimum_age r \<le> age \<and>
     (cr_allow_connections r \<or> po_connections ob = 0)"

record cleanup_policy =
  cl_owner_token :: string
  cl_session_id :: int
  cl_rules :: "cleanup_rule list"
  cl_max_processes :: int
  cl_result_max_age :: rat
  cl_graceful_timeout :: rat
  cl_force_timeout :: rat

definition mk_CleanupPolicy ::
    "string \<Rightarrow> pyval \<Rightarrow> cleanup_rule list \<Rightarrow> pyval \<Rightarrow> pyval \<Rightarrow> pyval \<Rightarrow> pyval
       \<Rightarrow> cleanup_policy result" where
  "mk_CleanupPolicy owner session_id rules max_processes result_max_age graceful force =
     (if \<not> is_digest owner then Inl ValueError
      else bindE (cleanup_session session_id) (\<lambda>s.
      if rules = [] then Inl ValueError
      else let identifiers = map cr_rule_id rules in
      if length identifiers \<noteq> card (set identifiers) then Inl ValueError
      else bindE (positive_integer max_processes) (\<lambda>m.
        bindE (cleanup_duration result_max_age) (\<lambda>a.
        bindE (cleanup_duration graceful) (\<lambda>g.
        bindE (cleanup_duration force) (\<lambda>f.
        if f < g then Inl ValueError
        else Inr \<lparr>cl_owner_token = owner, cl_session_id = s, cl_rules = rules,
             cl_max_processes = m, cl_result_max_age = a, cl_graceful_timeout = g,
             cl_force_timeout = f\<rparr>))))))"

section \<open>Candidates and reports\<close>

record cleanup_candidate =
  cc_ref :: nat
  cc_ticket :: int
  cc_identity :: process_identity
  cc_fingerprint :: string
  cc_rule_id :: string
  cc_scanned :: rat

record cleanup_scan_result =
  sc_candidates :: "cleanup_candidate list"
  sc_inspected :: nat
  sc_scanned :: rat

datatype cleanup_outcome =
    CoGraceful | CoForced | CoExited | CoSkippedStale | CoSkippedChanged | CoFailed
  | CoForceTimeout

record cleanup_item =
  ci_pid :: int
  ci_outcome :: cleanup_outcome
  ci_message :: string

definition report_successful :: "cleanup_item list \<Rightarrow> bool" where
  "report_successful items \<longleftrightarrow>
     list_all (\<lambda>i. ci_outcome i \<in> {CoGraceful, CoForced, CoExited}) items"

text \<open>
  The backend and the clocks. \<open>cb_now\<close> is the wall clock's timestamp, \<open>None\<close> when the datetime is
  not timezone-aware.
\<close>

record 'w cleanup_env =
  cb_policy :: cleanup_policy
  cb_monotonic :: "'w \<Rightarrow> rat \<times> 'w"
  cb_now :: "'w \<Rightarrow> rat option \<times> 'w"
  cb_scan :: "int \<Rightarrow> ('w, pyexn, process_observation list) eff"
  cb_inspect :: "int \<Rightarrow> ('w, pyexn, process_identity option) eff"
  cb_request_graceful :: "process_identity \<Rightarrow> ('w, pyexn, bool) eff"
  cb_wait :: "int \<Rightarrow> rat \<Rightarrow> ('w, pyexn, bool) eff"
  cb_force :: "process_identity \<Rightarrow> ('w, pyexn, bool) eff"

record cleanup_facade =
  cf_next_ticket :: int
  cf_issued :: "int \<Rightarrow> cleanup_candidate option"
  cf_next_ref :: nat

definition init_facade :: cleanup_facade where
  "init_facade = \<lparr>cf_next_ticket = 1, cf_issued = (\<lambda>_. None), cf_next_ref = 0\<rparr>"

section \<open>Scanning\<close>

text \<open>One iteration of the loop of \<open>scan\<close>.\<close>

definition scan_one ::
    "cleanup_policy \<Rightarrow> rat \<Rightarrow> rat \<Rightarrow> process_observation
       \<Rightarrow> cleanup_facade \<times> cleanup_candidate list \<Rightarrow> cleanup_facade \<times> cleanup_candidate list" where
  "scan_one p scanned_monotonic scanned_epoch ob acc =
     (let fac = fst acc; identity = po_identity ob in
      if pi_owner_token identity \<noteq> cl_owner_token p \<or> pi_session_id identity \<noteq> cl_session_id p
        then acc
      else
        let age = max 0 (scanned_epoch - pi_create_time identity) in
        (case List.find (\<lambda>r. rule_matches r ob age) (cl_rules p) of
           None \<Rightarrow> acc
         | Some r \<Rightarrow>
             let c = \<lparr>cc_ref = cf_next_ref fac, cc_ticket = cf_next_ticket fac,
                  cc_identity = identity, cc_fingerprint = po_fingerprint ob,
                  cc_rule_id = cr_rule_id r, cc_scanned = scanned_monotonic\<rparr>
             in (\<lparr>cf_next_ticket = cf_next_ticket fac + 1,
                  cf_issued = (cf_issued fac)(cc_ticket c \<mapsto> c),
                  cf_next_ref = Suc (cf_next_ref fac)\<rparr>, snd acc @ [c])))"

definition cleanup_scan ::
    "'w cleanup_env \<Rightarrow> cleanup_facade \<Rightarrow> 'w
       \<Rightarrow> cleanup_scan_result result \<times> cleanup_facade \<times> 'w" where
  "cleanup_scan env fac w =
     (let fac0 = fac\<lparr>cf_issued := (\<lambda>_. None)\<rparr>; p = cb_policy env in
      case cb_scan env (cl_max_processes p + 1) w of
        (Inl e, w1) \<Rightarrow> (Inl e, fac0, w1)
      | (Inr observed, w1) \<Rightarrow>
          let pids = map (pi_pid \<circ> po_identity) observed in
          if cl_max_processes p < int (length observed) then (Inl RcmRejected, fac0, w1)
          else if length pids \<noteq> card (set pids) then (Inl RcmRejected, fac0, w1)
          else
            let (scanned, w2) = cb_monotonic env w1; (wall, w3) = cb_now env w2 in
            (case wall of
               None \<Rightarrow> (Inl RcmRejected, fac0, w3)
             | Some epoch \<Rightarrow>
                 let (fac1, cs) = foldl (\<lambda>acc ob. scan_one p scanned epoch ob acc) (fac0, []) observed
                 in (Inr \<lparr>sc_candidates = cs, sc_inspected = length observed, sc_scanned = scanned\<rparr>,
                     fac1, w3)))"

section \<open>Execution\<close>

definition cleanup_item_result :: "cleanup_candidate \<Rightarrow> cleanup_outcome \<Rightarrow> string \<Rightarrow> cleanup_item" where
  "cleanup_item_result c o1 message =
     \<lparr>ci_pid = pi_pid (cc_identity c), ci_outcome = o1, ci_message = message\<rparr>"

text \<open>The second half of the \<open>try\<close> block: after the graceful wait ended without success.\<close>

definition cleanup_force ::
    "'w cleanup_env \<Rightarrow> cleanup_candidate \<Rightarrow> ('w, pyexn, cleanup_item) eff" where
  "cleanup_force env c =
     andthen (cb_inspect env (pi_pid (cc_identity c))) (\<lambda>current. case current of
       None \<Rightarrow> ret (cleanup_item_result c CoExited ''process exited before force request'')
     | Some i \<Rightarrow>
         if i \<noteq> cc_identity c
         then ret (cleanup_item_result c CoSkippedChanged
           ''process identity changed; force was refused'')
         else andthen (cb_force env (cc_identity c)) (\<lambda>ok.
           if \<not> ok then ret (cleanup_item_result c CoExited ''process exited before force request'')
           else andthen (cb_wait env (pi_pid (cc_identity c)) (cl_force_timeout (cb_policy env)))
             (\<lambda>ended. if ended
                then ret (cleanup_item_result c CoForced ''process ended after force request'')
                else ret (cleanup_item_result c CoForceTimeout
                  ''process remained after bounded force wait''))))"

definition cleanup_try ::
    "'w cleanup_env \<Rightarrow> cleanup_candidate \<Rightarrow> ('w, pyexn, cleanup_item) eff" where
  "cleanup_try env c =
     andthen (cb_inspect env (pi_pid (cc_identity c))) (\<lambda>current. case current of
       None \<Rightarrow> ret (cleanup_item_result c CoExited ''process is no longer running'')
     | Some i \<Rightarrow>
         if i \<noteq> cc_identity c
         then ret (cleanup_item_result c CoSkippedChanged
           ''process identity changed; rescan required'')
         else andthen (cb_request_graceful env (cc_identity c)) (\<lambda>ok.
           if \<not> ok
           then ret (cleanup_item_result c CoExited ''process exited before graceful request'')
           else andthen (cb_wait env (pi_pid (cc_identity c)) (cl_graceful_timeout (cb_policy env)))
             (\<lambda>ended. if ended
                then ret (cleanup_item_result c CoGraceful ''process ended after graceful request'')
                else cleanup_force env c)))"

definition cleanup_execute_one ::
    "'w cleanup_env \<Rightarrow> cleanup_candidate \<Rightarrow> ('w, pyexn, cleanup_item) eff" where
  "cleanup_execute_one env c w =
     (let (now, w1) = cb_monotonic env w; age = now - cc_scanned c in
      if age < 0 \<or> cl_result_max_age (cb_policy env) < age
      then (Inr (cleanup_item_result c CoSkippedStale
        ''scan evidence is stale; rescan required''), w1)
      else on_raise (cleanup_try env c) (\<lambda>e.
        if e = RcmConflict
        then ret (cleanup_item_result c CoSkippedChanged
          ''process identity changed; operation was refused'')
        else if is_exception e
        then ret (cleanup_item_result c CoFailed
          ''cleanup backend rejected the process operation'')
        else throw e) w1)"

fun cleanup_loop ::
    "'w cleanup_env \<Rightarrow> cleanup_candidate list \<Rightarrow> cleanup_facade \<Rightarrow> cleanup_item list \<Rightarrow> 'w
       \<Rightarrow> cleanup_item list result \<times> cleanup_facade \<times> 'w" where
  "cleanup_loop env [] fac results w = (Inr results, fac, w)"
| "cleanup_loop env (c # cs) fac results w =
     (let fac1 = fac\<lparr>cf_issued := (cf_issued fac)(cc_ticket c := None)\<rparr> in
      case cleanup_execute_one env c w of
        (Inl e, w1) \<Rightarrow> (Inl e, fac1, w1)
      | (Inr item, w1) \<Rightarrow> cleanup_loop env cs fac1 (results @ [item]) w1)"

definition cleanup_execute ::
    "'w cleanup_env \<Rightarrow> cleanup_candidate list \<Rightarrow> cleanup_facade \<Rightarrow> 'w
       \<Rightarrow> cleanup_item list result \<times> cleanup_facade \<times> 'w" where
  "cleanup_execute env selected fac w =
     (if cl_max_processes (cb_policy env) < int (length selected) then (Inl RcmRejected, fac, w)
      else if card (set (map (pi_pid \<circ> cc_identity) selected)) \<noteq> length selected
        then (Inl RcmRejected, fac, w)
      else if list_ex (\<lambda>c. cf_issued fac (cc_ticket c) \<noteq> Some c) selected
        then (Inl RcmRejected, fac, w)
      else cleanup_loop env selected fac [] w)"

section \<open>Traces of an execution\<close>

datatype cleanup_event =
    CleInspect int "process_identity option result"
  | CleGraceful process_identity "bool result"
  | CleWait int rat "bool result"
  | CleForce process_identity "bool result"

text \<open>Every call to the backend is recorded with its outcome, a raised exception included.\<close>

definition record_call :: "('b result \<Rightarrow> 'l) \<Rightarrow> ('w, pyexn, 'b) eff \<Rightarrow> ('w \<times> 'l list, pyexn, 'b) eff" where
  "record_call ev m s = (case m (fst s) of (r, w) \<Rightarrow> (r, w, snd s @ [ev r]))"

definition lift_world :: "('w \<Rightarrow> 'b \<times> 'w) \<Rightarrow> 'w \<times> 'l \<Rightarrow> 'b \<times> 'w \<times> 'l" where
  "lift_world f s = (case f (fst s) of (x, w) \<Rightarrow> (x, w, snd s))"

definition logged_cleanup :: "'w cleanup_env \<Rightarrow> ('w \<times> cleanup_event list) cleanup_env" where
  "logged_cleanup env =
     \<lparr>cb_policy = cb_policy env, cb_monotonic = lift_world (cb_monotonic env),
      cb_now = lift_world (cb_now env),
      cb_scan = (\<lambda>n. lift_world (cb_scan env n)),
      cb_inspect = (\<lambda>pid. record_call (CleInspect pid) (cb_inspect env pid)),
      cb_request_graceful = (\<lambda>i. record_call (CleGraceful i) (cb_request_graceful env i)),
      cb_wait = (\<lambda>pid t. record_call (CleWait pid t) (cb_wait env pid t)),
      cb_force = (\<lambda>i. record_call (CleForce i) (cb_force env i))\<rparr>"

lemma logged_cleanup_simps [simp]:
  "cb_policy (logged_cleanup env) = cb_policy env"
  "cb_inspect (logged_cleanup env) pid = record_call (CleInspect pid) (cb_inspect env pid)"
  "cb_request_graceful (logged_cleanup env) i = record_call (CleGraceful i) (cb_request_graceful env i)"
  "cb_wait (logged_cleanup env) pid t = record_call (CleWait pid t) (cb_wait env pid t)"
  "cb_force (logged_cleanup env) i = record_call (CleForce i) (cb_force env i)"
  by (simp_all add: logged_cleanup_def)

text \<open>
  A graceful request and a force come right after an inspection that found the very identity of a
  selected candidate, and a force only after a graceful request that was accepted and not obeyed.
\<close>

fun verified_call :: "rat \<Rightarrow> process_identity set \<Rightarrow> cleanup_event list \<Rightarrow> cleanup_event \<Rightarrow> bool" where
  "verified_call t S h (CleGraceful i r) \<longleftrightarrow>
     i \<in> S \<and> (\<exists>h0. h = h0 @ [CleInspect (pi_pid i) (Inr (Some i))])"
| "verified_call t S h (CleForce i r) \<longleftrightarrow>
     i \<in> S \<and> (\<exists>h0. h = h0 @ [CleGraceful i (Inr True), CleWait (pi_pid i) t (Inr False),
       CleInspect (pi_pid i) (Inr (Some i))])"
| "verified_call t S h (CleInspect pid r) \<longleftrightarrow> True"
| "verified_call t S h (CleWait pid t1 r) \<longleftrightarrow> True"

lemma record_call_then:
  assumes "\<And>x. triple (on_trace (appended J (ev (Inr x)))) (k x) Q E"
    and "\<And>e \<sigma>. on_trace (appended J (ev (Inl e))) \<sigma> \<Longrightarrow> E e \<sigma>"
  shows "triple (on_trace J) (andthen (record_call ev m) k) Q E"
proof (rule triple_andthen)
  show "triple (on_trace J) (record_call ev m) (\<lambda>x. on_trace (appended J (ev (Inr x)))) E"
    using assms(2) by (auto simp: triple_def record_call_def appended_def on_trace_def
        split: prod.splits sum.splits)
qed (fact assms(1))

lemma cleanup_try_trace:
  assumes "cc_identity c \<in> S"
  shows "triple (on_trace (preceded (verified_call (cl_graceful_timeout (cb_policy env)) S)))
    (cleanup_try (logged_cleanup env) c)
    (\<lambda>_. on_trace (preceded (verified_call (cl_graceful_timeout (cb_policy env)) S)))
    (\<lambda>_. on_trace (preceded (verified_call (cl_graceful_timeout (cb_policy env)) S)))"
proof -
  let ?i = "cc_identity c" and ?J = "preceded (verified_call (cl_graceful_timeout (cb_policy env)) S)"
  let ?t = "cl_graceful_timeout (cb_policy env)"
  let ?J2 = "\<lambda>l. ?J l \<and> (\<exists>h. l = h @ [CleGraceful ?i (Inr True), CleWait (pi_pid ?i) ?t (Inr False)])"
  have force: "triple (on_trace ?J2) (cleanup_force (logged_cleanup env) c)
      (\<lambda>_. on_trace ?J) (\<lambda>_. on_trace ?J)"
    unfolding cleanup_force_def logged_cleanup_simps
  proof (intro record_call_then)
    fix current
    show "triple (on_trace (appended ?J2 (CleInspect (pi_pid ?i) (Inr current))))
      (case current of None \<Rightarrow> ret (cleanup_item_result c CoExited ''process exited before force request'')
       | Some i \<Rightarrow> if i \<noteq> ?i then ret (cleanup_item_result c CoSkippedChanged
             ''process identity changed; force was refused'')
         else andthen (record_call (CleForce ?i) (cb_force env ?i)) (\<lambda>ok.
           if \<not> ok then ret (cleanup_item_result c CoExited ''process exited before force request'')
           else andthen (record_call (CleWait (pi_pid ?i) (cl_force_timeout (cb_policy env)))
               (cb_wait env (pi_pid ?i) (cl_force_timeout (cb_policy env))))
             (\<lambda>ended. if ended then ret (cleanup_item_result c CoForced ''process ended after force request'')
                else ret (cleanup_item_result c CoForceTimeout
                  ''process remained after bounded force wait'')))) (\<lambda>_. on_trace ?J) (\<lambda>_. on_trace ?J)"
    proof (cases current)
      case None
      then show ?thesis
        by (auto intro!: triple_ret simp: on_trace_def appended_def preceded_append preceded_Cons )
    next
      case (Some i)
      then show ?thesis using assms
        by (cases "i = ?i") (auto intro!: triple_ret triple_if record_call_then
            simp: on_trace_def appended_def preceded_append preceded_Cons )
    qed
  qed (auto simp: on_trace_def appended_def preceded_append preceded_Cons)
  show ?thesis
    unfolding cleanup_try_def logged_cleanup_simps
  proof (intro record_call_then)
    fix current
    show "triple (on_trace (appended ?J (CleInspect (pi_pid ?i) (Inr current))))
      (case current of None \<Rightarrow> ret (cleanup_item_result c CoExited ''process is no longer running'')
       | Some i \<Rightarrow> if i \<noteq> ?i then ret (cleanup_item_result c CoSkippedChanged
             ''process identity changed; rescan required'')
         else andthen (record_call (CleGraceful ?i) (cb_request_graceful env ?i)) (\<lambda>ok.
           if \<not> ok then ret (cleanup_item_result c CoExited ''process exited before graceful request'')
           else andthen (record_call (CleWait (pi_pid ?i) ?t) (cb_wait env (pi_pid ?i) ?t))
             (\<lambda>ended. if ended then ret (cleanup_item_result c CoGraceful
                  ''process ended after graceful request'')
                else cleanup_force (logged_cleanup env) c))) (\<lambda>_. on_trace ?J) (\<lambda>_. on_trace ?J)"
    proof (cases "current = Some ?i")
      case True
      have f: "triple (on_trace (appended (appended (appended ?J (CleInspect (pi_pid ?i) (Inr (Some ?i))))
           (CleGraceful ?i (Inr True))) (CleWait (pi_pid ?i) ?t (Inr False))))
         (cleanup_force (logged_cleanup env) c) (\<lambda>_. on_trace ?J) (\<lambda>_. on_trace ?J)"
        by (rule triple_pre [OF force]) (use assms in \<open>auto simp: on_trace_def appended_def preceded_append preceded_Cons\<close>)
      have ended: "triple (on_trace (appended (appended (appended ?J
            (CleInspect (pi_pid ?i) (Inr (Some ?i)))) (CleGraceful ?i (Inr True)))
            (CleWait (pi_pid ?i) ?t (Inr e))))
          (if e then ret (cleanup_item_result c CoGraceful ''process ended after graceful request'')
           else cleanup_force (logged_cleanup env) c) (\<lambda>_. on_trace ?J) (\<lambda>_. on_trace ?J)" for e
        using f assms by (cases e)
          (auto intro!: triple_ret simp: on_trace_def appended_def preceded_append preceded_Cons)
      have asked: "triple (on_trace (appended (appended ?J
            (CleInspect (pi_pid ?i) (Inr (Some ?i)))) (CleGraceful ?i (Inr ok))))
          (if \<not> ok
           then ret (cleanup_item_result c CoExited ''process exited before graceful request'')
           else andthen (record_call (CleWait (pi_pid ?i) ?t) (cb_wait env (pi_pid ?i) ?t))
             (\<lambda>e. if e then ret (cleanup_item_result c CoGraceful
                  ''process ended after graceful request'')
                else cleanup_force (logged_cleanup env) c)) (\<lambda>_. on_trace ?J) (\<lambda>_. on_trace ?J)" for ok
        using assms by (cases ok) (auto intro!: triple_ret record_call_then ended [simplified]
            simp: on_trace_def [where \<sigma> = "(_, _)"] appended_def preceded_append preceded_Cons)
      show ?thesis unfolding True option.case
        by (simp only: simp_thms if_False, rule record_call_then, rule asked)
          (use assms in \<open>auto simp: on_trace_def appended_def preceded_append preceded_Cons\<close>)
    next
      case False
      then show ?thesis
        by (cases current) (auto intro!: triple_ret simp: on_trace_def appended_def preceded_append preceded_Cons)
    qed
  qed (auto simp: on_trace_def appended_def preceded_append preceded_Cons)
qed
lemma cleanup_loop_trace:
  assumes "set (map cc_identity cs) \<subseteq> S"
    and "cleanup_loop (logged_cleanup env) cs fac items (w, l) = (r, fac', w', l')"
    and "preceded (verified_call (cl_graceful_timeout (cb_policy env)) S) l"
  shows "preceded (verified_call (cl_graceful_timeout (cb_policy env)) S) l'"
  using assms
proof (induction cs arbitrary: fac items w l)
  case (Cons c cs)
  let ?J = "preceded (verified_call (cl_graceful_timeout (cb_policy env)) S)"
  obtain r1 w1 l1 where one: "cleanup_execute_one (logged_cleanup env) c (w, l) = (r1, w1, l1)"
    by (metis prod_cases3)
  obtain now w0 where t: "cb_monotonic env w = (now, w0)" by fastforce
  have "triple (on_trace ?J) (on_raise (cleanup_try (logged_cleanup env) c) (\<lambda>e.
        if e = RcmConflict
        then ret (cleanup_item_result c CoSkippedChanged
          ''process identity changed; operation was refused'')
        else if is_exception e
        then ret (cleanup_item_result c CoFailed
          ''cleanup backend rejected the process operation'')
        else throw e)) (\<lambda>_. on_trace ?J) (\<lambda>_. on_trace ?J)"
    using Cons.prems(1) by (intro triple_on_raise [OF cleanup_try_trace]) (auto intro!: triple_intros)
  then have "?J l1"
    using one t Cons.prems(3)
    by (cases r1) (auto simp: cleanup_execute_one_def logged_cleanup_def lift_world_def Let_def triple_def
        split: if_splits prod.splits sum.splits dest!: spec [of _ w0] spec [of _ l])
  with Cons one show ?case
    by (cases r1) (auto simp: Let_def)
qed simp

lemma cleanup_execute_trace:
  assumes "cleanup_execute (logged_cleanup env) cs fac (w, []) = (r, fac', w', l)"
  shows "preceded (verified_call (cl_graceful_timeout (cb_policy env)) (set (map cc_identity cs))) l"
proof -
  from assms have "l = [] \<or> cleanup_loop (logged_cleanup env) cs fac [] (w, []) = (r, fac', w', l)"
    by (auto simp: cleanup_execute_def split: if_splits)
  then show ?thesis by (auto intro: cleanup_loop_trace [OF order_refl, simplified])
qed

section \<open>Evidence\<close>

text \<open>
  The scan that issued a candidate: the backend returned the observation \<open>ob\<close> among others, and the
  clocks, read right after it, said the candidate's monotonic time and the time \<open>epoch\<close>.
\<close>

definition scanned_at :: "'w cleanup_env \<Rightarrow> cleanup_candidate \<Rightarrow> process_observation \<Rightarrow> rat \<Rightarrow> bool" where
  "scanned_at env c ob epoch \<longleftrightarrow>
     (\<exists>w obs w1 w2 w3. cb_scan env (cl_max_processes (cb_policy env) + 1) w = (Inr obs, w1) \<and>
        cb_monotonic env w1 = (cc_scanned c, w2) \<and> cb_now env w2 = (Some epoch, w3) \<and> ob \<in> set obs)"

text \<open>A rule of the policy that covers an observation in each of its four conditions.\<close>

definition covers :: "cleanup_rule \<Rightarrow> process_observation \<Rightarrow> rat \<Rightarrow> bool" where
  "covers q ob epoch \<longleftrightarrow>
     (\<exists>name \<in> set (cr_image_names q).
        if cr_case_sensitive q then pi_image_name (po_identity ob) = name
        else fold_text (pi_image_name (po_identity ob)) = fold_text name) \<and>
     po_fingerprint ob \<in> set (cr_fingerprints q) \<and>
     (0 < cr_minimum_age q \<longrightarrow> cr_minimum_age q \<le> epoch - pi_create_time (po_identity ob)) \<and>
     (\<not> cr_allow_connections q \<longrightarrow> po_connections ob = 0)"

definition justified :: "'w cleanup_env \<Rightarrow> cleanup_candidate \<Rightarrow> bool" where
  "justified env c \<longleftrightarrow>
     pi_owner_token (cc_identity c) = cl_owner_token (cb_policy env) \<and>
     pi_session_id (cc_identity c) = cl_session_id (cb_policy env) \<and>
     (\<exists>ob epoch. scanned_at env c ob epoch \<and> po_identity ob = cc_identity c \<and>
        po_fingerprint ob = cc_fingerprint c \<and>
        (\<exists>q \<in> set (cl_rules (cb_policy env)). cr_rule_id q = cc_rule_id c \<and> covers q ob epoch))"

lemma rule_covers:
  assumes "rule_matches q ob (max 0 (epoch - pi_create_time (po_identity ob)))"
  shows "covers q ob epoch"
proof -
  have ord: "map ord a = map ord b \<longleftrightarrow> a = b" for a b :: string
    by (rule inj_map_eq_map) (simp add: inj_def ord_inject)
  have "\<exists>name \<in> set (cr_image_names q).
      if cr_case_sensitive q then pi_image_name (po_identity ob) = name
      else fold_text (pi_image_name (po_identity ob)) = fold_text name"
    using assms by (auto simp: rule_matches_def normal_name_def ord)
  with assms show ?thesis by (auto simp: rule_matches_def covers_def max_def split: if_splits)
qed

inductive cleanup_reachable :: "'w cleanup_env \<Rightarrow> cleanup_facade \<Rightarrow> bool" for env where
  cr_init: "cleanup_reachable env init_facade"
| cr_scan: "cleanup_reachable env fac \<Longrightarrow> cleanup_scan env fac w = (r, fac', w') \<Longrightarrow>
    cleanup_reachable env fac'"
| cr_execute: "cleanup_reachable env fac \<Longrightarrow> cleanup_execute env cs fac w = (r, fac', w') \<Longrightarrow>
    cleanup_reachable env fac'"

definition issued_inv :: "'w cleanup_env \<Rightarrow> cleanup_facade \<Rightarrow> bool" where
  "issued_inv env fac \<longleftrightarrow>
     (\<forall>t c. cf_issued fac t = Some c \<longrightarrow> cc_ticket c = t \<and> cc_ref c < cf_next_ref fac \<and> justified env c)"

lemma scan_one_inv:
  assumes "issued_inv env (fst acc)" and "cf_next_ref (fst acc) \<ge> n"
    and "\<forall>t c. cf_issued (fst acc) t = Some c \<longrightarrow> n \<le> cc_ref c"
    and seen: "\<And>c. cc_scanned c = s \<Longrightarrow> scanned_at env c ob e" and p: "p = cb_policy env"
  shows "issued_inv env (fst (scan_one p s e ob acc)) \<and> cf_next_ref (fst (scan_one p s e ob acc)) \<ge> n \<and>
    (\<forall>t c. cf_issued (fst (scan_one p s e ob acc)) t = Some c \<longrightarrow> n \<le> cc_ref c)"
proof -
  let ?age = "max 0 (e - pi_create_time (po_identity ob))"
  show ?thesis
  proof (cases "List.find (\<lambda>r. rule_matches r ob ?age) (cl_rules p)")
    case None
    with assms show ?thesis by (simp add: scan_one_def Let_def)
  next
    case (Some r)
    from find_Some_iff2 [OF Some] have m: "r \<in> set (cl_rules p)" "rule_matches r ob ?age" by auto
    show ?thesis
    proof (cases "pi_owner_token (po_identity ob) \<noteq> cl_owner_token p \<or>
        pi_session_id (po_identity ob) \<noteq> cl_session_id p")
      case True
      with assms show ?thesis by (auto simp: scan_one_def Let_def)
    next
      case False
      let ?c = "\<lparr>cc_ref = cf_next_ref (fst acc), cc_ticket = cf_next_ticket (fst acc),
        cc_identity = po_identity ob, cc_fingerprint = po_fingerprint ob,
        cc_rule_id = cr_rule_id r, cc_scanned = s\<rparr>"
      have "scanned_at env ?c ob e" by (rule seen) simp
      then have "justified env ?c"
        using False m rule_covers [OF m(2)] unfolding justified_def p by fastforce
      with False Some assms show ?thesis
        by (auto simp: scan_one_def Let_def issued_inv_def less_Suc_eq)
    qed
  qed
qed

lemma scan_fold_inv:
  assumes "issued_inv env (fst acc)" and "cf_next_ref (fst acc) \<ge> n"
    and "\<forall>t c. cf_issued (fst acc) t = Some c \<longrightarrow> n \<le> cc_ref c"
    and "\<And>c ob. cc_scanned c = s \<Longrightarrow> ob \<in> set obs \<Longrightarrow> scanned_at env c ob e"
    and "foldl (\<lambda>acc ob. scan_one (cb_policy env) s e ob acc) acc obs = (fac', cs)"
  shows "issued_inv env fac' \<and> (\<forall>t c. cf_issued fac' t = Some c \<longrightarrow> n \<le> cc_ref c) \<and> n \<le> cf_next_ref fac'"
  using assms
proof (induction obs arbitrary: acc)
  case (Cons ob obs)
  have "cc_scanned c = s \<Longrightarrow> scanned_at env c ob e" for c using Cons.prems(4) by simp
  note one = scan_one_inv [OF Cons.prems(1-3) this refl]
  show ?case
    by (rule Cons.IH [of "scan_one (cb_policy env) s e ob acc"]) (use one Cons.prems(4,5) in auto)
qed auto

lemma cleanup_scan_inv:
  assumes "cleanup_scan env fac w = (r, fac', w')"
  shows "issued_inv env fac' \<and>
    (\<forall>t c. cf_issued fac' t = Some c \<longrightarrow> cf_next_ref fac \<le> cc_ref c) \<and>
    cf_next_ref fac \<le> cf_next_ref fac'"
proof -
  let ?fac0 = "fac\<lparr>cf_issued := (\<lambda>_. None)\<rparr>"
  have 0: "issued_inv env ?fac0" by (simp add: issued_inv_def)
  have "fac' = ?fac0 \<or> (\<exists>s e obs cs.
      (\<forall>c. cc_scanned c = s \<longrightarrow> (\<forall>ob \<in> set obs. scanned_at env c ob e)) \<and>
      foldl (\<lambda>acc ob. scan_one (cb_policy env) s e ob acc) (?fac0, []) obs = (fac', cs))"
  proof (cases "fac' = ?fac0")
    case False
    then obtain obs w1 s w2 e w3 cs where scan:
      "cb_scan env (cl_max_processes (cb_policy env) + 1) w = (Inr obs, w1)"
      "cb_monotonic env w1 = (s, w2)" "cb_now env w2 = (Some e, w3)"
      "foldl (\<lambda>acc ob. scan_one (cb_policy env) s e ob acc) (?fac0, []) obs = (fac', cs)"
      using assms
      by (auto simp: cleanup_scan_def Let_def split: sum.splits prod.splits if_splits option.splits)
    then have "\<forall>c. cc_scanned c = s \<longrightarrow> (\<forall>ob \<in> set obs. scanned_at env c ob e)"
      unfolding scanned_at_def by blast
    with scan(4) show ?thesis by blast
  qed simp
  with 0 scan_fold_inv [of env "(?fac0, [])" "cf_next_ref fac"] show ?thesis by fastforce
qed

lemma cleanup_loop_issued:
  assumes "cleanup_loop env cs fac items w = (r, fac', w')"
  shows "cf_next_ref fac' = cf_next_ref fac \<and>
    (\<forall>t c. cf_issued fac' t = Some c \<longrightarrow> cf_issued fac t = Some c) \<and>
    (\<forall>items'. r = Inr items' \<longrightarrow>
       map ci_pid items' = map ci_pid items @ map (pi_pid \<circ> cc_identity) cs \<and>
       (\<forall>c \<in> set cs. cf_issued fac' (cc_ticket c) = None))"
  using assms
proof (induction cs arbitrary: fac items w)
  case (Cons c cs)
  let ?fac1 = "fac\<lparr>cf_issued := (cf_issued fac)(cc_ticket c := None)\<rparr>"
  obtain r1 w1 where one: "cleanup_execute_one env c w = (r1, w1)" by fastforce
  show ?case
  proof (cases r1)
    case (Inl e)
    with Cons.prems one show ?thesis by (auto split: if_splits)
  next
    case (Inr item)
    have pid: "ci_pid item = pi_pid (cc_identity c)"
    proof -
      have "triple (\<lambda>_. True) (cleanup_try env c) (\<lambda>i _. ci_pid i = pi_pid (cc_identity c)) (\<lambda>_ _. True)"
        unfolding cleanup_try_def cleanup_force_def cleanup_item_result_def
        by (auto simp: triple_def andthen_def ret_def split: prod.splits sum.splits option.splits)
      with one Inr show ?thesis
        by (auto simp: cleanup_execute_one_def on_raise_def triple_def Let_def cleanup_item_result_def
            ret_def throw_def split: if_splits prod.splits sum.splits)
    qed
    from Cons.prems one Inr have "cleanup_loop env cs ?fac1 (items @ [item]) w1 = (r, fac', w')"
      by simp
    note IH = Cons.IH [OF this]
    have sub: "cf_issued fac t = Some c'" "t \<noteq> cc_ticket c" if "cf_issued fac' t = Some c'" for t c'
      using IH that by (auto split: if_splits) (metis fun_upd_apply option.distinct(1))+
    then have "cf_issued fac' (cc_ticket c) = None" by (metis not_None_eq)
    with IH sub pid show ?thesis by auto
  qed
qed auto

lemma cleanup_execute_cases:
  assumes "cleanup_execute env cs fac w = (r, fac', w')"
  obtains (refused) "r = Inl RcmRejected" "fac' = fac" "w' = w"
  | (ran) "\<And>c. c \<in> set cs \<Longrightarrow> cf_issued fac (cc_ticket c) = Some c"
      "cleanup_loop env cs fac [] w = (r, fac', w')"
  using assms by (auto simp: cleanup_execute_def list_ex_iff split: if_splits)

lemma cleanup_reachable_inv: "cleanup_reachable env fac \<Longrightarrow> issued_inv env fac"
proof (induction rule: cleanup_reachable.induct)
  case cr_init
  show ?case by (simp add: issued_inv_def init_facade_def)
next
  case (cr_scan fac w r fac' w')
  from cleanup_scan_inv [OF cr_scan(2)] show ?case by simp
next
  case (cr_execute fac cs w r fac' w')
  from cr_execute(2) show ?case
  proof (cases rule: cleanup_execute_cases)
    case ran
    from cleanup_loop_issued [OF ran(2)] cr_execute(3) show ?thesis by (auto simp: issued_inv_def)
  qed (use cr_execute in auto)
qed

section \<open>Properties\<close>

text \<open>
  C26: only verified local processes are touched. In every reachable state of the facade, each
  graceful request and each force of an execution names the identity of a selected candidate of the
  policy's owner and session, which a scan issued on an observation of that very identity that some
  rule of the policy covers in all its conditions: its image name (case folded unless the rule is
  case sensitive), its fingerprint, its minimum age at the time the scan read, and no open
  connections unless the rule allows them. The backend had just been inspected and had found that
  very identity; and a force comes only after a graceful request was accepted and its wait ran out.
\<close>

theorem cleanup_touches_only_verified:
  assumes "cleanup_reachable env fac"
    and "cleanup_execute (logged_cleanup env) cs fac (w, []) = (r, fac', w', l)"
    and "l = h @ e # post" and "e = CleGraceful i res \<or> e = CleForce i res"
  shows "(\<exists>c \<in> set cs. cc_identity c = i \<and>
      pi_owner_token i = cl_owner_token (cb_policy env) \<and>
      pi_session_id i = cl_session_id (cb_policy env) \<and>
      (\<exists>ob epoch. scanned_at env c ob epoch \<and> po_identity ob = i \<and>
         (\<exists>q \<in> set (cl_rules (cb_policy env)).
            (\<exists>name \<in> set (cr_image_names q).
               if cr_case_sensitive q then pi_image_name i = name
               else fold_text (pi_image_name i) = fold_text name) \<and>
            po_fingerprint ob \<in> set (cr_fingerprints q) \<and>
            (0 < cr_minimum_age q \<longrightarrow> cr_minimum_age q \<le> epoch - pi_create_time i) \<and>
            (\<not> cr_allow_connections q \<longrightarrow> po_connections ob = 0)))) \<and>
    h \<noteq> [] \<and> last h = CleInspect (pi_pid i) (Inr (Some i)) \<and>
    (e = CleForce i res \<longrightarrow> (\<exists>h0. h = h0 @ [CleGraceful i (Inr True),
       CleWait (pi_pid i) (cl_graceful_timeout (cb_policy env)) (Inr False),
       CleInspect (pi_pid i) (Inr (Some i))]))"
proof -
  note v = precededD [OF cleanup_execute_trace [OF assms(2), unfolded assms(3)]]
  with assms(4) have "i \<in> set (map cc_identity cs)" by auto
  then obtain c where c: "c \<in> set cs" "cc_identity c = i" by auto
  from assms(2) have "cf_issued fac (cc_ticket c) = Some c"
  proof (cases rule: cleanup_execute_cases)
    case refused
    with assms(3) show ?thesis by simp
  next
    case ran
    with c show ?thesis by simp
  qed
  with cleanup_reachable_inv [OF assms(1)] have "justified env c"
    by (simp add: issued_inv_def)
  then obtain ob epoch q where ev: "pi_owner_token i = cl_owner_token (cb_policy env)"
    "pi_session_id i = cl_session_id (cb_policy env)" "scanned_at env c ob epoch" "po_identity ob = i"
    "q \<in> set (cl_rules (cb_policy env))" "covers q ob epoch"
    unfolding justified_def c(2) by blast
  show ?thesis
  proof (intro conjI)
    show "h \<noteq> []" "last h = CleInspect (pi_pid i) (Inr (Some i))"
      "e = CleForce i res \<longrightarrow> (\<exists>h0. h = h0 @ [CleGraceful i (Inr True),
       CleWait (pi_pid i) (cl_graceful_timeout (cb_policy env)) (Inr False),
       CleInspect (pi_pid i) (Inr (Some i))])"
      using v assms(4) by auto
  qed (use c ev(1-5) ev(6) [unfolded covers_def ev(4)] in blast)
qed

text \<open>
  Evidence is used once. An execution that returns reports one item per candidate, in order;
  after it no candidate it used is outstanding, and any later selection containing one of them is
  rejected before the backend is called.
\<close>

theorem cleanup_evidence_single_use:
  assumes "cleanup_execute env cs fac w = (Inr items, fac', w')"
  shows "map ci_pid items = map (pi_pid \<circ> cc_identity) cs \<and>
    (\<forall>c \<in> set cs. cf_issued fac' (cc_ticket c) = None) \<and>
    (\<forall>c \<in> set cs \<inter> set again. cleanup_execute env2 again fac' w2 = (Inl RcmRejected, fac', w2))"
  using assms
proof (cases rule: cleanup_execute_cases)
  case ran
  from cleanup_loop_issued [OF ran(2)] show ?thesis
    by (auto simp: cleanup_execute_def list_ex_iff)
qed simp

text \<open>
  A new scan revokes the old evidence. After a scan, whatever it found and even if it failed, a
  candidate that was outstanding before is rejected, also when the new scan saw the same process.
\<close>

theorem cleanup_rescan_revokes:
  assumes "cleanup_reachable env fac" and "cf_issued fac t = Some c"
    and "cleanup_scan env fac w = (r, fac', w')" and "c \<in> set again"
  shows "cleanup_execute env2 again fac' w2 = (Inl RcmRejected, fac', w2)"
proof -
  have "cc_ref c < cf_next_ref fac"
    using cleanup_reachable_inv [OF assms(1)] assms(2) by (simp add: issued_inv_def)
  with cleanup_scan_inv [OF assms(3)] have "cf_issued fac' (cc_ticket c) \<noteq> Some c" by force
  with assms(4) show ?thesis by (auto simp: cleanup_execute_def list_ex_iff)
qed

section \<open>The properties at a concrete process\<close>

text \<open>One local process that ignores the graceful request and ends when forced.\<close>

definition demo_process :: process_identity where
  "demo_process = \<lparr>pi_pid = 7, pi_create_time = 1, pi_image_name = ''app.exe'',
     pi_owner_token = ''owner'', pi_session_id = 1\<rparr>"

definition demo_cleanup :: "bool cleanup_env" where
  "demo_cleanup =
     \<lparr>cb_policy = \<lparr>cl_owner_token = ''owner'', cl_session_id = 1,
        cl_rules = [\<lparr>cr_rule_id = ''r'', cr_image_names = [''APP.exe''], cr_fingerprints = [''f''],
          cr_minimum_age = 0, cr_allow_connections = False, cr_case_sensitive = False\<rparr>],
        cl_max_processes = 4, cl_result_max_age = 30, cl_graceful_timeout = 10,
        cl_force_timeout = 30\<rparr>,
      cb_monotonic = (\<lambda>w. (5, w)), cb_now = (\<lambda>w. (Some 100, w)),
      cb_scan = (\<lambda>n w. (Inr [\<lparr>po_identity = demo_process, po_fingerprint = ''f'',
        po_connections = 0\<rparr>], w)),
      cb_inspect = (\<lambda>pid w. (Inr (if w then None else Some demo_process), w)),
      cb_request_graceful = (\<lambda>i w. (Inr True, w)),
      cb_wait = (\<lambda>pid t w. (Inr w, w)),
      cb_force = (\<lambda>i w. (Inr True, True))\<rparr>"

definition demo_candidate :: cleanup_candidate where
  "demo_candidate = \<lparr>cc_ref = 0, cc_ticket = 1, cc_identity = demo_process, cc_fingerprint = ''f'',
     cc_rule_id = ''r'', cc_scanned = 5\<rparr>"

definition demo_facade :: cleanup_facade where
  "demo_facade = \<lparr>cf_next_ticket = 2, cf_issued = [1 \<mapsto> demo_candidate], cf_next_ref = 1\<rparr>"

lemma demo_scan:
  "cleanup_scan demo_cleanup init_facade False =
     (Inr \<lparr>sc_candidates = [demo_candidate], sc_inspected = 1, sc_scanned = 5\<rparr>, demo_facade, False)"
  by (simp add: cleanup_scan_def demo_cleanup_def init_facade_def scan_one_def demo_process_def
      rule_matches_def normal_name_def demo_candidate_def demo_facade_def Let_def)
    (code_simp)

lemma demo_reachable: "cleanup_reachable demo_cleanup demo_facade"
  by (rule cr_scan [OF cr_init demo_scan])

definition demo_cleanup_trace :: "cleanup_event list" where
  "demo_cleanup_trace = snd (snd (snd (cleanup_execute (logged_cleanup demo_cleanup)
     [demo_candidate] demo_facade (False, []))))"

lemma demo_cleanup_trace_eq:
  "demo_cleanup_trace =
     [CleInspect 7 (Inr (Some demo_process)), CleGraceful demo_process (Inr True),
      CleWait 7 10 (Inr False), CleInspect 7 (Inr (Some demo_process)),
      CleForce demo_process (Inr True), CleWait 7 30 (Inr True)]"
  by code_simp

theorem cleanup_touches_only_verified_witness:
  "\<exists>h post. demo_cleanup_trace = h @ CleForce demo_process (Inr True) # post \<and>
     last h = CleInspect 7 (Inr (Some demo_process))"
proof -
  obtain r fac' w' where run: "cleanup_execute (logged_cleanup demo_cleanup) [demo_candidate]
      demo_facade (False, []) = (r, fac', w', demo_cleanup_trace)"
    unfolding demo_cleanup_trace_def by (metis prod.collapse)
  have l: "demo_cleanup_trace = [CleInspect 7 (Inr (Some demo_process)),
      CleGraceful demo_process (Inr True), CleWait 7 10 (Inr False),
      CleInspect 7 (Inr (Some demo_process))] @ CleForce demo_process (Inr True) # [CleWait 7 30 (Inr True)]"
    by (simp add: demo_cleanup_trace_eq)
  have "pi_pid demo_process = 7" by (simp add: demo_process_def)
  with cleanup_touches_only_verified [OF demo_reachable run l, of demo_process "Inr True"]
  have "last [CleInspect 7 (Inr (Some demo_process)), CleGraceful demo_process (Inr True),
      CleWait 7 10 (Inr False), CleInspect 7 (Inr (Some demo_process))]
    = CleInspect 7 (Inr (Some demo_process))" by simp
  with l show ?thesis by blast
qed

theorem cleanup_evidence_single_use_witness:
  "\<exists>fac. cleanup_execute demo_cleanup [demo_candidate] fac False = (Inl RcmRejected, fac, False) \<and>
     cf_issued fac 1 = None"
proof -
  obtain r fac' w' where run: "cleanup_execute demo_cleanup [demo_candidate] demo_facade False
      = (r, fac', w')" by (metis prod_cases3)
  have "isl (fst (cleanup_execute demo_cleanup [demo_candidate] demo_facade False)) = False"
    by code_simp
  with run obtain items where "r = Inr items" by (cases r) auto
  from cleanup_evidence_single_use [OF run [unfolded this], of "[demo_candidate]" demo_cleanup False]
  show ?thesis by (auto simp: demo_candidate_def)
qed

theorem cleanup_rescan_revokes_witness:
  "\<exists>fac. cleanup_execute demo_cleanup [demo_candidate] fac False = (Inl RcmRejected, fac, False)"
proof -
  obtain r fac' w' where scan: "cleanup_scan demo_cleanup demo_facade False = (r, fac', w')"
    by (metis prod_cases3)
  have "cf_issued demo_facade 1 = Some demo_candidate" by (simp add: demo_facade_def)
  from cleanup_rescan_revokes [OF demo_reachable this scan, of "[demo_candidate]" demo_cleanup False]
  show ?thesis by auto
qed

end
