(* ===== verification/UiState.thy ===== *)
theory UiState
  imports Prelude "HOL-Library.Sublist"
begin

text \<open>
  \<open>src/rcm/ui/state.py\<close>: the immutable render state, the commands and results of the desktop, and
  the reducer of UI events. The values of \<open>Fields\<close> are the dynamically typed values the validators
  inspect.
\<close>

section \<open>Enumerations\<close>

datatype ui_visibility = UvVisible | UvMinimized | UvHidden

datatype lifecycle_phase =
    LpNew | LpStarting | LpRunning | LpRestarting | LpStopping | LpStopped | LpFailed

datatype surface = SfMain | SfStatus | SfSettings | SfNode | SfRdp | SfCleanup | SfHelp

fun surface_value :: "surface \<Rightarrow> string" where
  "surface_value SfMain = ''main''"
| "surface_value SfStatus = ''status''"
| "surface_value SfSettings = ''settings''"
| "surface_value SfNode = ''node''"
| "surface_value SfRdp = ''rdp''"
| "surface_value SfCleanup = ''cleanup''"
| "surface_value SfHelp = ''help''"

datatype command_kind =
    CkShow | CkHide | CkMinimize | CkOpenSurface | CkCloseSurface | CkSelectNode
  | CkSaveSettings | CkUpsertNode | CkRemoveNode | CkOpenRdp | CkApplyRdpHost
  | CkApplyPrivateFirewall | CkScanCleanup | CkApplyCleanup | CkStart | CkStop | CkRestart
  | CkSetAutostart | CkQuit

datatype result_status = RsSucceeded | RsFailed | RsCancelled

section \<open>Fields\<close>

definition ui_max_text :: nat where "ui_max_text = 2048"

definition ui_max_fields :: nat where "ui_max_fields = 32"

definition ui_text :: "string \<Rightarrow> bool \<Rightarrow> string result" where
  "ui_text s allow_empty =
     (if \<not> allow_empty \<and> s = [] \<or> ui_max_text < length s then Inl ValueError
      else if list_ex (\<lambda>c. ord c < 32 \<or> ord c = 127) s then Inl ValueError
      else Inr s)"

definition ui_field_value :: "pyval \<Rightarrow> pyval result" where
  "ui_field_value v =
     (case v of
        PStr s \<Rightarrow> bindE (ui_text s True) (\<lambda>_. Inr v)
      | PFloat (Finite r) \<Rightarrow> Inr v
      | PFloat _ \<Rightarrow> Inl ValueError
      | PTuple _ \<Rightarrow> Inl TypeError
      | PObject \<Rightarrow> Inl TypeError
      | _ \<Rightarrow> Inr v)"

definition field_name :: "string \<Rightarrow> bool" where
  "field_name s \<longleftrightarrow>
     (case s of
        [] \<Rightarrow> False
      | c # cs \<Rightarrow> is_lower c \<and> length cs \<le> 63 \<and>
          list_all (\<lambda>d. is_lower d \<or> is_digit d \<or> d = CHR ''_'') cs)"

text \<open>\<open>part in s\<close> for strings.\<close>

fun contains_text :: "string \<Rightarrow> string \<Rightarrow> bool" where
  "contains_text part [] = (part = [])"
| "contains_text part (c # cs) = (starts_with part (c # cs) \<or> contains_text part cs)"

definition forbidden_parts :: "string list" where
  "forbidden_parts = [''password'', ''secret'', ''credential_value'']"

type_synonym fields = "(string \<times> pyval) list"

fun safe_fields_loop :: "string set \<Rightarrow> pyval list \<Rightarrow> fields result" where
  "safe_fields_loop seen [] = Inr []"
| "safe_fields_loop seen (item # items) =
     (case item of
        PTuple [k, v] \<Rightarrow>
          (case k of
             PStr key \<Rightarrow>
               if \<not> field_name key then Inl ValueError
               else if list_ex (\<lambda>p. contains_text p key) forbidden_parts then Inl ValueError
               else if key \<in> seen then Inl ValueError
               else bindE (ui_field_value v) (\<lambda>u.
                    bindE (safe_fields_loop (insert key seen) items) (\<lambda>rest. Inr ((key, u) # rest)))
           | _ \<Rightarrow> Inl ValueError)
      | _ \<Rightarrow> Inl TypeError)"

definition safe_fields :: "pyval \<Rightarrow> fields result" where
  "safe_fields values =
     (case values of
        PTuple items \<Rightarrow>
          if ui_max_fields < length items then Inl ValueError else safe_fields_loop {} items
      | _ \<Rightarrow> Inl ValueError)"

section \<open>Commands and results\<close>

record ui_command =
  uc_command_id :: int
  uc_kind :: command_kind
  uc_fields :: fields

definition mk_UiCommand :: "pyval \<Rightarrow> command_kind \<Rightarrow> pyval \<Rightarrow> ui_command result" where
  "mk_UiCommand command_id kind values =
     (case command_id of
        PInt n \<Rightarrow>
          if n < 0 then Inl ValueError
          else bindE (safe_fields values) (\<lambda>fs.
            Inr \<lparr>uc_command_id = n, uc_kind = kind, uc_fields = fs\<rparr>)
      | _ \<Rightarrow> Inl ValueError)"

text \<open>\<open>dict(self.fields).get(name, default)\<close>: the last pair of a name would win.\<close>

definition command_field :: "ui_command \<Rightarrow> string \<Rightarrow> pyval \<Rightarrow> pyval" where
  "command_field c name dflt =
     (case map_of (rev (uc_fields c)) name of None \<Rightarrow> dflt | Some v \<Rightarrow> v)"

record command_result =
  cmr_command_id :: int
  cmr_status :: result_status
  cmr_code :: string
  cmr_message :: string
  cmr_fields :: fields

definition mk_CommandResult ::
    "int \<Rightarrow> result_status \<Rightarrow> string \<Rightarrow> string \<Rightarrow> pyval \<Rightarrow> command_result result" where
  "mk_CommandResult command_id status code message values =
     (if command_id < 0 then Inl ValueError
      else if \<not> field_name code then Inl ValueError
      else bindE (ui_text message True) (\<lambda>m.
           bindE (safe_fields values) (\<lambda>fs.
           Inr \<lparr>cmr_command_id = command_id, cmr_status = status, cmr_code = code,
                cmr_message = m, cmr_fields = fs\<rparr>)))"

definition cmr_ok :: "command_result \<Rightarrow> bool" where
  "cmr_ok r \<longleftrightarrow> cmr_status r = RsSucceeded"

section \<open>The render state\<close>

record node_render =
  nr_node_id :: string
  nr_name :: string
  nr_role :: string
  nr_status :: string
  nr_cpu_percent :: "rat option"
  nr_memory_percent :: "rat option"
  nr_temperature :: "rat option"
  nr_address :: string

definition render_metric :: "pyval \<Rightarrow> rat option result" where
  "render_metric v =
     (case v of
        PNone \<Rightarrow> Inr None
      | PInt n \<Rightarrow> bindE (float_of_int n) (\<lambda>r. Inr (Some r))
      | PFloat (Finite r) \<Rightarrow> Inr (Some r)
      | _ \<Rightarrow> Inl ValueError)"

definition mk_NodeRenderState ::
    "string \<Rightarrow> string \<Rightarrow> string \<Rightarrow> string \<Rightarrow> pyval \<Rightarrow> pyval \<Rightarrow> pyval \<Rightarrow> string \<Rightarrow> node_render result" where
  "mk_NodeRenderState nid name role status cpu memory temperature address =
     bindE (ui_text nid False) (\<lambda>_.
     bindE (ui_text name False) (\<lambda>_.
     bindE (ui_text role False) (\<lambda>_.
     bindE (ui_text status False) (\<lambda>_.
     bindE (ui_text address True) (\<lambda>_.
     bindE (render_metric cpu) (\<lambda>c.
     bindE (render_metric memory) (\<lambda>m.
     bindE (render_metric temperature) (\<lambda>t.
       Inr \<lparr>nr_node_id = nid, nr_name = name, nr_role = role, nr_status = status,
            nr_cpu_percent = c, nr_memory_percent = m, nr_temperature = t,
            nr_address = address\<rparr>))))))))"

record settings_render =
  sr_theme :: string
  sr_scale_percent :: int
  sr_compact_view :: bool
  sr_start_minimized :: bool
  sr_autostart :: bool
  sr_monitoring_interval_ms :: int

definition mk_SettingsRenderState ::
    "string \<Rightarrow> int \<Rightarrow> bool \<Rightarrow> bool \<Rightarrow> bool \<Rightarrow> int \<Rightarrow> settings_render result" where
  "mk_SettingsRenderState theme scale compact_view minimized autostart interval =
     bindE (ui_text theme False) (\<lambda>_.
     if \<not> (50 \<le> scale \<and> scale \<le> 300) then Inl ValueError
     else if \<not> (100 \<le> interval \<and> interval \<le> 3600000) then Inl ValueError
     else Inr \<lparr>sr_theme = theme, sr_scale_percent = scale, sr_compact_view = compact_view,
               sr_start_minimized = minimized, sr_autostart = autostart,
               sr_monitoring_interval_ms = interval\<rparr>)"

definition default_settings :: settings_render where
  "default_settings = \<lparr>sr_theme = ''system'', sr_scale_percent = 100, sr_compact_view = False,
     sr_start_minimized = False, sr_autostart = False, sr_monitoring_interval_ms = 1000\<rparr>"

record render_state =
  rn_revision :: int
  rn_lifecycle :: lifecycle_phase
  rn_visibility :: ui_visibility
  rn_active_surface :: surface
  rn_busy :: bool
  rn_status_message :: string
  rn_nodes :: "node_render list"
  rn_selected_node_id :: string
  rn_rdp_port :: int
  rn_rdp_connect_timeout :: int
  rn_settings :: settings_render
  rn_open_surfaces :: "surface list"
  rn_last_result :: "command_result option"
  rn_queue_depth :: int
  rn_dropped_events :: int
  rn_forced_shutdown :: bool

definition default_render :: render_state where
  "default_render =
     \<lparr>rn_revision = 0, rn_lifecycle = LpNew, rn_visibility = UvVisible,
      rn_active_surface = SfMain, rn_busy = False, rn_status_message = ''Ready'', rn_nodes = [],
      rn_selected_node_id = [], rn_rdp_port = 3389, rn_rdp_connect_timeout = 10,
      rn_settings = default_settings, rn_open_surfaces = [], rn_last_result = None,
      rn_queue_depth = 0, rn_dropped_events = 0, rn_forced_shutdown = False\<rparr>"

text \<open>\<open>RenderState.__post_init__\<close>: the checks the field types do not already make.\<close>

definition mk_RenderState :: "render_state \<Rightarrow> render_state result" where
  "mk_RenderState s =
     (if rn_revision s < 0 then Inl ValueError
      else bindE (ui_text (rn_status_message s) True) (\<lambda>_.
      let identifiers = map nr_node_id (rn_nodes s) in
      if length identifiers \<noteq> card (set identifiers) then Inl ValueError
      else if rn_selected_node_id s \<noteq> [] \<and> rn_selected_node_id s \<notin> set identifiers
        then Inl ValueError
      else if \<not> (1 \<le> rn_rdp_port s \<and> rn_rdp_port s \<le> 65535) then Inl ValueError
      else if \<not> (1 \<le> rn_rdp_connect_timeout s \<and> rn_rdp_connect_timeout s \<le> 300)
        then Inl ValueError
      else if length (rn_open_surfaces s) \<noteq> card (set (rn_open_surfaces s)) then Inl ValueError
      else if rn_queue_depth s < 0 then Inl ValueError
      else if rn_dropped_events s < 0 then Inl ValueError
      else Inr s))"

text \<open>
  \<open>evolve\<close>: \<open>change\<close> sets the fields given by keyword; none of the callers passes a revision, so it
  is incremented.
\<close>

definition evolve :: "(render_state \<Rightarrow> render_state) \<Rightarrow> render_state \<Rightarrow> render_state result" where
  "evolve change s = mk_RenderState ((change s)\<lparr>rn_revision := rn_revision s + 1\<rparr>)"

section \<open>The reducer\<close>

datatype ui_event = SnapshotEvent render_state | ResultEvent command_result

definition reduce_event :: "render_state \<Rightarrow> ui_event \<Rightarrow> render_state result" where
  "reduce_event s e =
     (case e of
        SnapshotEvent t \<Rightarrow> Inr (if rn_revision s \<le> rn_revision t then t else s)
      | ResultEvent r \<Rightarrow>
          evolve (\<lambda>s. s\<lparr>rn_busy := False, rn_last_result := Some r,
            rn_status_message := (if cmr_message r \<noteq> [] then cmr_message r else cmr_code r)\<rparr>) s)"

section \<open>Well-formed states\<close>

definition render_ok :: "render_state \<Rightarrow> bool" where
  "render_ok s \<longleftrightarrow> mk_RenderState s = Inr s"

definition result_ok :: "command_result \<Rightarrow> bool" where
  "result_ok r \<longleftrightarrow> 0 \<le> cmr_command_id r \<and> field_name (cmr_code r) \<and>
     ui_text (cmr_message r) True = Inr (cmr_message r)"

definition event_ok :: "ui_event \<Rightarrow> bool" where
  "event_ok e \<longleftrightarrow> (case e of SnapshotEvent s \<Rightarrow> render_ok s | ResultEvent r \<Rightarrow> result_ok r)"

lemma mk_RenderState_id: "mk_RenderState s = Inr t \<Longrightarrow> t = s"
  by (auto simp: mk_RenderState_def Let_def result_simps split: if_splits)

lemma ui_text_Inr: "ui_text m b = Inr x \<Longrightarrow> x = m"
  by (auto simp: ui_text_def split: if_splits)

lemma ui_text_bind: "(\<exists>x. ui_text m b = Inr x) \<longleftrightarrow> ui_text m b = Inr m"
  by (auto dest: ui_text_Inr)

lemma length_card_distinct: "length xs = card (set xs) \<longleftrightarrow> distinct xs"
  by (metis card_distinct distinct_card)

lemma check_eq_Inr: "(if b then Inl e else m) = Inr y \<longleftrightarrow> \<not> b \<and> m = Inr y"
  by simp

lemma render_ok_iff:
  "render_ok s \<longleftrightarrow> 0 \<le> rn_revision s \<and> ui_text (rn_status_message s) True = Inr (rn_status_message s) \<and>
     distinct (map nr_node_id (rn_nodes s)) \<and>
     (rn_selected_node_id s = [] \<or> rn_selected_node_id s \<in> set (map nr_node_id (rn_nodes s))) \<and>
     1 \<le> rn_rdp_port s \<and> rn_rdp_port s \<le> 65535 \<and>
     1 \<le> rn_rdp_connect_timeout s \<and> rn_rdp_connect_timeout s \<le> 300 \<and>
     distinct (rn_open_surfaces s) \<and> 0 \<le> rn_queue_depth s \<and> 0 \<le> rn_dropped_events s"
  unfolding render_ok_def mk_RenderState_def Let_def check_eq_Inr bindE_eq_Inr length_card_distinct
  by (simp only: not_less de_Morgan_conj not_not ex_simps ui_text_bind simp_thms) blast

lemma mk_CommandResult_ok: "mk_CommandResult i st code m v = Inr r \<Longrightarrow> result_ok r"
  by (auto simp: mk_CommandResult_def result_ok_def result_simps ui_text_def split: if_splits)

section \<open>Field lists\<close>

lemma starts_with_prefix: "starts_with xs ys \<longleftrightarrow> prefix xs ys"
  by (induction xs ys rule: starts_with.induct) auto

lemma contains_text_sublist: "contains_text part s \<longleftrightarrow> sublist part s"
  by (induction part s rule: contains_text.induct) (auto simp: starts_with_prefix sublist_Cons_right)

definition field_item :: "string \<times> pyval \<Rightarrow> pyval" where
  "field_item kv = PTuple [PStr (fst kv), snd kv]"

definition field_ok :: "string \<times> pyval \<Rightarrow> bool" where
  "field_ok kv \<longleftrightarrow> field_name (fst kv) \<and>
     \<not> sublist ''password'' (fst kv) \<and> \<not> sublist ''secret'' (fst kv) \<and>
     \<not> sublist ''credential_value'' (fst kv) \<and> ui_field_value (snd kv) = Inr (snd kv)"

lemma ui_field_value_Inr: "ui_field_value v = Inr u \<Longrightarrow> u = v"
  by (auto simp: ui_field_value_def result_simps split: pyval.splits pyfloat.splits)

lemma safe_fields_loop_Cons:
  "safe_fields_loop seen (item # items) = Inr fs \<longleftrightarrow>
     (\<exists>kv rest. item = field_item kv \<and> fs = kv # rest \<and> field_ok kv \<and> fst kv \<notin> seen \<and>
        safe_fields_loop (insert (fst kv) seen) items = Inr rest)"
proof (cases "\<exists>k v. item = PTuple [PStr k, v]")
  case True
  then obtain k v where i: "item = PTuple [PStr k, v]" by blast
  show ?thesis
    by (auto simp: i field_item_def field_ok_def forbidden_parts_def contains_text_sublist result_simps
        dest: ui_field_value_Inr)
next
  case False
  then show ?thesis
    by (auto simp: field_item_def split: pyval.splits list.splits)
qed

lemma safe_fields_loop_iff:
  "safe_fields_loop seen items = Inr fs \<longleftrightarrow>
     items = map field_item fs \<and> distinct (map fst fs) \<and> (\<forall>kv \<in> set fs. fst kv \<notin> seen \<and> field_ok kv)"
proof (induction items arbitrary: seen fs)
  case Nil
  show ?case by auto
next
  case (Cons item items)
  show ?case
    unfolding safe_fields_loop_Cons Cons.IH by (cases fs) auto
qed

lemma inj_field_item: "inj field_item"
  by (auto simp: inj_def field_item_def prod_eq_iff)

lemma field_name_text:
  assumes "field_name s"
  shows "ui_text s True = Inr s"
proof -
  have "length s \<le> 64" "list_all (\<lambda>d. is_lower d \<or> is_digit d \<or> d = CHR ''_'') s"
    using assms by (auto simp: field_name_def split: list.splits)
  moreover have "\<not> (ord c < 32 \<or> ord c = 127)" if "is_lower c \<or> is_digit c \<or> c = CHR ''_''" for c
    using that by (auto simp: is_lower_def is_digit_def ord_def)
  ultimately show ?thesis
    by (auto simp: ui_text_def ui_max_text_def list_ex_iff list_all_iff)
qed

section \<open>Series of events\<close>

fun reduce_all :: "render_state \<Rightarrow> ui_event list \<Rightarrow> render_state result" where
  "reduce_all s [] = Inr s"
| "reduce_all s (e # es) = bindE (reduce_event s e) (\<lambda>t. reduce_all t es)"

lemma reduce_snapshots:
  "\<exists>t. reduce_all s (map SnapshotEvent us) = Inr t \<and> t \<in> insert s (set us) \<and>
     (\<forall>u \<in> insert s (set us). rn_revision u \<le> rn_revision t)"
proof (induction us arbitrary: s)
  case (Cons u us)
  let ?s = "if rn_revision s \<le> rn_revision u then u else s"
  from Cons.IH [of ?s] show ?case
    by (fastforce simp: reduce_event_def split: if_splits)
qed simp

lemma reduce_event_result:
  assumes "render_ok s" and "event_ok (ResultEvent r)"
  shows "\<exists>t. reduce_event s (ResultEvent r) = Inr t \<and> render_ok t \<and> \<not> rn_busy t \<and>
    rn_last_result t = Some r \<and> rn_revision t = rn_revision s + 1"
proof -
  let ?m = "if cmr_message r \<noteq> [] then cmr_message r else cmr_code r"
  let ?t = "s\<lparr>rn_busy := False, rn_last_result := Some r, rn_status_message := ?m,
              rn_revision := rn_revision s + 1\<rparr>"
  have m: "ui_text ?m True = Inr ?m"
    using assms(2) field_name_text by (simp add: event_ok_def result_ok_def)
  have "render_ok ?t" using assms(1) m by (simp add: render_ok_iff)
  then have "reduce_event s (ResultEvent r) = Inr ?t"
    by (simp add: reduce_event_def evolve_def render_ok_def)
  with \<open>render_ok ?t\<close> show ?thesis by simp
qed

section \<open>Properties\<close>

text \<open>
  What a command or result may carry. \<open>safe_fields\<close> accepts a value exactly when it is a tuple of
  at most 32 pairs with pairwise different names, each a lowercase identifier of at most 64
  characters in which neither \<open>password\<close> nor \<open>secret\<close> nor \<open>credential_value\<close> occurs, each with a
  scalar value; it then returns the very pairs, and the lookup of a command finds each of them.
\<close>

theorem safe_fields_exact:
  "safe_fields v = Inr fs \<longleftrightarrow>
     v = PTuple (map field_item fs) \<and> length fs \<le> 32 \<and> distinct (map fst fs) \<and> list_all field_ok fs"
  by (cases v) (auto simp: safe_fields_def ui_max_fields_def safe_fields_loop_iff list_all_iff)

text \<open>
  Commands carry their fields faithfully. A command built from a list of named values holds
  exactly that list and a non-negative identifier, and looking a name up returns the value it was
  given, whatever the default.
\<close>

theorem command_fields_roundtrip:
  assumes "mk_UiCommand (PInt n) kind (PTuple (map field_item fs)) = Inr c" and "(name, v) \<in> set fs"
  shows "command_field c name dflt = v \<and> uc_fields c = fs \<and> uc_command_id c = n \<and> 0 \<le> n"
proof -
  have "safe_fields (PTuple (map field_item fs)) = Inr (uc_fields c)" "uc_command_id c = n" "0 \<le> n"
    using assms(1) by (auto simp: mk_UiCommand_def result_simps split: if_splits)
  moreover from this have "uc_fields c = fs \<and> distinct (map fst fs)"
    by (simp add: safe_fields_loop_iff safe_fields_def inj_map_eq_map inj_field_item split: if_splits)
  moreover from this assms(2) have "map_of (rev fs) name = Some v"
    by (intro map_of_is_SomeI) (simp_all add: rev_map [symmetric])
  ultimately show ?thesis by (simp add: command_field_def)
qed

text \<open>
  C33: the reducer never fails and never goes back. On a valid state and a valid event it raises
  nothing, the new state passes every check of \<open>RenderState\<close>, its revision is at least the old one,
  and a command result always shows up as the last result and clears the busy flag.
\<close>

theorem reduce_event_total:
  assumes "render_ok s" and "event_ok e"
  shows "\<exists>t. reduce_event s e = Inr t \<and> render_ok t \<and> rn_revision s \<le> rn_revision t \<and>
    (case e of
       SnapshotEvent u \<Rightarrow> t = (if rn_revision u < rn_revision s then s else u)
     | ResultEvent r \<Rightarrow> \<not> rn_busy t \<and> rn_last_result t = Some r \<and> rn_revision t = rn_revision s + 1)"
proof (cases e)
  case (SnapshotEvent u)
  with assms show ?thesis by (simp add: reduce_event_def event_ok_def)
next
  case (ResultEvent r)
  with reduce_event_result [OF assms(1), of r] assms(2) show ?thesis by auto
qed

text \<open>
  The last state wins, in whatever order it arrives. Reducing the snapshots of an increasing
  series of revisions, delivered in any order and any number of times, ends in the newest of them.
\<close>

theorem reduce_newest_wins:
  assumes "sorted_wrt (\<lambda>a b. rn_revision a < rn_revision b) (s # ts)" and "set us = set ts"
  shows "reduce_all s (map SnapshotEvent us) = Inr (last (s # ts))"
proof -
  let ?new = "last (s # ts)"
  have order: "rn_revision a < rn_revision ?new \<or> a = ?new" if "a \<in> set (s # ts)" for a
  proof -
    have split: "s # ts = butlast (s # ts) @ [?new]" by simp
    have "\<forall>b \<in> set (butlast (s # ts)). rn_revision b < rn_revision ?new"
      using assms(1) by (subst (asm) split) (simp add: sorted_wrt_append del: append_butlast_last_id)
    moreover have "a \<in> set (butlast (s # ts)) \<or> a = ?new"
      using that by (subst (asm) split) (simp only: set_append list.set, blast)
    ultimately show ?thesis by blast
  qed
  obtain t where t: "reduce_all s (map SnapshotEvent us) = Inr t" "t \<in> insert s (set us)"
      "\<forall>u \<in> insert s (set us). rn_revision u \<le> rn_revision t"
    using reduce_snapshots by metis
  have "?new \<in> insert s (set us)" using assms(2) last_in_set [of "s # ts"] by simp
  moreover have "t \<in> set (s # ts)" using t(2) assms(2) by simp
  ultimately have "t = ?new" using order [of t] t(3) by force
  with t(1) show ?thesis by simp
qed

section \<open>The properties at concrete events\<close>

theorem command_fields_roundtrip_witness:
  "command_field \<lparr>uc_command_id = 3, uc_kind = CkSelectNode, uc_fields = [(''node_id'', PStr ''n1'')]\<rparr>
     ''node_id'' PNone = PStr ''n1''"
  by (rule command_fields_roundtrip [where n = 3 and kind = CkSelectNode and
        fs = "[(''node_id'', PStr ''n1'')]", THEN conjunct1]) (code_simp, simp)

definition demo_result :: command_result where
  "demo_result = \<lparr>cmr_command_id = 3, cmr_status = RsSucceeded, cmr_code = ''saved'',
     cmr_message = [], cmr_fields = []\<rparr>"

theorem reduce_event_total_witness:
  "\<exists>t. reduce_event default_render (ResultEvent demo_result) = Inr t \<and> rn_revision t = 1"
proof -
  have "render_ok default_render" "event_ok (ResultEvent demo_result)" by code_simp+
  from reduce_event_total [OF this] show ?thesis by (auto simp: default_render_def)
qed

theorem reduce_newest_wins_witness:
  "reduce_all default_render (map SnapshotEvent
     [default_render\<lparr>rn_revision := 2\<rparr>, default_render\<lparr>rn_revision := 1, rn_busy := True\<rparr>]) =
   Inr (default_render\<lparr>rn_revision := 2\<rparr>)"
proof -
  have "sorted_wrt (\<lambda>a b. rn_revision a < rn_revision b) [default_render,
      default_render\<lparr>rn_revision := 1, rn_busy := True\<rparr>, default_render\<lparr>rn_revision := 2\<rparr>]"
    by (simp add: default_render_def)
  from reduce_newest_wins [OF this, of "[default_render\<lparr>rn_revision := 2\<rparr>,
      default_render\<lparr>rn_revision := 1, rn_busy := True\<rparr>]"] show ?thesis
    by (simp add: insert_commute)
qed

end
