(* ===== verification/Scheduler.thy ===== *)
theory Scheduler
  imports Effects UiState
begin

text \<open>
  \<open>src/rcm/ui/scheduler.py\<close>: the bounded queue that coalesces events, and the scheduler that delivers
  them in batches from one timer callback of the desktop host.

  The timer port and the consumer are parameters; a consumer may use the scheduler it is called
  from. The methods run one at a time, as the lock makes them. A token is the identity of the
  object \<open>call_later\<close> returned.
\<close>

section \<open>The bounded event queue\<close>

record 'v queue_entry =
  qe_value :: 'v
  qe_key :: "string option"

datatype post_status = PsAdded | PsCoalesced | PsFull

record 'v event_queue =
  eq_maximum :: nat
  eq_items :: "'v queue_entry list"
  eq_dropped :: nat

definition mk_event_queue :: "int \<Rightarrow> 'v event_queue result" where
  "mk_event_queue maximum =
     (if \<not> (1 \<le> maximum \<and> maximum \<le> 1024) then Inl ValueError
      else Inr \<lparr>eq_maximum = nat maximum, eq_items = [], eq_dropped = 0\<rparr>)"

text \<open>
  \<open>for index in range(len(items) - 1, -1, -1)\<close>: the first argument is the number of indices still to
  be visited.
\<close>

fun coalesce_loop ::
    "nat \<Rightarrow> 'v queue_entry list \<Rightarrow> 'v \<Rightarrow> string \<Rightarrow> 'v queue_entry list option" where
  "coalesce_loop 0 items v key = None"
| "coalesce_loop (Suc i) items v key =
     (if qe_key (items ! i) = Some key
      then Some (items[i := \<lparr>qe_value = v, qe_key = Some key\<rparr>])
      else coalesce_loop i items v key)"

definition queue_post ::
    "'v \<Rightarrow> string option \<Rightarrow> 'v event_queue \<Rightarrow> post_status \<times> 'v event_queue" where
  "queue_post v key q =
     (case (case key of
              None \<Rightarrow> None
            | Some k \<Rightarrow> coalesce_loop (length (eq_items q)) (eq_items q) v k) of
        Some items \<Rightarrow> (PsCoalesced, q\<lparr>eq_items := items\<rparr>)
      | None \<Rightarrow>
          if eq_maximum q \<le> length (eq_items q)
          then (PsFull, q\<lparr>eq_dropped := eq_dropped q + 1\<rparr>)
          else (PsAdded, q\<lparr>eq_items := eq_items q @ [\<lparr>qe_value = v, qe_key = key\<rparr>]\<rparr>))"

definition queue_drain :: "int option \<Rightarrow> 'v event_queue \<Rightarrow> 'v list result \<times> 'v event_queue" where
  "queue_drain maximum q =
     (let limit = (case maximum of None \<Rightarrow> int (eq_maximum q) | Some m \<Rightarrow> m) in
      if limit \<le> 0 then (Inl ValueError, q)
      else let count = nat (min limit (int (length (eq_items q)))) in
        (Inr (map qe_value (take count (eq_items q))), q\<lparr>eq_items := drop count (eq_items q)\<rparr>))"

section \<open>The scheduler\<close>

record 'v scheduler =
  sc_queue :: "'v event_queue"
  sc_interval :: int
  sc_batch :: int
  sc_visibility :: ui_visibility
  sc_token :: "nat option"
  sc_stopped :: bool

record 'x schedule_port =
  sp_call_later :: "int \<Rightarrow> ('x, pyexn, nat) eff"
  sp_cancel :: "nat \<Rightarrow> ('x, pyexn, unit) eff"

type_synonym ('v, 'x, 'a) sched_eff = "('v scheduler \<times> 'x, pyexn, 'a) eff"

type_synonym ('v, 'x) consumer = "'v \<Rightarrow> ('v, 'x, unit) sched_eff"

definition mk_UiScheduler :: "int \<Rightarrow> int \<Rightarrow> int \<Rightarrow> 'v scheduler result" where
  "mk_UiScheduler maximum_queue interval batch =
     (if interval \<le> 0 then Inl ValueError
      else if \<not> (1 \<le> batch \<and> batch \<le> maximum_queue) then Inl ValueError
      else bindE (mk_event_queue maximum_queue) (\<lambda>q.
        Inr \<lparr>sc_queue = q, sc_interval = interval, sc_batch = batch, sc_visibility = UvVisible,
             sc_token = None, sc_stopped = True\<rparr>))"

definition queue_depth :: "'v scheduler \<Rightarrow> nat" where
  "queue_depth sc = length (eq_items (sc_queue sc))"

definition pending_callback :: "'v scheduler \<Rightarrow> bool" where
  "pending_callback sc \<longleftrightarrow> sc_token sc \<noteq> None"

definition schedule_locked :: "'x schedule_port \<Rightarrow> int \<Rightarrow> ('v, 'x, unit) sched_eff" where
  "schedule_locked port delay \<sigma> =
     (case \<sigma> of (sc, x) \<Rightarrow>
        if sc_stopped sc \<or> sc_token sc \<noteq> None then (Inr (), sc, x)
        else (case sp_call_later port delay x of
                (Inl e, x') \<Rightarrow> (Inl e, sc, x')
              | (Inr t, x') \<Rightarrow> (Inr (), sc\<lparr>sc_token := Some t\<rparr>, x')))"

text \<open>\<open>if len(queue): schedule(0) elif visible: schedule(interval)\<close>, as \<open>start\<close> and \<open>_drain\<close> end.\<close>

definition reschedule :: "'x schedule_port \<Rightarrow> ('v, 'x, unit) sched_eff" where
  "reschedule port \<sigma> =
     (if queue_depth (fst \<sigma>) \<noteq> 0 then schedule_locked port 0 \<sigma>
      else if sc_visibility (fst \<sigma>) = UvVisible then schedule_locked port (sc_interval (fst \<sigma>)) \<sigma>
      else (Inr (), \<sigma>))"

definition scheduler_start :: "'x schedule_port \<Rightarrow> ('v, 'x, unit) sched_eff" where
  "scheduler_start port \<sigma> = reschedule port ((fst \<sigma>)\<lparr>sc_stopped := False\<rparr>, snd \<sigma>)"

text \<open>\<open>cancel(token); token = None\<close>, where there is a token.\<close>

definition cancel_token :: "'x schedule_port \<Rightarrow> ('v, 'x, unit) sched_eff" where
  "cancel_token port \<sigma> =
     (case \<sigma> of (sc, x) \<Rightarrow>
        (case sc_token sc of
           None \<Rightarrow> (Inr (), sc, x)
         | Some t \<Rightarrow>
             (case sp_cancel port t x of
                (Inl e, x') \<Rightarrow> (Inl e, sc, x')
              | (Inr _, x') \<Rightarrow> (Inr (), sc\<lparr>sc_token := None\<rparr>, x'))))"

definition scheduler_drain_all :: "('v, 'x, unit) sched_eff" where
  "scheduler_drain_all \<sigma> =
     (case queue_drain None (sc_queue (fst \<sigma>)) of
        (Inl e, q) \<Rightarrow> (Inl e, (fst \<sigma>)\<lparr>sc_queue := q\<rparr>, snd \<sigma>)
      | (Inr _, q) \<Rightarrow> (Inr (), (fst \<sigma>)\<lparr>sc_queue := q\<rparr>, snd \<sigma>))"

definition scheduler_stop :: "'x schedule_port \<Rightarrow> ('v, 'x, unit) sched_eff" where
  "scheduler_stop port \<sigma> =
     andthen (cancel_token port) (\<lambda>_. scheduler_drain_all) ((fst \<sigma>)\<lparr>sc_stopped := True\<rparr>, snd \<sigma>)"

definition scheduler_set_visibility ::
    "'x schedule_port \<Rightarrow> ui_visibility \<Rightarrow> ('v, 'x, unit) sched_eff" where
  "scheduler_set_visibility port v \<sigma> =
     (let \<sigma>' = ((fst \<sigma>)\<lparr>sc_visibility := v\<rparr>, snd \<sigma>) in
      if v = UvVisible then schedule_locked port 0 \<sigma>'
      else if queue_depth (fst \<sigma>) = 0 \<and> sc_token (fst \<sigma>) \<noteq> None then cancel_token port \<sigma>'
      else (Inr (), \<sigma>'))"

definition scheduler_post ::
    "'x schedule_port \<Rightarrow> 'v \<Rightarrow> string option \<Rightarrow> ('v, 'x, post_status) sched_eff" where
  "scheduler_post port v key \<sigma> =
     (case queue_post v key (sc_queue (fst \<sigma>)) of
        (status, q) \<Rightarrow>
          let \<sigma>' = ((fst \<sigma>)\<lparr>sc_queue := q\<rparr>, snd \<sigma>) in
          if status \<noteq> PsFull
          then andthen (schedule_locked port 0) (\<lambda>_. ret status) \<sigma>'
          else (Inr status, \<sigma>'))"

text \<open>\<open>_drain\<close>, which \<open>drain_now\<close> calls too: the batch leaves the queue before it is consumed.\<close>

fun consume_each :: "('v, 'x) consumer \<Rightarrow> 'v list \<Rightarrow> ('v, 'x, unit) sched_eff" where
  "consume_each consume [] = ret ()"
| "consume_each consume (v # vs) = andthen (consume v) (\<lambda>_. consume_each consume vs)"

definition take_batch :: "('v, 'x, 'v list) sched_eff" where
  "take_batch \<sigma> =
     (case queue_drain (Some (sc_batch (fst \<sigma>))) (sc_queue (fst \<sigma>)) of
        (r, q) \<Rightarrow> (r, (fst \<sigma>)\<lparr>sc_queue := q\<rparr>, snd \<sigma>))"

definition scheduler_drain ::
    "'x schedule_port \<Rightarrow> ('v, 'x) consumer \<Rightarrow> ('v, 'x, unit) sched_eff" where
  "scheduler_drain port consume \<sigma> =
     (let sc = (fst \<sigma>)\<lparr>sc_token := None\<rparr> in
      if sc_stopped sc then (Inr (), sc, snd \<sigma>)
      else andthen take_batch (\<lambda>batch. andthen (consume_each consume batch) (\<lambda>_. reschedule port))
             (sc, snd \<sigma>))"

section \<open>The queue against its specification\<close>

text \<open>
  The abstract queue: an entry with a key replaces the one entry of that key where it stands,
  anything else is appended while there is room.
\<close>

definition spec_post ::
    "'v \<Rightarrow> string option \<Rightarrow> 'v event_queue \<Rightarrow> post_status \<times> 'v event_queue" where
  "spec_post v key q =
     (if key \<noteq> None \<and> list_ex (\<lambda>e. qe_key e = key) (eq_items q)
      then (PsCoalesced, q\<lparr>eq_items :=
              map (\<lambda>e. if qe_key e = key then \<lparr>qe_value = v, qe_key = key\<rparr> else e) (eq_items q)\<rparr>)
      else if length (eq_items q) < eq_maximum q
        then (PsAdded, q\<lparr>eq_items := eq_items q @ [\<lparr>qe_value = v, qe_key = key\<rparr>]\<rparr>)
      else (PsFull, q\<lparr>eq_dropped := Suc (eq_dropped q)\<rparr>))"

definition queue_keys :: "'v queue_entry list \<Rightarrow> string list" where
  "queue_keys items = map (\<lambda>e. the (qe_key e)) (filter (\<lambda>e. qe_key e \<noteq> None) items)"

definition queue_ok :: "'v event_queue \<Rightarrow> bool" where
  "queue_ok q \<longleftrightarrow> 1 \<le> eq_maximum q \<and> eq_maximum q \<le> 1024 \<and> length (eq_items q) \<le> eq_maximum q \<and>
     distinct (queue_keys (eq_items q))"

lemma queue_keys_append [simp]: "queue_keys (xs @ ys) = queue_keys xs @ queue_keys ys"
  by (simp add: queue_keys_def)

lemma queue_keys_Cons [simp]:
  "queue_keys (e # es) = (case qe_key e of None \<Rightarrow> queue_keys es | Some k \<Rightarrow> k # queue_keys es)"
  by (auto simp: queue_keys_def split: option.splits)

lemma queue_keys_Nil [simp]: "queue_keys [] = []"
  by (simp add: queue_keys_def)

lemma in_queue_keys: "k \<in> set (queue_keys es) \<longleftrightarrow> (\<exists>e \<in> set es. qe_key e = Some k)"
  by (induction es) (auto split: option.splits)

lemma coalesce_map:
  assumes "distinct (queue_keys (xs @ e # ys))" and "qe_key e = Some k"
  shows "map (\<lambda>e. if qe_key e = Some k then n else e) (xs @ e # ys) = xs @ n # ys"
proof -
  have "qe_key d \<noteq> Some k" if "d \<in> set (xs @ ys)" for d
    using assms that by (auto simp: in_queue_keys)
  then have "map (\<lambda>e. if qe_key e = Some k then n else e) xs = xs"
      "map (\<lambda>e. if qe_key e = Some k then n else e) ys = ys"
    by (auto intro!: map_idI)
  with assms(2) show ?thesis by simp
qed

lemma coalesce_loop_spec:
  assumes "distinct (queue_keys items)" and "i \<le> length items"
  shows "coalesce_loop i items v k =
    (if list_ex (\<lambda>e. qe_key e = Some k) (take i items)
     then Some (map (\<lambda>e. if qe_key e = Some k then \<lparr>qe_value = v, qe_key = Some k\<rparr> else e) items)
     else None)"
  using assms(2)
proof (induction i)
  case (Suc i)
  then have i: "i < length items" by simp
  show ?case
  proof (cases "qe_key (items ! i) = Some k")
    case True
    have "distinct (queue_keys (take i items @ items ! i # drop (Suc i) items))"
      using assms(1) id_take_nth_drop [OF i] by simp
    from coalesce_map [OF this True] id_take_nth_drop [OF i] True i show ?thesis
      by (simp add: upd_conv_take_nth_drop take_Suc_conv_app_nth)
  next
    case False
    with Suc i show ?thesis by (simp add: take_Suc_conv_app_nth)
  qed
qed simp

lemma queue_post_spec:
  assumes "queue_ok q"
  shows "queue_post v key q = spec_post v key q"
proof (cases key)
  case None
  then show ?thesis by (auto simp: queue_post_def spec_post_def)
next
  case (Some k)
  have "distinct (queue_keys (eq_items q))" using assms by (simp add: queue_ok_def)
  from coalesce_loop_spec [OF this le_refl] Some show ?thesis
    by (auto simp: queue_post_def spec_post_def)
qed

lemma queue_keys_replace:
  "queue_keys (map (\<lambda>e. if qe_key e = Some k then \<lparr>qe_value = v, qe_key = Some k\<rparr> else e) es) =
   queue_keys es"
  by (induction es) (auto split: option.splits)

lemma queue_post_ok:
  assumes "queue_ok q" and "queue_post v key q = (status, q')"
  shows "queue_ok q' \<and> eq_maximum q' = eq_maximum q"
  using assms(2) unfolding queue_post_spec [OF assms(1)]
  using assms(1)
  by (cases key) (auto simp: spec_post_def queue_ok_def queue_keys_replace in_queue_keys list_ex_iff
      split: if_splits)

lemma distinct_queue_keys_drop: "distinct (queue_keys es) \<Longrightarrow> distinct (queue_keys (drop n es))"
  by (metis append_take_drop_id distinct_append queue_keys_append)

lemma queue_drain_ok:
  assumes "queue_ok q" and "queue_drain m q = (r, q')"
  shows "queue_ok q' \<and> eq_maximum q' = eq_maximum q"
  using assms
  by (auto simp: queue_drain_def queue_ok_def Let_def distinct_queue_keys_drop split: if_splits)

lemma mk_event_queue_ok:
  "mk_event_queue n = Inr q \<Longrightarrow> queue_ok q \<and> eq_items q = [] \<and> eq_dropped q = 0 \<and> int (eq_maximum q) = n"
  by (auto simp: mk_event_queue_def queue_ok_def split: if_splits)

section \<open>Series of queue operations\<close>

datatype 'v queue_op = QPost 'v "string option" | QDrain "int option"

text \<open>The values delivered, the statuses of the posts, and the queue that is left.\<close>

fun queue_run :: "'v queue_op list \<Rightarrow> 'v event_queue \<Rightarrow> 'v list \<times> post_status list \<times> 'v event_queue" where
  "queue_run [] q = ([], [], q)"
| "queue_run (QPost v key # ops) q =
     (case queue_post v key q of
        (status, q') \<Rightarrow> case queue_run ops q' of (vs, ss, q'') \<Rightarrow> (vs, status # ss, q''))"
| "queue_run (QDrain m # ops) q =
     (case queue_drain m q of
        (r, q') \<Rightarrow> case queue_run ops q' of
          (vs, ss, q'') \<Rightarrow> ((case r of Inl _ \<Rightarrow> [] | Inr us \<Rightarrow> us) @ vs, ss, q''))"

lemma post_counts:
  assumes "queue_ok q" and "queue_post v key q = (status, q')"
  shows "length (eq_items q') = length (eq_items q) + (if status = PsAdded then 1 else 0) \<and>
    eq_dropped q' = eq_dropped q + (if status = PsFull then 1 else 0)"
  using assms(2) unfolding queue_post_spec [OF assms(1)] by (auto simp: spec_post_def split: if_splits)

lemma drain_counts:
  assumes "queue_drain m q = (r, q')"
  shows "eq_dropped q' = eq_dropped q \<and>
    (case r of Inl _ \<Rightarrow> q' = q | Inr us \<Rightarrow> us @ map qe_value (eq_items q') = map qe_value (eq_items q))"
  using assms by (auto simp: queue_drain_def Let_def map_append [symmetric] simp del: map_append split: if_splits)

lemma queue_run_counts:
  "queue_ok q \<Longrightarrow> queue_run ops q = (vs, ss, q') \<Longrightarrow>
   queue_ok q' \<and> eq_maximum q' = eq_maximum q \<and>
   length vs + length (eq_items q') = length (eq_items q) + count_list ss PsAdded \<and>
   eq_dropped q' = eq_dropped q + count_list ss PsFull"
proof (induction ops q arbitrary: vs ss q' rule: queue_run.induct)
  case (2 v key ops q)
  obtain status q1 where p: "queue_post v key q = (status, q1)" by fastforce
  obtain vs1 ss1 q2 where r: "queue_run ops q1 = (vs1, ss1, q2)" by (metis prod_cases3)
  from 2(1) [OF p [symmetric] _ r] queue_post_ok [OF 2(2) p] post_counts [OF 2(2) p] 2(3) p r
  show ?case by auto
next
  case (3 m ops q)
  obtain x q1 where p: "queue_drain m q = (x, q1)" by fastforce
  obtain vs1 ss1 q2 where r: "queue_run ops q1 = (vs1, ss1, q2)" by (metis prod_cases3)
  have "length (case x of Inl _ \<Rightarrow> [] | Inr us \<Rightarrow> us) + length (eq_items q1) = length (eq_items q)"
    using drain_counts [OF p] by (cases x) (auto dest: arg_cong [where f = length])
  with 3(1) [OF p [symmetric] _ r] queue_drain_ok [OF 3(2) p] drain_counts [OF p] 3(3) p r
  show ?case by auto
qed simp

section \<open>The timer of the scheduler\<close>

text \<open>
  What a caller of the scheduler may do, the consumer included: the public operations except
  \<open>drain_now\<close>, and work of its own that leaves the host's timers alone. \<open>pend\<close> are the callbacks the
  host has been asked for and has neither fired nor cancelled; the flag tells whether every call
  returned.
\<close>

inductive scheduler_calls ::
    "'x schedule_port \<Rightarrow> ('x \<Rightarrow> nat multiset) \<Rightarrow> bool \<Rightarrow> 'v scheduler \<times> 'x \<Rightarrow> 'v scheduler \<times> 'x \<Rightarrow> bool"
  for port pend where
  calls_none: "scheduler_calls port pend True \<sigma> \<sigma>"
| calls_host: "scheduler_calls port pend ok \<sigma> (sc, x) \<Longrightarrow> pend x' = pend x \<Longrightarrow>
    scheduler_calls port pend ok \<sigma> (sc, x')"
| calls_start: "scheduler_calls port pend ok \<sigma> \<rho> \<Longrightarrow> scheduler_start port \<rho> = (r, \<tau>) \<Longrightarrow>
    scheduler_calls port pend (ok \<and> \<not> isl r) \<sigma> \<tau>"
| calls_stop: "scheduler_calls port pend ok \<sigma> \<rho> \<Longrightarrow> scheduler_stop port \<rho> = (r, \<tau>) \<Longrightarrow>
    scheduler_calls port pend (ok \<and> \<not> isl r) \<sigma> \<tau>"
| calls_visibility: "scheduler_calls port pend ok \<sigma> \<rho> \<Longrightarrow> scheduler_set_visibility port v \<rho> = (r, \<tau>) \<Longrightarrow>
    scheduler_calls port pend (ok \<and> \<not> isl r) \<sigma> \<tau>"
| calls_post: "scheduler_calls port pend ok \<sigma> \<rho> \<Longrightarrow> scheduler_post port u key \<rho> = (status, \<tau>) \<Longrightarrow>
    scheduler_calls port pend (ok \<and> \<not> isl status) \<sigma> \<tau>"

lemma calls_trans:
  assumes "scheduler_calls port pend ok2 \<rho> \<tau>" and "scheduler_calls port pend ok1 \<sigma> \<rho>"
  shows "scheduler_calls port pend (ok1 \<and> ok2) \<sigma> \<tau>"
  using assms
proof induction
  case (calls_host ok \<sigma>' sc x x')
  from scheduler_calls.calls_host [OF calls_host.IH [OF calls_host.prems] calls_host.hyps(2)] show ?case .
next
  case (calls_start ok \<sigma>' \<rho> r \<tau>)
  from scheduler_calls.calls_start [OF calls_start.IH [OF calls_start.prems] calls_start.hyps(2)]
  show ?case by (simp only: conj_assoc)
next
  case (calls_stop ok \<sigma>' \<rho> r \<tau>)
  from scheduler_calls.calls_stop [OF calls_stop.IH [OF calls_stop.prems] calls_stop.hyps(2)]
  show ?case by (simp only: conj_assoc)
next
  case (calls_visibility ok \<sigma>' \<rho> v r \<tau>)
  from scheduler_calls.calls_visibility [OF calls_visibility.IH [OF calls_visibility.prems] calls_visibility.hyps(2)]
  show ?case by (simp only: conj_assoc)
next
  case (calls_post ok \<sigma>' \<rho> u key status \<tau>)
  from scheduler_calls.calls_post [OF calls_post.IH [OF calls_post.prems] calls_post.hyps(2)]
  show ?case by (simp only: conj_assoc)
qed simp

text \<open>
  The states of a scheduler, whatever returned or raised. The host fires any callback it has pending
  (\<open>fire t\<close> is its side of it), after which \<open>_drain\<close> runs. \<open>calm\<close>: no call has raised so far; \<open>single\<close>:
  \<open>drain_now\<close> was never called while a callback was pending.
\<close>

inductive scheduler_reach ::
    "'x schedule_port \<Rightarrow> ('v, 'x) consumer \<Rightarrow> (nat \<Rightarrow> 'x \<Rightarrow> 'x) \<Rightarrow> ('x \<Rightarrow> nat multiset)
       \<Rightarrow> bool \<Rightarrow> bool \<Rightarrow> 'v scheduler \<times> 'x \<Rightarrow> bool"
  for port consume fire pend where
  sr_init: "mk_UiScheduler n interval batch = Inr sc \<Longrightarrow> pend x = {#} \<Longrightarrow>
    scheduler_reach port consume fire pend True True (sc, x)"
| sr_calls: "scheduler_reach port consume fire pend calm single \<sigma> \<Longrightarrow> scheduler_calls port pend ok \<sigma> \<tau> \<Longrightarrow>
    scheduler_reach port consume fire pend (calm \<and> ok) single \<tau>"
| sr_fire: "scheduler_reach port consume fire pend calm single (sc, x) \<Longrightarrow> t \<in># pend x \<Longrightarrow>
    scheduler_drain port consume (sc, fire t x) = (r, \<tau>) \<Longrightarrow>
    scheduler_reach port consume fire pend (calm \<and> \<not> isl r) single \<tau>"
| sr_drain_now: "scheduler_reach port consume fire pend calm single \<sigma> \<Longrightarrow>
    scheduler_drain port consume \<sigma> = (r, \<tau>) \<Longrightarrow>
    scheduler_reach port consume fire pend (calm \<and> \<not> isl r) (single \<and> \<not> pending_callback (fst \<sigma>)) \<tau>"

definition awake :: "'v scheduler \<Rightarrow> bool" where
  "awake sc \<longleftrightarrow> (if sc_stopped sc then sc_token sc = None
     else queue_depth sc \<noteq> 0 \<or> sc_visibility sc = UvVisible \<longrightarrow> sc_token sc \<noteq> None)"

definition quiet :: "'v scheduler \<Rightarrow> bool" where
  "quiet sc \<longleftrightarrow> (sc_stopped sc \<longrightarrow> sc_token sc = None)"

lemma token_self [simp]: "\<exists>t. sc = sc\<lparr>sc_token := t\<rparr>"
  by (rule exI [of _ "sc_token sc"]) simp

lemma awake_quiet: "awake sc \<Longrightarrow> quiet sc"
  by (simp add: awake_def quiet_def split: if_splits)

text \<open>
  The contract of a timer port, told by the callbacks that are pending at the host, and of a consumer,
  which may use the scheduler but does not hide that one of its calls raised.
\<close>

locale timer_client =
  fixes port :: "'x schedule_port" and consume :: "('v, 'x) consumer" and fire :: "nat \<Rightarrow> 'x \<Rightarrow> 'x"
    and pend :: "'x \<Rightarrow> nat multiset"
  assumes call_later: "sp_call_later port d x = (r, x') \<Longrightarrow>
      pend x' = (case r of Inl e \<Rightarrow> pend x | Inr t \<Rightarrow> add_mset t (pend x))"
    and cancel: "sp_cancel port t x = (u, x') \<Longrightarrow>
      pend x' = (case u of Inl e \<Rightarrow> pend x | Inr z \<Rightarrow> pend x - {#t#})"
    and fired: "pend (fire t x) = pend x - {#t#}"
    and consume: "consume v \<sigma> = (u, \<tau>) \<Longrightarrow>
      \<exists>ok. scheduler_calls port pend ok \<sigma> \<tau> \<and> (\<not> isl u \<longrightarrow> ok)"
begin

text \<open>The token is that of a pending callback; while \<open>single\<close>, there is no other.\<close>

definition tracked :: "bool \<Rightarrow> 'v scheduler \<times> 'x \<Rightarrow> bool" where
  "tracked single \<sigma> \<longleftrightarrow> 0 < sc_batch (fst \<sigma>) \<and>
     (\<forall>t. sc_token (fst \<sigma>) = Some t \<longrightarrow> t \<in># pend (snd \<sigma>)) \<and>
     (single \<longrightarrow> pend (snd \<sigma>) = (case sc_token (fst \<sigma>) of None \<Rightarrow> {#} | Some t \<Rightarrow> {#t#}))"

lemma tracked_same:
  "tracked single \<sigma> \<Longrightarrow> sc_token (fst \<tau>) = sc_token (fst \<sigma>) \<Longrightarrow> sc_batch (fst \<tau>) = sc_batch (fst \<sigma>) \<Longrightarrow>
     pend (snd \<tau>) = pend (snd \<sigma>) \<Longrightarrow> tracked single \<tau>"
  by (simp add: tracked_def)

lemma schedule_tracked:
  assumes "tracked single \<sigma>" and "schedule_locked port d \<sigma> = (r, \<tau>)"
  shows "tracked single \<tau> \<and> (\<exists>t. fst \<tau> = (fst \<sigma>)\<lparr>sc_token := t\<rparr>) \<and>
    (sc_stopped (fst \<sigma>) \<longrightarrow> sc_token (fst \<tau>) = sc_token (fst \<sigma>)) \<and>
    (\<not> sc_stopped (fst \<sigma>) \<and> \<not> isl r \<longrightarrow> sc_token (fst \<tau>) \<noteq> None)"
proof (cases "sc_stopped (fst \<sigma>) \<or> sc_token (fst \<sigma>) \<noteq> None")
  case True
  with assms have "\<tau> = \<sigma>" by (auto simp: schedule_locked_def split: prod.splits if_splits)
  with assms True show ?thesis by (metis scheduler.surjective scheduler.update_convs(5))
next
  case False
  obtain sc x where s: "\<sigma> = (sc, x)" by (rule prod.exhaust)
  obtain q x' where q: "sp_call_later port d x = (q, x')" by (rule prod.exhaust)
  show ?thesis
  proof (cases q)
    case (Inl e)
    then have "\<tau> = (sc, x')" "isl r" using assms(2) q s False by (auto simp: schedule_locked_def)
    then show ?thesis using assms(1) call_later [OF q] Inl s
      by (auto simp: tracked_def)
  next
    case (Inr t)
    then have "\<tau> = (sc\<lparr>sc_token := Some t\<rparr>, x')" using assms(2) q s False by (simp add: schedule_locked_def)
    with assms(1) call_later [OF q] Inr s False show ?thesis by (auto simp: tracked_def)
  qed
qed

lemma reschedule_tracked:
  assumes "tracked single \<sigma>" and "reschedule port \<sigma> = (r, \<tau>)"
  shows "tracked single \<tau> \<and> (\<exists>t. fst \<tau> = (fst \<sigma>)\<lparr>sc_token := t\<rparr>) \<and>
    (quiet (fst \<sigma>) \<longrightarrow> quiet (fst \<tau>)) \<and> (quiet (fst \<sigma>) \<and> \<not> isl r \<longrightarrow> awake (fst \<tau>))"
proof (cases "queue_depth (fst \<sigma>) \<noteq> 0 \<or> sc_visibility (fst \<sigma>) = UvVisible")
  case True
  then obtain d where "schedule_locked port d \<sigma> = (r, \<tau>)"
    using assms(2) by (auto simp: reschedule_def split: if_splits)
  from schedule_tracked [OF assms(1) this] show ?thesis by (auto simp: awake_def quiet_def)
next
  case False
  from False assms(2) have "\<tau> = \<sigma>" by (simp add: reschedule_def)
  with False assms(1) show ?thesis by (auto simp: awake_def quiet_def)
qed

lemma cancel_tracked:
  assumes "tracked single \<sigma>" and "cancel_token port \<sigma> = (r, \<tau>)"
  shows "tracked single \<tau> \<and> fst \<tau> = (if isl r then fst \<sigma> else (fst \<sigma>)\<lparr>sc_token := None\<rparr>)"
proof -
  obtain sc x where s: "\<sigma> = (sc, x)" by (rule prod.exhaust)
  show ?thesis
  proof (cases "sc_token sc")
    case None
    then have "sc = sc\<lparr>sc_token := None\<rparr>" by simp
    with assms None show ?thesis by (auto simp: s cancel_token_def)
  next
    case (Some t)
    obtain q x' where q: "sp_cancel port t x = (q, x')" by (rule prod.exhaust)
    with assms Some cancel [OF q] show ?thesis
      by (cases q) (auto simp: s cancel_token_def tracked_def)
  qed
qed

lemma start_tracked:
  assumes "tracked single \<sigma>" and "scheduler_start port \<sigma> = (r, \<tau>)"
  shows "tracked single \<tau> \<and> \<not> sc_stopped (fst \<tau>) \<and> quiet (fst \<tau>) \<and> (\<not> isl r \<longrightarrow> awake (fst \<tau>))"
proof -
  let ?s = "((fst \<sigma>)\<lparr>sc_stopped := False\<rparr>, snd \<sigma>)"
  have "tracked single ?s" by (rule tracked_same [OF assms(1)]) simp_all
  from reschedule_tracked [OF this assms(2) [unfolded scheduler_start_def]] show ?thesis
    by (auto simp: quiet_def)
qed

lemma drain_all_fields:
  "scheduler_drain_all \<sigma> = (r, \<tau>) \<Longrightarrow> \<exists>q. fst \<tau> = (fst \<sigma>)\<lparr>sc_queue := q\<rparr> \<and> snd \<tau> = snd \<sigma>"
  by (auto simp: scheduler_drain_all_def split: prod.splits sum.splits)

lemma stop_tracked:
  assumes "tracked single \<sigma>" and "scheduler_stop port \<sigma> = (r, \<tau>)"
  shows "tracked single \<tau> \<and> sc_stopped (fst \<tau>) \<and> (\<not> isl r \<longrightarrow> awake (fst \<tau>))"
proof -
  let ?s = "((fst \<sigma>)\<lparr>sc_stopped := True\<rparr>, snd \<sigma>)"
  have t: "tracked single ?s" by (rule tracked_same [OF assms(1)]) simp_all
  obtain q \<rho> where c: "cancel_token port ?s = (q, \<rho>)" by (rule prod.exhaust)
  note cs = cancel_tracked [OF t c]
  show ?thesis
  proof (cases q)
    case (Inl e)
    with assms(2) c cs show ?thesis by (auto simp: scheduler_stop_def andthen_def)
  next
    case (Inr u)
    with assms(2) c have d: "scheduler_drain_all \<rho> = (r, \<tau>)" by (simp add: scheduler_stop_def andthen_def)
    from drain_all_fields [OF d] obtain p where p: "fst \<tau> = (fst \<rho>)\<lparr>sc_queue := p\<rparr>" "snd \<tau> = snd \<rho>" by blast
    have "tracked single \<tau>" by (rule tracked_same [of single \<rho>]) (use cs p in simp_all)
    with cs p Inr show ?thesis by (simp add: awake_def)
  qed
qed

lemma visibility_tracked:
  assumes "tracked single \<sigma>" and "scheduler_set_visibility port v \<sigma> = (r, \<tau>)"
  shows "tracked single \<tau> \<and> sc_stopped (fst \<tau>) = sc_stopped (fst \<sigma>) \<and>
    (quiet (fst \<sigma>) \<longrightarrow> quiet (fst \<tau>)) \<and> (awake (fst \<sigma>) \<and> \<not> isl r \<longrightarrow> awake (fst \<tau>))"
proof -
  let ?s = "((fst \<sigma>)\<lparr>sc_visibility := v\<rparr>, snd \<sigma>)"
  have t: "tracked single ?s" by (rule tracked_same [OF assms(1)]) simp_all
  consider "v = UvVisible" | "v \<noteq> UvVisible" "queue_depth (fst \<sigma>) = 0" "sc_token (fst \<sigma>) \<noteq> None"
    | "v \<noteq> UvVisible" "\<not> (queue_depth (fst \<sigma>) = 0 \<and> sc_token (fst \<sigma>) \<noteq> None)" by metis
  then show ?thesis
  proof cases
    case 1
    with assms(2) have "schedule_locked port 0 ?s = (r, \<tau>)" by (simp add: scheduler_set_visibility_def)
    from schedule_tracked [OF t this] show ?thesis by (auto simp: awake_def quiet_def)
  next
    case 2
    with assms(2) have "cancel_token port ?s = (r, \<tau>)" by (simp add: scheduler_set_visibility_def)
    from cancel_tracked [OF t this] 2 show ?thesis by (auto simp: awake_def quiet_def queue_depth_def)
  next
    case 3
    with assms(2) have "\<tau> = ?s" by (auto simp: scheduler_set_visibility_def Let_def)
    with t 3 show ?thesis by (auto simp: awake_def quiet_def queue_depth_def)
  qed
qed

lemma post_tracked:
  assumes "tracked single \<sigma>" and "scheduler_post port u key \<sigma> = (r, \<tau>)"
  shows "tracked single \<tau> \<and> sc_stopped (fst \<tau>) = sc_stopped (fst \<sigma>) \<and>
    (quiet (fst \<sigma>) \<longrightarrow> quiet (fst \<tau>)) \<and> (awake (fst \<sigma>) \<and> \<not> isl r \<longrightarrow> awake (fst \<tau>))"
proof -
  obtain status q where q: "queue_post u key (sc_queue (fst \<sigma>)) = (status, q)" by (rule prod.exhaust)
  let ?s = "((fst \<sigma>)\<lparr>sc_queue := q\<rparr>, snd \<sigma>)"
  have t: "tracked single ?s" by (rule tracked_same [OF assms(1)]) simp_all
  show ?thesis
  proof (cases "status = PsFull")
    case True
    with q have "eq_items q = eq_items (sc_queue (fst \<sigma>))"
      by (auto simp: queue_post_def split: option.splits if_splits)
    moreover have "\<tau> = ?s" using assms(2) q True by (simp add: scheduler_post_def Let_def)
    ultimately show ?thesis using t by (simp add: awake_def quiet_def queue_depth_def)
  next
    case False
    obtain p \<rho> where p: "schedule_locked port 0 ?s = (p, \<rho>)" by (rule prod.exhaust)
    with assms(2) q False have "\<tau> = \<rho>" "isl r = isl p"
      by (auto simp: scheduler_post_def Let_def andthen_def ret_def split: sum.splits)
    with schedule_tracked [OF t p] show ?thesis by (auto simp: awake_def quiet_def)
  qed
qed

lemma calls_tracked:
  assumes "scheduler_calls port pend ok \<sigma> \<tau>" and "tracked single \<sigma>"
  shows "tracked single \<tau> \<and> (ok \<and> quiet (fst \<sigma>) \<longrightarrow> quiet (fst \<tau>)) \<and> (ok \<and> awake (fst \<sigma>) \<longrightarrow> awake (fst \<tau>))"
  using assms
proof induction
  case (calls_host ok \<sigma> sc x x')
  then show ?case using tracked_same [of single "(sc, x)" "(sc, x')"] by simp
next
  case (calls_start ok \<sigma> \<rho> r \<tau>)
  with start_tracked [of single \<rho> r \<tau>] show ?case by blast
next
  case (calls_stop ok \<sigma> \<rho> r \<tau>)
  with stop_tracked [of single \<rho> r \<tau>] awake_quiet [of "fst \<tau>"] show ?case by blast
next
  case (calls_visibility ok \<sigma> \<rho> v r \<tau>)
  with visibility_tracked [of single \<rho> v r \<tau>] show ?case by blast
next
  case (calls_post ok \<sigma> \<rho> u key status \<tau>)
  with post_tracked [of single \<rho> u key status \<tau>] show ?case by blast
qed simp

lemma consume_each_calls:
  "consume_each consume vs \<sigma> = (r, \<tau>) \<Longrightarrow> \<exists>ok. scheduler_calls port pend ok \<sigma> \<tau> \<and> (\<not> isl r \<longrightarrow> ok)"
proof (induction vs arbitrary: \<sigma>)
  case Nil
  then show ?case by (auto simp: ret_def intro: calls_none)
next
  case (Cons v vs)
  obtain q \<rho> where q: "consume v \<sigma> = (q, \<rho>)" by (rule prod.exhaust)
  from consume [OF q] obtain ok1 where 1: "scheduler_calls port pend ok1 \<sigma> \<rho>" "\<not> isl q \<longrightarrow> ok1" by blast
  show ?case
  proof (cases q)
    case (Inl e)
    with Cons.prems q 1 show ?thesis by (auto simp: andthen_def)
  next
    case (Inr u)
    with Cons.prems q have "consume_each consume vs \<rho> = (r, \<tau>)" by (simp add: andthen_def)
    from Cons.IH [OF this] obtain ok2 where "scheduler_calls port pend ok2 \<rho> \<tau>" "\<not> isl r \<longrightarrow> ok2" by blast
    with calls_trans [OF this(1) 1(1)] 1(2) Inr show ?thesis by (intro exI [of _ "ok1 \<and> ok2"]) auto
  qed
qed

lemma drain_tracked:
  assumes "tracked single (sc\<lparr>sc_token := None\<rparr>, x)" and "scheduler_drain port consume (sc, x) = (r, \<tau>)"
  shows "tracked single \<tau> \<and> (\<not> isl r \<longrightarrow> awake (fst \<tau>))"
proof (cases "sc_stopped sc")
  case True
  with assms show ?thesis by (auto simp: scheduler_drain_def awake_def)
next
  case False
  let ?sc = "sc\<lparr>sc_token := None\<rparr>"
  obtain b q where b: "queue_drain (Some (sc_batch sc)) (sc_queue sc) = (b, q)" by (rule prod.exhaust)
  let ?s = "(?sc\<lparr>sc_queue := q\<rparr>, x)"
  have t: "tracked single ?s" by (rule tracked_same [OF assms(1)]) simp_all
  have s: "quiet (fst ?s)" by (simp add: quiet_def)
  show ?thesis
  proof (cases b)
    case (Inl e)
    with assms(2) b t False show ?thesis by (auto simp: scheduler_drain_def andthen_def take_batch_def)
  next
    case (Inr batch)
    obtain c \<rho> where c: "consume_each consume batch ?s = (c, \<rho>)" by (rule prod.exhaust)
    from consume_each_calls [OF c] obtain ok where
      ok: "scheduler_calls port pend ok ?s \<rho>" "\<not> isl c \<longrightarrow> ok" by blast
    note \<rho> = calls_tracked [OF ok(1) t]
    show ?thesis
    proof (cases c)
      case (Inl e)
      with assms(2) b c Inr \<rho> False show ?thesis
        by (auto simp: scheduler_drain_def andthen_def take_batch_def)
    next
      case c': (Inr u)
      with assms(2) b c Inr False have "reschedule port \<rho> = (r, \<tau>)"
        by (simp add: scheduler_drain_def andthen_def take_batch_def)
      from reschedule_tracked [OF conjunct1 [OF \<rho>] this] \<rho> ok(2) c' s show ?thesis by auto
    qed
  qed
qed

lemma fire_tracked:
  assumes "tracked single (sc, x)" and "t \<in># pend x" and "scheduler_drain port consume (sc, fire t x) = (r, \<tau>)"
  shows "tracked single \<tau> \<and> (\<not> isl r \<longrightarrow> awake (fst \<tau>))"
proof (rule drain_tracked [OF _ assms(3)])
  show "tracked single (sc\<lparr>sc_token := None\<rparr>, fire t x)"
    using assms(1,2) by (auto simp: tracked_def fired split: option.splits)
qed

lemma reach_tracked:
  "scheduler_reach port consume fire pend calm single \<sigma> \<Longrightarrow> tracked single \<sigma> \<and> (calm \<longrightarrow> awake (fst \<sigma>))"
proof (induction rule: scheduler_reach.induct)
  case (sr_init n interval batch sc x)
  then show ?case
    by (auto simp: mk_UiScheduler_def tracked_def awake_def result_simps split: if_splits)
next
  case (sr_calls calm single \<sigma> ok \<tau>)
  with calls_tracked [of ok \<sigma> \<tau> single] show ?case by blast
next
  case (sr_fire calm single sc x t r \<tau>)
  with fire_tracked [of single sc x t r \<tau>] show ?case by blast
next
  case (sr_drain_now calm single \<sigma> r \<tau>)
  obtain sc x where s: "\<sigma> = (sc, x)" by (rule prod.exhaust)
  have "tracked (single \<and> \<not> pending_callback sc) (sc\<lparr>sc_token := None\<rparr>, x)"
    using sr_drain_now.IH by (auto simp: s tracked_def pending_callback_def)
  from drain_tracked [OF this] sr_drain_now.hyps(2) show ?case by (simp add: s)
qed

end

section \<open>Hosts with a trace\<close>

text \<open>The calls at the host's timers, and which callbacks are pending after them.\<close>

datatype timer_event = TmLater int nat | TmCancel nat | TmFire nat

fun timer_effect :: "timer_event \<Rightarrow> nat multiset \<Rightarrow> nat multiset" where
  "timer_effect (TmLater d t) m = add_mset t m"
| "timer_effect (TmCancel t) m = m - {#t#}"
| "timer_effect (TmFire t) m = m - {#t#}"

definition timers_pending :: "timer_event list \<Rightarrow> nat multiset" where
  "timers_pending l = fold timer_effect l {#}"

lemma timers_pending_simps [simp]:
  "timers_pending [] = {#}" "timers_pending (l @ [e]) = timer_effect e (timers_pending l)"
  by (simp_all add: timers_pending_def)

definition logged_port :: "'h schedule_port \<Rightarrow> ('h \<times> timer_event list) schedule_port" where
  "logged_port P = \<lparr>
     sp_call_later = (\<lambda>d (h, l). case sp_call_later P d h of
        (Inl e, h') \<Rightarrow> (Inl e, h', l) | (Inr t, h') \<Rightarrow> (Inr t, h', l @ [TmLater d t])),
     sp_cancel = (\<lambda>t (h, l). case sp_cancel P t h of
        (Inl e, h') \<Rightarrow> (Inl e, h', l) | (Inr u, h') \<Rightarrow> (Inr u, h', l @ [TmCancel t]))\<rparr>"

definition log_fire :: "nat \<Rightarrow> 'h \<times> timer_event list \<Rightarrow> 'h \<times> timer_event list" where
  "log_fire t x = (fst x, snd x @ [TmFire t])"

definition log_pending :: "'h \<times> timer_event list \<Rightarrow> nat multiset" where
  "log_pending x = timers_pending (snd x)"

text \<open>
  What a consumer may be: it makes calls of the scheduler, and does work of its own that leaves the
  timers alone; it may raise, but it does not hide that one of its calls did.
\<close>

definition orderly :: "'h schedule_port \<Rightarrow> ('v, 'h \<times> timer_event list) consumer \<Rightarrow> bool" where
  "orderly P consume \<longleftrightarrow> (\<forall>v \<sigma> u \<tau>. consume v \<sigma> = (u, \<tau>) \<longrightarrow>
     (\<exists>ok. scheduler_calls (logged_port P) log_pending ok \<sigma> \<tau> \<and> (\<not> isl u \<longrightarrow> ok)))"

lemma logged_client:
  "orderly P consume \<Longrightarrow> timer_client (logged_port P) consume log_fire log_pending"
  by unfold_locales
    (auto simp: logged_port_def log_fire_def log_pending_def orderly_def split: prod.splits sum.splits)

text \<open>A consumer that only acts on the host.\<close>

definition host_consumer ::
    "('v \<Rightarrow> ('h, pyexn, unit) eff) \<Rightarrow> ('v, 'h \<times> timer_event list) consumer" where
  "host_consumer c v \<sigma> =
     (case \<sigma> of (sc, h, l) \<Rightarrow> case c v h of (r, h') \<Rightarrow> (r, sc, h', l))"

lemma host_consumer_orderly: "orderly P (host_consumer c)"
  unfolding orderly_def
proof (intro allI impI)
  fix v and \<sigma> \<tau> :: "'b scheduler \<times> 'a \<times> timer_event list" and u
  assume h: "host_consumer c v \<sigma> = (u, \<tau>)"
  obtain sc h l where s: "\<sigma> = (sc, h, l)" by (rule prod_cases3)
  with h obtain h' where "\<tau> = (sc, h', l)" by (auto simp: host_consumer_def split: prod.splits)
  with calls_host [OF calls_none, of log_pending "(h', l)" "(h, l)" "logged_port P" sc] s
  show "\<exists>ok. scheduler_calls (logged_port P) log_pending ok \<sigma> \<tau> \<and> (\<not> isl u \<longrightarrow> ok)"
    by (auto simp: log_pending_def)
qed

interpretation logged: timer_client "logged_port P" "host_consumer c" log_fire log_pending for P c
  by (rule logged_client [OF host_consumer_orderly])

section \<open>Progress\<close>

text \<open>The host fires \<open>n\<close> callbacks, each of them one that is pending, in any order.\<close>

inductive firings ::
    "'x schedule_port \<Rightarrow> ('v, 'x) consumer \<Rightarrow> (nat \<Rightarrow> 'x \<Rightarrow> 'x) \<Rightarrow> ('x \<Rightarrow> nat multiset)
       \<Rightarrow> nat \<Rightarrow> 'v scheduler \<times> 'x \<Rightarrow> 'v scheduler \<times> 'x \<Rightarrow> bool"
  for port consume fire pend where
  fires_none: "firings port consume fire pend 0 \<sigma> \<sigma>"
| fires_next: "firings port consume fire pend n \<sigma> (sc, x) \<Longrightarrow> t \<in># pend x \<Longrightarrow>
    scheduler_drain port consume (sc, fire t x) = (r, \<tau>) \<Longrightarrow>
    firings port consume fire pend (Suc n) \<sigma> \<tau>"

definition reliable :: "'h schedule_port \<Rightarrow> ('v \<Rightarrow> ('h, pyexn, unit) eff) \<Rightarrow> bool" where
  "reliable P c \<longleftrightarrow> (\<forall>d h. \<exists>t h'. sp_call_later P d h = (Inr t, h')) \<and> (\<forall>v h. \<exists>h'. c v h = (Inr (), h'))"

lemma consume_each_reliable:
  "reliable P c \<Longrightarrow> \<exists>h'. consume_each (host_consumer c) vs (sc, h, l) = (Inr (), sc, h', l)"
proof (induction vs arbitrary: h)
  case (Cons v vs)
  then obtain h' where "c v h = (Inr (), h')" by (metis reliable_def)
  with Cons show ?case by (auto simp: andthen_def host_consumer_def)
qed (simp add: ret_def)

lemma reschedule_reliable:
  assumes "reliable P c"
  shows "\<exists>t h' l'. reschedule (logged_port P) (sc, h, l) = (Inr (), sc\<lparr>sc_token := t\<rparr>, h', l')"
proof -
  have "\<exists>t h' l'. schedule_locked (logged_port P) d (sc, h, l) = (Inr (), sc\<lparr>sc_token := t\<rparr>, h', l')" for d
  proof (cases "sc_stopped sc \<or> sc_token sc \<noteq> None")
    case True
    then have "schedule_locked (logged_port P) d (sc, h, l) = (Inr (), sc\<lparr>sc_token := sc_token sc\<rparr>, h, l)"
      by (simp add: schedule_locked_def)
    then show ?thesis by blast
  next
    case False
    obtain t h' where "sp_call_later P d h = (Inr t, h')" using assms by (metis reliable_def)
    with False have "schedule_locked (logged_port P) d (sc, h, l) =
        (Inr (), sc\<lparr>sc_token := Some t\<rparr>, h', l @ [TmLater d t])"
      by (simp add: schedule_locked_def logged_port_def)
    then show ?thesis by blast
  qed
  moreover have "\<exists>t h' l'. (Inr (), sc, h, l) = (Inr (), sc\<lparr>sc_token := t\<rparr>, h', l')"
    by (metis scheduler.surjective scheduler.update_convs(5))
  ultimately show ?thesis by (simp add: reschedule_def)
qed

lemma drain_reliable:
  assumes "reliable P c" and "\<not> sc_stopped sc" and "0 < sc_batch sc"
  shows "\<exists>t h' l'. scheduler_drain (logged_port P) (host_consumer c) (sc, h, l) =
    (Inr (), sc\<lparr>sc_token := t, sc_queue := (sc_queue sc)\<lparr>eq_items :=
       drop (nat (sc_batch sc)) (eq_items (sc_queue sc))\<rparr>\<rparr>, h', l')"
proof -
  let ?items = "eq_items (sc_queue sc)"
  let ?q = "(sc_queue sc)\<lparr>eq_items := drop (nat (sc_batch sc)) ?items\<rparr>"
  let ?sc = "sc\<lparr>sc_token := None, sc_queue := ?q\<rparr>"
  define count where "count = nat (min (sc_batch sc) (int (length ?items)))"
  have "drop count ?items = drop (nat (sc_batch sc)) ?items"
    by (cases "sc_batch sc \<le> int (length ?items)") (simp_all add: count_def min_def)
  then have t: "take_batch (sc\<lparr>sc_token := None\<rparr>, h, l) = (Inr (map qe_value (take count ?items)), ?sc, h, l)"
    using assms(3) by (simp add: take_batch_def queue_drain_def Let_def count_def [symmetric])
  obtain h1 where "consume_each (host_consumer c) (map qe_value (take count ?items)) (?sc, h, l) =
      (Inr (), ?sc, h1, l)"
    using consume_each_reliable [OF assms(1)] by blast
  moreover obtain t2 h2 l2 where "reschedule (logged_port P) (?sc, h1, l) =
      (Inr (), ?sc\<lparr>sc_token := t2\<rparr>, h2, l2)"
    using reschedule_reliable [OF assms(1)] by blast
  ultimately have "scheduler_drain (logged_port P) (host_consumer c) (sc, h, l) =
      (Inr (), sc\<lparr>sc_token := t2, sc_queue := ?q\<rparr>, h2, l2)"
    using t assms(2) by (simp add: scheduler_drain_def andthen_def Let_def)
  then show ?thesis by blast
qed

section \<open>Properties\<close>

text \<open>
  C29: the queue is bounded and loses nothing silently. Whatever is posted and drained after it was
  made, the queue holds at most the 1 to 1024 entries it was made for, no two with the same key,
  and the books balance: every post that was added has been delivered or is still queued, and every
  post that was refused is counted as dropped.
\<close>

theorem queue_run_accounts:
  assumes "mk_event_queue n = Inr q0" and "queue_run ops q0 = (vs, ss, q)"
  shows "1 \<le> n \<and> n \<le> 1024 \<and> int (length (eq_items q)) \<le> n \<and> distinct (queue_keys (eq_items q)) \<and>
    length vs + length (eq_items q) = count_list ss PsAdded \<and> eq_dropped q = count_list ss PsFull"
proof -
  note m = mk_event_queue_ok [OF assms(1)]
  from queue_run_counts [OF conjunct1 [OF m] assms(2)] m show ?thesis
    by (auto simp: queue_ok_def)
qed

text \<open>
  C30: posting refines the abstract queue. In every state a queue can reach, the search from the
  newest entry backwards does what the specification says: it replaces the one entry of the key
  where it stands, else appends while there is room, else refuses; a post that was not refused
  leaves exactly one entry of its key, with the posted value.
\<close>

theorem queue_post_refines:
  assumes "mk_event_queue n = Inr q0" and "queue_run ops q0 = (vs, ss, q)"
  shows "queue_post v key q = spec_post v key q \<and>
    (key = None \<or> fst (queue_post v key q) = PsFull \<or>
      filter (\<lambda>e. qe_key e = key) (eq_items (snd (queue_post v key q))) =
        [\<lparr>qe_value = v, qe_key = key\<rparr>])"
proof -
  note m = mk_event_queue_ok [OF assms(1)]
  have ok: "queue_ok q" using queue_run_counts [OF conjunct1 [OF m] assms(2)] by blast
  obtain status q' where p: "queue_post v key q = (status, q')" by fastforce
  have "filter (\<lambda>e. qe_key e = Some k) (eq_items q') = [\<lparr>qe_value = v, qe_key = Some k\<rparr>]"
    if k: "key = Some k" "status \<noteq> PsFull" for k
  proof -
    let ?e = "\<lparr>qe_value = v, qe_key = Some k\<rparr>"
    have sp: "spec_post v key q = (status, q')" using p queue_post_spec [OF ok] by simp
    have "?e \<in> set (eq_items q')" and
        only: "\<forall>e \<in> set (eq_items q'). qe_key e = Some k \<longrightarrow> e = ?e"
      using sp k by (auto simp: spec_post_def list_ex_iff image_iff split: if_splits)
    then obtain xs ys where s: "eq_items q' = xs @ ?e # ys" by (metis split_list)
    have "distinct (queue_keys (xs @ ?e # ys))"
      using queue_post_ok [OF ok p] by (simp add: queue_ok_def s)
    then have "\<forall>e \<in> set (xs @ ys). qe_key e \<noteq> Some k" by (auto simp: in_queue_keys)
    then show ?thesis by (simp add: s filter_empty_conv)
  qed
  with p queue_post_spec [OF ok] show ?thesis by (cases key) auto
qed

text \<open>
  C31: the token stands for the pending timer. In every state of the scheduler, whatever has raised
  and whatever the consumer did to the scheduler in between, the token it holds is that of a callback
  which is really pending at the host, by the calls made there. As long as \<open>drain_now\<close> was never called
  while a callback was pending, no other callback is pending, and none when there is no token; and
  as long as nothing raised, a stopped scheduler holds none. (\<open>drain_now\<close> itself breaks the second
  part: it forgets the token without cancelling.)
\<close>

theorem scheduler_single_timer:
  assumes "scheduler_reach (logged_port P) consume log_fire log_pending calm single (sc, h, l)"
    and "orderly P consume"
  shows "(\<forall>t. sc_token sc = Some t \<longrightarrow> t \<in># timers_pending l) \<and>
    (single \<longrightarrow> timers_pending l = (case sc_token sc of None \<Rightarrow> {#} | Some t \<Rightarrow> {#t#})) \<and>
    (calm \<and> sc_stopped sc \<longrightarrow> sc_token sc = None)"
  using timer_client.reach_tracked [OF logged_client [OF assms(2)] assms(1)]
  by (auto simp: timer_client.tracked_def [OF logged_client [OF assms(2)]] log_pending_def awake_def)

lemma firings_drain:
  assumes "reliable P c" and "\<not> sc_stopped sc"
    and "logged.tracked single (sc, h, l)" and "awake sc"
  shows "firings (logged_port P) (host_consumer c) log_fire log_pending n (sc, h, l) \<tau> \<Longrightarrow>
    logged.tracked single \<tau> \<and> awake (fst \<tau>) \<and> \<not> sc_stopped (fst \<tau>) \<and> sc_batch (fst \<tau>) = sc_batch sc \<and>
    int (queue_depth (fst \<tau>)) = max 0 (int (queue_depth sc) - int n * sc_batch sc)"
proof (induction n "(sc, h, l)" \<tau> rule: firings.induct)
  case fires_none
  with assms show ?case by simp
next
  case (fires_next n sc1 x t r \<tau>)
  let ?items = "eq_items (sc_queue sc1)"
  have i: "logged.tracked single (sc1, x)" "\<not> sc_stopped sc1" "sc_batch sc1 = sc_batch sc"
    "int (queue_depth sc1) = max 0 (int (queue_depth sc) - int n * sc_batch sc)"
    using fires_next.hyps(2) by simp_all
  then have b: "0 < sc_batch sc1" by (simp add: logged.tracked_def)
  obtain h1 l1 where f: "log_fire t x = (h1, l1)" by (rule prod.exhaust)
  obtain tok h2 l2 where d: "scheduler_drain (logged_port P) (host_consumer c) (sc1, h1, l1) =
      (Inr (), sc1\<lparr>sc_token := tok, sc_queue := (sc_queue sc1)\<lparr>eq_items :=
         drop (nat (sc_batch sc1)) ?items\<rparr>\<rparr>, h2, l2)"
    using drain_reliable [OF assms(1) i(2) b] by blast
  have r: "r = Inr ()" "fst \<tau> = sc1\<lparr>sc_token := tok, sc_queue := (sc_queue sc1)\<lparr>eq_items :=
         drop (nat (sc_batch sc1)) ?items\<rparr>\<rparr>"
    using fires_next.hyps(4) d f by auto
  have "int (queue_depth (fst \<tau>)) = max 0 (int (queue_depth sc1) - sc_batch sc1)"
    using b by (simp add: r queue_depth_def)
  then have "int (queue_depth (fst \<tau>)) = max 0 (int (queue_depth sc) - int (Suc n) * sc_batch sc)"
    using i(3,4) b by (simp add: distrib_right)
  with logged.fire_tracked [OF i(1) fires_next.hyps(3,4)] r i show ?case by simp
qed

text \<open>
  C32: no event is left sleeping. In every state reached without an exception in which the scheduler
  runs, also after \<open>drain_now\<close> and with a consumer that uses the scheduler, a callback is pending
  at the host whenever the queue holds an event or the window is visible. And where the host's calls
  and the consumer return and the consumer leaves the scheduler alone, every firing of a pending
  callback takes one batch off the queue, and as long as events are left there is a callback to fire:
  the queue is empty once \<open>n\<close> batches cover it. (An exception of the consumer breaks this.)
\<close>

theorem scheduler_no_lost_wakeup:
  assumes "scheduler_reach (logged_port P) consume log_fire log_pending True single (sc, h, l)"
    and "orderly P consume" and "\<not> sc_stopped sc"
  shows "(queue_depth sc \<noteq> 0 \<or> sc_visibility sc = UvVisible \<longrightarrow> timers_pending l \<noteq> {#}) \<and>
    (\<forall>c n sc2 h2 l2. consume = host_consumer c \<and> reliable P c \<and>
       firings (logged_port P) consume log_fire log_pending n (sc, h, l) (sc2, h2, l2) \<longrightarrow>
       int (queue_depth sc2) = max 0 (int (queue_depth sc) - int n * sc_batch sc) \<and> 0 < sc_batch sc \<and>
       (queue_depth sc2 \<noteq> 0 \<longrightarrow> timers_pending l2 \<noteq> {#}))"
proof -
  note reach = timer_client.reach_tracked [OF logged_client [OF assms(2)] assms(1)]
  have now: "queue_depth sc \<noteq> 0 \<or> sc_visibility sc = UvVisible \<longrightarrow> timers_pending l \<noteq> {#}"
    using reach assms(3)
    by (auto simp: timer_client.tracked_def [OF logged_client [OF assms(2)]] log_pending_def awake_def)
  have later: "int (queue_depth sc2) = max 0 (int (queue_depth sc) - int n * sc_batch sc) \<and> 0 < sc_batch sc \<and>
       (queue_depth sc2 \<noteq> 0 \<longrightarrow> timers_pending l2 \<noteq> {#})"
    if c: "consume = host_consumer c" "reliable P c"
      and f: "firings (logged_port P) (host_consumer c) log_fire log_pending n (sc, h, l) (sc2, h2, l2)"
    for c n sc2 h2 l2
  proof -
    have t: "logged.tracked single (sc, h, l)" "awake sc" using reach c(1) by simp_all
    from firings_drain [OF c(2) assms(3) t f] t(1) show ?thesis
      by (auto simp: logged.tracked_def log_pending_def awake_def)
  qed
  from now later show ?thesis by blast
qed

section \<open>Where the code falls short\<close>

text \<open>
  When the consumer raises on an event, the batch has already left the queue and no callback is
  scheduled: the rest of the batch is lost, and what is still queued sleeps until the next post.
\<close>

theorem consumer_failure_strands_queue:
  assumes "eq_items (sc_queue sc) = e # es" and "\<not> sc_stopped sc" and "0 < sc_batch sc"
    and "c (qe_value e) h = (Inl ex, h')"
  shows "\<exists>sc'. scheduler_drain (logged_port P) (host_consumer c) (sc, h, l) = (Inl ex, sc', h', l) \<and>
    eq_items (sc_queue sc') = drop (nat (sc_batch sc)) (e # es) \<and> \<not> pending_callback sc' \<and>
    sc_visibility sc' = sc_visibility sc"
proof -
  obtain n where n: "nat (min (sc_batch sc) (int (length (e # es)))) = Suc n"
    using assms(3) by (cases "nat (min (sc_batch sc) (int (length (e # es))))") auto
  have d: "drop (Suc n) (e # es) = drop (nat (sc_batch sc)) (e # es)"
    by (cases "sc_batch sc \<le> int (length (e # es))") (simp_all flip: n add: min_def)
  let ?sc = "sc\<lparr>sc_token := None, sc_queue := (sc_queue sc)\<lparr>eq_items := drop (Suc n) (e # es)\<rparr>\<rparr>"
  have "take_batch (sc\<lparr>sc_token := None\<rparr>, h, l) = (Inr (map qe_value (take (Suc n) (e # es))), ?sc, h, l)"
    using assms(1,3) n by (simp add: take_batch_def queue_drain_def Let_def)
  then have "scheduler_drain (logged_port P) (host_consumer c) (sc, h, l) = (Inl ex, ?sc, h', l)"
    using assms(2,4) by (simp add: scheduler_drain_def andthen_def host_consumer_def Let_def)
  with d show ?thesis by (simp add: pending_callback_def)
qed

text \<open>
  \<open>drain_now\<close> forgets the token of the callback that is still pending at the host and schedules
  another: from then on two callbacks are outstanding, and each reschedules itself.
\<close>

theorem drain_now_doubles_timer:
  assumes "reliable P c" and "timers_pending l = {#t0#}" and "\<not> sc_stopped sc" and "0 < sc_batch sc"
    and "queue_depth sc = 0" and "sc_visibility sc = UvVisible"
  shows "\<exists>sc' h' l'. scheduler_drain (logged_port P) (host_consumer c) (sc, h, l) = (Inr (), sc', h', l') \<and>
    size (timers_pending l') = 2"
proof -
  obtain t h' where p: "sp_call_later P (sc_interval sc) h = (Inr t, h')"
    using assms(1) by (metis reliable_def)
  have n: "eq_items (sc_queue sc) = []" using assms(5) by (simp add: queue_depth_def)
  have t: "take_batch (sc\<lparr>sc_token := None\<rparr>, h, l) = (Inr [], sc\<lparr>sc_token := None\<rparr>, h, l)"
    using assms(4) n by (simp add: take_batch_def queue_drain_def Let_def)
  have "scheduler_drain (logged_port P) (host_consumer c) (sc, h, l) =
      (Inr (), sc\<lparr>sc_token := Some t\<rparr>, h', l @ [TmLater (sc_interval sc) t])"
    using t n p assms(3,6)
    by (simp add: scheduler_drain_def andthen_def ret_def Let_def reschedule_def queue_depth_def
        schedule_locked_def logged_port_def)
  with assms(2) show ?thesis by simp
qed

section \<open>The properties at concrete schedulers\<close>

text \<open>A host whose tokens count up, and a consumer that sums what it is given.\<close>

definition demo_port :: "(nat \<times> int) schedule_port" where
  "demo_port = \<lparr>sp_call_later = (\<lambda>d h. (Inr (fst h), Suc (fst h), snd h)), sp_cancel = (\<lambda>t h. (Inr (), h))\<rparr>"

definition demo_consume :: "int \<Rightarrow> (nat \<times> int, pyexn, unit) eff" where
  "demo_consume v h = (Inr (), fst h, snd h + v)"

definition demo_queue :: "int event_queue" where
  "demo_queue = \<lparr>eq_maximum = 2, eq_items = [], eq_dropped = 0\<rparr>"

theorem queue_run_accounts_witness:
  "case queue_run [QPost 1 (Some ''a''), QPost 2 None, QPost 3 (Some ''a''), QPost 4 None, QDrain None]
     demo_queue of (vs, ss, q) \<Rightarrow>
     vs = [3, 2] \<and> length vs + length (eq_items q) = count_list ss PsAdded \<and>
     eq_dropped q = count_list ss PsFull \<and> count_list ss PsFull = 1"
proof -
  have m: "mk_event_queue 2 = Inr demo_queue" by code_simp
  have r: "queue_run [QPost 1 (Some ''a''), QPost 2 None, QPost 3 (Some ''a''), QPost 4 None,
      QDrain None] demo_queue = ([3, 2], [PsAdded, PsAdded, PsCoalesced, PsFull], demo_queue\<lparr>eq_dropped := 1\<rparr>)"
    by code_simp
  from queue_run_accounts [OF m r] show ?thesis by (simp only: r prod.case) simp
qed

theorem queue_post_refines_witness:
  "\<exists>q. queue_run [QPost 1 (Some ''a''), QPost 2 None] demo_queue = ([], [PsAdded, PsAdded], q) \<and>
    filter (\<lambda>e. qe_key e = Some ''a'') (eq_items (snd (queue_post 3 (Some ''a'') q))) =
      [\<lparr>qe_value = 3, qe_key = Some ''a''\<rparr>]"
proof -
  let ?q = "demo_queue\<lparr>eq_items := [\<lparr>qe_value = 1, qe_key = Some ''a''\<rparr>, \<lparr>qe_value = 2, qe_key = None\<rparr>]\<rparr>"
  have m: "mk_event_queue 2 = Inr demo_queue" by code_simp
  have r: "queue_run [QPost 1 (Some ''a''), QPost 2 None] demo_queue = ([], [PsAdded, PsAdded], ?q)"
    by code_simp
  have "fst (queue_post 3 (Some ''a'') ?q) = PsCoalesced" by code_simp
  with conjunct2 [OF queue_post_refines [OF m r, of 3 "Some ''a''"]]
  have "filter (\<lambda>e. qe_key e = Some ''a'') (eq_items (snd (queue_post 3 (Some ''a'') ?q))) =
      [\<lparr>qe_value = 3, qe_key = Some ''a''\<rparr>]" by simp
  with r show ?thesis by blast
qed

definition demo_scheduler :: "int scheduler" where
  "demo_scheduler = \<lparr>sc_queue = demo_queue\<lparr>eq_items := [\<lparr>qe_value = 5, qe_key = None\<rparr>]\<rparr>, sc_interval = 1000,
     sc_batch = 1, sc_visibility = UvVisible, sc_token = Some 0, sc_stopped = False\<rparr>"

lemma demo_scheduler_reach:
  "scheduler_reach (logged_port demo_port) (host_consumer demo_consume) log_fire log_pending True True
     (demo_scheduler, (1, 0), [TmLater 1000 0])"
proof -
  let ?calls = "scheduler_calls (logged_port demo_port) log_pending"
  let ?s0 = "\<lparr>sc_queue = demo_queue, sc_interval = 1000, sc_batch = 1, sc_visibility = UvVisible,
     sc_token = None, sc_stopped = True\<rparr> :: int scheduler"
  let ?s1 = "?s0\<lparr>sc_token := Some 0, sc_stopped := False\<rparr>"
  have init: "scheduler_reach (logged_port demo_port) (host_consumer demo_consume) log_fire log_pending
      True True (?s0, (0, 0), [])"
    by (rule sr_init [where n = 2 and interval = 1000 and batch = 1]) (code_simp, simp add: log_pending_def)
  have "scheduler_start (logged_port demo_port) (?s0, (0, 0), []) =
      (Inr (), ?s1, (1, 0), [TmLater 1000 0])"
    by code_simp
  from calls_start [OF calls_none this, of log_pending]
  have "?calls True (?s0, (0, 0), []) (?s1, (1, 0), [TmLater 1000 0])" by simp
  moreover have "scheduler_post (logged_port demo_port) 5 None (?s1, (1, 0), [TmLater 1000 0]) =
      (Inr PsAdded, demo_scheduler, (1, 0), [TmLater 1000 0])"
    by code_simp
  ultimately have "?calls True (?s0, (0, 0), []) (demo_scheduler, (1, 0), [TmLater 1000 0])"
    using calls_post by fastforce
  from sr_calls [OF init this] show ?thesis by simp
qed

theorem scheduler_single_timer_witness:
  "timers_pending [TmLater 1000 0] = {#0#} \<and> sc_token demo_scheduler = Some 0"
  using scheduler_single_timer [OF demo_scheduler_reach host_consumer_orderly]
  by (simp add: demo_scheduler_def)

theorem scheduler_no_lost_wakeup_witness:
  "\<exists>sc h l. firings (logged_port demo_port) (host_consumer demo_consume) log_fire log_pending 1
      (demo_scheduler, (1, 0), [TmLater 1000 0]) (sc, h, l) \<and> queue_depth sc = 0"
proof -
  let ?drain = "scheduler_drain (logged_port demo_port) (host_consumer demo_consume)
      (demo_scheduler, log_fire 0 ((1, 0), [TmLater 1000 0]))"
  obtain r sc h l where d: "?drain = (r, sc, h, l)" by (metis prod_cases4)
  have "0 \<in># log_pending ((1, 0 :: int), [TmLater 1000 0])" by (simp add: log_pending_def timers_pending_def)
  then have "firings (logged_port demo_port) (host_consumer demo_consume) log_fire log_pending (Suc 0)
      (demo_scheduler, (1, 0), [TmLater 1000 0]) (sc, h, l)"
    by (rule fires_next [where fire = log_fire and t = 0, OF fires_none _ d])
  then have f: "firings (logged_port demo_port) (host_consumer demo_consume) log_fire log_pending 1
      (demo_scheduler, (1, 0), [TmLater 1000 0]) (sc, h, l)" by simp
  have "reliable demo_port demo_consume" by (simp add: reliable_def demo_port_def demo_consume_def)
  moreover have "\<not> sc_stopped demo_scheduler" by (simp add: demo_scheduler_def)
  ultimately have "int (queue_depth sc) = max 0 (int (queue_depth demo_scheduler) - 1 * sc_batch demo_scheduler)"
    using scheduler_no_lost_wakeup [OF demo_scheduler_reach host_consumer_orderly] f by fastforce
  then have "queue_depth sc = 0" by (simp add: demo_scheduler_def queue_depth_def)
  with f show ?thesis by blast
qed

end
