(* ===== verification/IpAddress.thy ===== *)
theory IpAddress
  imports Prelude
begin

text \<open>
  What the code uses of Python's \<open>ipaddress\<close> module (CPython 3.12): \<open>ip_address\<close> on text, the
  loopback test, and the compressed text of an address. Addresses are numbers, an IPv6 address
  with the scope that follows \<open>%\<close>.
\<close>

section \<open>Splitting text\<close>

text \<open>\<open>s.split(sep)\<close> for a separator of one character.\<close>

fun split_on :: "char \<Rightarrow> string \<Rightarrow> string list" where
  "split_on sep [] = [[]]"
| "split_on sep (c # cs) =
     (if c = sep then [] # split_on sep cs
      else (case split_on sep cs of [] \<Rightarrow> [[c]] | w # ws \<Rightarrow> (c # w) # ws))"

text \<open>\<open>s.partition(sep)\<close>: before the first separator, whether there is one, and after it.\<close>

fun partition_at :: "char \<Rightarrow> string \<Rightarrow> string \<times> bool \<times> string" where
  "partition_at sep [] = ([], False, [])"
| "partition_at sep (c # cs) =
     (if c = sep then ([], True, cs)
      else (case partition_at sep cs of (a, b, t) \<Rightarrow> (c # a, b, t)))"

section \<open>Parsing\<close>

datatype ip_addr = IPv4 nat | IPv6 nat "string option"

definition parse_octet :: "string \<Rightarrow> nat option" where
  "parse_octet s =
     (if s = [] \<or> \<not> list_all is_digit s \<or> 3 < length s then None
      else if s \<noteq> ''0'' \<and> hd s = CHR ''0'' then None
      else if 255 < decimal_value s then None
      else Some (decimal_value s))"

definition parse_ipv4 :: "string \<Rightarrow> nat option" where
  "parse_ipv4 s =
     (case map parse_octet (split_on CHR ''.'' s) of
        [Some a, Some b, Some c, Some d] \<Rightarrow> Some (((a * 256 + b) * 256 + c) * 256 + d)
      | _ \<Rightarrow> None)"

definition parse_hextet :: "string \<Rightarrow> nat option" where
  "parse_hextet s =
     (if s = [] \<or> \<not> list_all is_hex s \<or> 4 < length s then None else Some (hex_value s))"

fun hextets_value :: "nat \<Rightarrow> string list \<Rightarrow> nat option" where
  "hextets_value acc [] = Some acc"
| "hextets_value acc (h # hs) =
     (case parse_hextet h of None \<Rightarrow> None | Some v \<Rightarrow> hextets_value (acc * 65536 + v) hs)"

definition hex_text :: "nat \<Rightarrow> string" where
  "hex_text n =
     (let d = (\<lambda>k. if k < 10 then char_of (48 + k) else char_of (87 + k)) in
      if n < 16 then [d n]
      else if n < 256 then [d (n div 16), d (n mod 16)]
      else if n < 4096 then [d (n div 256), d (n div 16 mod 16), d (n mod 16)]
      else [d (n div 4096 mod 16), d (n div 256 mod 16), d (n div 16 mod 16), d (n mod 16)])"

text \<open>The IPv4 suffix becomes two hextets.\<close>

definition expand_ipv4_suffix :: "string list \<Rightarrow> string list option" where
  "expand_ipv4_suffix parts =
     (if CHR ''.'' \<in> set (last parts)
      then (case parse_ipv4 (last parts) of
              None \<Rightarrow> None
            | Some n \<Rightarrow> Some (butlast parts @ [hex_text (n div 65536), hex_text (n mod 65536)]))
      else Some parts)"

text \<open>The inner positions with nothing in them, where \<open>::\<close> stands.\<close>

definition skip_positions :: "string list \<Rightarrow> nat list" where
  "skip_positions parts = filter (\<lambda>i. parts ! i = []) [1..<length parts - 1]"

definition parse_ipv6_digits :: "string \<Rightarrow> nat option" where
  "parse_ipv6_digits s =
     (if s = [] then None
      else if length (split_on CHR '':'' s) < 3 then None
      else (case expand_ipv4_suffix (split_on CHR '':'' s) of
        None \<Rightarrow> None
      | Some parts \<Rightarrow>
          if 9 < length parts then None
          else (case skip_positions parts of
              [] \<Rightarrow>
                if length parts \<noteq> 8 \<or> hd parts = [] \<or> last parts = [] then None
                else hextets_value 0 parts
            | [skip] \<Rightarrow>
                let hi = (if hd parts = [] then skip - 1 else skip);
                    lo = (if last parts = [] then length parts - skip - 2
                          else length parts - skip - 1) in
                if hd parts = [] \<and> hi \<noteq> 0 \<or> last parts = [] \<and> lo \<noteq> 0 then None
                else if 8 < hi + lo + 1 then None
                else (case hextets_value 0 (take hi parts) of
                    None \<Rightarrow> None
                  | Some v \<Rightarrow> hextets_value (v * 65536 ^ (8 - (hi + lo)))
                      (drop (length parts - lo) parts))
            | _ \<Rightarrow> None)))"

definition parse_ipv6 :: "string \<Rightarrow> ip_addr option" where
  "parse_ipv6 s =
     (if CHR ''/'' \<in> set s then None
      else (case partition_at CHR ''%'' s of
          (addr, False, _) \<Rightarrow> map_option (\<lambda>n. IPv6 n None) (parse_ipv6_digits addr)
        | (addr, True, scope) \<Rightarrow>
            if scope = [] \<or> CHR ''%'' \<in> set scope then None
            else map_option (\<lambda>n. IPv6 n (Some scope)) (parse_ipv6_digits addr)))"

definition ip_address :: "string \<Rightarrow> ip_addr option" where
  "ip_address s =
     (case (if CHR ''/'' \<in> set s then None else parse_ipv4 s) of
        Some n \<Rightarrow> Some (IPv4 n)
      | None \<Rightarrow> parse_ipv6 s)"

fun is_loopback :: "ip_addr \<Rightarrow> bool" where
  "is_loopback (IPv4 n) \<longleftrightarrow> n div 16777216 = 127"
| "is_loopback (IPv6 n scope) \<longleftrightarrow> n = 1"

section \<open>Compressed text\<close>

text \<open>The first longest run of \<open>0\<close>: start and length of the best run and of the current one.\<close>

fun best_run :: "nat \<Rightarrow> string list \<Rightarrow> nat \<times> nat \<Rightarrow> (nat \<times> nat) \<Rightarrow> nat \<times> nat" where
  "best_run i [] best cur = best"
| "best_run i (h # hs) (bs, bl) (cs, cl) =
     (if h = ''0''
      then let cs' = (if cl = 0 then i else cs) in
           best_run (i + 1) hs (if bl < cl + 1 then (cs', cl + 1) else (bs, bl)) (cs', cl + 1)
      else best_run (i + 1) hs (bs, bl) (0, 0))"

definition compress_hextets :: "string list \<Rightarrow> string list" where
  "compress_hextets hs =
     (case best_run 0 hs (0, 0) (0, 0) of
        (start, n) \<Rightarrow>
          if n \<le> 1 then hs
          else (if start = 0 then [[]] else []) @ take start hs @ [[]] @ drop (start + n) hs @
               (if start + n = length hs then [[]] else []))"

definition hextets :: "nat \<Rightarrow> string list" where
  "hextets n = map (\<lambda>i. hex_text (n div 65536 ^ i mod 65536)) [7, 6, 5, 4, 3, 2, 1, 0]"

fun ip_compressed :: "ip_addr \<Rightarrow> string" where
  "ip_compressed (IPv4 n) =
     join ''.'' (map (\<lambda>i. str_int (int (n div 256 ^ i mod 256))) [3, 2, 1, 0])"
| "ip_compressed (IPv6 n scope) =
     join '':'' (compress_hextets (hextets n)) @
     (case scope of None \<Rightarrow> [] | Some t \<Rightarrow> if t = [] then [] else CHR ''%'' # t)"

end
