(* ===== verification/Schema.thy ===== *)
theory Schema
  imports Json IpAddress
begin

text \<open>
  \<open>src/rcm/config/schema.py\<close>: the typed configuration, its validation from decoded JSON, and its
  public JSON form. What the code uses of \<open>ipaddress\<close> is in \<open>IpAddress\<close>; its uses of
  \<open>PureWindowsPath\<close> and \<open>urlsplit\<close> (CPython 3.12) are modelled here. Text is ASCII where it is
  case-folded.

  An error carries the path the code reports; the message text is not modelled. \<open>ConfigBeyond\<close> stands
  for text outside the model's strings (code points above 255), about which nothing is claimed.
\<close>

section \<open>The sections\<close>

datatype config_error =
  ConfigDecode | DuplicateKey string | ConfigTooLarge nat nat | ConfigValidation string | ConfigBeyond

type_synonym 'a cfg = "config_error + 'a"

record app_section =
  ca_name :: string
  ca_environment :: string
  ca_start_minimized :: bool
  ca_log_level :: string

record ui_section =
  cu_theme :: string
  cu_scale_percent :: int
  cu_compact_view :: bool
  cu_locale :: string

record monitoring_section =
  cm_monitoring_on :: bool
  cm_interval_ms :: int
  cm_stale_after_ms :: int
  cm_history_samples :: int

record config_node =
  cn_node_id :: string
  cn_address :: string
  cn_role :: string
  cn_enabled :: bool
  cn_cpu_count :: int

record nodes_section =
  ns_items :: "config_node list"
  ns_local_node_id :: string

record rdp_section =
  rs_enabled :: bool
  rs_port :: int
  rs_connect_timeout :: int
  rs_credential_reference :: string

record cleanup_section =
  cs_enabled :: bool
  cs_graceful_timeout :: int
  cs_force_timeout :: int
  cs_max_processes :: int

record ray_section =
  ry_enabled :: bool
  ry_executable_path :: string
  ry_head_address :: string
  ry_client_port :: int
  ry_dashboard_port :: int
  ry_cpu_count :: int
  ry_startup_timeout :: int

record remote_section =
  rm_enabled :: bool
  rm_bind_host :: string
  rm_port :: int
  rm_max_request_bytes :: int
  rm_request_timeout :: int

record update_section =
  up_enabled :: bool
  up_channel :: string
  up_manifest_url :: string
  up_check_interval_hours :: int

record config =
  cfg_version :: int
  cfg_app :: app_section
  cfg_ui :: ui_section
  cfg_monitoring :: monitoring_section
  cfg_nodes :: nodes_section
  cfg_rdp :: rdp_section
  cfg_cleanup :: cleanup_section
  cfg_ray :: ray_section
  cfg_remote :: remote_section
  cfg_update :: update_section

definition default_app :: app_section where
  "default_app = \<lparr>ca_name = ''RayClusterManager'', ca_environment = ''development'',
     ca_start_minimized = False, ca_log_level = ''info''\<rparr>"

definition default_ui :: ui_section where
  "default_ui = \<lparr>cu_theme = ''system'', cu_scale_percent = 100, cu_compact_view = False, cu_locale = []\<rparr>"

definition default_monitoring :: monitoring_section where
  "default_monitoring = \<lparr>cm_monitoring_on = True, cm_interval_ms = 1000, cm_stale_after_ms = 5000,
     cm_history_samples = 300\<rparr>"

definition default_nodes :: nodes_section where
  "default_nodes = \<lparr>ns_items = [], ns_local_node_id = []\<rparr>"

definition default_rdp :: rdp_section where
  "default_rdp = \<lparr>rs_enabled = False, rs_port = 3389, rs_connect_timeout = 10,
     rs_credential_reference = []\<rparr>"

definition default_cleanup :: cleanup_section where
  "default_cleanup = \<lparr>cs_enabled = False, cs_graceful_timeout = 10, cs_force_timeout = 30,
     cs_max_processes = 256\<rparr>"

definition default_ray :: ray_section where
  "default_ray = \<lparr>ry_enabled = False, ry_executable_path = [], ry_head_address = [],
     ry_client_port = 6379, ry_dashboard_port = 8265, ry_cpu_count = 0, ry_startup_timeout = 60\<rparr>"

definition default_remote :: remote_section where
  "default_remote = \<lparr>rm_enabled = False, rm_bind_host = ''127.0.0.1'', rm_port = 8765,
     rm_max_request_bytes = 1048576, rm_request_timeout = 15\<rparr>"

definition default_update :: update_section where
  "default_update = \<lparr>up_enabled = False, up_channel = ''stable'', up_manifest_url = [],
     up_check_interval_hours = 24\<rparr>"

definition default_config :: config where
  "default_config = \<lparr>cfg_version = 1, cfg_app = default_app, cfg_ui = default_ui,
     cfg_monitoring = default_monitoring, cfg_nodes = default_nodes, cfg_rdp = default_rdp,
     cfg_cleanup = default_cleanup, cfg_ray = default_ray, cfg_remote = default_remote,
     cfg_update = default_update\<rparr>"

section \<open>Values\<close>

definition cfg_path :: "string \<Rightarrow> string \<Rightarrow> string" where
  "cfg_path parent child = (if parent \<noteq> [] then parent @ ''.'' @ child else child)"

definition cfg_mapping :: "json \<Rightarrow> string \<Rightarrow> (string \<times> json) list cfg" where
  "cfg_mapping v path = (case v of JObj kvs \<Rightarrow> Inr kvs | _ \<Rightarrow> Inl (ConfigValidation path))"

definition cfg_known :: "(string \<times> json) list \<Rightarrow> string list \<Rightarrow> string \<Rightarrow> unit cfg" where
  "cfg_known data allowed path =
     (case sort (filter (\<lambda>k. k \<notin> set allowed) (map fst data)) of
        [] \<Rightarrow> Inr ()
      | k # _ \<Rightarrow> Inl (ConfigValidation (cfg_path path k)))"

text \<open>\<open>data.get(key, default)\<close>\<close>

definition cfg_get :: "(string \<times> json) list \<Rightarrow> string \<Rightarrow> json \<Rightarrow> json" where
  "cfg_get data key dflt = (case map_of data key of None \<Rightarrow> dflt | Some v \<Rightarrow> v)"

definition cfg_string :: "json \<Rightarrow> string \<Rightarrow> nat \<Rightarrow> nat \<Rightarrow> string cfg" where
  "cfg_string v path minimum maximum =
     (case v of
        JStr s \<Rightarrow>
          if \<not> (minimum \<le> length s \<and> length s \<le> maximum) then Inl (ConfigValidation path)
          else if list_ex (\<lambda>c. ord c < 32) s then Inl (ConfigValidation path)
          else Inr s
      | _ \<Rightarrow> Inl (ConfigValidation path))"

definition cfg_boolean :: "json \<Rightarrow> string \<Rightarrow> bool cfg" where
  "cfg_boolean v path = (case v of JBool b \<Rightarrow> Inr b | _ \<Rightarrow> Inl (ConfigValidation path))"

definition cfg_integer :: "json \<Rightarrow> string \<Rightarrow> int \<Rightarrow> int \<Rightarrow> int cfg" where
  "cfg_integer v path minimum maximum =
     (case v of
        JInt n \<Rightarrow> if minimum \<le> n \<and> n \<le> maximum then Inr n else Inl (ConfigValidation path)
      | _ \<Rightarrow> Inl (ConfigValidation path))"

definition cfg_choice :: "json \<Rightarrow> string \<Rightarrow> string list \<Rightarrow> string cfg" where
  "cfg_choice v path choices =
     bindE (cfg_string v path 0 64) (\<lambda>s.
     if s \<in> set choices then Inr s else Inl (ConfigValidation path))"

text \<open>\<open>_HOST_LABEL\<close>, \<open>_IDENTIFIER\<close> and one segment of \<open>_CREDENTIAL_REFERENCE\<close>.\<close>

definition host_label :: "string \<Rightarrow> bool" where
  "host_label s \<longleftrightarrow> s \<noteq> [] \<and> length s \<le> 63 \<and> is_alnum (hd s) \<and> is_alnum (last s) \<and>
     list_all (\<lambda>c. is_alnum c \<or> c = CHR ''-'') s"

definition name_char :: "char \<Rightarrow> bool" where
  "name_char c \<longleftrightarrow> is_alnum c \<or> c = CHR ''.'' \<or> c = CHR ''_'' \<or> c = CHR ''-''"

definition config_identifier :: "string \<Rightarrow> bool" where
  "config_identifier s \<longleftrightarrow> s \<noteq> [] \<and> length s \<le> 64 \<and> is_alnum (hd s) \<and> list_all name_char s"

definition credential_segment :: "string \<Rightarrow> bool" where
  "credential_segment s \<longleftrightarrow> s \<noteq> [] \<and> length s \<le> 127 \<and> is_alnum (hd s) \<and> list_all name_char s"

definition credential_reference_is_valid :: "string \<Rightarrow> bool" where
  "credential_reference_is_valid s \<longleftrightarrow> length s \<le> 256 \<and> starts_with ''credential://'' s \<and>
     list_all credential_segment (split_on CHR ''/'' (drop 13 s))"

definition strip_dot :: "string \<Rightarrow> string" where
  "strip_dot s = (if s \<noteq> [] \<and> last s = CHR ''.'' then butlast s else s)"

definition cfg_address :: "json \<Rightarrow> string \<Rightarrow> bool \<Rightarrow> string cfg" where
  "cfg_address v path allow_empty =
     bindE (cfg_string v path 0 253) (\<lambda>s.
     if s = [] \<and> allow_empty then Inr s
     else if s = [] then Inl (ConfigValidation path)
     else if ip_address (strip_dot s) \<noteq> None then Inr s
     else if list_ex (\<lambda>l. \<not> host_label l) (split_on CHR ''.'' (strip_dot s))
       then Inl (ConfigValidation path)
     else Inr s)"

definition locale_tag :: "string \<Rightarrow> bool" where
  "locale_tag s \<longleftrightarrow>
     (case split_on CHR ''-'' s of
        [] \<Rightarrow> False
      | w # ws \<Rightarrow> 2 \<le> length w \<and> length w \<le> 3 \<and> list_all (\<lambda>c. is_lower c \<or> is_upper c) w \<and>
          list_all (\<lambda>u. 2 \<le> length u \<and> length u \<le> 8 \<and> list_all is_alnum u) ws)"

section \<open>Windows paths\<close>

record windows_path =
  wp_drive :: string
  wp_root :: string
  wp_tail :: "string list"

definition backslashes :: "string \<Rightarrow> string" where
  "backslashes s = map (\<lambda>c. if c = CHR ''/'' then CHR 0x5C else c) s"

text \<open>\<open>s.find(sep, start)\<close>\<close>

definition find_sep :: "char \<Rightarrow> nat \<Rightarrow> string \<Rightarrow> nat option" where
  "find_sep c start s = List.find (\<lambda>i. s ! i = c) [start..<length s]"

text \<open>\<open>ntpath.splitroot\<close> of a path whose separators are backslashes: drive, root, rest.\<close>

definition split_root :: "string \<Rightarrow> string \<times> string \<times> string" where
  "split_root p =
     (let sep = CHR 0x5C in
      if take 1 p = [sep] then
        (if take 2 p = [sep, sep] then
           (let start = (if upper (take 8 p) = [sep, sep, CHR ''?'', sep] @ ''UNC'' @ [sep] then 8 else 2) in
            case find_sep sep start p of
              None \<Rightarrow> (p, [], [])
            | Some i \<Rightarrow>
                (case find_sep sep (i + 1) p of
                   None \<Rightarrow> (p, [], [])
                 | Some j \<Rightarrow> (take j p, take 1 (drop j p), drop (j + 1) p)))
         else ([], take 1 p, drop 1 p))
      else if take 1 (drop 1 p) = '':'' then
        (if take 1 (drop 2 p) = [sep] then (take 2 p, take 1 (drop 2 p), drop 3 p)
         else (take 2 p, [], drop 2 p))
      else ([], [], p))"

text \<open>\<open>PureWindowsPath(s)\<close>\<close>

definition pure_windows_path :: "string \<Rightarrow> windows_path" where
  "pure_windows_path s =
     (let sep = CHR 0x5C in
      case split_root (backslashes s) of
        (drive, rt, rest) \<Rightarrow>
          let pieces = split_on sep drive;
              rt' = (if rt = [] \<and> take 1 drive = [sep] \<and> last drive \<noteq> sep \<and>
                        (length pieces = 4 \<and> pieces ! 2 \<notin> {[], ''?'', ''.'', ''?.''} \<or> length pieces = 6)
                       then [sep] else rt) in
          \<lparr>wp_drive = drive, wp_root = rt',
           wp_tail = filter (\<lambda>x. x \<noteq> [] \<and> x \<noteq> ''.'') (split_on sep rest)\<rparr>)"

definition wp_anchor :: "windows_path \<Rightarrow> string" where
  "wp_anchor p = wp_drive p @ wp_root p"

definition wp_is_absolute :: "windows_path \<Rightarrow> bool" where
  "wp_is_absolute p \<longleftrightarrow> wp_drive p \<noteq> [] \<and> wp_root p \<noteq> []"

definition wp_parts :: "windows_path \<Rightarrow> string list" where
  "wp_parts p = (if wp_anchor p = [] then wp_tail p else wp_anchor p # wp_tail p)"

definition wp_name :: "windows_path \<Rightarrow> string" where
  "wp_name p = (if wp_tail p = [] then [] else last (wp_tail p))"

text \<open>\<open>str(path)\<close> of a path with a drive or a root.\<close>

definition wp_text :: "windows_path \<Rightarrow> string" where
  "wp_text p = wp_anchor p @ join [CHR 0x5C] (wp_tail p)"

definition forbidden_prefixes :: "string list" where
  "forbidden_prefixes =
     [[CHR 0x5C, CHR 0x5C, CHR ''?'', CHR 0x5C], [CHR 0x5C, CHR 0x5C, CHR ''.'', CHR 0x5C],
      [CHR 0x5C, CHR ''?'', CHR ''?'', CHR 0x5C], CHR 0x5C # ''device'' @ [CHR 0x5C]]"

definition local_ray_path :: "string \<Rightarrow> bool" where
  "local_ray_path s \<longleftrightarrow>
     (let p = pure_windows_path s in
      wp_is_absolute p \<and> \<not> starts_with [CHR 0x5C, CHR 0x5C] (wp_anchor p) \<and>
      \<not> list_ex (\<lambda>pre. starts_with pre (casefold (backslashes s))) forbidden_prefixes \<and>
      ''..'' \<notin> set (wp_parts p) \<and>
      list_all (\<lambda>x. CHR '':'' \<notin> set x) (drop 1 (wp_parts p)) \<and>
      list_all (\<lambda>x. x = [] \<or> last x \<noteq> CHR '' '' \<and> last x \<noteq> CHR ''.'') (drop 1 (wp_parts p)) \<and>
      casefold (wp_name p) = ''ray.exe'')"

definition ray_executable_path :: "json \<Rightarrow> string \<Rightarrow> string cfg" where
  "ray_executable_path v path =
     bindE (cfg_string v path 0 32767) (\<lambda>s.
     if s = [] then Inr []
     else if local_ray_path s then Inr (wp_text (pure_windows_path s))
     else Inl (ConfigValidation path))"

section \<open>URLs\<close>

text \<open>\<open>s.rpartition(sep)\<close>: before the last separator, whether there is one, and after it.\<close>

definition rpartition_at :: "char \<Rightarrow> string \<Rightarrow> string \<times> bool \<times> string" where
  "rpartition_at sep s =
     (case partition_at sep (rev s) of
        (a, b, t) \<Rightarrow> if b then (rev t, True, rev a) else ([], False, s))"

definition scheme_char :: "char \<Rightarrow> bool" where
  "scheme_char c \<longleftrightarrow> is_alnum c \<or> c = CHR ''+'' \<or> c = CHR ''-'' \<or> c = CHR ''.''"

text \<open>The scheme, and what is left of the URL.\<close>

definition url_scheme :: "string \<Rightarrow> string \<times> string" where
  "url_scheme url =
     (case partition_at CHR '':'' url of
        (s, found, rest) \<Rightarrow>
          if found \<and> s \<noteq> [] \<and> (is_lower (hd s) \<or> is_upper (hd s)) \<and> list_all scheme_char s
          then (casefold s, rest) else ([], url))"

text \<open>The host a bracket may hold: an IPv6 address, or \<open>v\<close>, hex digits, a dot and some text.\<close>

definition bracketed_host_ok :: "string \<Rightarrow> bool" where
  "bracketed_host_ok s =
     (if take 1 s = ''v''
      then (case partition_at CHR ''.'' (drop 1 s) of
              (h, found, rest) \<Rightarrow> found \<and> h \<noteq> [] \<and> list_all is_hex h \<and> rest \<noteq> [] \<and>
                CHR 0x0A \<notin> set rest)
      else (case ip_address s of Some (IPv6 n z) \<Rightarrow> True | _ \<Rightarrow> False))"

definition bracketed_netloc_ok :: "string \<Rightarrow> bool" where
  "bracketed_netloc_ok netloc =
     (case rpartition_at CHR ''@'' netloc of
        (_, _, hostport) \<Rightarrow>
          (case partition_at CHR ''['' hostport of
             (front, True, bracketed) \<Rightarrow>
               (case partition_at CHR '']'' bracketed of
                  (host, _, port) \<Rightarrow> front = [] \<and> (port = [] \<or> take 1 port = '':'') \<and>
                    bracketed_host_ok host)
           | (_, False, _) \<Rightarrow> bracketed_host_ok (fst (partition_at CHR '':'' hostport))))"

text \<open>\<open>SplitResult.hostname\<close>, empty where Python says \<open>None\<close>.\<close>

definition url_hostname :: "string \<Rightarrow> string" where
  "url_hostname netloc =
     (case rpartition_at CHR ''@'' netloc of
        (_, _, hostinfo) \<Rightarrow>
          (case partition_at CHR ''['' hostinfo of
             (_, True, bracketed) \<Rightarrow> fst (partition_at CHR '']'' bracketed)
           | (_, False, _) \<Rightarrow> fst (partition_at CHR '':'' hostinfo)))"

definition https_url :: "string \<Rightarrow> bool" where
  "https_url s =
     (case url_scheme (dropWhile (\<lambda>c. ord c \<le> 32) s) of
        (scheme, rest) \<Rightarrow>
          let has_netloc = (take 2 rest = ''//'');
              netloc = (if has_netloc
                        then takeWhile (\<lambda>c. c \<notin> {CHR ''/'', CHR ''?'', CHR ''#''}) (drop 2 rest) else []);
              path = (if has_netloc then drop (2 + length netloc) rest else rest);
              opened = CHR ''['' \<in> set netloc; closed = CHR '']'' \<in> set netloc in
          if opened \<noteq> closed then False
          else if opened \<and> closed \<and> \<not> bracketed_netloc_ok netloc then False
          else
            (case partition_at CHR ''#'' path of
               (front, _, fragment) \<Rightarrow>
                 scheme = ''https'' \<and> url_hostname netloc \<noteq> [] \<and> CHR ''@'' \<notin> set netloc \<and>
                 snd (snd (partition_at CHR ''?'' front)) = [] \<and> fragment = []))"

section \<open>Parsing the sections\<close>

definition cfg_section :: "(string \<times> json) list \<Rightarrow> string \<Rightarrow> (string \<times> json) list cfg" where
  "cfg_section root_data name =
     (case map_of root_data name of None \<Rightarrow> Inr [] | Some v \<Rightarrow> cfg_mapping v name)"

definition parse_app :: "(string \<times> json) list \<Rightarrow> app_section cfg" where
  "parse_app root_data =
     bindE (cfg_section root_data ''app'') (\<lambda>data.
     bindE (cfg_known data [''name'', ''environment'', ''start_minimized'', ''log_level''] ''app'') (\<lambda>_.
     bindE (cfg_string (cfg_get data ''name'' (JStr (ca_name default_app))) ''app.name'' 1 64) (\<lambda>name.
     bindE (cfg_choice (cfg_get data ''environment'' (JStr (ca_environment default_app)))
              ''app.environment'' [''development'', ''installed'', ''portable'']) (\<lambda>environment.
     bindE (cfg_boolean (cfg_get data ''start_minimized'' (JBool (ca_start_minimized default_app)))
              ''app.start_minimized'') (\<lambda>minimized.
     bindE (cfg_choice (cfg_get data ''log_level'' (JStr (ca_log_level default_app)))
              ''app.log_level'' [''debug'', ''info'', ''warning'', ''error'']) (\<lambda>level.
     Inr \<lparr>ca_name = name, ca_environment = environment, ca_start_minimized = minimized,
          ca_log_level = level\<rparr>))))))"

definition parse_ui :: "(string \<times> json) list \<Rightarrow> ui_section cfg" where
  "parse_ui root_data =
     bindE (cfg_section root_data ''ui'') (\<lambda>data.
     bindE (cfg_known data [''theme'', ''scale_percent'', ''compact_view'', ''locale''] ''ui'') (\<lambda>_.
     bindE (cfg_string (cfg_get data ''locale'' (JStr (cu_locale default_ui))) ''ui.locale'' 0 16) (\<lambda>locale_text.
     if locale_text \<noteq> [] \<and> \<not> locale_tag locale_text then Inl (ConfigValidation ''ui.locale'')
     else
     bindE (cfg_choice (cfg_get data ''theme'' (JStr (cu_theme default_ui)))
              ''ui.theme'' [''dark'', ''light'', ''system'']) (\<lambda>theme.
     bindE (cfg_integer (cfg_get data ''scale_percent'' (JInt (cu_scale_percent default_ui)))
              ''ui.scale_percent'' 50 400) (\<lambda>scale.
     bindE (cfg_boolean (cfg_get data ''compact_view'' (JBool (cu_compact_view default_ui)))
              ''ui.compact_view'') (\<lambda>compact_view.
     Inr \<lparr>cu_theme = theme, cu_scale_percent = scale, cu_compact_view = compact_view,
          cu_locale = locale_text\<rparr>))))))"

definition parse_monitoring :: "(string \<times> json) list \<Rightarrow> monitoring_section cfg" where
  "parse_monitoring root_data =
     bindE (cfg_section root_data ''monitoring'') (\<lambda>data.
     bindE (cfg_known data [''enabled'', ''interval_ms'', ''stale_after_ms'', ''history_samples'']
              ''monitoring'') (\<lambda>_.
     bindE (cfg_boolean (cfg_get data ''enabled'' (JBool (cm_monitoring_on default_monitoring)))
              ''monitoring.enabled'') (\<lambda>enabled.
     bindE (cfg_integer (cfg_get data ''interval_ms'' (JInt (cm_interval_ms default_monitoring)))
              ''monitoring.interval_ms'' 250 60000) (\<lambda>interval.
     bindE (cfg_integer (cfg_get data ''stale_after_ms'' (JInt (cm_stale_after_ms default_monitoring)))
              ''monitoring.stale_after_ms'' 500 300000) (\<lambda>stale.
     bindE (cfg_integer (cfg_get data ''history_samples'' (JInt (cm_history_samples default_monitoring)))
              ''monitoring.history_samples'' 1 100000) (\<lambda>history.
     if stale < interval * 2 then Inl (ConfigValidation ''monitoring.stale_after_ms'')
     else Inr \<lparr>cm_monitoring_on = enabled, cm_interval_ms = interval, cm_stale_after_ms = stale,
          cm_history_samples = history\<rparr>))))))"

definition parse_node :: "nat \<Rightarrow> json \<Rightarrow> config_node cfg" where
  "parse_node index v =
     (let path = ''nodes.items['' @ str_int (int index) @ '']'' in
     bindE (cfg_mapping v path) (\<lambda>data.
     bindE (cfg_known data [''node_id'', ''address'', ''role'', ''enabled'', ''cpu_count''] path) (\<lambda>_.
     case (map_of data ''node_id'', map_of data ''address'') of
       (None, _) \<Rightarrow> Inl (ConfigValidation (path @ ''.node_id''))
     | (_, None) \<Rightarrow> Inl (ConfigValidation (path @ ''.address''))
     | (Some raw_id, Some raw_address) \<Rightarrow>
     bindE (cfg_string raw_id (path @ ''.node_id'') 1 64) (\<lambda>nid.
     if \<not> config_identifier nid then Inl (ConfigValidation (path @ ''.node_id''))
     else
     bindE (cfg_address raw_address (path @ ''.address'') False) (\<lambda>address.
     bindE (cfg_choice (cfg_get data ''role'' (JStr ''worker'')) (path @ ''.role'')
              [''head'', ''observer'', ''worker'']) (\<lambda>role.
     bindE (cfg_boolean (cfg_get data ''enabled'' (JBool True)) (path @ ''.enabled'')) (\<lambda>enabled.
     bindE (cfg_integer (cfg_get data ''cpu_count'' (JInt 0)) (path @ ''.cpu_count'') 0 65536) (\<lambda>cpus.
     Inr \<lparr>cn_node_id = nid, cn_address = address, cn_role = role, cn_enabled = enabled,
          cn_cpu_count = cpus\<rparr>)))))))) "

fun parse_node_list :: "nat \<Rightarrow> json list \<Rightarrow> config_node list cfg" where
  "parse_node_list index [] = Inr []"
| "parse_node_list index (v # vs) =
     bindE (parse_node index v) (\<lambda>n. bindE (parse_node_list (index + 1) vs) (\<lambda>ns. Inr (n # ns)))"

definition folded_ids :: "config_node list \<Rightarrow> nat list list" where
  "folded_ids items = map (\<lambda>n. fold_text (cn_node_id n)) items"

definition parse_nodes :: "(string \<times> json) list \<Rightarrow> nodes_section cfg" where
  "parse_nodes root_data =
     bindE (cfg_section root_data ''nodes'') (\<lambda>data.
     bindE (cfg_known data [''items'', ''local_node_id''] ''nodes'') (\<lambda>_.
     case cfg_get data ''items'' (JArr []) of
       JArr raw_items \<Rightarrow>
         if 4096 < length raw_items then Inl (ConfigValidation ''nodes.items'')
         else
         bindE (parse_node_list 0 raw_items) (\<lambda>items.
         bindE (cfg_string (cfg_get data ''local_node_id'' (JStr [])) ''nodes.local_node_id'' 0 64) (\<lambda>local_id.
         if length (folded_ids items) \<noteq> card (set (folded_ids items))
           then Inl (ConfigValidation ''nodes.items'')
         else if 1 < length (filter (\<lambda>n. cn_enabled n \<and> cn_role n = ''head'') items)
           then Inl (ConfigValidation ''nodes.items'')
         else if local_id \<noteq> [] \<and> fold_text local_id \<notin> set (folded_ids items)
           then Inl (ConfigValidation ''nodes.local_node_id'')
         else Inr \<lparr>ns_items = items, ns_local_node_id = local_id\<rparr>))
     | _ \<Rightarrow> Inl (ConfigValidation ''nodes.items'')))"

definition parse_rdp :: "(string \<times> json) list \<Rightarrow> rdp_section cfg" where
  "parse_rdp root_data =
     bindE (cfg_section root_data ''rdp'') (\<lambda>data.
     bindE (cfg_known data [''enabled'', ''port'', ''connect_timeout_seconds'', ''credential_reference'']
              ''rdp'') (\<lambda>_.
     bindE (cfg_string (cfg_get data ''credential_reference'' (JStr (rs_credential_reference default_rdp)))
              ''rdp.credential_reference'' 0 256) (\<lambda>reference.
     if reference \<noteq> [] \<and> \<not> credential_reference_is_valid reference
       then Inl (ConfigValidation ''rdp.credential_reference'')
     else
     bindE (cfg_boolean (cfg_get data ''enabled'' (JBool (rs_enabled default_rdp))) ''rdp.enabled'') (\<lambda>enabled.
     bindE (cfg_integer (cfg_get data ''port'' (JInt (rs_port default_rdp))) ''rdp.port'' 1 65535) (\<lambda>port.
     bindE (cfg_integer (cfg_get data ''connect_timeout_seconds'' (JInt (rs_connect_timeout default_rdp)))
              ''rdp.connect_timeout_seconds'' 1 300) (\<lambda>timeout.
     Inr \<lparr>rs_enabled = enabled, rs_port = port, rs_connect_timeout = timeout,
          rs_credential_reference = reference\<rparr>))))))"

definition parse_cleanup :: "(string \<times> json) list \<Rightarrow> cleanup_section cfg" where
  "parse_cleanup root_data =
     bindE (cfg_section root_data ''cleanup'') (\<lambda>data.
     bindE (cfg_known data [''enabled'', ''graceful_timeout_seconds'', ''force_timeout_seconds'',
              ''max_processes''] ''cleanup'') (\<lambda>_.
     bindE (cfg_boolean (cfg_get data ''enabled'' (JBool (cs_enabled default_cleanup)))
              ''cleanup.enabled'') (\<lambda>enabled.
     bindE (cfg_integer (cfg_get data ''graceful_timeout_seconds''
              (JInt (cs_graceful_timeout default_cleanup))) ''cleanup.graceful_timeout_seconds'' 0 3600) (\<lambda>graceful.
     bindE (cfg_integer (cfg_get data ''force_timeout_seconds''
              (JInt (cs_force_timeout default_cleanup))) ''cleanup.force_timeout_seconds'' 0 3600) (\<lambda>force.
     bindE (cfg_integer (cfg_get data ''max_processes'' (JInt (cs_max_processes default_cleanup)))
              ''cleanup.max_processes'' 1 100000) (\<lambda>processes.
     if force < graceful then Inl (ConfigValidation ''cleanup.force_timeout_seconds'')
     else Inr \<lparr>cs_enabled = enabled, cs_graceful_timeout = graceful, cs_force_timeout = force,
          cs_max_processes = processes\<rparr>))))))"

definition parse_ray :: "(string \<times> json) list \<Rightarrow> ray_section cfg" where
  "parse_ray root_data =
     bindE (cfg_section root_data ''ray'') (\<lambda>data.
     bindE (cfg_known data [''enabled'', ''executable_path'', ''head_address'', ''client_port'',
              ''dashboard_port'', ''cpu_count'', ''startup_timeout_seconds''] ''ray'') (\<lambda>_.
     bindE (cfg_boolean (cfg_get data ''enabled'' (JBool (ry_enabled default_ray))) ''ray.enabled'') (\<lambda>enabled.
     bindE (ray_executable_path (cfg_get data ''executable_path'' (JStr (ry_executable_path default_ray)))
              ''ray.executable_path'') (\<lambda>executable.
     bindE (cfg_address (cfg_get data ''head_address'' (JStr (ry_head_address default_ray)))
              ''ray.head_address'' True) (\<lambda>head_address.
     bindE (cfg_integer (cfg_get data ''client_port'' (JInt (ry_client_port default_ray)))
              ''ray.client_port'' 1 65535) (\<lambda>client.
     bindE (cfg_integer (cfg_get data ''dashboard_port'' (JInt (ry_dashboard_port default_ray)))
              ''ray.dashboard_port'' 1 65535) (\<lambda>dashboard.
     bindE (cfg_integer (cfg_get data ''cpu_count'' (JInt (ry_cpu_count default_ray)))
              ''ray.cpu_count'' 0 65536) (\<lambda>cpus.
     bindE (cfg_integer (cfg_get data ''startup_timeout_seconds'' (JInt (ry_startup_timeout default_ray)))
              ''ray.startup_timeout_seconds'' 1 3600) (\<lambda>timeout.
     if enabled \<and> head_address = [] then Inl (ConfigValidation ''ray.head_address'')
     else if client = dashboard then Inl (ConfigValidation ''ray.dashboard_port'')
     else Inr \<lparr>ry_enabled = enabled, ry_executable_path = executable, ry_head_address = head_address,
          ry_client_port = client, ry_dashboard_port = dashboard, ry_cpu_count = cpus,
          ry_startup_timeout = timeout\<rparr>)))))))))"

definition bind_host_loopback :: "string \<Rightarrow> bool" where
  "bind_host_loopback s =
     (case ip_address s of Some a \<Rightarrow> is_loopback a | None \<Rightarrow> casefold s = ''localhost'')"

definition parse_remote :: "(string \<times> json) list \<Rightarrow> remote_section cfg" where
  "parse_remote root_data =
     bindE (cfg_section root_data ''remote'') (\<lambda>data.
     bindE (cfg_known data [''enabled'', ''bind_host'', ''port'', ''max_request_bytes'',
              ''request_timeout_seconds''] ''remote'') (\<lambda>_.
     bindE (cfg_boolean (cfg_get data ''enabled'' (JBool (rm_enabled default_remote)))
              ''remote.enabled'') (\<lambda>enabled.
     bindE (cfg_address (cfg_get data ''bind_host'' (JStr (rm_bind_host default_remote)))
              ''remote.bind_host'' False) (\<lambda>host.
     bindE (cfg_integer (cfg_get data ''port'' (JInt (rm_port default_remote))) ''remote.port'' 1 65535) (\<lambda>port.
     bindE (cfg_integer (cfg_get data ''max_request_bytes'' (JInt (rm_max_request_bytes default_remote)))
              ''remote.max_request_bytes'' 1024 16777216) (\<lambda>bytes.
     bindE (cfg_integer (cfg_get data ''request_timeout_seconds'' (JInt (rm_request_timeout default_remote)))
              ''remote.request_timeout_seconds'' 1 300) (\<lambda>timeout.
     if enabled \<and> \<not> bind_host_loopback host then Inl (ConfigValidation ''remote.bind_host'')
     else Inr \<lparr>rm_enabled = enabled, rm_bind_host = host, rm_port = port, rm_max_request_bytes = bytes,
          rm_request_timeout = timeout\<rparr>)))))))"

definition parse_update :: "(string \<times> json) list \<Rightarrow> update_section cfg" where
  "parse_update root_data =
     bindE (cfg_section root_data ''update'') (\<lambda>data.
     bindE (cfg_known data [''enabled'', ''channel'', ''manifest_url'', ''check_interval_hours'']
              ''update'') (\<lambda>_.
     bindE (cfg_boolean (cfg_get data ''enabled'' (JBool (up_enabled default_update)))
              ''update.enabled'') (\<lambda>enabled.
     bindE (cfg_choice (cfg_get data ''channel'' (JStr (up_channel default_update)))
              ''update.channel'' [''beta'', ''stable'']) (\<lambda>channel.
     bindE (cfg_string (cfg_get data ''manifest_url'' (JStr (up_manifest_url default_update)))
              ''update.manifest_url'' 0 2048) (\<lambda>url.
     bindE (cfg_integer (cfg_get data ''check_interval_hours'' (JInt (up_check_interval_hours default_update)))
              ''update.check_interval_hours'' 1 720) (\<lambda>hours.
     if url \<noteq> [] \<and> \<not> https_url url then Inl (ConfigValidation ''update.manifest_url'')
     else if url = [] \<and> enabled then Inl (ConfigValidation ''update.manifest_url'')
     else Inr \<lparr>up_enabled = enabled, up_channel = channel, up_manifest_url = url,
          up_check_interval_hours = hours\<rparr>))))))"

definition config_keys :: "string list" where
  "config_keys = [''schema_version'', ''app'', ''ui'', ''monitoring'', ''nodes'', ''rdp'', ''cleanup'',
     ''ray'', ''remote'', ''update'']"

definition config_from_dict :: "json \<Rightarrow> config cfg" where
  "config_from_dict v =
     bindE (cfg_mapping v []) (\<lambda>root_data.
     bindE (cfg_known root_data config_keys []) (\<lambda>_.
     bindE (cfg_integer (cfg_get root_data ''schema_version'' (JInt 1)) ''schema_version'' 1 1) (\<lambda>version.
     bindE (parse_app root_data) (\<lambda>app.
     bindE (parse_ui root_data) (\<lambda>ui.
     bindE (parse_monitoring root_data) (\<lambda>monitoring.
     bindE (parse_nodes root_data) (\<lambda>nodes.
     bindE (parse_rdp root_data) (\<lambda>rdp.
     bindE (parse_cleanup root_data) (\<lambda>cleanup.
     bindE (parse_ray root_data) (\<lambda>ray.
     bindE (parse_remote root_data) (\<lambda>remote.
     bindE (parse_update root_data) (\<lambda>update.
     Inr \<lparr>cfg_version = version, cfg_app = app, cfg_ui = ui, cfg_monitoring = monitoring,
          cfg_nodes = nodes, cfg_rdp = rdp, cfg_cleanup = cleanup, cfg_ray = ray,
          cfg_remote = remote, cfg_update = update\<rparr>))))))))))))"

section \<open>The public JSON form\<close>

definition node_json :: "config_node \<Rightarrow> json" where
  "node_json n = JObj [(''node_id'', JStr (cn_node_id n)), (''address'', JStr (cn_address n)),
     (''role'', JStr (cn_role n)), (''enabled'', JBool (cn_enabled n)), (''cpu_count'', JInt (cn_cpu_count n))]"

text \<open>The dictionary \<open>config_to_dict\<close> builds; \<open>exe\<close> is the normalised executable path.\<close>

definition config_json :: "string \<Rightarrow> config \<Rightarrow> json" where
  "config_json exe c =
     (let a = cfg_app c; u = cfg_ui c; mn = cfg_monitoring c; n = cfg_nodes c; d = cfg_rdp c;
          cl = cfg_cleanup c; r = cfg_ray c; m = cfg_remote c; p = cfg_update c in
      JObj
       [(''schema_version'', JInt (cfg_version c)),
        (''app'', JObj [(''name'', JStr (ca_name a)), (''environment'', JStr (ca_environment a)),
           (''start_minimized'', JBool (ca_start_minimized a)), (''log_level'', JStr (ca_log_level a))]),
        (''ui'', JObj [(''theme'', JStr (cu_theme u)), (''scale_percent'', JInt (cu_scale_percent u)),
           (''compact_view'', JBool (cu_compact_view u)), (''locale'', JStr (cu_locale u))]),
        (''monitoring'', JObj [(''enabled'', JBool (cm_monitoring_on mn)),
           (''interval_ms'', JInt (cm_interval_ms mn)), (''stale_after_ms'', JInt (cm_stale_after_ms mn)),
           (''history_samples'', JInt (cm_history_samples mn))]),
        (''nodes'', JObj [(''items'', JArr (map node_json (ns_items n))),
           (''local_node_id'', JStr (ns_local_node_id n))]),
        (''rdp'', JObj [(''enabled'', JBool (rs_enabled d)), (''port'', JInt (rs_port d)),
           (''connect_timeout_seconds'', JInt (rs_connect_timeout d)),
           (''credential_reference'', JStr (rs_credential_reference d))]),
        (''cleanup'', JObj [(''enabled'', JBool (cs_enabled cl)),
           (''graceful_timeout_seconds'', JInt (cs_graceful_timeout cl)),
           (''force_timeout_seconds'', JInt (cs_force_timeout cl)),
           (''max_processes'', JInt (cs_max_processes cl))]),
        (''ray'', JObj [(''enabled'', JBool (ry_enabled r)), (''executable_path'', JStr exe),
           (''head_address'', JStr (ry_head_address r)), (''client_port'', JInt (ry_client_port r)),
           (''dashboard_port'', JInt (ry_dashboard_port r)), (''cpu_count'', JInt (ry_cpu_count r)),
           (''startup_timeout_seconds'', JInt (ry_startup_timeout r))]),
        (''remote'', JObj [(''enabled'', JBool (rm_enabled m)), (''bind_host'', JStr (rm_bind_host m)),
           (''port'', JInt (rm_port m)), (''max_request_bytes'', JInt (rm_max_request_bytes m)),
           (''request_timeout_seconds'', JInt (rm_request_timeout m))]),
        (''update'', JObj [(''enabled'', JBool (up_enabled p)), (''channel'', JStr (up_channel p)),
           (''manifest_url'', JStr (up_manifest_url p)),
           (''check_interval_hours'', JInt (up_check_interval_hours p))])])"

definition config_to_dict :: "config \<Rightarrow> json cfg" where
  "config_to_dict c =
     bindE (ray_executable_path (JStr (ry_executable_path (cfg_ray c))) ''ray.executable_path'') (\<lambda>exe.
     bindE (config_from_dict (config_json exe c)) (\<lambda>_.
     Inr (config_json exe c)))"

section \<open>Normalised paths\<close>

lemma split_on_not_Nil [simp]: "split_on sep s \<noteq> []"
  by (induction s) (auto split: list.splits)

lemma split_on_word:
  "sep \<notin> set w \<Longrightarrow> split_on sep w = [w]"
  by (induction w) auto

lemma split_on_append:
  "sep \<notin> set w \<Longrightarrow> split_on sep (w @ sep # s) = w # split_on sep s"
  by (induction w) auto

lemma split_on_Cons_obtain:
  obtains w ws where "split_on sep s = w # ws"
  by (cases "split_on sep s") auto

lemma split_on_no_sep: "w \<in> set (split_on sep s) \<Longrightarrow> sep \<notin> set w"
proof (induction s arbitrary: w)
  case (Cons c s)
  obtain v vs where v: "split_on sep s = v # vs" by (rule split_on_Cons_obtain)
  with Cons.IH Cons.prems show ?case by (auto split: if_splits)
qed simp

lemma split_on_chars: "w \<in> set (split_on sep s) \<Longrightarrow> set w \<subseteq> set s"
proof (induction s arbitrary: w)
  case (Cons c s)
  obtain v vs where v: "split_on sep s = v # vs" by (rule split_on_Cons_obtain)
  with Cons.IH [of v] Cons.IH [of w] Cons.prems show ?case by (fastforce split: if_splits)
qed simp

lemma split_on_sizes: "sum_list (map (\<lambda>w. Suc (length w)) (split_on sep s)) = Suc (length s)"
proof (induction s)
  case (Cons c s)
  obtain v vs where v: "split_on sep s = v # vs" by (rule split_on_Cons_obtain)
  with Cons.IH show ?case by simp
qed simp

lemma join_size: "ws \<noteq> [] \<Longrightarrow> Suc (length (join [sep] ws)) = sum_list (map (\<lambda>w. Suc (length w)) ws)"
proof (induction ws)
  case (Cons w ws)
  then show ?case by (cases ws) (auto simp: join_def)
qed simp

lemma sum_filter_le: "sum_list (map f (filter P xs)) \<le> (sum_list (map f xs) :: nat)"
  by (induction xs) auto

lemma join_chars: "set (join [sep] ws) \<subseteq> insert sep (\<Union> (set ` set ws))"
  by (cases ws) (auto simp: join_def)

lemma split_on_join:
  assumes "list_all (\<lambda>w. sep \<notin> set w) ws" and "ws \<noteq> []"
  shows "split_on sep (join [sep] ws) = ws"
  using assms
proof (induction ws)
  case (Cons w ws)
  show ?case
  proof (cases ws)
    case Nil
    with Cons.prems show ?thesis by (simp add: join_def split_on_word)
  next
    case (Cons v vs)
    have "join [sep] (w # ws) = w @ sep # join [sep] ws" by (simp add: Cons join_def)
    with Cons.IH Cons.prems Cons show ?thesis by (simp add: split_on_append)
  qed
qed simp

lemma casefold_char_backslash: "casefold_char c = CHR 0x5C \<longleftrightarrow> c = CHR 0x5C"
proof -
  have "ord CHR 0x5C = 92" by (simp add: ord_def)
  then show ?thesis by (auto simp: casefold_char_def is_upper_def ord_inject [symmetric])
qed

lemma backslashes_idem: "CHR ''/'' \<notin> set s \<Longrightarrow> backslashes s = s"
  by (induction s) (auto simp: backslashes_def)

lemma backslashes_no_slash: "CHR ''/'' \<notin> set (backslashes s)"
  by (auto simp: backslashes_def)

text \<open>An accepted path is a drive, a colon, a separator, and at least one piece.\<close>

lemma find_sep_ge: "find_sep c start s = Some i \<Longrightarrow> start \<le> i \<and> i < length s"
  by (auto simp: find_sep_def dest: find_Some_iff2)

lemma local_ray_shape:
  assumes "local_ray_path s"
  obtains d rest where "backslashes s = d # CHR '':'' # CHR 0x5C # rest" and "d \<noteq> CHR 0x5C"
    and "pure_windows_path s = \<lparr>wp_drive = [d, CHR '':''], wp_root = [CHR 0x5C],
       wp_tail = filter (\<lambda>x. x \<noteq> [] \<and> x \<noteq> ''.'') (split_on CHR 0x5C rest)\<rparr>"
    and "wp_tail (pure_windows_path s) \<noteq> []"
proof -
  let ?p = "backslashes s"
  obtain dr rt rest where sr: "split_root ?p = (dr, rt, rest)" by (metis prod_cases3)
  have dr: "wp_drive (pure_windows_path s) = dr" by (simp add: pure_windows_path_def sr Let_def)
  have a: "dr \<noteq> []" "wp_root (pure_windows_path s) \<noteq> []"
      "\<not> starts_with [CHR 0x5C, CHR 0x5C] (dr @ wp_root (pure_windows_path s))"
    using assms by (auto simp: local_ray_path_def Let_def wp_is_absolute_def wp_anchor_def dr)
  have t: "wp_tail (pure_windows_path s) \<noteq> []"
    using assms by (auto simp: local_ray_path_def Let_def wp_name_def casefold_def)
  have no_unc: "dr \<noteq> CHR 0x5C # CHR 0x5C # u" for u using a(3) by auto
  have not_unc: "take 1 ?p \<noteq> [CHR 0x5C]"
  proof
    assume sep: "take 1 ?p = [CHR 0x5C]"
    show False
    proof (cases "take 2 ?p = [CHR 0x5C, CHR 0x5C]")
      case True
      then obtain u where u: "?p = CHR 0x5C # CHR 0x5C # u"
        by (cases ?p; cases "tl ?p") auto
      have "dr = ?p \<or> (\<exists>j. dr = take (Suc (Suc j)) ?p)"
      proof -
        define start :: nat where "start = (if upper (take 8 ?p) =
            [CHR 0x5C, CHR 0x5C, CHR ''?'', CHR 0x5C] @ ''UNC'' @ [CHR 0x5C] then 8 else 2)"
        have sr': "(case find_sep CHR 0x5C start ?p of None \<Rightarrow> (?p, [], [])
            | Some i \<Rightarrow> (case find_sep CHR 0x5C (i + 1) ?p of None \<Rightarrow> (?p, [], [])
                | Some j \<Rightarrow> (take j ?p, take 1 (drop j ?p), drop (j + 1) ?p))) = (dr, rt, rest)"
          unfolding sr [symmetric] split_root_def Let_def start_def
          by (simp only: sep True if_True simp_thms)
        have "2 \<le> start" by (simp add: start_def)
        with sr' show ?thesis
          by (auto split: option.splits dest!: find_sep_ge)
            (metis Suc_le_D Suc_le_mono le_SucI numeral_2_eq_2 le_trans)
      qed
      then show False using no_unc by (auto simp: u)
    next
      case False
      with sr sep a(1) show False by (auto simp: split_root_def Let_def)
    qed
  qed
  then have colon: "take 1 (drop 1 ?p) = '':''" and dr2: "dr = take 2 ?p"
    using sr a(1) by (auto simp: split_root_def Let_def split: if_splits)
  then obtain d v where p: "?p = d # CHR '':'' # v" by (cases ?p; cases "tl ?p") auto
  from not_unc p have d: "d \<noteq> CHR 0x5C" by simp
  have "take 1 v = [CHR 0x5C]"
  proof (rule ccontr)
    assume "take 1 v \<noteq> [CHR 0x5C]"
    with p d have "split_root ?p = ([d, CHR '':''], [], v)"
      by (simp add: split_root_def Let_def)
    with d have "wp_root (pure_windows_path s) = []" by (simp add: pure_windows_path_def Let_def)
    with a(2) show False by simp
  qed
  then obtain w where v: "v = CHR 0x5C # w" by (cases v) auto
  have "split_root ?p = ([d, CHR '':''], [CHR 0x5C], w)"
    using p v d by (simp add: split_root_def Let_def)
  then have "pure_windows_path s = \<lparr>wp_drive = [d, CHR '':''], wp_root = [CHR 0x5C],
       wp_tail = filter (\<lambda>x. x \<noteq> [] \<and> x \<noteq> ''.'') (split_on CHR 0x5C w)\<rparr>"
    by (simp add: pure_windows_path_def Let_def)
  from that [OF _ d this t] p v show ?thesis by simp
qed

lemma local_ray_normal:
  assumes "local_ray_path s"
  defines "t \<equiv> wp_text (pure_windows_path s)"
  shows "local_ray_path t \<and> pure_windows_path t = pure_windows_path s \<and> t \<noteq> [] \<and>
    length t \<le> length s \<and> set t \<subseteq> set (backslashes s)"
proof -
  obtain d rest where p: "backslashes s = d # CHR '':'' # CHR 0x5C # rest" "d \<noteq> CHR 0x5C"
    and w: "pure_windows_path s = \<lparr>wp_drive = [d, CHR '':''], wp_root = [CHR 0x5C],
       wp_tail = filter (\<lambda>x. x \<noteq> [] \<and> x \<noteq> ''.'') (split_on CHR 0x5C rest)\<rparr>"
    and ne: "wp_tail (pure_windows_path s) \<noteq> []"
    using assms(1) by (rule local_ray_shape)
  let ?tail = "filter (\<lambda>x. x \<noteq> [] \<and> x \<noteq> ''.'') (split_on CHR 0x5C rest)"
  have ne': "?tail \<noteq> []" using ne w by simp
  have t: "t = d # CHR '':'' # CHR 0x5C # join [CHR 0x5C] ?tail"
    by (simp add: t_def wp_text_def wp_anchor_def w)
  have sub: "set (join [CHR 0x5C] ?tail) \<subseteq> insert (CHR 0x5C) (set rest)"
    using join_chars [of "CHR 0x5C" ?tail] split_on_chars [of _ "CHR 0x5C" rest] by auto
  then have chars: "set t \<subseteq> set (backslashes s)" using p by (auto simp: t)
  then have norm: "backslashes t = t"
    using backslashes_no_slash [of s] by (intro backslashes_idem) auto
  have "Suc (length (join [CHR 0x5C] ?tail)) \<le> Suc (length rest)"
    unfolding join_size [OF ne'] split_on_sizes [of "CHR 0x5C" rest, symmetric] by (rule sum_filter_le)
  then have len: "length t \<le> length s"
    using arg_cong [OF p(1), of length] by (simp add: t backslashes_def)
  have again: "split_on CHR 0x5C (join [CHR 0x5C] ?tail) = ?tail"
    using ne' by (intro split_on_join) (auto simp: list_all_iff dest: split_on_no_sep)
  have "split_root t = ([d, CHR '':''], [CHR 0x5C], join [CHR 0x5C] ?tail)"
    using p(2) by (simp add: split_root_def Let_def t)
  then have same: "pure_windows_path t = pure_windows_path s"
    by (simp add: pure_windows_path_def [of t] norm again Let_def w)
  obtain e u where e: "casefold t = e # u" "e \<noteq> CHR 0x5C"
    using p(2) by (simp add: t casefold_def casefold_char_backslash)
  have "\<not> list_ex (\<lambda>pre. starts_with pre (casefold t)) forbidden_prefixes"
    using e(2) by (simp add: e(1) forbidden_prefixes_def)
  with assms(1) have "local_ray_path t"
    by (simp add: local_ray_path_def Let_def same norm)
  with same chars len t show ?thesis by simp
qed

section \<open>What the validators accept\<close>

definition text_ok :: "nat \<Rightarrow> nat \<Rightarrow> string \<Rightarrow> bool" where
  "text_ok minimum maximum s \<longleftrightarrow> minimum \<le> length s \<and> length s \<le> maximum \<and> list_all (\<lambda>c. 32 \<le> ord c) s"

definition address_ok :: "string \<Rightarrow> bool" where
  "address_ok s \<longleftrightarrow> text_ok 1 253 s \<and>
     (ip_address (strip_dot s) \<noteq> None \<or> list_all host_label (split_on CHR ''.'' (strip_dot s)))"

definition executable_ok :: "string \<Rightarrow> bool" where
  "executable_ok s \<longleftrightarrow> s = [] \<or> text_ok 0 32767 s \<and> local_ray_path s \<and> wp_text (pure_windows_path s) = s"

named_theorems validator_iffs

lemma cfg_string_iff [validator_iffs]:
  "cfg_string v p a b = Inr s \<longleftrightarrow> v = JStr s \<and> text_ok a b s"
proof -
  have "list_ex (\<lambda>c. ord c < 32) t \<longleftrightarrow> \<not> list_all (\<lambda>c. 32 \<le> ord c) t" for t
    by (induction t) auto
  then show ?thesis by (cases v) (auto simp: cfg_string_def text_ok_def)
qed

lemma cfg_boolean_iff [validator_iffs]: "cfg_boolean v p = Inr b \<longleftrightarrow> v = JBool b"
  by (cases v) (auto simp: cfg_boolean_def)

lemma cfg_integer_iff [validator_iffs]:
  "cfg_integer v p a b = Inr n \<longleftrightarrow> v = JInt n \<and> a \<le> n \<and> n \<le> b"
  by (cases v) (auto simp: cfg_integer_def)

lemma cfg_choice_iff [validator_iffs]:
  "cfg_choice v p cs = Inr s \<longleftrightarrow> v = JStr s \<and> text_ok 0 64 s \<and> s \<in> set cs"
  by (auto simp: cfg_choice_def bindE_eq_Inr validator_iffs split: if_splits)

lemma cfg_address_iff [validator_iffs]:
  "cfg_address v p allow = Inr s \<longleftrightarrow> v = JStr s \<and> (s = [] \<and> allow \<or> address_ok s)"
proof (cases "cfg_string v p 0 253")
  case (Inl e)
  then have "\<not> (v = JStr s \<and> text_ok 0 253 s)" using cfg_string_iff [of v p 0 253 s] by auto
  then have "\<not> (v = JStr s \<and> (s = [] \<and> allow \<or> address_ok s))"
    by (auto simp: text_ok_def address_ok_def)
  with Inl show ?thesis by (simp add: cfg_address_def)
next
  case (Inr t)
  then have v: "v = JStr t" "text_ok 0 253 t" by (simp_all add: cfg_string_iff)
  have labels: "list_ex (\<lambda>l. \<not> host_label l) ls \<longleftrightarrow> \<not> list_all host_label ls" for ls
    by (induction ls) auto
  show ?thesis
  proof (cases "t = []")
    case True
    with Inr v show ?thesis by (auto simp: cfg_address_def address_ok_def text_ok_def)
  next
    case False
    with v(2) have "text_ok 1 253 t" by (cases t) (simp_all add: text_ok_def)
    with False Inr v(1) show ?thesis by (auto simp: cfg_address_def address_ok_def labels)
  qed
qed

lemma text_ok_backslashes: "text_ok a b s \<Longrightarrow> c \<in> set (backslashes s) \<Longrightarrow> 32 \<le> ord c"
  by (auto simp: text_ok_def list_all_iff backslashes_def ord_def)

lemma ray_executable_accepted:
  assumes "ray_executable_path v p = Inr e"
  shows "executable_ok e"
proof -
  obtain s where s: "text_ok 0 32767 s" "s = [] \<and> e = [] \<or> local_ray_path s \<and> e = wp_text (pure_windows_path s)"
    using assms by (auto simp: ray_executable_path_def bindE_eq_Inr validator_iffs split: if_splits)
  show ?thesis
  proof (cases "local_ray_path s")
    case True
    from local_ray_normal [OF True] s text_ok_backslashes [OF s(1)] show ?thesis
      by (auto simp: executable_ok_def text_ok_def list_all_iff subset_iff)
  qed (use s in \<open>simp add: executable_ok_def\<close>)
qed

lemma ray_executable_again: "executable_ok e \<Longrightarrow> ray_executable_path (JStr e) p = Inr e"
  by (auto simp: executable_ok_def ray_executable_path_def bindE_eq_Inr validator_iffs text_ok_def)

definition node_ok :: "config_node \<Rightarrow> bool" where
  "node_ok n \<longleftrightarrow> text_ok 1 64 (cn_node_id n) \<and> config_identifier (cn_node_id n) \<and> address_ok (cn_address n) \<and>
     cn_role n \<in> {''head'', ''observer'', ''worker''} \<and> 0 \<le> cn_cpu_count n \<and> cn_cpu_count n \<le> 65536"

definition app_ok :: "app_section \<Rightarrow> bool" where
  "app_ok a \<longleftrightarrow>
     text_ok 1 64 (ca_name a) \<and>
        ca_environment a \<in> {''development'', ''installed'', ''portable''} \<and>
        ca_log_level a \<in> {''debug'', ''info'', ''warning'', ''error''}"

definition ui_ok :: "ui_section \<Rightarrow> bool" where
  "ui_ok u \<longleftrightarrow>
     cu_theme u \<in> {''dark'', ''light'', ''system''} \<and> 50 \<le> cu_scale_percent u \<and>
        cu_scale_percent u \<le> 400 \<and> text_ok 0 16 (cu_locale u) \<and> (cu_locale u = [] \<or> locale_tag (cu_locale u))"

definition monitoring_ok :: "monitoring_section \<Rightarrow> bool" where
  "monitoring_ok mn \<longleftrightarrow>
     250 \<le> cm_interval_ms mn \<and> cm_interval_ms mn \<le> 60000 \<and>
        500 \<le> cm_stale_after_ms mn \<and> cm_stale_after_ms mn \<le> 300000 \<and> 1 \<le> cm_history_samples mn \<and>
        cm_history_samples mn \<le> 100000 \<and> 2 * cm_interval_ms mn \<le> cm_stale_after_ms mn"

definition nodes_ok :: "nodes_section \<Rightarrow> bool" where
  "nodes_ok n \<longleftrightarrow>
     length (ns_items n) \<le> 4096 \<and> list_all node_ok (ns_items n) \<and>
        distinct (folded_ids (ns_items n)) \<and>
        length (filter (\<lambda>n. cn_enabled n \<and> cn_role n = ''head'') (ns_items n)) \<le> 1 \<and>
        text_ok 0 64 (ns_local_node_id n) \<and>
        (ns_local_node_id n = [] \<or> fold_text (ns_local_node_id n) \<in> set (folded_ids (ns_items n)))"

definition rdp_ok :: "rdp_section \<Rightarrow> bool" where
  "rdp_ok d \<longleftrightarrow>
     text_ok 0 256 (rs_credential_reference d) \<and>
        (rs_credential_reference d = [] \<or> credential_reference_is_valid (rs_credential_reference d)) \<and>
        1 \<le> rs_port d \<and> rs_port d \<le> 65535 \<and> 1 \<le> rs_connect_timeout d \<and> rs_connect_timeout d \<le> 300"

definition cleanup_ok :: "cleanup_section \<Rightarrow> bool" where
  "cleanup_ok cl \<longleftrightarrow>
     0 \<le> cs_graceful_timeout cl \<and> cs_graceful_timeout cl \<le> cs_force_timeout cl \<and>
        cs_force_timeout cl \<le> 3600 \<and> 1 \<le> cs_max_processes cl \<and> cs_max_processes cl \<le> 100000"

definition ray_ok :: "ray_section \<Rightarrow> bool" where
  "ray_ok r \<longleftrightarrow>
     executable_ok (ry_executable_path r) \<and>
        (ry_head_address r = [] \<and> \<not> ry_enabled r \<or> address_ok (ry_head_address r)) \<and>
        1 \<le> ry_client_port r \<and> ry_client_port r \<le> 65535 \<and> 1 \<le> ry_dashboard_port r \<and>
        ry_dashboard_port r \<le> 65535 \<and> ry_client_port r \<noteq> ry_dashboard_port r \<and> 0 \<le> ry_cpu_count r \<and>
        ry_cpu_count r \<le> 65536 \<and> 1 \<le> ry_startup_timeout r \<and> ry_startup_timeout r \<le> 3600"

definition remote_ok :: "remote_section \<Rightarrow> bool" where
  "remote_ok m \<longleftrightarrow>
     address_ok (rm_bind_host m) \<and> (rm_enabled m \<longrightarrow> bind_host_loopback (rm_bind_host m)) \<and>
        1 \<le> rm_port m \<and> rm_port m \<le> 65535 \<and> 1024 \<le> rm_max_request_bytes m \<and>
        rm_max_request_bytes m \<le> 16777216 \<and> 1 \<le> rm_request_timeout m \<and> rm_request_timeout m \<le> 300"

definition update_ok :: "update_section \<Rightarrow> bool" where
  "update_ok p \<longleftrightarrow>
     up_channel p \<in> {''beta'', ''stable''} \<and> text_ok 0 2048 (up_manifest_url p) \<and>
        (if up_manifest_url p = [] then \<not> up_enabled p else https_url (up_manifest_url p)) \<and>
        1 \<le> up_check_interval_hours p \<and> up_check_interval_hours p \<le> 720"

definition config_ok :: "config \<Rightarrow> bool" where
  "config_ok c \<longleftrightarrow> cfg_version c = 1 \<and>
     app_ok (cfg_app c) \<and>
     ui_ok (cfg_ui c) \<and>
     monitoring_ok (cfg_monitoring c) \<and>
     nodes_ok (cfg_nodes c) \<and>
     rdp_ok (cfg_rdp c) \<and>
     cleanup_ok (cfg_cleanup c) \<and>
     ray_ok (cfg_ray c) \<and>
     remote_ok (cfg_remote c) \<and>
     update_ok (cfg_update c)"

lemma parse_node_ok:
  assumes "parse_node i v = Inr n"
  shows "node_ok n"
proof -
  let ?path = "''nodes.items['' @ str_int (int i) @ '']''"
  obtain data where d: "cfg_mapping v ?path = Inr data"
    using assms by (auto simp: parse_node_def Let_def bindE_eq_Inr)
  with assms obtain x y where "map_of data ''node_id'' = Some x" "map_of data ''address'' = Some y"
    by (cases "map_of data ''node_id''"; cases "map_of data ''address''")
      (auto simp: parse_node_def Let_def bindE_eq_Inr)
  with assms d show ?thesis
    by (simp add: parse_node_def Let_def bindE_eq_Inr validator_iffs node_ok_def split: if_splits) auto
qed

lemma parse_node_list_ok: "parse_node_list i vs = Inr ns \<Longrightarrow> list_all node_ok ns \<and> length ns = length vs"
  by (induction vs arbitrary: i ns) (auto simp: bindE_eq_Inr dest: parse_node_ok)

lemma length_card_iff: "length xs = card (set xs) \<longleftrightarrow> distinct xs"
  by (metis card_distinct distinct_card)

lemma raise_if_iff: "(if b then Inl e else m) = Inr y \<longleftrightarrow> \<not> b \<and> m = Inr y"
  by simp

lemma case_array_iff:
  "(case v of JArr xs \<Rightarrow> f xs | _ \<Rightarrow> Inl e) = Inr y \<longleftrightarrow> (\<exists>xs. v = JArr xs \<and> f xs = Inr y)"
  by (cases v) auto

lemmas accept_iffs = bindE_eq_Inr raise_if_iff case_array_iff validator_iffs

lemma parse_app_ok: "parse_app r = Inr a \<Longrightarrow> app_ok a"
  unfolding parse_app_def accept_iffs
  by (elim exE conjE) (clarsimp simp: app_ok_def)

lemma parse_ui_ok: "parse_ui r = Inr u \<Longrightarrow> ui_ok u"
  unfolding parse_ui_def accept_iffs
  by (elim exE conjE) (clarsimp simp: ui_ok_def)

lemma parse_monitoring_ok: "parse_monitoring r = Inr mn \<Longrightarrow> monitoring_ok mn"
  unfolding parse_monitoring_def accept_iffs
  by (elim exE conjE) (clarsimp simp: monitoring_ok_def)

lemma parse_nodes_ok: "parse_nodes r = Inr n \<Longrightarrow> nodes_ok n"
  unfolding parse_nodes_def accept_iffs
  by (elim exE conjE) (clarsimp simp: nodes_ok_def length_card_iff dest!: parse_node_list_ok)

lemma parse_rdp_ok: "parse_rdp r = Inr d \<Longrightarrow> rdp_ok d"
  unfolding parse_rdp_def accept_iffs
  by (elim exE conjE) (clarsimp simp: rdp_ok_def)

lemma parse_cleanup_ok: "parse_cleanup r = Inr cl \<Longrightarrow> cleanup_ok cl"
  unfolding parse_cleanup_def accept_iffs
  by (elim exE conjE) (clarsimp simp: cleanup_ok_def)

lemma parse_ray_ok: "parse_ray r = Inr y \<Longrightarrow> ray_ok y"
  unfolding parse_ray_def accept_iffs
  by (elim exE conjE) (auto simp: ray_ok_def dest!: ray_executable_accepted)

lemma parse_remote_ok: "parse_remote r = Inr m \<Longrightarrow> remote_ok m"
  unfolding parse_remote_def accept_iffs
  by (elim exE conjE) (clarsimp simp: remote_ok_def)

lemma parse_update_ok: "parse_update r = Inr p \<Longrightarrow> update_ok p"
  unfolding parse_update_def accept_iffs
  by (elim exE conjE) (auto simp: update_ok_def)

lemmas parse_sections_ok = parse_app_ok parse_ui_ok parse_monitoring_ok parse_nodes_ok parse_rdp_ok
  parse_cleanup_ok parse_ray_ok parse_remote_ok parse_update_ok

lemma config_accepted:
  assumes "config_from_dict v = Inr c"
  shows "config_ok c"
  using assms
  by (auto simp: config_from_dict_def bindE_eq_Inr validator_iffs config_ok_def intro: parse_sections_ok)

section \<open>Reading the public form back\<close>

named_theorems read_back

lemma cfg_known_same [read_back]: "map fst data = allowed \<Longrightarrow> cfg_known data allowed p = Inr ()"
  by (auto simp: cfg_known_def filter_empty_conv)

lemma cfg_section_found [read_back]: "map_of r s = Some (JObj kvs) \<Longrightarrow> cfg_section r s = Inr kvs"
  by (simp add: cfg_section_def cfg_mapping_def)

lemma cfg_string_again [read_back]: "text_ok a b s \<Longrightarrow> cfg_string (JStr s) p a b = Inr s"
  by (simp add: cfg_string_iff)

lemma cfg_boolean_again [read_back]: "cfg_boolean (JBool b) p = Inr b"
  by (simp add: cfg_boolean_iff)

lemma cfg_integer_again [read_back]: "a \<le> n \<Longrightarrow> n \<le> b \<Longrightarrow> cfg_integer (JInt n) p a b = Inr n"
  by (simp add: cfg_integer_iff)

definition choices_ok :: "string list \<Rightarrow> bool" where
  "choices_ok cs \<longleftrightarrow> list_all (text_ok 0 64) cs"

lemma cfg_choice_again [read_back]:
  "s \<in> set cs \<Longrightarrow> choices_ok cs \<Longrightarrow> cfg_choice (JStr s) p cs = Inr s"
  by (simp add: cfg_choice_iff choices_ok_def list_all_iff)

lemma cfg_address_again [read_back]:
  "address_ok s \<Longrightarrow> cfg_address (JStr s) p allow = Inr s"
  by (simp add: cfg_address_iff)

lemma default_choices:
  "choices_ok [''development'', ''installed'', ''portable'']"
  "choices_ok [''debug'', ''info'', ''warning'', ''error'']"
  "choices_ok [''dark'', ''light'', ''system'']"
  "choices_ok [''head'', ''observer'', ''worker'']"
  "choices_ok [''beta'', ''stable'']"
  by (simp_all add: choices_ok_def text_ok_def ord_def)

lemma read_app:
  assumes "app_ok a" and "map_of r ''app'' = Some (JObj [(''name'', JStr (ca_name a)),
    (''environment'', JStr (ca_environment a)), (''start_minimized'', JBool (ca_start_minimized a)),
    (''log_level'', JStr (ca_log_level a))])"
  shows "parse_app r = Inr a"
  using assms by (simp add: parse_app_def read_back cfg_get_def default_choices app_ok_def)

lemma read_ui:
  assumes "ui_ok u" and "map_of r ''ui'' = Some (JObj [(''theme'', JStr (cu_theme u)),
    (''scale_percent'', JInt (cu_scale_percent u)), (''compact_view'', JBool (cu_compact_view u)),
    (''locale'', JStr (cu_locale u))])"
  shows "parse_ui r = Inr u"
  using assms by (simp add: parse_ui_def read_back cfg_get_def default_choices ui_ok_def)

lemma read_monitoring:
  assumes "monitoring_ok mn" and "map_of r ''monitoring'' = Some (JObj
    [(''enabled'', JBool (cm_monitoring_on mn)), (''interval_ms'', JInt (cm_interval_ms mn)),
     (''stale_after_ms'', JInt (cm_stale_after_ms mn)), (''history_samples'', JInt (cm_history_samples mn))])"
  shows "parse_monitoring r = Inr mn"
  using assms by (simp add: parse_monitoring_def read_back cfg_get_def monitoring_ok_def)

lemma read_node: "node_ok n \<Longrightarrow> parse_node i (node_json n) = Inr n"
  by (simp add: parse_node_def node_json_def cfg_mapping_def read_back cfg_get_def default_choices node_ok_def)

lemma read_node_list: "list_all node_ok ns \<Longrightarrow> parse_node_list i (map node_json ns) = Inr ns"
  by (induction ns arbitrary: i) (simp_all add: read_node)

lemma read_nodes:
  assumes "nodes_ok n" and "map_of r ''nodes'' = Some (JObj [(''items'', JArr (map node_json (ns_items n))),
    (''local_node_id'', JStr (ns_local_node_id n))])"
  shows "parse_nodes r = Inr n"
  using assms by (simp add: parse_nodes_def read_back cfg_get_def nodes_ok_def read_node_list
      distinct_card)

lemma read_rdp:
  assumes "rdp_ok d" and "map_of r ''rdp'' = Some (JObj [(''enabled'', JBool (rs_enabled d)),
    (''port'', JInt (rs_port d)), (''connect_timeout_seconds'', JInt (rs_connect_timeout d)),
    (''credential_reference'', JStr (rs_credential_reference d))])"
  shows "parse_rdp r = Inr d"
  using assms by (simp add: parse_rdp_def read_back cfg_get_def rdp_ok_def)

lemma read_cleanup:
  assumes "cleanup_ok cl" and "map_of r ''cleanup'' = Some (JObj [(''enabled'', JBool (cs_enabled cl)),
    (''graceful_timeout_seconds'', JInt (cs_graceful_timeout cl)),
    (''force_timeout_seconds'', JInt (cs_force_timeout cl)), (''max_processes'', JInt (cs_max_processes cl))])"
  shows "parse_cleanup r = Inr cl"
  using assms by (simp add: parse_cleanup_def read_back cfg_get_def cleanup_ok_def)

lemma read_ray:
  assumes "ray_ok y" and "map_of r ''ray'' = Some (JObj [(''enabled'', JBool (ry_enabled y)),
    (''executable_path'', JStr (ry_executable_path y)), (''head_address'', JStr (ry_head_address y)),
    (''client_port'', JInt (ry_client_port y)), (''dashboard_port'', JInt (ry_dashboard_port y)),
    (''cpu_count'', JInt (ry_cpu_count y)), (''startup_timeout_seconds'', JInt (ry_startup_timeout y))])"
  shows "parse_ray r = Inr y"
proof -
  have "cfg_address (JStr (ry_head_address y)) ''ray.head_address'' True = Inr (ry_head_address y)"
    using assms(1) by (auto simp: ray_ok_def cfg_address_iff)
  with assms show ?thesis
    by (simp add: parse_ray_def read_back cfg_get_def ray_ok_def ray_executable_again)
       (auto simp: address_ok_def text_ok_def)
qed

lemma read_remote:
  assumes "remote_ok m" and "map_of r ''remote'' = Some (JObj [(''enabled'', JBool (rm_enabled m)),
    (''bind_host'', JStr (rm_bind_host m)), (''port'', JInt (rm_port m)),
    (''max_request_bytes'', JInt (rm_max_request_bytes m)),
    (''request_timeout_seconds'', JInt (rm_request_timeout m))])"
  shows "parse_remote r = Inr m"
  using assms by (simp add: parse_remote_def read_back cfg_get_def remote_ok_def)

lemma read_update:
  assumes "update_ok p" and "map_of r ''update'' = Some (JObj [(''enabled'', JBool (up_enabled p)),
    (''channel'', JStr (up_channel p)), (''manifest_url'', JStr (up_manifest_url p)),
    (''check_interval_hours'', JInt (up_check_interval_hours p))])"
  shows "parse_update r = Inr p"
  using assms by (simp add: parse_update_def read_back cfg_get_def default_choices update_ok_def split: if_splits)

lemma read_config:
  assumes "config_ok c"
  shows "config_from_dict (config_json (ry_executable_path (cfg_ray c)) c) = Inr c"
proof -
  obtain r where j: "config_json (ry_executable_path (cfg_ray c)) c = JObj r" by (simp add: config_json_def Let_def)
  have r: "r = (case config_json (ry_executable_path (cfg_ray c)) c of JObj kvs \<Rightarrow> kvs | _ \<Rightarrow> [])"
    by (simp add: j)
  note d = r [unfolded config_json_def Let_def json.case]
  have "cfg_known r config_keys [] = Inr ()" by (rule cfg_known_same) (simp add: d config_keys_def)
  moreover have "cfg_integer (cfg_get r ''schema_version'' (JInt 1)) ''schema_version'' 1 1 = Inr (cfg_version c)"
    using assms by (simp add: d cfg_get_def read_back config_ok_def)
  moreover have "parse_app r = Inr (cfg_app c)"
    using assms by (intro read_app) (simp_all add: config_ok_def d)
  moreover have "parse_ui r = Inr (cfg_ui c)"
    using assms by (intro read_ui) (simp_all add: config_ok_def d)
  moreover have "parse_monitoring r = Inr (cfg_monitoring c)"
    using assms by (intro read_monitoring) (simp_all add: config_ok_def d)
  moreover have "parse_nodes r = Inr (cfg_nodes c)"
    using assms by (intro read_nodes) (simp_all add: config_ok_def d)
  moreover have "parse_rdp r = Inr (cfg_rdp c)"
    using assms by (intro read_rdp) (simp_all add: config_ok_def d)
  moreover have "parse_cleanup r = Inr (cfg_cleanup c)"
    using assms by (intro read_cleanup) (simp_all add: config_ok_def d)
  moreover have "parse_ray r = Inr (cfg_ray c)"
    using assms by (intro read_ray) (simp_all add: config_ok_def d)
  moreover have "parse_remote r = Inr (cfg_remote c)"
    using assms by (intro read_remote) (simp_all add: config_ok_def d)
  moreover have "parse_update r = Inr (cfg_update c)"
    using assms by (intro read_update) (simp_all add: config_ok_def d)
  ultimately show ?thesis by (simp add: j config_from_dict_def cfg_mapping_def)
qed

section \<open>Properties\<close>

text \<open>
  A configuration survives saving. Whatever JSON object a configuration was read from, its public
  form can be produced, and reading that form gives the same configuration back, with the
  executable path already in its normal form.
\<close>

theorem config_roundtrip:
  assumes "config_from_dict v = Inr c"
  shows "\<exists>d. config_to_dict c = Inr d \<and> config_from_dict d = Inr c"
proof -
  have ok: "config_ok c" using assms by (rule config_accepted)
  then have "executable_ok (ry_executable_path (cfg_ray c))" by (simp add: config_ok_def ray_ok_def)
  with read_config [OF ok] show ?thesis by (simp add: config_to_dict_def ray_executable_again)
qed

text \<open>
  C34: the parser accepts exactly the valid configurations. A configuration is the result of reading
  some JSON value if and only if it meets the declarative constraints: ranges, choices, well-formed
  addresses and references, at most one enabled head, unique node identifiers, a local node that
  exists, a stale limit of at least two intervals, different Ray ports, an enabled remote service
  bound to a loopback address only.
\<close>

theorem config_accepts_exactly:
  "(\<exists>v. config_from_dict v = Inr c) \<longleftrightarrow> config_ok c"
  using config_accepted read_config by blast

text \<open>
  Unknown keys are refused. An object with a top-level key outside the schema is rejected, and the
  error names the least such key.
\<close>

theorem config_rejects_unknown:
  assumes "k \<in> fst ` set kvs" and "k \<notin> set config_keys"
  shows "config_from_dict (JObj kvs) = Inl (ConfigValidation (Min {k \<in> fst ` set kvs. k \<notin> set config_keys}))"
proof -
  let ?u = "filter (\<lambda>k. k \<notin> set config_keys) (map fst kvs)"
  have k: "k \<in> set ?u" using assms by auto
  then obtain m ms where m: "sort ?u = m # ms" by (metis list.set_cases set_sort)
  have "sorted (m # ms)" by (metis m sorted_sort)
  moreover have "set (m # ms) = set ?u" by (metis m set_sort)
  moreover have "set ?u = {k \<in> fst ` set kvs. k \<notin> set config_keys}" by auto
  ultimately have "Min {k \<in> fst ` set kvs. k \<notin> set config_keys} = m"
    by (intro Min_eqI) auto
  with m show ?thesis by (simp add: config_from_dict_def cfg_mapping_def cfg_known_def cfg_path_def)
qed

section \<open>The properties at a concrete configuration\<close>

definition demo_json :: json where
  "demo_json = JObj [(''nodes'', JObj [(''items'', JArr [JObj [(''node_id'', JStr ''pc1''),
      (''address'', JStr ''10.0.0.7''), (''role'', JStr ''head'')]]), (''local_node_id'', JStr ''PC1'')]),
    (''ray'', JObj [(''enabled'', JBool True), (''head_address'', JStr ''pc1.lan''),
      (''executable_path'', JStr (''C:/ray/'' @ ''./Ray.exe''))])]"

definition demo_config :: config where
  "demo_config = default_config
     \<lparr>cfg_nodes := \<lparr>ns_items = [\<lparr>cn_node_id = ''pc1'', cn_address = ''10.0.0.7'', cn_role = ''head'',
        cn_enabled = True, cn_cpu_count = 0\<rparr>], ns_local_node_id = ''PC1''\<rparr>,
      cfg_ray := default_ray\<lparr>ry_enabled := True, ry_head_address := ''pc1.lan'',
        ry_executable_path := ''C:'' @ CHR 0x5C # ''ray'' @ CHR 0x5C # ''Ray.exe''\<rparr>\<rparr>"

lemma cfg_known_nil [read_back]: "cfg_known [] allowed p = Inr ()"
  by (simp add: cfg_known_def)

lemma default_text [read_back]: "text_ok 0 n []"
  by (simp add: text_ok_def)

lemma cfg_address_empty [read_back]: "cfg_address (JStr []) p True = Inr []"
  by (simp add: cfg_address_iff)

lemma missing_sections:
  "map_of r ''app'' = None \<Longrightarrow> parse_app r = Inr default_app"
  "map_of r ''ui'' = None \<Longrightarrow> parse_ui r = Inr default_ui"
  "map_of r ''monitoring'' = None \<Longrightarrow> parse_monitoring r = Inr default_monitoring"
  "map_of r ''nodes'' = None \<Longrightarrow> parse_nodes r = Inr default_nodes"
  "map_of r ''rdp'' = None \<Longrightarrow> parse_rdp r = Inr default_rdp"
  "map_of r ''cleanup'' = None \<Longrightarrow> parse_cleanup r = Inr default_cleanup"
  "map_of r ''ray'' = None \<Longrightarrow> parse_ray r = Inr default_ray"
  "map_of r ''remote'' = None \<Longrightarrow> address_ok ''127.0.0.1'' \<Longrightarrow> parse_remote r = Inr default_remote"
  "map_of r ''update'' = None \<Longrightarrow> parse_update r = Inr default_update"
  by (simp_all add: parse_app_def parse_ui_def parse_monitoring_def parse_nodes_def parse_rdp_def
      parse_cleanup_def parse_ray_def parse_remote_def parse_update_def cfg_section_def cfg_get_def
      read_back default_choices default_app_def default_ui_def default_monitoring_def
      default_nodes_def default_rdp_def default_cleanup_def default_ray_def default_remote_def
      default_update_def folded_ids_def ray_executable_again executable_ok_def)
     (simp add: cfg_string_again text_ok_def ord_def)

lemma demo_config_read: "config_from_dict demo_json = Inr demo_config"
proof -
  let ?exe = "''C:/ray/./Ray.exe''"
  have exe_ok: "local_ray_path ?exe" by code_simp
  have exe_text: "wp_text (pure_windows_path ?exe) = ''C:'' @ CHR 0x5C # ''ray'' @ CHR 0x5C # ''Ray.exe''" by code_simp
  have "map parse_octet (split_on CHR ''.'' ''10.0.0.7'') = [Some 10, Some 0, Some 0, Some 7]"
    "map parse_octet (split_on CHR ''.'' ''127.0.0.1'') = [Some 127, Some 0, Some 0, Some 1]" by code_simp+
  then have a: "ip_address ''10.0.0.7'' \<noteq> None" "ip_address ''127.0.0.1'' \<noteq> None"
    by (simp_all only: ip_address_def parse_ipv4_def) simp_all
  have b: "host_label ''pc1''" "host_label ''lan''" "config_identifier ''pc1''"
    "split_on CHR ''.'' ''pc1.lan'' = [''pc1'', ''lan'']" by code_simp+
  have fold: "fold_text ''PC1'' = fold_text ''pc1''" by code_simp
  have "ray_executable_path (JStr ?exe) ''ray.executable_path'' =
      Inr (''C:'' @ CHR 0x5C # ''ray'' @ CHR 0x5C # ''Ray.exe'')"
    using exe_ok exe_text by (simp add: ray_executable_path_def cfg_string_def ord_def)
  moreover have "address_ok ''10.0.0.7''" "address_ok ''127.0.0.1''" "address_ok ''pc1.lan''"
    using a b by (simp_all add: address_ok_def strip_dot_def text_ok_def ord_def)
  ultimately show ?thesis
    using b fold
    by (simp add: config_from_dict_def demo_json_def cfg_mapping_def cfg_known_def config_keys_def
        missing_sections)
       (simp add: parse_nodes_def parse_node_def parse_ray_def Let_def cfg_section_def cfg_mapping_def
        cfg_known_def cfg_get_def read_back default_choices default_ray_def folded_ids_def ord_def text_ok_def demo_config_def default_config_def)
qed

theorem config_roundtrip_witness:
  "\<exists>d. config_to_dict demo_config = Inr d \<and> config_from_dict d = Inr demo_config"
  by (rule config_roundtrip [OF demo_config_read])

theorem config_rejects_unknown_witness:
  "config_from_dict (JObj [(''zeta'', JNull), (''app'', JNull), (''extra'', JNull)]) =
     Inl (ConfigValidation ''extra'')"
proof -
  have "{k \<in> fst ` set [(''zeta'', JNull), (''app'', JNull), (''extra'', JNull)]. k \<notin> set config_keys} =
      {''zeta'', ''extra''}"
    by (auto simp: config_keys_def)
  moreover have "Min {''zeta'', ''extra''} = ''extra''" by code_simp
  ultimately show ?thesis
    using config_rejects_unknown [of "''zeta''" "[(''zeta'', JNull), (''app'', JNull), (''extra'', JNull)]"]
    by (simp add: config_keys_def)
qed

end
