(* ===== verification/UiApp.thy ===== *)
theory UiApp
  imports Scheduler
begin

text \<open>
  The class \<open>UiApplication\<close> of \<open>src/rcm/ui/app.py\<close>, with the thread guard of \<open>src/rcm/desktop.py\<close>: the
  state of the desktop, its event loop through the scheduler, and the dispatch of commands.

  The host, the command handler and the quit handler are parameters acting on the world \<open>'w\<close>; they
  do not call back into the application before they return. A computation acts on the scheduler,
  the fields of the application and the world.
\<close>

section \<open>State and environment\<close>

record ui_app =
  ua_state :: render_state
  ua_started :: bool
  ua_guard :: int

type_synonym 'w ui_world = "ui_event scheduler \<times> ui_app \<times> 'w"

type_synonym ('w, 'a) ui_eff = "('w ui_world, pyexn, 'a) eff"

text \<open>What a command handler may return: a result, \<open>None\<close>, or something else.\<close>

datatype handler_return = HrResult command_result | HrNone | HrOther

record 'w ui_env =
  he_port :: "'w schedule_port"
  he_render :: "render_state \<Rightarrow> ('w, pyexn, unit) eff"
  he_set_visibility :: "ui_visibility \<Rightarrow> ('w, pyexn, unit) eff"
  he_bind :: "('w, pyexn, unit) eff"
  he_handler :: "ui_command \<Rightarrow> ('w, pyexn, handler_return) eff"
  he_quit :: "bool \<Rightarrow> ('w, pyexn, unit) eff"
  he_thread :: "'w \<Rightarrow> int"

definition on_world :: "('w, pyexn, 'a) eff \<Rightarrow> ('w, 'a) ui_eff" where
  "on_world m \<sigma> = (case \<sigma> of (sc, app, w) \<Rightarrow> case m w of (r, w') \<Rightarrow> (r, sc, app, w'))"

definition on_app_world :: "('w, pyexn, 'a) eff \<Rightarrow> (ui_app \<times> 'w, pyexn, 'a) eff" where
  "on_app_world m x = (case x of (app, w) \<Rightarrow> case m w of (r, w') \<Rightarrow> (r, app, w'))"

definition lift_port :: "'w schedule_port \<Rightarrow> (ui_app \<times> 'w) schedule_port" where
  "lift_port P = \<lparr>sp_call_later = (\<lambda>d. on_app_world (sp_call_later P d)),
     sp_cancel = (\<lambda>t. on_app_world (sp_cancel P t))\<rparr>"

abbreviation ui_port :: "'w ui_env \<Rightarrow> (ui_app \<times> 'w) schedule_port" where
  "ui_port env \<equiv> lift_port (he_port env)"

definition get_ui :: "('w ui_world \<Rightarrow> ('w, 'a) ui_eff) \<Rightarrow> ('w, 'a) ui_eff" where
  "get_ui k \<sigma> = k \<sigma> \<sigma>"

text \<open>\<open>UiThreadGuard.assert_current\<close>\<close>

definition assert_current :: "'w ui_env \<Rightarrow> ('w, unit) ui_eff" where
  "assert_current env \<sigma> =
     (case \<sigma> of (sc, app, w) \<Rightarrow> if he_thread env w \<noteq> ua_guard app then (Inl RuntimeErr, \<sigma>) else (Inr (), \<sigma>))"

text \<open>\<open>self._state = state\<close>, where \<open>state\<close> may have raised.\<close>

definition put_state :: "render_state result \<Rightarrow> ('w, unit) ui_eff" where
  "put_state r \<sigma> =
     (case \<sigma> of (sc, app, w) \<Rightarrow>
        (case r of Inl e \<Rightarrow> (Inl e, \<sigma>) | Inr s \<Rightarrow> (Inr (), sc, app\<lparr>ua_state := s\<rparr>, w)))"

definition ui_evolve :: "(render_state \<Rightarrow> render_state) \<Rightarrow> ('w, unit) ui_eff" where
  "ui_evolve change \<sigma> = put_state (evolve change (ua_state (fst (snd \<sigma>)))) \<sigma>"

definition set_started :: "bool \<Rightarrow> ('w, unit) ui_eff" where
  "set_started b \<sigma> = (case \<sigma> of (sc, app, w) \<Rightarrow> (Inr (), sc, app\<lparr>ua_started := b\<rparr>, w))"

section \<open>Operations\<close>

definition mk_UiApplication ::
    "'w ui_env \<Rightarrow> render_state \<Rightarrow> int option \<Rightarrow> int \<Rightarrow> 'w \<Rightarrow> (ui_event scheduler \<times> ui_app) result \<times> 'w" where
  "mk_UiApplication env initial guard maximum_queue w =
     (case mk_UiScheduler maximum_queue 1000 128 of
        Inl e \<Rightarrow> (Inl e, w)
      | Inr sc \<Rightarrow>
          let identity = (case guard of None \<Rightarrow> he_thread env w | Some g \<Rightarrow> g) in
          (case he_bind env w of
             (Inl e, w') \<Rightarrow> (Inl e, w')
           | (Inr _, w') \<Rightarrow>
               (Inr (sc, \<lparr>ua_state = initial, ua_started = False, ua_guard = identity\<rparr>), w')))"

definition ui_render :: "'w ui_env \<Rightarrow> ('w, unit) ui_eff" where
  "ui_render env =
     andthen (assert_current env) (\<lambda>_. get_ui (\<lambda>\<sigma>. on_world (he_render env (ua_state (fst (snd \<sigma>))))))"

definition ui_consume :: "'w ui_env \<Rightarrow> ui_event \<Rightarrow> ('w, unit) ui_eff" where
  "ui_consume env e =
     andthen (assert_current env) (\<lambda>_.
     andthen (get_ui (\<lambda>(sc, app, w). put_state
       (bindE (reduce_event (ua_state app) e)
         (evolve (\<lambda>s. s\<lparr>rn_queue_depth := int (queue_depth sc),
                        rn_dropped_events := int (eq_dropped (sc_queue sc))\<rparr>))))) (\<lambda>_.
     ui_render env))"

text \<open>The timer callback of the application.\<close>

definition ui_drain :: "'w ui_env \<Rightarrow> ('w, unit) ui_eff" where
  "ui_drain env = scheduler_drain (ui_port env) (ui_consume env)"

definition ui_start :: "'w ui_env \<Rightarrow> bool \<Rightarrow> ('w, unit) ui_eff" where
  "ui_start env minimized =
     (let v = (if minimized then UvMinimized else UvVisible) in
      andthen (assert_current env) (\<lambda>_. get_ui (\<lambda>(sc, app, w).
      if ua_started app then throw RuntimeErr
      else andthen (ui_evolve (\<lambda>s. s\<lparr>rn_lifecycle := LpRunning, rn_visibility := v\<rparr>)) (\<lambda>_.
           andthen (on_world (he_set_visibility env v)) (\<lambda>_.
           andthen (scheduler_set_visibility (ui_port env) v) (\<lambda>_.
           andthen (scheduler_start (ui_port env)) (\<lambda>_.
           andthen (set_started True) (\<lambda>_. ui_render env))))))))"

definition ui_stop :: "'w ui_env \<Rightarrow> bool \<Rightarrow> ('w, unit) ui_eff" where
  "ui_stop env forced =
     andthen (assert_current env) (\<lambda>_. get_ui (\<lambda>(sc, app, w).
     if \<not> ua_started app then ret ()
     else andthen (scheduler_stop (ui_port env)) (\<lambda>_.
          andthen (ui_evolve (\<lambda>s. s\<lparr>rn_lifecycle := LpStopped, rn_busy := False,
                                     rn_forced_shutdown := forced\<rparr>)) (\<lambda>_.
          andthen (ui_render env) (\<lambda>_. set_started False)))))"

definition ui_publish :: "'w ui_env \<Rightarrow> render_state \<Rightarrow> ('w, post_status) ui_eff" where
  "ui_publish env s = scheduler_post (ui_port env) (SnapshotEvent s) (Some ''render_snapshot'')"

definition ui_post_result :: "'w ui_env \<Rightarrow> command_result \<Rightarrow> ('w, post_status) ui_eff" where
  "ui_post_result env r =
     andthen (scheduler_post (ui_port env) (ResultEvent r) None) (\<lambda>status.
     if status = PsFull then throw RuntimeErr else ret status)"

definition ui_set_visibility :: "'w ui_env \<Rightarrow> ui_visibility \<Rightarrow> ('w, unit) ui_eff" where
  "ui_set_visibility env v =
     andthen (ui_evolve (\<lambda>s. s\<lparr>rn_visibility := v\<rparr>)) (\<lambda>_.
     andthen (on_world (he_set_visibility env v)) (\<lambda>_.
     andthen (scheduler_set_visibility (ui_port env) v) (\<lambda>_. ui_render env)))"

text \<open>\<open>Surface(raw)\<close>\<close>

definition surface_of :: "pyval \<Rightarrow> surface option" where
  "surface_of v =
     (case v of
        PStr s \<Rightarrow> List.find (\<lambda>x. surface_value x = s)
          [SfMain, SfStatus, SfSettings, SfNode, SfRdp, SfCleanup, SfHelp]
      | _ \<Rightarrow> None)"

definition ui_change_surface :: "'w ui_env \<Rightarrow> ui_command \<Rightarrow> ('w, unit) ui_eff" where
  "ui_change_surface env c =
     (case surface_of (command_field c ''surface'' PNone) of
        None \<Rightarrow> throw ValueError
      | Some sf \<Rightarrow> get_ui (\<lambda>(sc, app, w).
          let opened = rn_open_surfaces (ua_state app);
              change = (if uc_kind c = CkOpenSurface
                then ((if sf \<noteq> SfMain \<and> sf \<notin> set opened then opened @ [sf] else opened), sf)
                else (remove1 sf opened, SfMain))
          in andthen (ui_evolve (\<lambda>s. s\<lparr>rn_active_surface := snd change, rn_open_surfaces := fst change\<rparr>))
               (\<lambda>_. ui_render env)))"

definition ui_select_node :: "'w ui_env \<Rightarrow> ui_command \<Rightarrow> ('w, unit) ui_eff" where
  "ui_select_node env c = get_ui (\<lambda>(sc, app, w).
     case command_field c ''node_id'' PNone of
       PStr nid \<Rightarrow>
         if nid \<notin> set (map nr_node_id (rn_nodes (ua_state app))) then throw ValueError
         else andthen (ui_evolve (\<lambda>s. s\<lparr>rn_selected_node_id := nid\<rparr>)) (\<lambda>_. ui_render env)
     | _ \<Rightarrow> throw ValueError)"

definition ui_dispatch_local :: "'w ui_env \<Rightarrow> ui_command \<Rightarrow> ('w, bool) ui_eff" where
  "ui_dispatch_local env c =
     (let done_with = (\<lambda>m. andthen m (\<lambda>_. ret True)) in
      case uc_kind c of
        CkShow \<Rightarrow> done_with (ui_set_visibility env UvVisible)
      | CkHide \<Rightarrow> done_with (ui_set_visibility env UvHidden)
      | CkMinimize \<Rightarrow> done_with (ui_set_visibility env UvMinimized)
      | CkOpenSurface \<Rightarrow> done_with (ui_change_surface env c)
      | CkCloseSurface \<Rightarrow> done_with (ui_change_surface env c)
      | CkSelectNode \<Rightarrow> done_with (ui_select_node env c)
      | _ \<Rightarrow>
          if uc_kind c = CkQuit \<or> uc_kind c = CkRestart then
            let restarting = (uc_kind c = CkRestart) in
            done_with (andthen (ui_evolve (\<lambda>s. s\<lparr>rn_lifecycle := (if restarting then LpRestarting else LpStopping),
                rn_busy := True\<rparr>)) (\<lambda>_.
              andthen (ui_render env) (\<lambda>_. on_world (he_quit env restarting))))
          else ret False)"

definition failed_result :: "ui_command \<Rightarrow> string \<Rightarrow> string \<Rightarrow> command_result result" where
  "failed_result c code message = mk_CommandResult (uc_command_id c) RsFailed code message (PTuple [])"

text \<open>The outcome of the handler as an event, or none when it returned \<open>None\<close>.\<close>

definition handler_event :: "ui_command \<Rightarrow> handler_return result \<Rightarrow> ui_event option result" where
  "handler_event c r =
     (case r of
        Inl e \<Rightarrow>
          if is_exception e
          then bindE (failed_result c ''command_failed'' ''The operation failed.'')
            (\<lambda>x. Inr (Some (ResultEvent x)))
          else Inl e
      | Inr HrNone \<Rightarrow> Inr None
      | Inr HrOther \<Rightarrow> bindE (failed_result c ''invalid_result'' ''The operation returned an invalid result.'')
          (\<lambda>x. Inr (Some (ResultEvent x)))
      | Inr (HrResult x) \<Rightarrow>
          if cmr_command_id x \<noteq> uc_command_id c
          then bindE (failed_result c ''invalid_result'' ''The operation returned an invalid result.'')
            (\<lambda>x. Inr (Some (ResultEvent x)))
          else Inr (Some (ResultEvent x)))"

definition ui_handle :: "'w ui_env \<Rightarrow> ui_command \<Rightarrow> ('w, handler_return result) ui_eff" where
  "ui_handle env c \<sigma> = (case on_world (he_handler env c) \<sigma> of (r, \<tau>) \<Rightarrow> (Inr r, \<tau>))"

definition ui_dispatch :: "'w ui_env \<Rightarrow> ui_command \<Rightarrow> ('w, unit) ui_eff" where
  "ui_dispatch env c =
     andthen (assert_current env) (\<lambda>_. get_ui (\<lambda>(sc, app, w).
     if \<not> ua_started app then throw RuntimeErr
     else andthen (ui_dispatch_local env c) (\<lambda>done_locally.
       if done_locally then ret ()
       else andthen (ui_evolve (\<lambda>s. s\<lparr>rn_busy := True\<rparr>)) (\<lambda>_.
            andthen (ui_render env) (\<lambda>_.
            andthen (ui_handle env c) (\<lambda>r.
              case handler_event c r of
                Inl e \<Rightarrow> throw e
              | Inr None \<Rightarrow> ret ()
              | Inr (Some e) \<Rightarrow> ui_consume env e))))))"

section \<open>Hosts with a trace\<close>

text \<open>The states rendered and the timer calls made, in order.\<close>

type_synonym ui_trace = "render_state list \<times> timer_event list"

definition beside :: "('w, pyexn, 'a) eff \<Rightarrow> ('a \<Rightarrow> 'l \<Rightarrow> 'l) \<Rightarrow> ('w \<times> 'l, pyexn, 'a) eff" where
  "beside m note_call x = (case x of (w, l) \<Rightarrow> (case m w of
     (Inl e, w') \<Rightarrow> (Inl e, w', l) | (Inr a, w') \<Rightarrow> (Inr a, w', note_call a l)))"

definition logged_ui :: "'w ui_env \<Rightarrow> ('w \<times> ui_trace) ui_env" where
  "logged_ui env = \<lparr>
     he_port = \<lparr>sp_call_later = (\<lambda>d. beside (sp_call_later (he_port env) d) (\<lambda>t (rs, ts). (rs, ts @ [TmLater d t]))),
                sp_cancel = (\<lambda>t. beside (sp_cancel (he_port env) t) (\<lambda>_ (rs, ts). (rs, ts @ [TmCancel t])))\<rparr>,
     he_render = (\<lambda>s (w, rs, ts). case he_render env s w of (r, w') \<Rightarrow> (r, w', rs @ [s], ts)),
     he_set_visibility = (\<lambda>v. beside (he_set_visibility env v) (\<lambda>_ l. l)),
     he_bind = beside (he_bind env) (\<lambda>_ l. l),
     he_handler = (\<lambda>c. beside (he_handler env c) (\<lambda>_ l. l)),
     he_quit = (\<lambda>b. beside (he_quit env b) (\<lambda>_ l. l)),
     he_thread = (\<lambda>x. he_thread env (fst x))\<rparr>"

definition ui_fired :: "nat \<Rightarrow> 'w \<times> ui_trace \<Rightarrow> 'w \<times> ui_trace" where
  "ui_fired t x = (case x of (w, rs, ts) \<Rightarrow> (w, rs, ts @ [TmFire t]))"

definition ui_pending :: "'w \<times> ui_trace \<Rightarrow> nat multiset" where
  "ui_pending x = timers_pending (snd (snd x))"

text \<open>
  The states an application reaches; the flag tells whether every call so far returned. The host's
  window loop calls \<open>dispatch\<close> and fires the callbacks it has pending, services publish states and
  results.
\<close>

inductive ui_reach ::
    "'w ui_env \<Rightarrow> (nat \<Rightarrow> 'w \<Rightarrow> 'w) \<Rightarrow> ('w \<Rightarrow> nat multiset) \<Rightarrow> ('w \<Rightarrow> bool) \<Rightarrow> bool \<Rightarrow> 'w ui_world \<Rightarrow> bool"
  for env fire pend fresh where
  ur_init: "mk_UiApplication env initial guard n w = (Inr (sc, app), w') \<Longrightarrow> render_ok initial \<Longrightarrow> fresh w' \<Longrightarrow>
    ui_reach env fire pend fresh True (sc, app, w')"
| ur_start: "ui_reach env fire pend fresh clean \<sigma> \<Longrightarrow> ui_start env minimized \<sigma> = (r, \<tau>) \<Longrightarrow>
    ui_reach env fire pend fresh (clean \<and> \<not> isl r) \<tau>"
| ur_stop: "ui_reach env fire pend fresh clean \<sigma> \<Longrightarrow> ui_stop env forced \<sigma> = (r, \<tau>) \<Longrightarrow>
    ui_reach env fire pend fresh (clean \<and> \<not> isl r) \<tau>"
| ur_publish: "ui_reach env fire pend fresh clean \<sigma> \<Longrightarrow> ui_publish env s \<sigma> = (r', \<tau>) \<Longrightarrow> render_ok s \<Longrightarrow>
    ui_reach env fire pend fresh (clean \<and> \<not> isl r') \<tau>"
| ur_post: "ui_reach env fire pend fresh clean \<sigma> \<Longrightarrow> ui_post_result env x \<sigma> = (r', \<tau>) \<Longrightarrow> result_ok x \<Longrightarrow>
    ui_reach env fire pend fresh (clean \<and> \<not> isl r') \<tau>"
| ur_dispatch: "ui_reach env fire pend fresh clean \<sigma> \<Longrightarrow> ui_dispatch env c \<sigma> = (r, \<tau>) \<Longrightarrow>
    ui_reach env fire pend fresh (clean \<and> \<not> isl r) \<tau>"
| ur_fire: "ui_reach env fire pend fresh clean (sc, app, w) \<Longrightarrow> t \<in># pend w \<Longrightarrow>
    ui_drain env (sc, app, fire t w) = (r, \<tau>) \<Longrightarrow> ui_reach env fire pend fresh (clean \<and> \<not> isl r) \<tau>"

section \<open>Preservation by the scheduler\<close>

text \<open>An assertion on what lies beside the scheduler.\<close>

definition port_keeps :: "('x \<Rightarrow> bool) \<Rightarrow> 'x schedule_port \<Rightarrow> bool" where
  "port_keeps J P \<longleftrightarrow> (\<forall>d. keeps J (sp_call_later P d)) \<and> (\<forall>t. keeps J (sp_cancel P t))"

abbreviation beyond :: "('x \<Rightarrow> bool) \<Rightarrow> 'v scheduler \<times> 'x \<Rightarrow> bool" where
  "beyond J \<equiv> \<lambda>\<sigma>. J (snd \<sigma>)"

lemma beyondD: "keeps (beyond J) m \<Longrightarrow> J x \<Longrightarrow> m (sc, x) = (r, sc', x') \<Longrightarrow> J x'"
  by (drule keepsD [where s = "(sc, x)"]) auto

lemma schedule_keeps: "port_keeps J P \<Longrightarrow> keeps (beyond J) (schedule_locked P d)"
  by (rule keepsI) (auto simp: schedule_locked_def port_keeps_def split: if_splits prod.splits sum.splits dest: keepsD)

lemma cancel_keeps: "port_keeps J P \<Longrightarrow> keeps (beyond J) (cancel_token P)"
  by (rule keepsI) (auto simp: cancel_token_def port_keeps_def split: option.splits prod.splits sum.splits dest: keepsD)

lemma reschedule_keeps: "port_keeps J P \<Longrightarrow> keeps (beyond J) (reschedule P)"
  by (rule keepsI) (auto simp: reschedule_def split: if_splits dest: keepsD [OF schedule_keeps])

lemma scheduler_start_keeps:
  assumes "port_keeps J P"
  shows "keeps (beyond J) (scheduler_start P)"
proof (rule keepsI)
  fix \<sigma> r \<tau> assume "J (snd \<sigma>)" and "scheduler_start P \<sigma> = (r, \<tau>)"
  with keepsD [OF reschedule_keeps [OF assms], of "((fst \<sigma>)\<lparr>sc_stopped := False\<rparr>, snd \<sigma>)"]
  show "J (snd \<tau>)" by (simp add: scheduler_start_def)
qed

lemma drain_all_keeps: "keeps (beyond J) scheduler_drain_all"
  by (rule keepsI) (auto simp: scheduler_drain_all_def split: prod.splits sum.splits)

lemma scheduler_stop_keeps:
  assumes "port_keeps J P"
  shows "keeps (beyond J) (scheduler_stop P)"
proof (rule keepsI)
  fix \<sigma> r \<tau> assume "J (snd \<sigma>)" and "scheduler_stop P \<sigma> = (r, \<tau>)"
  with keepsD [OF keep_andthen [OF cancel_keeps [OF assms] drain_all_keeps],
      of "((fst \<sigma>)\<lparr>sc_stopped := True\<rparr>, snd \<sigma>)"]
  show "J (snd \<tau>)" by (simp add: scheduler_stop_def)
qed

lemma scheduler_visibility_keeps:
  assumes "port_keeps J P"
  shows "keeps (beyond J) (scheduler_set_visibility P v)"
proof (rule keepsI)
  fix \<sigma> r \<tau> assume J: "J (snd \<sigma>)" and e: "scheduler_set_visibility P v \<sigma> = (r, \<tau>)"
  let ?s = "((fst \<sigma>)\<lparr>sc_visibility := v\<rparr>, snd \<sigma>)"
  from e consider "schedule_locked P 0 ?s = (r, \<tau>)" | "cancel_token P ?s = (r, \<tau>)" | "\<tau> = ?s"
    by (simp add: scheduler_set_visibility_def Let_def split: if_splits)
  then show "J (snd \<tau>)"
  proof cases
    case 1
    from keepsD [OF schedule_keeps [OF assms] _ 1] J show ?thesis by simp
  next
    case 2
    from keepsD [OF cancel_keeps [OF assms] _ 2] J show ?thesis by simp
  qed (simp add: J)
qed

lemma scheduler_post_keeps:
  assumes "port_keeps J P"
  shows "keeps (beyond J) (scheduler_post P v key)"
proof (rule keepsI)
  fix \<sigma> r \<tau> assume J: "J (snd \<sigma>)" and p: "scheduler_post P v key \<sigma> = (r, \<tau>)"
  obtain status q where q: "queue_post v key (sc_queue (fst \<sigma>)) = (status, q)" by fastforce
  have "keeps (beyond J) (andthen (schedule_locked P 0) (\<lambda>_. ret status))"
    by (intro keep_intros schedule_keeps assms)
  from keepsD [OF this, of "((fst \<sigma>)\<lparr>sc_queue := q\<rparr>, snd \<sigma>)"] J p q show "J (snd \<tau>)"
    by (auto simp: scheduler_post_def Let_def split: if_splits)
qed

lemma consume_each_keeps:
  "(\<And>v. keeps (beyond J) (consume v)) \<Longrightarrow> keeps (beyond J) (consume_each consume vs)"
  by (induction vs) (auto intro!: keep_intros)

lemma scheduler_drain_keeps:
  assumes "port_keeps J P" and "\<And>v. keeps (beyond J) (consume v)"
  shows "keeps (beyond J) (scheduler_drain P consume)"
proof (rule keepsI)
  fix \<sigma> r \<tau> assume J: "J (snd \<sigma>)" and d: "scheduler_drain P consume \<sigma> = (r, \<tau>)"
  have "keeps (beyond J) take_batch"
    by (rule keepsI) (auto simp: take_batch_def split: prod.splits)
  then have "keeps (beyond J) (andthen take_batch (\<lambda>batch. andthen (consume_each consume batch) (\<lambda>_. reschedule P)))"
    by (intro keep_intros consume_each_keeps reschedule_keeps assms)
  from keepsD [OF this, of "((fst \<sigma>)\<lparr>sc_token := None\<rparr>, snd \<sigma>)"] J d show "J (snd \<tau>)"
    by (auto simp: scheduler_drain_def Let_def split: if_splits)
qed

lemmas scheduler_keeps = schedule_keeps scheduler_start_keeps scheduler_stop_keeps
  scheduler_visibility_keeps scheduler_post_keeps scheduler_drain_keeps

section \<open>What is rendered\<close>

text \<open>
  Every rendered state is valid, their revisions increase, and none is newer than the current state;
  \<open>strict\<close>: the current state is newer than all of them.
\<close>

definition trace_inv :: "bool \<Rightarrow> ui_app \<times> 'w \<times> ui_trace \<Rightarrow> bool" where
  "trace_inv strict x =
     (case x of (app, w, rs, ts) \<Rightarrow>
        render_ok (ua_state app) \<and> list_all render_ok rs \<and>
        sorted_wrt (<) (map rn_revision rs) \<and>
        (\<forall>s \<in> set rs. rn_revision s < rn_revision (ua_state app) + (if strict then 0 else 1)))"

lemma trace_inv_weaken: "trace_inv True x \<Longrightarrow> trace_inv False x"
  by (force simp: trace_inv_def split: prod.splits)

lemma evolve_ok: "evolve change s = Inr t \<Longrightarrow> render_ok t \<and> rn_revision t = rn_revision s + 1"
  by (auto simp: evolve_def render_ok_def dest: mk_RenderState_id)

lemma trace_inv_newer:
  assumes "trace_inv b (app, x)" and "render_ok s" and "rn_revision (ua_state app) < rn_revision s"
  shows "trace_inv True (app\<lparr>ua_state := s\<rparr>, x)"
  using assms by (cases b) (force simp: trace_inv_def split: prod.splits)+

lemma logged_port_keeps: "port_keeps (trace_inv b) (ui_port (logged_ui env))"
  by (auto simp: port_keeps_def lift_port_def logged_ui_def on_app_world_def beside_def trace_inv_def
      intro!: keepsI split: prod.splits sum.splits)

lemmas logged_scheduler_keeps = scheduler_keeps [OF logged_port_keeps]

abbreviation steady :: "('w \<times> ui_trace, 'a) ui_eff \<Rightarrow> bool" where
  "steady m \<equiv> keeps (beyond (trace_inv False)) m"

text \<open>From a state newer than all that was rendered to one that may have been rendered.\<close>

definition settles :: "('w \<times> ui_trace, 'a) ui_eff \<Rightarrow> bool" where
  "settles m \<longleftrightarrow> triple (beyond (trace_inv True)) m (\<lambda>_. beyond (trace_inv False)) (\<lambda>_. beyond (trace_inv False))"

lemma settles_then:
  assumes "keeps (beyond (trace_inv True)) m" and "\<And>x. settles (k x)"
  shows "settles (andthen m k)"
  unfolding settles_def
proof (rule triple_andthen [where R = "\<lambda>_. beyond (trace_inv True)"])
  show "triple (beyond (trace_inv True)) m (\<lambda>_. beyond (trace_inv True)) (\<lambda>_. beyond (trace_inv False))"
    by (rule triple_conseq [OF assms(1) [unfolded keeps_def]]) (auto intro: trace_inv_weaken)
qed (use assms(2) in \<open>simp add: settles_def\<close>)

lemma settled_then: "settles m \<Longrightarrow> (\<And>x. steady (k x)) \<Longrightarrow> settles (andthen m k)"
  unfolding settles_def keeps_def by (rule triple_andthen)

lemma evolve_then:
  assumes "settles k"
  shows "steady (andthen (ui_evolve change) (\<lambda>_. k))"
  unfolding keeps_def
proof (rule triple_andthen [where R = "\<lambda>_. beyond (trace_inv True)"])
  show "triple (beyond (trace_inv False)) (ui_evolve change) (\<lambda>_. beyond (trace_inv True)) (\<lambda>_. beyond (trace_inv False))"
    by (rule tripleI)
      (auto simp: ui_evolve_def put_state_def dest!: evolve_ok split: prod.splits sum.splits intro!: trace_inv_newer)
qed (use assms in \<open>simp add: settles_def\<close>)

lemma keeps_get: "(\<And>\<sigma>. keeps J (k \<sigma>)) \<Longrightarrow> keeps J (get_ui k)"
  by (rule keepsI) (auto simp: get_ui_def dest: keepsD)

lemma assert_keeps [keep_intros]: "keeps J (assert_current env)"
  by (rule keepsI) (auto simp: assert_current_def split: prod.splits if_splits)

lemma started_keeps: "keeps (beyond (trace_inv b)) (set_started v)"
  by (rule keepsI) (auto simp: set_started_def trace_inv_def split: prod.splits)

lemma on_world_keeps:
  "(\<And>x r x'. m x = (r, x') \<Longrightarrow> snd x' = snd x) \<Longrightarrow> keeps (beyond (trace_inv b)) (on_world m)"
  by (rule keepsI) (fastforce simp: on_world_def trace_inv_def split: prod.splits)

lemma beside_world_keeps:
  "keeps (beyond (trace_inv b)) (on_world (beside m (\<lambda>_ l. l)))"
  by (rule on_world_keeps) (auto simp: beside_def split: prod.splits sum.splits)

lemma render_settles: "settles (ui_render (logged_ui env))"
proof -
  have "settles (get_ui (\<lambda>\<sigma>. on_world (he_render (logged_ui env) (ua_state (fst (snd \<sigma>))))))"
    unfolding settles_def
    by (rule tripleI)
      (auto simp: get_ui_def on_world_def logged_ui_def trace_inv_def sorted_wrt_append
        split: prod.splits, (metis less_imp_le)+)
  then show ?thesis
    unfolding ui_render_def by (intro settles_then keep_intros)
qed

lemma consume_steady: "steady (ui_consume (logged_ui env) e)"
proof -
  have "triple (beyond (trace_inv False))
      (get_ui (\<lambda>(sc, app, w). put_state (bindE (reduce_event (ua_state app) e)
         (evolve (\<lambda>s. s\<lparr>rn_queue_depth := int (queue_depth sc),
                        rn_dropped_events := int (eq_dropped (sc_queue sc))\<rparr>)))))
      (\<lambda>_. beyond (trace_inv True)) (\<lambda>_. beyond (trace_inv False))"
  proof (rule tripleI)
    fix \<sigma> x \<tau>
    assume J: "trace_inv False (snd \<sigma>)" and m: "get_ui (\<lambda>(sc, app, w). put_state (bindE (reduce_event (ua_state app) e)
         (evolve (\<lambda>s. s\<lparr>rn_queue_depth := int (queue_depth sc),
                        rn_dropped_events := int (eq_dropped (sc_queue sc))\<rparr>)))) \<sigma> = (Inr x, \<tau>)"
    obtain sc app w where s: "\<sigma> = (sc, app, w)" by (metis prod_cases3)
    from m obtain t u where t: "reduce_event (ua_state app) e = Inr t"
      and u: "evolve (\<lambda>s. s\<lparr>rn_queue_depth := int (queue_depth sc),
                        rn_dropped_events := int (eq_dropped (sc_queue sc))\<rparr>) t = Inr u"
      and \<tau>: "\<tau> = (sc, app\<lparr>ua_state := u\<rparr>, w)"
      by (auto simp: s get_ui_def put_state_def bindE_eq_Inr split: sum.splits)
    have "rn_revision (ua_state app) \<le> rn_revision t"
      using t by (auto simp: reduce_event_def split: ui_event.splits if_splits dest!: evolve_ok)
    with evolve_ok [OF u] J show "trace_inv True (snd \<tau>)"
      by (auto simp: \<tau> s intro: trace_inv_newer)
  qed (auto simp: get_ui_def put_state_def split: prod.splits sum.splits)
  note put = this
  show ?thesis
    unfolding ui_consume_def
    by (rule keep_andthen [OF assert_keeps], unfold keeps_def, rule triple_andthen [OF put])
      (use render_settles in \<open>simp add: settles_def\<close>)
qed

section \<open>Every operation keeps the trace in order\<close>

lemma logged_host_keeps:
  "keeps (beyond (trace_inv b)) (on_world (he_set_visibility (logged_ui env) v))"
  "keeps (beyond (trace_inv b)) (on_world (he_quit (logged_ui env) r))"
  "keeps (beyond (trace_inv b)) (on_world (he_handler (logged_ui env) c))"
  by (simp_all add: logged_ui_def beside_world_keeps)

lemma visibility_steady: "steady (ui_set_visibility (logged_ui env) v)"
  unfolding ui_set_visibility_def
  by (intro evolve_then settles_then logged_host_keeps logged_scheduler_keeps render_settles)

lemma start_steady: "steady (ui_start (logged_ui env) minimized)"
  unfolding ui_start_def Let_def
  by (intro keep_andthen keeps_get assert_keeps)
    (auto split: prod.splits intro!: keep_throw evolve_then settles_then logged_host_keeps
      logged_scheduler_keeps started_keeps render_settles)

lemma stop_steady: "steady (ui_stop (logged_ui env) forced)"
  unfolding ui_stop_def
  by (intro keep_andthen keeps_get assert_keeps)
    (auto split: prod.splits intro!: keep_ret keep_andthen logged_scheduler_keeps evolve_then
      settled_then render_settles started_keeps)

lemma surface_steady: "steady (ui_change_surface (logged_ui env) c)"
  unfolding ui_change_surface_def Let_def
  by (auto split: option.splits prod.splits intro!: keep_throw keeps_get evolve_then render_settles)

lemma select_steady: "steady (ui_select_node (logged_ui env) c)"
  unfolding ui_select_node_def
  by (auto split: pyval.splits prod.splits intro!: keep_throw keeps_get evolve_then render_settles)

lemma quit_steady:
  "steady (andthen (ui_evolve f) (\<lambda>_. andthen (ui_render (logged_ui env))
     (\<lambda>_. on_world (he_quit (logged_ui env) r))))"
  by (intro evolve_then settled_then render_settles logged_host_keeps)

lemma dispatch_local_steady: "steady (ui_dispatch_local (logged_ui env) c)"
  unfolding ui_dispatch_local_def Let_def
  by (auto split: command_kind.splits intro!: keep_andthen keep_ret visibility_steady surface_steady
      select_steady quit_steady)

lemma handle_steady: "steady (ui_handle (logged_ui env) c)"
proof (rule keepsI)
  fix \<sigma> r \<tau> assume J: "trace_inv False (snd \<sigma>)" and h: "ui_handle (logged_ui env) c \<sigma> = (r, \<tau>)"
  obtain r0 where "on_world (he_handler (logged_ui env) c) \<sigma> = (r0, \<tau>)"
    using h by (auto simp: ui_handle_def split: prod.splits)
  with keepsD [OF logged_host_keeps(3)] J show "trace_inv False (snd \<tau>)" by blast
qed

lemma dispatch_steady: "steady (ui_dispatch (logged_ui env) c)"
proof -
  have finish: "steady (case handler_event c r of Inl e \<Rightarrow> throw e | Inr None \<Rightarrow> ret ()
      | Inr (Some e) \<Rightarrow> ui_consume (logged_ui env) e)" for r
    by (auto split: sum.splits option.splits intro!: keep_throw keep_ret consume_steady)
  have handled: "steady (andthen (ui_evolve f) (\<lambda>_. andthen (ui_render (logged_ui env)) (\<lambda>_.
      andthen (ui_handle (logged_ui env) c) (\<lambda>r. case handler_event c r of Inl e \<Rightarrow> throw e
        | Inr None \<Rightarrow> ret () | Inr (Some e) \<Rightarrow> ui_consume (logged_ui env) e))))" for f
    by (intro evolve_then settled_then render_settles keep_andthen handle_steady finish)
  show ?thesis
    unfolding ui_dispatch_def
    by (intro keep_andthen keeps_get assert_keeps)
      (auto split: prod.splits intro!: keep_throw keep_ret keep_andthen dispatch_local_steady handled)
qed

lemma publish_steady: "steady (ui_publish (logged_ui env) s)"
  unfolding ui_publish_def by (rule logged_scheduler_keeps)

lemma post_result_steady: "steady (ui_post_result (logged_ui env) x)"
  unfolding ui_post_result_def
  by (intro keep_andthen logged_scheduler_keeps) (auto intro: keep_intros)

lemma drain_steady: "steady (ui_drain (logged_ui env))"
  unfolding ui_drain_def by (intro logged_scheduler_keeps consume_steady)

lemma reach_trace_inv:
  assumes "ui_reach (logged_ui env) ui_fired ui_pending (\<lambda>x. snd x = ([], [])) clean \<sigma>"
  shows "trace_inv False (snd \<sigma>)"
  using assms
proof induction
  case (ur_init initial guard n sc app w')
  then show ?case
    by (auto simp: mk_UiApplication_def trace_inv_def Let_def split: sum.splits prod.splits)
next
  case (ur_start clean \<sigma> minimized r \<tau>)
  then show ?case using keepsD [OF start_steady] by blast
next
  case (ur_stop clean \<sigma> forced r \<tau>)
  then show ?case using keepsD [OF stop_steady] by blast
next
  case (ur_publish clean \<sigma> s r' \<tau>)
  then show ?case using keepsD [OF publish_steady] by blast
next
  case (ur_post clean \<sigma> x r' \<tau>)
  then show ?case using keepsD [OF post_result_steady] by blast
next
  case (ur_dispatch clean \<sigma> c r \<tau>)
  then show ?case using keepsD [OF dispatch_steady] by blast
next
  case (ur_fire clean sc app w t r \<tau>)
  have "trace_inv False (app, ui_fired t w)"
    using ur_fire.IH by (auto simp: trace_inv_def ui_fired_def split: prod.splits)
  with keepsD [OF drain_steady _ ur_fire.hyps(3)] show ?case by simp
qed

section \<open>The application as a client of the scheduler\<close>

definition app_pending :: "ui_app \<times> 'w \<times> ui_trace \<Rightarrow> nat multiset" where
  "app_pending x = ui_pending (snd x)"

definition app_fired :: "nat \<Rightarrow> ui_app \<times> 'w \<times> ui_trace \<Rightarrow> ui_app \<times> 'w \<times> ui_trace" where
  "app_fired t x = (fst x, ui_fired t (snd x))"

text \<open>An assertion on the scheduler and the timer calls only.\<close>

definition at_timer :: "'v scheduler \<Rightarrow> timer_event list \<Rightarrow> 'v scheduler \<times> ui_app \<times> 'w \<times> ui_trace \<Rightarrow> bool" where
  "at_timer sc ts \<sigma> \<longleftrightarrow> fst \<sigma> = sc \<and> snd (snd (snd (snd \<sigma>))) = ts"

lemma at_timer_put: "keeps (at_timer sc ts) (put_state r)"
  by (rule keepsI) (auto simp: put_state_def at_timer_def split: prod.splits sum.splits)

lemma at_timer_evolve: "keeps (at_timer sc ts) (ui_evolve f)"
  by (rule keepsI) (auto simp: ui_evolve_def dest: keepsD [OF at_timer_put])

lemma at_timer_started: "keeps (at_timer sc ts) (set_started b)"
  by (rule keepsI) (auto simp: set_started_def at_timer_def split: prod.splits)

lemma at_timer_host:
  "keeps (at_timer sc ts) (on_world (he_set_visibility (logged_ui env) v))"
  "keeps (at_timer sc ts) (on_world (he_quit (logged_ui env) q))"
  "keeps (at_timer sc ts) (on_world (he_handler (logged_ui env) c))"
  "keeps (at_timer sc ts) (on_world (he_render (logged_ui env) s))"
  by (rule keepsI; auto simp: on_world_def logged_ui_def beside_def at_timer_def split: prod.splits sum.splits)+

lemma at_timer_handle: "keeps (at_timer sc ts) (ui_handle (logged_ui env) c)"
proof (rule keepsI)
  fix \<sigma> r \<tau> assume J: "at_timer sc ts \<sigma>" and h: "ui_handle (logged_ui env) c \<sigma> = (r, \<tau>)"
  obtain r0 where "on_world (he_handler (logged_ui env) c) \<sigma> = (r0, \<tau>)"
    using h by (auto simp: ui_handle_def split: prod.splits)
  with keepsD [OF at_timer_host(3)] J show "at_timer sc ts \<tau>" by blast
qed

lemma at_timer_render: "keeps (at_timer sc ts) (ui_render (logged_ui env))"
  unfolding ui_render_def by (intro keep_andthen keeps_get assert_keeps at_timer_host)

lemma at_timer_consume: "keeps (at_timer sc ts) (ui_consume (logged_ui env) e)"
  unfolding ui_consume_def
  by (intro keep_andthen keeps_get assert_keeps at_timer_render) (auto intro: at_timer_put split: prod.splits)

interpretation app_timer: timer_client "ui_port (logged_ui env)" "ui_consume (logged_ui env)" app_fired
    app_pending for env
proof unfold_locales
  fix e u and \<sigma> \<tau> :: "ui_event scheduler \<times> ui_app \<times> 'a \<times> ui_trace"
  assume c: "ui_consume (logged_ui env) e \<sigma> = (u, \<tau>)"
  obtain sc x where s: "\<sigma> = (sc, x)" by (rule prod.exhaust)
  obtain sc' x' where t: "\<tau> = (sc', x')" by (rule prod.exhaust)
  have "at_timer sc (snd (snd (snd x))) (sc, x)" by (simp add: at_timer_def)
  from keepsD [OF at_timer_consume this c [unfolded s t]]
  have "sc' = sc" "app_pending x' = app_pending x"
    by (simp_all add: at_timer_def app_pending_def ui_pending_def)
  with calls_host [where pend = app_pending and port = "ui_port (logged_ui env)", OF calls_none this(2)]
  show "\<exists>ok. scheduler_calls (ui_port (logged_ui env)) app_pending ok \<sigma> \<tau> \<and> (\<not> isl u \<longrightarrow> ok)"
    by (auto simp: s t)
qed (auto simp: lift_port_def logged_ui_def on_app_world_def beside_def app_pending_def ui_pending_def
    app_fired_def ui_fired_def split: prod.splits sum.splits)

text \<open>
  The token always stands for the one callback pending at the host. While no call has raised, the
  scheduler is awake too; the pair says whether it runs and whether the application is started.
\<close>

abbreviation app_tracked :: "ui_event scheduler \<times> ui_app \<times> 'w \<times> ui_trace \<Rightarrow> bool" where
  "app_tracked \<equiv> app_timer.tracked True"

definition wakeful :: "bool \<Rightarrow> bool \<times> bool \<Rightarrow> ui_event scheduler \<times> ui_app \<times> 'w \<times> ui_trace \<Rightarrow> bool" where
  "wakeful clean a \<sigma> \<longleftrightarrow> app_tracked \<sigma> \<and>
     (clean \<longrightarrow> awake (fst \<sigma>) \<and> sc_stopped (fst \<sigma>) = (\<not> fst a) \<and> ua_started (fst (snd \<sigma>)) = snd a)"

definition moves ::
    "bool \<Rightarrow> bool \<times> bool \<Rightarrow> (ui_event scheduler \<times> ui_app \<times> 'w \<times> ui_trace, pyexn, 'a) eff \<Rightarrow> bool \<times> bool \<Rightarrow> bool" where
  "moves clean a m b \<longleftrightarrow> triple (wakeful clean a) m (\<lambda>_. wakeful clean b) (\<lambda>_. app_tracked)"

lemma movesI:
  assumes "\<And>\<sigma> r \<tau>. app_tracked \<sigma> \<Longrightarrow> m \<sigma> = (r, \<tau>) \<Longrightarrow> app_tracked \<tau>"
    and "\<And>\<sigma> x \<tau>. wakeful True a \<sigma> \<Longrightarrow> m \<sigma> = (Inr x, \<tau>) \<Longrightarrow> wakeful True b \<tau>"
  shows "moves clean a m b"
  unfolding moves_def
proof (rule tripleI)
  fix \<sigma> x \<tau> assume w: "wakeful clean a \<sigma>" and m: "m \<sigma> = (Inr x, \<tau>)"
  show "wakeful clean b \<tau>"
  proof (cases clean)
    case True
    with assms(2) [OF _ m] w show ?thesis by simp
  next
    case False
    with assms(1) [OF _ m] w show ?thesis by (simp add: wakeful_def)
  qed
next
  fix \<sigma> e \<tau> assume w: "wakeful clean a \<sigma>" and m: "m \<sigma> = (Inl e, \<tau>)"
  with assms(1) [OF _ m] show "app_tracked \<tau>" by (simp add: wakeful_def)
qed

lemma moves_andthen: "moves clean a m b \<Longrightarrow> (\<And>x. moves clean b (k x) c) \<Longrightarrow> moves clean a (andthen m k) c"
  unfolding moves_def by (rule triple_andthen)

lemma moves_same: "moves clean a m a \<Longrightarrow> (\<And>x. moves clean a (k x) a) \<Longrightarrow> moves clean a (andthen m k) a"
  by (rule moves_andthen)

lemma moves_pre:
  assumes "moves clean a' m b" and "clean \<Longrightarrow> a = a'"
  shows "moves clean a m b"
  unfolding moves_def
  by (rule triple_pre [OF assms(1) [unfolded moves_def]]) (use assms(2) in \<open>auto simp: wakeful_def\<close>)

lemma moves_get_started:
  fixes k :: "ui_event scheduler \<times> ui_app \<times> 'w \<times> ui_trace \<Rightarrow> ('w \<times> ui_trace, 'a) ui_eff"
  assumes "\<And>sc app w. (clean \<Longrightarrow> ua_started app = snd a) \<Longrightarrow> moves clean a (k (sc, app, w)) b"
  shows "moves clean a (get_ui k) b"
  unfolding moves_def triple_def get_ui_def
proof (intro allI impI)
  fix \<sigma> :: "ui_event scheduler \<times> ui_app \<times> 'w \<times> ui_trace"
  assume w: "wakeful clean a \<sigma>"
  obtain sc app v where s: "\<sigma> = (sc, app, v)" by (rule prod_cases3)
  have "moves clean a (k (sc, app, v)) b"
    by (rule assms) (use w in \<open>simp add: wakeful_def s\<close>)
  then have "\<forall>\<rho>. wakeful clean a \<rho> \<longrightarrow>
      (case k \<sigma> \<rho> of (Inl e, s') \<Rightarrow> app_tracked s' | (Inr x, s') \<Rightarrow> wakeful clean b s')"
    unfolding moves_def triple_def s .
  from mp [OF spec [OF this] w]
  show "case k \<sigma> \<sigma> of (Inl e, s') \<Rightarrow> app_tracked s' | (Inr x, s') \<Rightarrow> wakeful clean b s'" .
qed

lemma moves_get:
  assumes "\<And>\<sigma>. moves clean a (k \<sigma>) b"
  shows "moves clean a (get_ui k) b"
  by (rule moves_get_started) (rule assms)

lemma assert_same: "assert_current env \<sigma> = (r, \<tau>) \<Longrightarrow> \<tau> = \<sigma>"
  by (auto simp: assert_current_def split: prod.splits if_splits)

lemma moves_pure: "moves clean a (ret x) a" "moves clean a (throw e) b" "moves clean a (assert_current env) a"
proof -
  show "moves clean a (ret x) a" by (simp add: moves_def triple_def ret_def)
  show "moves clean a (throw e) b" by (simp add: moves_def triple_def throw_def wakeful_def)
  show "moves clean a (assert_current env) a" by (rule movesI) (use assert_same in blast)+
qed

text \<open>What leaves the scheduler, the timers and the started flag alone changes nothing of this.\<close>

definition at_rest ::
    "bool \<Rightarrow> 'v scheduler \<Rightarrow> timer_event list \<Rightarrow> 'v scheduler \<times> ui_app \<times> 'w \<times> ui_trace \<Rightarrow> bool" where
  "at_rest started sc ts \<sigma> \<longleftrightarrow> at_timer sc ts \<sigma> \<and> ua_started (fst (snd \<sigma>)) = started"

lemma moves_at_rest:
  assumes "\<And>b sc ts. keeps (at_rest b sc ts) m"
  shows "moves clean a m a"
proof (rule movesI)
  have same: "fst \<tau> = fst \<sigma> \<and> app_pending (snd \<tau>) = app_pending (snd \<sigma>) \<and>
      ua_started (fst (snd \<tau>)) = ua_started (fst (snd \<sigma>))" if "m \<sigma> = (r, \<tau>)" for \<sigma> \<tau> r
  proof -
    have "at_rest (ua_started (fst (snd \<sigma>))) (fst \<sigma>) (snd (snd (snd (snd \<sigma>)))) \<sigma>"
      by (simp add: at_rest_def at_timer_def)
    from keepsD [OF assms this that] show ?thesis
      by (simp add: at_rest_def at_timer_def app_pending_def ui_pending_def)
  qed
  show tr: "app_tracked \<tau>" if "app_tracked \<sigma>" "m \<sigma> = (r, \<tau>)" for \<sigma> r \<tau>
    by (rule app_timer.tracked_same [OF that(1)]) (use same [OF that(2)] in simp_all)
  show "wakeful True a \<tau>" if "wakeful True a \<sigma>" "m \<sigma> = (Inr x, \<tau>)" for \<sigma> x \<tau>
    using that(1) same [OF that(2)] tr [OF _ that(2)] by (simp add: wakeful_def)
qed

lemma at_rest_keeps:
  "keeps (at_rest b sc ts) (put_state r)"
  "keeps (at_rest b sc ts) (ui_evolve f)"
  "keeps (at_rest b sc ts) (on_world (he_set_visibility (logged_ui env) v))"
  "keeps (at_rest b sc ts) (on_world (he_quit (logged_ui env) q))"
  "keeps (at_rest b sc ts) (on_world (he_handler (logged_ui env) c))"
  "keeps (at_rest b sc ts) (on_world (he_render (logged_ui env) s))"
  by (rule keepsI; auto simp: at_rest_def at_timer_def ui_evolve_def put_state_def on_world_def logged_ui_def
      beside_def split: prod.splits sum.splits)+

lemma at_rest_handle: "keeps (at_rest b sc ts) (ui_handle (logged_ui env) c)"
proof (rule keepsI)
  fix \<sigma> r \<tau> assume J: "at_rest b sc ts \<sigma>" and h: "ui_handle (logged_ui env) c \<sigma> = (r, \<tau>)"
  obtain r0 where "on_world (he_handler (logged_ui env) c) \<sigma> = (r0, \<tau>)"
    using h by (auto simp: ui_handle_def split: prod.splits)
  with keepsD [OF at_rest_keeps(5)] J show "at_rest b sc ts \<tau>" by blast
qed

lemma at_rest_render: "keeps (at_rest b sc ts) (ui_render (logged_ui env))"
  unfolding ui_render_def by (intro keep_andthen keeps_get assert_keeps at_rest_keeps)

lemma at_rest_consume: "keeps (at_rest b sc ts) (ui_consume (logged_ui env) e)"
  unfolding ui_consume_def
  by (intro keep_andthen keeps_get assert_keeps at_rest_render) (auto intro: at_rest_keeps split: prod.splits)

lemmas moves_beside = moves_at_rest [OF at_rest_keeps(2)] moves_at_rest [OF at_rest_keeps(3)]
  moves_at_rest [OF at_rest_keeps(4)] moves_at_rest [OF at_rest_render] moves_at_rest [OF at_rest_handle]
  moves_at_rest [OF at_rest_consume]

text \<open>The scheduler leaves the started flag alone.\<close>

lemma port_keeps_started: "port_keeps (\<lambda>x. ua_started (fst x) = b) (ui_port env)"
  by (auto simp: port_keeps_def lift_port_def on_app_world_def intro!: keepsI split: prod.splits)

lemma scheduler_started:
  "scheduler_start (ui_port env) \<sigma> = (r, \<tau>) \<Longrightarrow> ua_started (fst (snd \<tau>)) = ua_started (fst (snd \<sigma>))"
  "scheduler_stop (ui_port env) \<sigma> = (r, \<tau>) \<Longrightarrow> ua_started (fst (snd \<tau>)) = ua_started (fst (snd \<sigma>))"
  "scheduler_set_visibility (ui_port env) v \<sigma> = (r, \<tau>) \<Longrightarrow>
     ua_started (fst (snd \<tau>)) = ua_started (fst (snd \<sigma>))"
  "scheduler_post (ui_port env) e key \<sigma> = (s, \<tau>) \<Longrightarrow> ua_started (fst (snd \<tau>)) = ua_started (fst (snd \<sigma>))"
  by (drule keepsD [OF scheduler_start_keeps [OF port_keeps_started] refl]
      keepsD [OF scheduler_stop_keeps [OF port_keeps_started] refl]
      keepsD [OF scheduler_visibility_keeps [OF port_keeps_started] refl]
      keepsD [OF scheduler_post_keeps [OF port_keeps_started] refl], assumption)+

lemma moves_start: "moves clean (False, a) (scheduler_start (ui_port (logged_ui env))) (True, a)"
proof (rule movesI)
  fix \<sigma> x \<tau>
  assume w: "wakeful True (False, a) \<sigma>" and s: "scheduler_start (ui_port (logged_ui env)) \<sigma> = (Inr x, \<tau>)"
  from w have "app_tracked \<sigma>" by (simp add: wakeful_def)
  from app_timer.start_tracked [OF this s] scheduler_started(1) [OF s] w
  show "wakeful True (True, a) \<tau>" by (simp add: wakeful_def)
qed (use app_timer.start_tracked in blast)

lemma moves_stop: "moves clean (running, a) (scheduler_stop (ui_port (logged_ui env))) (False, a)"
proof (rule movesI)
  fix \<sigma> x \<tau>
  assume w: "wakeful True (running, a) \<sigma>" and s: "scheduler_stop (ui_port (logged_ui env)) \<sigma> = (Inr x, \<tau>)"
  from w have "app_tracked \<sigma>" by (simp add: wakeful_def)
  from app_timer.stop_tracked [OF this s] scheduler_started(2) [OF s] w
  show "wakeful True (False, a) \<tau>" by (simp add: wakeful_def)
qed (use app_timer.stop_tracked in blast)

lemma moves_visibility: "moves clean a (scheduler_set_visibility (ui_port (logged_ui env)) v) a"
proof (rule movesI)
  fix \<sigma> x \<tau>
  assume w: "wakeful True a \<sigma>" and s: "scheduler_set_visibility (ui_port (logged_ui env)) v \<sigma> = (Inr x, \<tau>)"
  from w have "app_tracked \<sigma>" by (simp add: wakeful_def)
  from app_timer.visibility_tracked [OF this s] scheduler_started(3) [OF s] w
  show "wakeful True a \<tau>" by (simp add: wakeful_def)
qed (use app_timer.visibility_tracked in blast)

lemma moves_post: "moves clean a (scheduler_post (ui_port (logged_ui env)) e key) a"
proof (rule movesI)
  fix \<sigma> x \<tau>
  assume w: "wakeful True a \<sigma>" and s: "scheduler_post (ui_port (logged_ui env)) e key \<sigma> = (Inr x, \<tau>)"
  from w have "app_tracked \<sigma>" by (simp add: wakeful_def)
  from app_timer.post_tracked [OF this s] scheduler_started(4) [OF s] w
  show "wakeful True a \<tau>" by (simp add: wakeful_def)
qed (use app_timer.post_tracked in blast)

lemma moves_started: "moves clean (running, a) (set_started b) (running, b)"
proof (rule movesI)
  have tr: "app_tracked \<tau>" if "app_tracked \<sigma>" "set_started b \<sigma> = (r, \<tau>)" for \<sigma> r \<tau>
    by (rule app_timer.tracked_same [OF that(1)])
      (use that(2) in \<open>auto simp: set_started_def app_pending_def split: prod.splits\<close>)
  then show "app_tracked \<tau>" if "app_tracked \<sigma>" "set_started b \<sigma> = (r, \<tau>)" for \<sigma> r \<tau> using that .
  show "wakeful True (running, b) \<tau>" if "wakeful True (running, a) \<sigma>" "set_started b \<sigma> = (Inr x, \<tau>)" for \<sigma> x \<tau>
    using that tr [OF _ that(2)] by (auto simp: wakeful_def set_started_def split: prod.splits)
qed

lemmas moves_intros = moves_same moves_get moves_pure moves_beside moves_visibility moves_post

text \<open>Starting leads to a running scheduler and a started application, stopping to neither.\<close>

lemma moves_ui_start: "moves clean (b, b) (ui_start (logged_ui env) minimized) (True, True)"
  unfolding ui_start_def Let_def
proof (intro moves_andthen [OF moves_pure(3)] moves_get_started, unfold prod.case)
  fix app
  let ?v = "if minimized then UvMinimized else UvVisible"
  assume a: "clean \<Longrightarrow> ua_started app = snd (b, b)"
  have go: "moves clean (False, False) (andthen (ui_evolve f) (\<lambda>_.
      andthen (on_world (he_set_visibility (logged_ui env) ?v)) (\<lambda>_.
      andthen (scheduler_set_visibility (ui_port (logged_ui env)) ?v) (\<lambda>_.
      andthen (scheduler_start (ui_port (logged_ui env))) (\<lambda>_.
      andthen (set_started True) (\<lambda>_. ui_render (logged_ui env))))))) (True, True)" for f
    by (intro moves_andthen [OF moves_beside(1)] moves_andthen [OF moves_beside(2)]
        moves_andthen [OF moves_visibility] moves_andthen [OF moves_start] moves_andthen [OF moves_started]
        moves_beside(4))
  show "moves clean (b, b) (if ua_started app then throw RuntimeErr
      else andthen (ui_evolve (\<lambda>s. s\<lparr>rn_lifecycle := LpRunning, rn_visibility := ?v\<rparr>)) (\<lambda>_.
        andthen (on_world (he_set_visibility (logged_ui env) ?v)) (\<lambda>_.
        andthen (scheduler_set_visibility (ui_port (logged_ui env)) ?v) (\<lambda>_.
        andthen (scheduler_start (ui_port (logged_ui env))) (\<lambda>_.
        andthen (set_started True) (\<lambda>_. ui_render (logged_ui env))))))) (True, True)"
  proof (cases "ua_started app")
    case False
    then have "clean \<Longrightarrow> (b, b) = (False, False)" using a by simp
    from moves_pre [OF go this] False show ?thesis by simp
  qed (simp add: moves_pure)
qed

lemma moves_ui_stop: "moves clean (b, b) (ui_stop (logged_ui env) forced) (False, False)"
  unfolding ui_stop_def
proof (intro moves_andthen [OF moves_pure(3)] moves_get_started, unfold prod.case)
  fix app
  assume a: "clean \<Longrightarrow> ua_started app = snd (b, b)"
  have go: "moves clean (b, b) (andthen (scheduler_stop (ui_port (logged_ui env))) (\<lambda>_.
      andthen (ui_evolve f) (\<lambda>_. andthen (ui_render (logged_ui env)) (\<lambda>_. set_started False)))) (False, False)" for f
    by (intro moves_andthen [OF moves_stop] moves_andthen [OF moves_beside(1)] moves_andthen [OF moves_beside(4)]
        moves_started)
  show "moves clean (b, b) (if \<not> ua_started app then ret ()
      else andthen (scheduler_stop (ui_port (logged_ui env))) (\<lambda>_.
        andthen (ui_evolve (\<lambda>s. s\<lparr>rn_lifecycle := LpStopped, rn_busy := False, rn_forced_shutdown := forced\<rparr>)) (\<lambda>_.
        andthen (ui_render (logged_ui env)) (\<lambda>_. set_started False)))) (False, False)"
  proof (cases "ua_started app")
    case False
    then have "clean \<Longrightarrow> (b, b) = (False, False)" using a by simp
    from moves_pre [OF moves_pure(1) this] False show ?thesis by simp
  qed (simp add: go)
qed

lemma moves_services:
  "moves clean a (ui_publish (logged_ui env) s) a" "moves clean a (ui_post_result (logged_ui env) x) a"
  unfolding ui_publish_def ui_post_result_def by (auto intro!: moves_intros)

lemma moves_local:
  "moves clean a (ui_set_visibility (logged_ui env) v) a"
  "moves clean a (ui_change_surface (logged_ui env) c) a"
  "moves clean a (ui_select_node (logged_ui env) c) a"
  unfolding ui_set_visibility_def ui_change_surface_def ui_select_node_def Let_def
  by (auto intro!: moves_intros split: prod.splits option.splits pyval.splits)

lemma moves_dispatch: "moves clean a (ui_dispatch (logged_ui env) c) a"
proof -
  have "moves clean a (ui_dispatch_local (logged_ui env) c) a"
    unfolding ui_dispatch_local_def Let_def
    by (auto intro!: moves_intros moves_local split: command_kind.splits)
  then show ?thesis
    unfolding ui_dispatch_def
    by (auto intro!: moves_intros split: prod.splits sum.splits option.splits)
qed

text \<open>A firing does not start or stop anything.\<close>

lemma drain_stopped:
  assumes "\<And>v. keeps (\<lambda>\<sigma>. sc_stopped (fst \<sigma>) = b) (consume v)"
  shows "keeps (\<lambda>\<sigma>. sc_stopped (fst \<sigma>) = b) (scheduler_drain port consume)"
proof -
  let ?J = "\<lambda>\<sigma>. sc_stopped (fst \<sigma>) = b"
  have "keeps ?J (consume_each consume vs)" for vs
    by (induction vs) (auto intro: keep_intros assms)
  moreover have "keeps ?J (reschedule port)"
    by (rule keepsI) (auto simp: reschedule_def schedule_locked_def split: if_splits prod.splits sum.splits)
  moreover have "keeps ?J take_batch"
    by (rule keepsI) (auto simp: take_batch_def split: prod.splits)
  ultimately have "keeps ?J (andthen take_batch (\<lambda>batch. andthen (consume_each consume batch) (\<lambda>_. reschedule port)))"
    by (intro keep_andthen)
  note body = this
  show ?thesis
  proof (rule keepsI)
    fix \<sigma> r \<tau> assume J: "?J \<sigma>" and d: "scheduler_drain port consume \<sigma> = (r, \<tau>)"
    show "?J \<tau>"
    proof (cases "sc_stopped (fst \<sigma>)")
      case True
      with J d show ?thesis by (auto simp: scheduler_drain_def)
    next
      case False
      with d have "andthen take_batch (\<lambda>batch. andthen (consume_each consume batch) (\<lambda>_. reschedule port))
          ((fst \<sigma>)\<lparr>sc_token := None\<rparr>, snd \<sigma>) = (r, \<tau>)"
        by (simp add: scheduler_drain_def Let_def)
      from keepsD [OF body _ this] J show ?thesis by simp
    qed
  qed
qed

lemma ui_fire_wakeful:
  assumes "wakeful clean (b, b) (sc, app, w)" and "t \<in># ui_pending w"
    and "ui_drain (logged_ui env) (sc, app, ui_fired t w) = (r, \<tau>)"
  shows "wakeful (clean \<and> \<not> isl r) (b, b) \<tau>"
proof -
  let ?consume = "ui_consume (logged_ui env)" and ?port = "ui_port (logged_ui env)"
  have d: "scheduler_drain ?port ?consume (sc, app_fired t (app, w)) = (r, \<tau>)"
    using assms(3) by (simp add: ui_drain_def app_fired_def)
  have "app_tracked (sc, app, w)" "t \<in># app_pending (app, w)"
    using assms(1,2) by (simp_all add: wakeful_def app_pending_def)
  note fired = app_timer.fire_tracked [OF this d]
  have "keeps (\<lambda>\<sigma>. sc_stopped (fst \<sigma>) = c) (?consume v)" for c v
  proof (rule keepsI)
    fix \<sigma> r \<tau> assume "sc_stopped (fst \<sigma>) = c" "?consume v \<sigma> = (r, \<tau>)"
    then show "sc_stopped (fst \<tau>) = c"
      using keepsD [OF at_timer_consume [of "fst \<sigma>" "snd (snd (snd (snd \<sigma>)))"], of \<sigma>]
      by (simp add: at_timer_def)
  qed
  from keepsD [OF drain_stopped [OF this] refl d] have stopped: "sc_stopped (fst \<tau>) = sc_stopped sc" by simp
  have "keeps (beyond (\<lambda>x. ua_started (fst x) = c)) (?consume v)" for c v
  proof (rule keepsI)
    fix \<sigma> r \<tau> assume "ua_started (fst (snd \<sigma>)) = c" "?consume v \<sigma> = (r, \<tau>)"
    then show "ua_started (fst (snd \<tau>)) = c"
      using keepsD [OF at_rest_consume [of c "fst \<sigma>" "snd (snd (snd (snd \<sigma>)))"], of \<sigma>]
      by (simp add: at_rest_def at_timer_def)
  qed
  from keepsD [OF scheduler_drain_keeps [OF port_keeps_started this] refl d]
  have "ua_started (fst (snd \<tau>)) = ua_started app" by (simp add: app_fired_def)
  with fired stopped assms(1) show ?thesis by (simp add: wakeful_def)
qed

lemma moves_step:
  assumes "moves clean (b, b) m (b', b')" and "wakeful clean (b, b) \<sigma>" and "m \<sigma> = (r, \<tau>)"
  shows "\<exists>b. wakeful (clean \<and> \<not> isl r) (b, b) \<tau>"
proof (cases r)
  case (Inl e)
  with triple_Inl [OF assms(1) [unfolded moves_def] assms(2) assms(3) [unfolded Inl]] show ?thesis
    by (simp add: wakeful_def)
next
  case (Inr x)
  with triple_Inr [OF assms(1) [unfolded moves_def] assms(2) assms(3) [unfolded Inr]] show ?thesis
    by (intro exI [of _ b']) simp
qed

lemma reach_wakeful:
  "ui_reach (logged_ui env) ui_fired ui_pending (\<lambda>x. snd x = ([], [])) clean \<sigma> \<Longrightarrow>
     \<exists>b. wakeful clean (b, b) \<sigma>"
proof (induction rule: ui_reach.induct)
  case (ur_init initial guard n w sc app w')
  then have "wakeful True (False, False) (sc, app, w')"
    by (auto simp: mk_UiApplication_def mk_UiScheduler_def bindE_eq_Inr wakeful_def awake_def
        app_timer.tracked_def app_pending_def ui_pending_def split: sum.splits prod.splits if_splits)
  then show ?case by blast
next
  case (ur_start clean \<sigma> minimized r \<tau>)
  then show ?case using moves_step [OF moves_ui_start] by blast
next
  case (ur_stop clean \<sigma> forced r \<tau>)
  then show ?case using moves_step [OF moves_ui_stop] by blast
next
  case (ur_publish clean \<sigma> s r' \<tau>)
  then show ?case using moves_step [OF moves_services(1)] by blast
next
  case (ur_post clean \<sigma> x r' \<tau>)
  then show ?case using moves_step [OF moves_services(2)] by blast
next
  case (ur_dispatch clean \<sigma> c r \<tau>)
  then show ?case using moves_step [OF moves_dispatch] by blast
next
  case (ur_fire clean sc app w t r \<tau>)
  then show ?case using ui_fire_wakeful by blast
qed

section \<open>Dispatching to the handler\<close>

definition local_kind :: "command_kind \<Rightarrow> bool" where
  "local_kind k \<longleftrightarrow> k \<in> {CkShow, CkHide, CkMinimize, CkOpenSurface, CkCloseSurface, CkSelectNode, CkQuit, CkRestart}"

text \<open>The result a command is answered with, or none.\<close>

definition answer :: "ui_command \<Rightarrow> handler_return result \<Rightarrow> command_result option" where
  "answer c r =
     (let failed = (\<lambda>code message. Some \<lparr>cmr_command_id = uc_command_id c, cmr_status = RsFailed,
            cmr_code = code, cmr_message = message, cmr_fields = []\<rparr>) in
      case r of
        Inl e \<Rightarrow> failed ''command_failed'' ''The operation failed.''
      | Inr HrNone \<Rightarrow> None
      | Inr HrOther \<Rightarrow> failed ''invalid_result'' ''The operation returned an invalid result.''
      | Inr (HrResult x) \<Rightarrow>
          if cmr_command_id x = uc_command_id c then Some x
          else failed ''invalid_result'' ''The operation returned an invalid result.'')"

lemma failed_results:
  "0 \<le> uc_command_id c \<Longrightarrow> failed_result c ''command_failed'' ''The operation failed.'' =
     Inr \<lparr>cmr_command_id = uc_command_id c, cmr_status = RsFailed, cmr_code = ''command_failed'',
          cmr_message = ''The operation failed.'', cmr_fields = []\<rparr>"
  "0 \<le> uc_command_id c \<Longrightarrow> failed_result c ''invalid_result'' ''The operation returned an invalid result.'' =
     Inr \<lparr>cmr_command_id = uc_command_id c, cmr_status = RsFailed, cmr_code = ''invalid_result'',
          cmr_message = ''The operation returned an invalid result.'', cmr_fields = []\<rparr>"
  by (simp_all add: failed_result_def mk_CommandResult_def ui_text_def ui_max_text_def safe_fields_def
      field_name_def is_lower_def is_digit_def ord_def)

lemma answer_event:
  assumes "0 \<le> uc_command_id c" and "case r of Inl e \<Rightarrow> is_exception e | Inr _ \<Rightarrow> True"
  shows "handler_event c r = Inr (map_option ResultEvent (answer c r))"
  using assms
  by (auto simp: handler_event_def answer_def failed_results Let_def split: sum.splits handler_return.splits)

lemma answer_ok:
  assumes "0 \<le> uc_command_id c" and "case r of Inr (HrResult x) \<Rightarrow> result_ok x | _ \<Rightarrow> True"
    and "answer c r = Some x"
  shows "result_ok x \<and> cmr_command_id x = uc_command_id c"
proof -
  have "result_ok y" if "failed_result c code m = Inr y" for code m y
    using that by (auto simp: failed_result_def dest: mk_CommandResult_ok)
  with assms failed_results [OF assms(1)] show ?thesis
    by (auto simp: answer_def Let_def split: sum.splits handler_return.splits if_splits)
qed

text \<open>A host on whose thread the application runs and whose render calls return.\<close>

definition healthy :: "'w ui_env \<Rightarrow> ui_app \<Rightarrow> bool" where
  "healthy env app \<longleftrightarrow> (\<forall>w. he_thread env w = ua_guard app) \<and> (\<forall>s w. \<exists>w'. he_render env s w = (Inr (), w'))"

lemma healthy_render:
  assumes "healthy env app"
  shows "\<exists>w'. ui_render env (sc, app, w) = (Inr (), sc, app, w')"
proof -
  obtain w' where "he_render env (ua_state app) w = (Inr (), w')" using assms by (metis healthy_def)
  with assms show ?thesis
    by (simp add: ui_render_def andthen_def assert_current_def get_ui_def on_world_def healthy_def)
qed

lemma healthy_state [simp]: "healthy env (app\<lparr>ua_state := s\<rparr>) = healthy env app"
  by (simp add: healthy_def)

lemma render_ok_busy: "render_ok s \<Longrightarrow> evolve (\<lambda>s. s\<lparr>rn_busy := b\<rparr>) s = Inr (s\<lparr>rn_busy := b, rn_revision := rn_revision s + 1\<rparr>)"
proof -
  assume "render_ok s"
  then have "render_ok (s\<lparr>rn_busy := b, rn_revision := rn_revision s + 1\<rparr>)" by (simp add: render_ok_iff)
  then show ?thesis by (simp add: evolve_def render_ok_def)
qed

lemma healthy_consume:
  assumes "healthy env app" and "render_ok (ua_state app)" and "event_ok (ResultEvent x)"
  shows "\<exists>t w'. ui_consume env (ResultEvent x) (sc, app, w) = (Inr (), sc, app\<lparr>ua_state := t\<rparr>, w') \<and>
    render_ok t \<and> \<not> rn_busy t \<and> rn_last_result t = Some x"
proof -
  obtain u where u: "reduce_event (ua_state app) (ResultEvent x) = Inr u" "render_ok u" "\<not> rn_busy u"
      "rn_last_result u = Some x"
    using reduce_event_result [OF assms(2,3)] by blast
  let ?t = "u\<lparr>rn_queue_depth := int (queue_depth sc), rn_dropped_events := int (eq_dropped (sc_queue sc)),
              rn_revision := rn_revision u + 1\<rparr>"
  have t: "render_ok ?t" using u(2) by (simp add: render_ok_iff)
  then have e: "evolve (\<lambda>s. s\<lparr>rn_queue_depth := int (queue_depth sc),
      rn_dropped_events := int (eq_dropped (sc_queue sc))\<rparr>) u = Inr ?t"
    by (simp add: evolve_def render_ok_def)
  obtain w' where "ui_render env (sc, app\<lparr>ua_state := ?t\<rparr>, w) = (Inr (), sc, app\<lparr>ua_state := ?t\<rparr>, w')"
    using healthy_render [of env "app\<lparr>ua_state := ?t\<rparr>"] assms(1) by auto
  then have "ui_consume env (ResultEvent x) (sc, app, w) = (Inr (), sc, app\<lparr>ua_state := ?t\<rparr>, w')"
    using assms(1) u(1) e
    by (simp add: ui_consume_def andthen_def assert_current_def get_ui_def put_state_def healthy_def)
  with t u(3,4) show ?thesis by (intro exI [of _ ?t]) auto
qed

text \<open>A handler that raises only exceptions the dispatcher catches and returns only valid results.\<close>

definition handler_ok :: "'w ui_env \<Rightarrow> ui_command \<Rightarrow> bool" where
  "handler_ok env c \<longleftrightarrow> (\<forall>w. case fst (he_handler env c w) of
     Inl e \<Rightarrow> is_exception e | Inr (HrResult x) \<Rightarrow> result_ok x | Inr _ \<Rightarrow> True)"

text \<open>Dispatch to the handler, up to the event its outcome becomes.\<close>

definition busy_state_of :: "ui_app \<Rightarrow> render_state" where
  "busy_state_of app = (ua_state app)\<lparr>rn_busy := True, rn_revision := rn_revision (ua_state app) + 1\<rparr>"

definition answerable :: "ui_command \<Rightarrow> handler_return result \<Rightarrow> bool" where
  "answerable c r \<longleftrightarrow> (case r of Inl e \<Rightarrow> is_exception e | Inr _ \<Rightarrow> True) \<and>
     (case r of Inr (HrResult x) \<Rightarrow> result_ok x | _ \<Rightarrow> True)"

lemma dispatch_handled:
  assumes "render_ok (ua_state app)" and "ua_started app" and "healthy env app"
    and "\<not> local_kind (uc_kind c)" and "0 \<le> uc_command_id c" and "handler_ok env c"
  shows "\<exists>w0 r w1. he_handler env c w0 = (r, w1) \<and> answerable c r \<and>
    ui_dispatch env c (sc, app, w) =
      (case map_option ResultEvent (answer c r) of None \<Rightarrow> ret () | Some e \<Rightarrow> ui_consume env e)
        (sc, app\<lparr>ua_state := busy_state_of app\<rparr>, w1)"
proof -
  let ?app = "app\<lparr>ua_state := busy_state_of app\<rparr>"
  have local_no: "ui_dispatch_local env c \<sigma> = (Inr False, \<sigma>)" for \<sigma>
    using assms(4) by (cases "uc_kind c") (simp_all add: ui_dispatch_local_def local_kind_def ret_def)
  obtain w0 where r0: "ui_render env (sc, ?app, w) = (Inr (), sc, ?app, w0)"
    using healthy_render [of env ?app] assms(3) by auto
  obtain r w1 where h: "he_handler env c w0 = (r, w1)" by fastforce
  have r: "answerable c r"
    using assms(6) [unfolded handler_ok_def, rule_format, of w0] h
    by (auto simp: answerable_def split: sum.splits handler_return.splits)
  have "ui_dispatch env c (sc, app, w) =
      (case map_option ResultEvent (answer c r) of None \<Rightarrow> ret () | Some e \<Rightarrow> ui_consume env e) (sc, ?app, w1)"
    using assms(2,3) r0 h r answer_event [OF assms(5), of r] render_ok_busy [OF assms(1), of True]
    by (simp add: ui_dispatch_def andthen_def assert_current_def get_ui_def local_no ui_evolve_def
        put_state_def ui_handle_def on_world_def healthy_def answerable_def busy_state_of_def)
  with h r show ?thesis by blast
qed

section \<open>Properties\<close>

text \<open>
  C35: what the window shows is always valid and always newer. In every state the application
  reaches, whatever raised on the way, the current state and every state handed to the host passes
  the checks of \<open>RenderState\<close>, the revisions of the rendered states strictly increase, and none of
  them is newer than the current state.
\<close>

theorem ui_renders_increase:
  assumes "ui_reach (logged_ui env) ui_fired ui_pending (\<lambda>x. snd x = ([], [])) clean (sc, app, w, rendered, timers)"
  shows "render_ok (ua_state app) \<and> list_all render_ok rendered \<and>
    sorted_wrt (<) (map rn_revision rendered) \<and>
    list_all (\<lambda>s. rn_revision s \<le> rn_revision (ua_state app)) rendered"
  using reach_trace_inv [OF assms] by (auto simp: trace_inv_def list_all_iff)

text \<open>
  C36: the application is never left asleep. In every state the application reaches, whatever raised
  on the way, the callbacks pending at the host are exactly the one the scheduler's token stands for,
  or none. As long as no call has raised, the scheduler runs exactly while the application is
  started, and while it is started a callback is pending whenever an event is queued or the window
  is visible. (After an exception, of a render call for instance, this second part may fail.)
\<close>

theorem ui_never_sleeps:
  assumes "ui_reach (logged_ui env) ui_fired ui_pending (\<lambda>x. snd x = ([], [])) clean
      (sc, app, w, rendered, timers)"
  shows "timers_pending timers = (case sc_token sc of None \<Rightarrow> {#} | Some t \<Rightarrow> {#t#}) \<and>
    (clean \<longrightarrow> (ua_started app \<longleftrightarrow> \<not> sc_stopped sc) \<and>
       (if ua_started app
        then queue_depth sc \<noteq> 0 \<or> sc_visibility sc = UvVisible \<longrightarrow> timers_pending timers \<noteq> {#}
        else timers_pending timers = {#}))"
proof -
  obtain b where "wakeful clean (b, b) (sc, app, w, rendered, timers)" using reach_wakeful [OF assms] by blast
  then show ?thesis
    by (auto simp: wakeful_def app_timer.tracked_def app_pending_def ui_pending_def awake_def)
qed

text \<open>
  C37: every command is answered. On the UI thread, with a host whose render calls return, dispatching
  a command that is not handled locally returns, leaves a valid state, and shows its outcome: the
  handler's own result, or a failed result of the same command when the handler raised or returned
  anything else; only where the handler returned \<open>None\<close> does the application stay busy.
\<close>

theorem ui_dispatch_answers:
  assumes "render_ok (ua_state app)" and "ua_started app" and "healthy env app"
    and "\<not> local_kind (uc_kind c)" and "0 \<le> uc_command_id c" and "handler_ok env c"
  shows "\<exists>w0 r w1 t w2. he_handler env c w0 = (r, w1) \<and>
    ui_dispatch env c (sc, app, w) = (Inr (), sc, app\<lparr>ua_state := t\<rparr>, w2) \<and> render_ok t \<and>
    (case answer c r of
       None \<Rightarrow> rn_busy t \<and> rn_last_result t = rn_last_result (ua_state app)
     | Some x \<Rightarrow> \<not> rn_busy t \<and> rn_last_result t = Some x \<and> cmr_command_id x = uc_command_id c)"
  using dispatch_handled [OF assms]
proof (rule exE)
  let ?app = "app\<lparr>ua_state := busy_state_of app\<rparr>"
  fix w0 assume "\<exists>r w1. he_handler env c w0 = (r, w1) \<and> answerable c r \<and>
    ui_dispatch env c (sc, app, w) =
      (case map_option ResultEvent (answer c r) of None \<Rightarrow> ret () | Some e \<Rightarrow> ui_consume env e) (sc, ?app, w1)"
  then obtain r w1 where h: "he_handler env c w0 = (r, w1)" and r: "answerable c r"
    and d: "ui_dispatch env c (sc, app, w) =
      (case map_option ResultEvent (answer c r) of None \<Rightarrow> ret () | Some e \<Rightarrow> ui_consume env e) (sc, ?app, w1)"
    by blast
  have s: "render_ok (busy_state_of app)" using assms(1) by (simp add: render_ok_iff busy_state_of_def)
  have "\<exists>t w2. ui_dispatch env c (sc, app, w) = (Inr (), sc, app\<lparr>ua_state := t\<rparr>, w2) \<and> render_ok t \<and>
    (case answer c r of
       None \<Rightarrow> rn_busy t \<and> rn_last_result t = rn_last_result (ua_state app)
     | Some x \<Rightarrow> \<not> rn_busy t \<and> rn_last_result t = Some x \<and> cmr_command_id x = uc_command_id c)"
  proof (cases "answer c r")
    case None
    with d s show ?thesis
      by (intro exI [of _ "busy_state_of app"]) (simp add: ret_def busy_state_of_def)
  next
    case (Some x)
    from answer_ok [OF assms(5) _ Some] r have x: "event_ok (ResultEvent x)" "cmr_command_id x = uc_command_id c"
      by (simp_all add: event_ok_def answerable_def)
    from healthy_consume [of env ?app x sc w1] s assms(3) x(1) d Some x(2) show ?thesis by fastforce
  qed
  with h show ?thesis by blast
qed

section \<open>The properties at a concrete application\<close>

text \<open>A host on thread 1 whose timer tokens count up, and a handler that reports success.\<close>

definition demo_ui :: "nat ui_env" where
  "demo_ui = \<lparr>
     he_port = \<lparr>sp_call_later = (\<lambda>d w. (Inr w, Suc w)), sp_cancel = (\<lambda>t w. (Inr (), w))\<rparr>,
     he_render = (\<lambda>s w. (Inr (), w)), he_set_visibility = (\<lambda>v w. (Inr (), w)),
     he_bind = (\<lambda>w. (Inr (), w)),
     he_handler = (\<lambda>c w. (Inr (HrResult \<lparr>cmr_command_id = uc_command_id c, cmr_status = RsSucceeded,
        cmr_code = ''saved'', cmr_message = [], cmr_fields = []\<rparr>), w)),
     he_quit = (\<lambda>b w. (Inr (), w)), he_thread = (\<lambda>w. 1)\<rparr>"

definition demo_command :: ui_command where
  "demo_command = \<lparr>uc_command_id = 3, uc_kind = CkSaveSettings, uc_fields = []\<rparr>"

definition demo_started :: render_state where
  "demo_started = default_render\<lparr>rn_revision := 1, rn_lifecycle := LpRunning\<rparr>"

definition demo_scheduled :: "ui_event scheduler" where
  "demo_scheduled = \<lparr>sc_queue = \<lparr>eq_maximum = 128, eq_items = [], eq_dropped = 0\<rparr>, sc_interval = 1000,
     sc_batch = 128, sc_visibility = UvVisible, sc_token = Some 0, sc_stopped = False\<rparr>"

lemma demo_ui_start:
  "ui_start (logged_ui demo_ui) False
     (demo_scheduled\<lparr>sc_token := None, sc_stopped := True\<rparr>,
      \<lparr>ua_state = default_render, ua_started = False, ua_guard = 1\<rparr>, 0, [], []) =
   (Inr (), demo_scheduled, \<lparr>ua_state = demo_started, ua_started = True, ua_guard = 1\<rparr>, 1, [demo_started],
     [TmLater 1000 0])"
  by code_simp

lemma demo_ui_reach:
  "ui_reach (logged_ui demo_ui) ui_fired ui_pending (\<lambda>x. snd x = ([], [])) True
     (demo_scheduled, \<lparr>ua_state = demo_started, ua_started = True, ua_guard = 1\<rparr>, 1, [demo_started],
      [TmLater 1000 0])"
proof -
  have "mk_UiApplication (logged_ui demo_ui) default_render None 128 (0, [], []) =
      (Inr (demo_scheduled\<lparr>sc_token := None, sc_stopped := True\<rparr>,
        \<lparr>ua_state = default_render, ua_started = False, ua_guard = 1\<rparr>), 0, [], [])"
    by (simp add: mk_UiApplication_def mk_UiScheduler_def mk_event_queue_def demo_scheduled_def
        logged_ui_def demo_ui_def beside_def)
  moreover have "render_ok default_render" by code_simp
  ultimately have "ui_reach (logged_ui demo_ui) ui_fired ui_pending (\<lambda>x. snd x = ([], [])) True
      (demo_scheduled\<lparr>sc_token := None, sc_stopped := True\<rparr>,
        \<lparr>ua_state = default_render, ua_started = False, ua_guard = 1\<rparr>, 0, [], [])"
    by (rule ur_init) simp
  from ur_start [OF this demo_ui_start] show ?thesis by simp
qed

theorem ui_renders_increase_witness:
  "render_ok demo_started \<and> list_all render_ok [demo_started] \<and> sorted_wrt (<) (map rn_revision [demo_started])"
  using ui_renders_increase [OF demo_ui_reach] by simp

theorem ui_never_sleeps_witness:
  "timers_pending [TmLater 1000 0] = {#0#} \<and> \<not> sc_stopped demo_scheduled"
  using ui_never_sleeps [OF demo_ui_reach] by (simp add: demo_scheduled_def)

theorem ui_dispatch_answers_witness:
  "\<exists>t w2. ui_dispatch demo_ui demo_command
      (demo_scheduled, \<lparr>ua_state = demo_started, ua_started = True, ua_guard = 1\<rparr>, 1) =
      (Inr (), demo_scheduled, \<lparr>ua_state = t, ua_started = True, ua_guard = 1\<rparr>, w2) \<and>
    rn_last_result t = Some \<lparr>cmr_command_id = 3, cmr_status = RsSucceeded, cmr_code = ''saved'',
      cmr_message = [], cmr_fields = []\<rparr> \<and> \<not> rn_busy t"
proof -
  let ?app = "\<lparr>ua_state = demo_started, ua_started = True, ua_guard = 1\<rparr>"
  have "render_ok demo_started" by code_simp
  moreover have "healthy demo_ui ?app" by (simp add: healthy_def demo_ui_def)
  moreover have "handler_ok demo_ui demo_command"
    by (simp add: handler_ok_def demo_ui_def demo_command_def result_ok_def field_name_def is_lower_def
        ord_def ui_text_def ui_max_text_def)
  moreover have "\<not> local_kind (uc_kind demo_command)" "0 \<le> uc_command_id demo_command"
    by (simp_all add: demo_command_def local_kind_def)
  ultimately obtain w0 r w1 t w2 where h: "he_handler demo_ui demo_command w0 = (r, w1)"
    and d: "ui_dispatch demo_ui demo_command (demo_scheduled, ?app, 1) = (Inr (), demo_scheduled, ?app\<lparr>ua_state := t\<rparr>, w2)"
    and a: "case answer demo_command r of
         None \<Rightarrow> rn_busy t \<and> rn_last_result t = rn_last_result (ua_state ?app)
       | Some x \<Rightarrow> \<not> rn_busy t \<and> rn_last_result t = Some x \<and> cmr_command_id x = uc_command_id demo_command"
    using ui_dispatch_answers [of ?app demo_ui demo_command demo_scheduled 1] by auto
  from h have "answer demo_command r = Some \<lparr>cmr_command_id = 3, cmr_status = RsSucceeded,
      cmr_code = ''saved'', cmr_message = [], cmr_fields = []\<rparr>"
    by (auto simp: demo_ui_def demo_command_def answer_def)
  with d a show ?thesis by auto
qed

end
