(* ===== verification/RayCommands.thy ===== *)
theory RayCommands
  imports UiApp Schema Core
begin

text \<open>
  The class \<open>LocalRayCommandHandler\<close> of \<open>src/rcm/ui/app.py\<close>: Start and Stop of the Ray node on this
  computer, through the Ray adapter (a parameter). An adapter call that returns something without
  the attributes of an \<open>ActionResult\<close> raises when they are read.
\<close>

section \<open>The handler\<close>



definition underscored :: "string \<Rightarrow> string" where
  "underscored s = map (\<lambda>c. if c = CHR ''.'' then CHR ''_'' else c) s"

definition ray_command_result :: "ui_command \<Rightarrow> action_result \<Rightarrow> string \<Rightarrow> command_result result" where
  "ray_command_result c r success_message =
     (case ar_status r of
        ActSucceeded \<Rightarrow> mk_CommandResult (uc_command_id c) RsSucceeded (underscored (ar_code r)) success_message (PTuple [])
      | ActCancelled \<Rightarrow> mk_CommandResult (uc_command_id c) RsCancelled (underscored (ar_code r))
          ''The local Ray operation was cancelled.'' (PTuple [])
      | _ \<Rightarrow> mk_CommandResult (uc_command_id c) RsFailed (underscored (ar_code r))
          ''The local Ray operation failed safely.'' (PTuple []))"



text \<open>One adapter call, and reading the result.\<close>

definition ray_call ::
    "(control_call \<Rightarrow> 'w \<Rightarrow> control_return \<times> 'w) \<Rightarrow> control_call \<Rightarrow> ('w, pyexn, action_result) eff" where
  "ray_call adapter call w =
     (case adapter call w of
        (CtlRaises e, w') \<Rightarrow> (Inl e, w')
      | (CtlOther, w') \<Rightarrow> (Inl OtherException, w')
      | (CtlResult r, w') \<Rightarrow> (Inr r, w'))"

definition ray_fail :: "ui_command \<Rightarrow> string \<Rightarrow> string \<Rightarrow> ('w, pyexn, command_result) eff" where
  "ray_fail c code message = of_result (mk_CommandResult (uc_command_id c) RsFailed code message (PTuple []))"

text \<open>The body of the \<open>try\<close>.\<close>

definition ray_steps ::
    "config \<Rightarrow> (control_call \<Rightarrow> 'w \<Rightarrow> control_return \<times> 'w) \<Rightarrow> ui_command \<Rightarrow> node \<Rightarrow> int
       \<Rightarrow> ('w, pyexn, command_result) eff" where
  "ray_steps cfg adapter c n epoch =
     andthen (ray_call adapter (CtlPreflight n epoch)) (\<lambda>preflight.
     if \<not> ar_ok preflight then of_result (ray_command_result c preflight [])
     else if uc_kind c = CkStop then
       andthen (ray_call adapter (CtlStop n epoch)) (\<lambda>stopped.
       of_result (ray_command_result c stopped ''Local Ray was stopped on this PC.''))
     else if node_role n = RoleWorker then
       andthen (of_result (mk_Node ''configured-head'' (ry_head_address (cfg_ray cfg)) RoleHead True [])) (\<lambda>head.
       andthen (ray_call adapter (CtlJoin n head epoch)) (\<lambda>started.
       of_result (ray_command_result c started ''This PC joined the configured Ray head.'')))
     else
       andthen (ray_call adapter (CtlStartHead n epoch)) (\<lambda>started.
       if \<not> ar_ok started then of_result (ray_command_result c started [])
       else
         andthen (ray_call adapter (CtlVerify [n] n epoch)) (\<lambda>verified.
         if ar_ok verified
         then of_result (ray_command_result c verified ''Local Ray head started and was verified.'')
         else
           andthen (ray_call adapter (CtlStop n epoch)) (\<lambda>rolled_back.
           if ar_ok rolled_back
           then ray_fail c ''ray_start_rolled_back'' ''Verification failed and local Ray was stopped.''
           else ray_fail c ''ray_rollback_failed'' ''Verification and local Ray rollback both failed.''))))"

definition ray_guarded ::
    "config \<Rightarrow> (control_call \<Rightarrow> 'w \<Rightarrow> control_return \<times> 'w) \<Rightarrow> ui_command \<Rightarrow> node \<Rightarrow> int
       \<Rightarrow> ('w, pyexn, command_result) eff" where
  "ray_guarded cfg adapter c n epoch =
     on_raise (ray_steps cfg adapter c n epoch) (\<lambda>e.
       if is_exception e then ray_fail c ''ray_operation_failed'' ''The local Ray operation failed safely.''
       else throw e)"



section \<open>Adapters with a trace\<close>

type_synonym ray_trace = "(control_call \<times> control_return) list"

definition logged_adapter ::
    "(control_call \<Rightarrow> 'w \<Rightarrow> control_return \<times> 'w) \<Rightarrow> control_call \<Rightarrow> 'w \<times> ray_trace \<Rightarrow> control_return \<times> 'w \<times> ray_trace" where
  "logged_adapter a call x = (case x of (w, l) \<Rightarrow> (case a call w of (r, w') \<Rightarrow> (r, w', l @ [(call, r)])))"
















text \<open>A code and a message every result can carry.\<close>

definition speakable :: "string \<Rightarrow> string \<Rightarrow> bool" where
  "speakable code m \<longleftrightarrow> field_name code \<and> ui_text m True = Inr m"

lemma speakable_rollback [simp]:
  "speakable ''ray_start_rolled_back'' ''Verification failed and local Ray was stopped.''"
  "speakable ''ray_rollback_failed'' ''Verification and local Ray rollback both failed.''"
  by code_simp+











definition failed_safely :: "ui_command \<Rightarrow> command_result" where
  "failed_safely c = \<lparr>cmr_command_id = uc_command_id c, cmr_status = RsFailed,
     cmr_code = ''ray_operation_failed'', cmr_message = ''The local Ray operation failed safely.'', cmr_fields = []\<rparr>"

lemma failed_safely_result:
  "ray_fail c ''ray_operation_failed'' ''The local Ray operation failed safely.'' x =
     (if uc_command_id c < 0 then (Inl ValueError, x) else (Inr (failed_safely c), x))"
  by (simp add: ray_fail_def of_result_def mk_CommandResult_def ui_text_def ui_max_text_def safe_fields_def
      field_name_def is_lower_def is_digit_def ord_def ret_def throw_def failed_safely_def)


section \<open>Properties\<close>


section \<open>Where the code falls short\<close>

text \<open>
  When verification raises after the head was started, the handler reports a safe failure, but the
  head keeps running: the stop that follows a negative verification is not made.
\<close>

theorem verify_exception_leaves_head_running:
  assumes "node_role n = RoleHead" and "uc_kind c = CkStart" and "0 \<le> uc_command_id c"
    and "a (CtlPreflight n e) w = (CtlResult p, w1)" and "ar_ok p"
    and "a (CtlStartHead n e) w1 = (CtlResult s, w2)" and "ar_ok s"
    and "a (CtlVerify [n] n e) w2 = (CtlRaises x, w3)" and "is_exception x"
  shows "ray_guarded cfg (logged_adapter a) c n e (w, []) = (Inr (failed_safely c), w3,
    [(CtlPreflight n e, CtlResult p), (CtlStartHead n e, CtlResult s), (CtlVerify [n] n e, CtlRaises x)])"
  using assms
  by (simp add: ray_guarded_def on_raise_def ray_steps_def andthen_def ray_call_def logged_adapter_def
      failed_safely_result)

section \<open>The property at a concrete command\<close>








end
