(* ===== verification/Desktop.thy ===== *)
theory Desktop
  imports UiApp Schema Runtime
begin

text \<open>
  \<open>src/rcm/desktop.py\<close> and \<open>src/rcm/app.py\<close>: the lifecycle of the desktop, the class \<open>Application\<close>
  that takes the singleton lease, starts the runtime, runs the window and shuts everything down,
  and the first render state of a configuration.

  The singleton, the shutdown fallback, the runtime's components and the host are parameters. What
  the host's \<open>run\<close> does is a script: dispatched commands, timer callbacks and changes of the world
  in any order, where an exception of a callback either ends the loop or is swallowed.
\<close>

section \<open>The lifecycle state machine\<close>

datatype desktop_phase =
  DpNew | DpAcquiring | DpStarting | DpRunning | DpRestarting | DpStopping | DpStopped | DpFailed

record lifecycle =
  lc_phase :: desktop_phase
  lc_visibility :: ui_visibility
  lc_restart :: bool
  lc_graceful :: bool
  lc_fallback :: bool
  lc_failure :: "string option"

definition init_lifecycle :: lifecycle where
  "init_lifecycle = \<lparr>lc_phase = DpNew, lc_visibility = UvVisible, lc_restart = False,
     lc_graceful = False, lc_fallback = False, lc_failure = None\<rparr>"

definition lc_transition :: "desktop_phase list \<Rightarrow> desktop_phase \<Rightarrow> (lifecycle, pyexn, unit) eff" where
  "lc_transition allowed target lc =
     (if lc_phase lc \<notin> set allowed then (Inl RuntimeErr, lc) else (Inr (), lc\<lparr>lc_phase := target\<rparr>))"

definition begin_acquire :: "(lifecycle, pyexn, unit) eff" where
  "begin_acquire = lc_transition [DpNew] DpAcquiring"

definition begin_start :: "(lifecycle, pyexn, unit) eff" where
  "begin_start = lc_transition [DpAcquiring] DpStarting"

definition lc_set_visibility :: "ui_visibility \<Rightarrow> (lifecycle, pyexn, unit) eff" where
  "lc_set_visibility v lc =
     (if lc_phase lc \<noteq> DpRunning then (Inl RuntimeErr, lc) else (Inr (), lc\<lparr>lc_visibility := v\<rparr>))"

definition lc_running :: "ui_visibility \<Rightarrow> (lifecycle, pyexn, unit) eff" where
  "lc_running v = andthen (lc_transition [DpStarting, DpRestarting] DpRunning) (\<lambda>_. lc_set_visibility v)"

definition lc_request_restart :: "(lifecycle, pyexn, unit) eff" where
  "lc_request_restart = andthen (lc_transition [DpRunning] DpRestarting)
     (\<lambda>_ lc. (Inr (), lc\<lparr>lc_restart := True\<rparr>))"

definition begin_shutdown :: "(lifecycle, pyexn, unit) eff" where
  "begin_shutdown = lc_transition [DpRunning, DpRestarting, DpStarting] DpStopping"

definition shutdown_complete :: "bool \<Rightarrow> (lifecycle, pyexn, unit) eff" where
  "shutdown_complete fallback_used = andthen (lc_transition [DpStopping] DpStopped)
     (\<lambda>_ lc. (Inr (), lc\<lparr>lc_graceful := \<not> fallback_used, lc_fallback := fallback_used\<rparr>))"

definition lc_fail :: "string \<Rightarrow> lifecycle \<Rightarrow> lifecycle" where
  "lc_fail code lc = lc\<lparr>lc_phase := DpFailed, lc_failure := Some code\<rparr>"

datatype lifecycle_scenario = ScVisibleQuit | ScCloseShowQuit | ScMinimizedShowQuit

datatype lifecycle_action = LaWindowClose | LaTrayShow | LaTrayQuit

definition lifecycle_scenario_commands :: "lifecycle_scenario option \<Rightarrow> (int \<times> lifecycle_action) list" where
  "lifecycle_scenario_commands s =
     (case s of
        None \<Rightarrow> []
      | Some ScVisibleQuit \<Rightarrow> [(1000, LaTrayQuit)]
      | Some ScCloseShowQuit \<Rightarrow> [(250, LaWindowClose), (1000, LaTrayShow), (1750, LaTrayQuit)]
      | Some ScMinimizedShowQuit \<Rightarrow> [(1000, LaTrayShow), (1750, LaTrayQuit)])"

section \<open>The application\<close>

text \<open>The fields the quit handler writes.\<close>

record app_core =
  ac_lifecycle :: lifecycle
  ac_restart :: bool

record application =
  ap_initial :: render_state
  ap_shutdown_timeout :: rat
  ap_fallback_timeout :: rat
  ap_core :: app_core
  ap_runtime :: runtime
  ap_ui :: "(ui_event scheduler \<times> ui_app) option"
  ap_lease :: "nat option"
  ap_forced :: bool

datatype 'w host_step = HsDispatch ui_command | HsFire | HsWorld "'w \<Rightarrow> 'w"

record 'w app_env =
  ae_runtime :: "'w runtime_env"
  ae_acquire :: "('w, pyexn, nat option) eff"
  ae_release :: "nat \<Rightarrow> ('w, pyexn, unit) eff"
  ae_fallback :: "(string list \<Rightarrow> rat \<Rightarrow> ('w, pyexn, pyval) eff) option"
  ae_host :: "'w ui_env"
  ae_quit :: "('w, pyexn, unit) eff"
  ae_dispose :: "('w, pyexn, unit) eff"
  ae_script :: "'w \<Rightarrow> 'w host_step list"
  ae_swallow :: bool
  ae_run_result :: "'w \<Rightarrow> pyval result"

type_synonym 'w app_state = "application \<times> 'w"

type_synonym ('w, 'a) app_eff = "('w app_state, pyexn, 'a) eff"

definition app_seconds :: "pyval \<Rightarrow> rat result" where
  "app_seconds v =
     (case v of
        PInt n \<Rightarrow> bindE (float_of_int n) (\<lambda>r. if r < 0 then Inl ValueError else Inr r)
      | PFloat (Finite r) \<Rightarrow> if r < 0 then Inl ValueError else Inr r
      | _ \<Rightarrow> Inl ValueError)"

definition mk_Application :: "runtime \<Rightarrow> render_state \<Rightarrow> pyval \<Rightarrow> pyval \<Rightarrow> application result" where
  "mk_Application rt initial shutdown_timeout fallback_timeout =
     bindE (app_seconds shutdown_timeout) (\<lambda>s.
     bindE (app_seconds fallback_timeout) (\<lambda>f.
     Inr \<lparr>ap_initial = initial, ap_shutdown_timeout = s, ap_fallback_timeout = f,
          ap_core = \<lparr>ac_lifecycle = init_lifecycle, ac_restart = False\<rparr>, ap_runtime = rt,
          ap_ui = None, ap_lease = None, ap_forced = False\<rparr>))"

definition on_lifecycle :: "(lifecycle, pyexn, 'a) eff \<Rightarrow> ('w, 'a) app_eff" where
  "on_lifecycle m \<sigma> = (case \<sigma> of (ap, w) \<Rightarrow>
     (case m (ac_lifecycle (ap_core ap)) of (r, lc) \<Rightarrow>
        (r, ap\<lparr>ap_core := (ap_core ap)\<lparr>ac_lifecycle := lc\<rparr>\<rparr>, w)))"

definition app_fail :: "string \<Rightarrow> ('w, unit) app_eff" where
  "app_fail code = on_lifecycle (\<lambda>lc. (Inr (), lc_fail code lc))"

definition on_ports :: "('w, pyexn, 'a) eff \<Rightarrow> ('w, 'a) app_eff" where
  "on_ports m \<sigma> = (case \<sigma> of (ap, w) \<Rightarrow> case m w of (r, w') \<Rightarrow> (r, ap, w'))"

definition get_app :: "(application \<Rightarrow> ('w, 'a) app_eff) \<Rightarrow> ('w, 'a) app_eff" where
  "get_app k \<sigma> = k (fst \<sigma>) \<sigma>"

definition on_runtime ::
    "(runtime \<Rightarrow> 'w \<Rightarrow> runtime_snapshot result \<times> runtime \<times> 'w) \<Rightarrow> ('w, runtime_snapshot) app_eff" where
  "on_runtime m \<sigma> = (case \<sigma> of (ap, w) \<Rightarrow>
     case m (ap_runtime ap) w of (r, rt, w') \<Rightarrow> (r, ap\<lparr>ap_runtime := rt\<rparr>, w'))"

text \<open>\<open>_request_exit\<close>: the quit handler of the window.\<close>

definition request_exit :: "'w app_env \<Rightarrow> bool \<Rightarrow> (app_core \<times> 'w, pyexn, unit) eff" where
  "request_exit env restart x =
     (case x of (core, w) \<Rightarrow>
        let core1 = core\<lparr>ac_restart := restart\<rparr> in
        (case (if restart then lc_request_restart (ac_lifecycle core1) else (Inr (), ac_lifecycle core1)) of
           (Inl e, lc) \<Rightarrow> (Inl e, core1\<lparr>ac_lifecycle := lc\<rparr>, w)
         | (Inr _, lc) \<Rightarrow>
             (case ae_quit env w of (r, w') \<Rightarrow> (r, core1\<lparr>ac_lifecycle := lc\<rparr>, w'))))"

text \<open>The environment of the window: the host's calls leave the application's own fields alone.\<close>

definition beside_core :: "('w, pyexn, 'a) eff \<Rightarrow> (app_core \<times> 'w, pyexn, 'a) eff" where
  "beside_core m x = (case x of (core, w) \<Rightarrow> case m w of (r, w') \<Rightarrow> (r, core, w'))"

definition window_env :: "'w app_env \<Rightarrow> (app_core \<times> 'w) ui_env" where
  "window_env env = (let h = ae_host env in
     \<lparr>he_port = \<lparr>sp_call_later = (\<lambda>d. beside_core (sp_call_later (he_port h) d)),
                 sp_cancel = (\<lambda>t. beside_core (sp_cancel (he_port h) t))\<rparr>,
      he_render = (\<lambda>s. beside_core (he_render h s)),
      he_set_visibility = (\<lambda>v. beside_core (he_set_visibility h v)),
      he_bind = beside_core (he_bind h),
      he_handler = (\<lambda>c. beside_core (he_handler h c)),
      he_quit = request_exit env,
      he_thread = (\<lambda>x. he_thread h (snd x))\<rparr>)"

definition on_window :: "(app_core \<times> 'w, 'a) ui_eff \<Rightarrow> ('w, 'a) app_eff" where
  "on_window m \<sigma> = (case \<sigma> of (ap, w) \<Rightarrow>
     (case ap_ui ap of
        None \<Rightarrow> (Inl OtherException, ap, w)
      | Some (sc, ui) \<Rightarrow>
          (case m (sc, ui, ap_core ap, w) of (r, sc', ui', core', w') \<Rightarrow>
             (r, ap\<lparr>ap_ui := Some (sc', ui'), ap_core := core'\<rparr>, w'))))"

definition create_window :: "'w app_env \<Rightarrow> ('w, unit) app_eff" where
  "create_window env \<sigma> = (case \<sigma> of (ap, w) \<Rightarrow>
     (case evolve (\<lambda>s. s\<lparr>rn_lifecycle := LpStarting\<rparr>) (ap_initial ap) of
        Inl e \<Rightarrow> (Inl e, ap, w)
      | Inr s \<Rightarrow>
          (case mk_UiApplication (window_env env) s None 1024 (ap_core ap, w) of
             (Inl e, core', w') \<Rightarrow> (Inl e, ap\<lparr>ap_core := core'\<rparr>, w')
           | (Inr u, core', w') \<Rightarrow> (Inr (), ap\<lparr>ap_ui := Some u, ap_core := core'\<rparr>, w'))))"

text \<open>The window loop.\<close>

fun run_script :: "'w app_env \<Rightarrow> 'w host_step list \<Rightarrow> ('w, unit) app_eff" where
  "run_script env [] = ret ()"
| "run_script env (st # steps) =
     andthen (case st of
         HsWorld f \<Rightarrow> on_ports (\<lambda>w. (Inr (), f w))
       | HsDispatch c \<Rightarrow> on_raise (on_window (ui_dispatch (window_env env) c))
           (\<lambda>e. if ae_swallow env \<and> is_exception e then ret () else throw e)
       | HsFire \<Rightarrow> on_raise (on_window (ui_drain (window_env env)))
           (\<lambda>e. if ae_swallow env \<and> is_exception e then ret () else throw e))
       (\<lambda>_. run_script env steps)"

definition host_run :: "'w app_env \<Rightarrow> ('w, pyval) app_eff" where
  "host_run env \<sigma> = andthen (run_script env (ae_script env (snd \<sigma>)))
     (\<lambda>_. on_ports (\<lambda>w. (ae_run_result env w, w))) \<sigma>"

definition normalize_host_result :: "pyval \<Rightarrow> int result" where
  "normalize_host_result v =
     (case v of PNone \<Rightarrow> Inr 0 | PInt n \<Rightarrow> Inr n | _ \<Rightarrow> Inl TypeError)"

definition exit_ok :: int where "exit_ok = 0"

definition exit_error :: int where "exit_error = 1"

definition exit_duplicate :: int where "exit_duplicate = 3"

definition exit_restart :: int where "exit_restart = 75"

section \<open>Run and shutdown\<close>

definition app_body :: "'w app_env \<Rightarrow> bool \<Rightarrow> lifecycle_scenario option \<Rightarrow> ('w, int) app_eff" where
  "app_body env minimized scenario =
     andthen (on_lifecycle begin_start) (\<lambda>_.
     andthen (on_runtime (runtime_start (ae_runtime env))) (\<lambda>_.
     andthen (create_window env) (\<lambda>_.
     andthen (on_window (ui_start (window_env env) minimized)) (\<lambda>_.
     andthen (for_each (\<lambda>(delay, _) _. andthen (on_ports (sp_call_later (he_port (ae_host env)) delay)) (\<lambda>_. ret ()))
       (lifecycle_scenario_commands scenario) ()) (\<lambda>_.
     andthen (on_lifecycle (lc_running (if minimized then UvMinimized else UvVisible))) (\<lambda>_.
     andthen (host_run env) (\<lambda>v.
     case normalize_host_result v of Inl e \<Rightarrow> throw e | Inr code \<Rightarrow> ret code)))))))"

text \<open>\<open>except Exception\<close>: handle it, and let the others pass.\<close>

definition except_do :: "('w, 'a) app_eff \<Rightarrow> ('w, 'a) app_eff \<Rightarrow> ('w, 'a) app_eff" where
  "except_do m h = on_raise m (\<lambda>e. if is_exception e then h else throw e)"

definition app_try :: "'w app_env \<Rightarrow> bool \<Rightarrow> lifecycle_scenario option \<Rightarrow> ('w, int) app_eff" where
  "app_try env minimized scenario =
     except_do (app_body env minimized scenario)
       (andthen (app_fail ''desktop_run_error'') (\<lambda>_. ret exit_error))"

text \<open>The handler of \<open>RuntimeShutdownError\<close>: what it raises is not caught.\<close>

definition app_fallback :: "'w app_env \<Rightarrow> ('w, bool) app_eff" where
  "app_fallback env = get_app (\<lambda>ap.
     let active = rt_active (ap_runtime ap);
         set_forced = (\<lambda>b (ap, w). (Inr (), ap\<lparr>ap_forced := b\<rparr>, w)) in
     andthen (case ae_fallback env of
         Some fb \<Rightarrow> if active = [] then ret False
           else andthen (on_ports (fb active (ap_fallback_timeout ap))) (\<lambda>v. ret (v \<noteq> PBool False))
       | None \<Rightarrow> ret False) (\<lambda>forced.
     andthen (set_forced forced) (\<lambda>_.
     if \<not> forced then ret False
     else on_raise (andthen (on_runtime (runtime_stop (ae_runtime env) (PInt 0))) (\<lambda>_.
            get_app (\<lambda>ap. ret (rt_active (ap_runtime ap) = []))))
          (\<lambda>e. if e = RuntimeShutdownError then ret False else throw e))))"

definition app_stop_runtime :: "'w app_env \<Rightarrow> ('w, bool) app_eff" where
  "app_stop_runtime env = get_app (\<lambda>ap.
     on_raise (andthen (on_runtime (runtime_stop (ae_runtime env) (PFloat (Finite (ap_shutdown_timeout ap)))))
         (\<lambda>_. ret True))
       (\<lambda>e. if e = RuntimeShutdownError then app_fallback env
            else if is_exception e then ret False else throw e))"

definition app_close_window :: "'w app_env \<Rightarrow> bool \<Rightarrow> ('w, bool) app_eff" where
  "app_close_window env success = except_do
     (get_app (\<lambda>ap. andthen (if ap_ui ap = None then ret () else on_window (ui_stop (window_env env) (ap_forced ap)))
        (\<lambda>_. andthen (on_ports (ae_dispose env)) (\<lambda>_. ret success))))
     (ret False)"

definition app_release :: "'w app_env \<Rightarrow> bool \<Rightarrow> ('w, bool) app_eff" where
  "app_release env success = except_do
     (get_app (\<lambda>ap. case ap_lease ap of
        None \<Rightarrow> ret success
      | Some t \<Rightarrow> andthen (on_ports (ae_release env t)) (\<lambda>_ (ap, w). (Inr success, ap\<lparr>ap_lease := None\<rparr>, w))))
     (ret False)"

definition app_conclude :: "bool \<Rightarrow> ('w, bool) app_eff" where
  "app_conclude success = get_app (\<lambda>ap.
     if lc_phase (ac_lifecycle (ap_core ap)) = DpStopping \<and> success
     then andthen (on_lifecycle (shutdown_complete (ap_forced ap))) (\<lambda>_. ret success)
     else if \<not> success then andthen (app_fail ''shutdown_failed'') (\<lambda>_. ret success)
     else ret success)"

definition app_shutdown :: "'w app_env \<Rightarrow> ('w, bool) app_eff" where
  "app_shutdown env = get_app (\<lambda>ap.
     andthen (if lc_phase (ac_lifecycle (ap_core ap)) \<in> {DpStarting, DpRunning, DpRestarting}
              then on_lifecycle begin_shutdown else ret ()) (\<lambda>_.
     andthen (app_stop_runtime env) (\<lambda>stopped.
     andthen (app_close_window env stopped) (\<lambda>closed.
     andthen (app_release env closed) app_conclude))))"

text \<open>\<open>try \<dots> finally\<close>, and the exit code.\<close>

definition app_session :: "'w app_env \<Rightarrow> bool \<Rightarrow> lifecycle_scenario option \<Rightarrow> ('w, int) app_eff" where
  "app_session env minimized scenario \<sigma> =
     (case app_try env minimized scenario \<sigma> of
        (r, \<tau>) \<Rightarrow>
          (case app_shutdown env \<tau> of
             (Inl e, \<upsilon>) \<Rightarrow> (Inl e, \<upsilon>)
           | (Inr success, \<upsilon>) \<Rightarrow>
               (case r of
                  Inl e \<Rightarrow> (Inl e, \<upsilon>)
                | Inr code \<Rightarrow>
                    let result = (if success then code else exit_error) in
                    (Inr (if ac_restart (ap_core (fst \<upsilon>)) \<and> result = exit_ok then exit_restart else result), \<upsilon>))))"

definition app_run :: "'w app_env \<Rightarrow> bool \<Rightarrow> lifecycle_scenario option \<Rightarrow> ('w, int) app_eff" where
  "app_run env start_minimized scenario =
     andthen (on_lifecycle begin_acquire) (\<lambda>_.
     andthen (on_ports (ae_acquire env)) (\<lambda>lease.
     case lease of
       None \<Rightarrow>
         andthen (app_fail ''duplicate_instance'') (\<lambda>_.
         andthen (on_ports (ae_dispose env)) (\<lambda>_. ret exit_duplicate))
     | Some t \<Rightarrow>
         andthen (\<lambda>(ap, w). (Inr (), ap\<lparr>ap_lease := Some t\<rparr>, w)) (\<lambda>_.
         app_session env (start_minimized \<or> scenario = Some ScMinimizedShowQuit) scenario)))"

section \<open>The first render state\<close>

fun config_node_states :: "config_node list \<Rightarrow> node_render list result" where
  "config_node_states [] = Inr []"
| "config_node_states (n # ns) =
     bindE (mk_NodeRenderState (cn_node_id n) (cn_node_id n) (cn_role n)
        (if cn_enabled n then ''configured'' else ''disabled'') PNone PNone PNone (cn_address n)) (\<lambda>s.
     bindE (config_node_states ns) (\<lambda>rest. Inr (s # rest)))"

definition render_state_from_config :: "config \<Rightarrow> bool \<Rightarrow> render_state result" where
  "render_state_from_config c autostart =
     bindE (config_node_states (ns_items (cfg_nodes c))) (\<lambda>nodes.
     bindE (mk_SettingsRenderState (cu_theme (cfg_ui c)) (cu_scale_percent (cfg_ui c))
        (cu_compact_view (cfg_ui c)) (ca_start_minimized (cfg_app c)) autostart
        (cm_interval_ms (cfg_monitoring c))) (\<lambda>settings.
     mk_RenderState (default_render
       \<lparr>rn_nodes := nodes,
        rn_selected_node_id := (case nodes of [] \<Rightarrow> [] | n # _ \<Rightarrow> nr_node_id n),
        rn_rdp_port := rs_port (cfg_rdp c),
        rn_rdp_connect_timeout := rs_connect_timeout (cfg_rdp c),
        rn_settings := settings\<rparr>)))"

end
