(* ===== verification/DesktopRun.thy ===== *)
theory DesktopRun
  imports Desktop
begin

text \<open>
  What a run of \<open>Application\<close> leaves behind. The window loop may do anything the host allows, but it
  touches the lifecycle only through the quit handler; so when \<open>run\<close> returns a code, the desktop is
  either stopped, with the lease given back and no runtime unit active, or failed with an error
  code. The last section is about the first render state.
\<close>

section \<open>What the window loop leaves alone\<close>

text \<open>Operations of the window keep what the host's calls and the quit handler keep.\<close>

definition host_keeps :: "('w \<Rightarrow> bool) \<Rightarrow> 'w ui_env \<Rightarrow> bool" where
  "host_keeps P env \<longleftrightarrow> (\<forall>d. keeps P (sp_call_later (he_port env) d)) \<and> (\<forall>t. keeps P (sp_cancel (he_port env) t)) \<and>
     (\<forall>s. keeps P (he_render env s)) \<and> (\<forall>v. keeps P (he_set_visibility env v)) \<and>
     (\<forall>c. keeps P (he_handler env c)) \<and> (\<forall>b. keeps P (he_quit env b))"

abbreviation of_world :: "('w \<Rightarrow> bool) \<Rightarrow> 'w ui_world \<Rightarrow> bool" where
  "of_world P \<equiv> \<lambda>\<sigma>. P (snd (snd \<sigma>))"

lemma world_keeps: "keeps P m \<Longrightarrow> keeps (of_world P) (on_world m)"
  by (rule keepsI) (auto simp: on_world_def split: prod.splits dest: keepsD)

lemma app_world_keeps: "keeps P m \<Longrightarrow> keeps (\<lambda>x. P (snd x)) (on_app_world m)"
  by (rule keepsI) (auto simp: on_app_world_def split: prod.splits dest: keepsD)

lemma host_port_keeps: "host_keeps P env \<Longrightarrow> port_keeps (\<lambda>x. P (snd x)) (ui_port env)"
  by (simp add: host_keeps_def port_keeps_def lift_port_def app_world_keeps)

lemma app_fields_keep:
  "keeps (of_world P) (put_state r)" "keeps (of_world P) (ui_evolve f)" "keeps (of_world P) (set_started b)"
proof -
  show put: "keeps (of_world P) (put_state r)" for r :: "render_state result"
    by (rule keepsI) (auto simp: put_state_def split: prod.splits sum.splits)
  show "keeps (of_world P) (ui_evolve f)"
    by (rule keepsI) (auto simp: ui_evolve_def dest: keepsD [OF put])
  show "keeps (of_world P) (set_started b)"
    by (rule keepsI) (auto simp: set_started_def split: prod.splits)
qed

lemma window_keeps:
  assumes "host_keeps P env"
  shows "keeps (of_world P) (ui_start env minimized)" "keeps (of_world P) (ui_stop env forced)"
    "keeps (of_world P) (ui_dispatch env c)" "keeps (of_world P) (ui_drain env)"
proof -
  note sched = scheduler_keeps [OF host_port_keeps [OF assms]]
  note host = assms [unfolded host_keeps_def]
  note basic = keep_andthen keeps_get keep_ret keep_throw assert_keeps app_fields_keep
  have render: "keeps (of_world P) (ui_render env)"
    unfolding ui_render_def using host by (intro basic world_keeps) simp
  have consume: "keeps (of_world P) (ui_consume env e)" for e
    unfolding ui_consume_def by (auto intro!: basic render split: prod.splits)
  have vis: "keeps (of_world P) (on_world (he_set_visibility env v))" for v
    using host by (intro world_keeps) simp
  have quit: "keeps (of_world P) (on_world (he_quit env b))" for b
    using host by (intro world_keeps) simp
  have handle: "keeps (of_world P) (ui_handle env c)" for c
  proof (rule keepsI)
    fix \<sigma> r \<tau> assume J: "P (snd (snd \<sigma>))" and h: "ui_handle env c \<sigma> = (r, \<tau>)"
    obtain r0 where "on_world (he_handler env c) \<sigma> = (r0, \<tau>)"
      using h by (auto simp: ui_handle_def split: prod.splits)
    moreover have "keeps (of_world P) (on_world (he_handler env c))" using host by (intro world_keeps) simp
    ultimately show "P (snd (snd \<tau>))" using J keepsD by metis
  qed
  show "keeps (of_world P) (ui_start env minimized)"
    unfolding ui_start_def Let_def by (auto intro!: basic render vis sched split: prod.splits)
  show "keeps (of_world P) (ui_stop env forced)"
    unfolding ui_stop_def by (auto intro!: basic render sched split: prod.splits)
  show "keeps (of_world P) (ui_drain env)"
    unfolding ui_drain_def by (intro sched consume)
  have local_keeps: "keeps (of_world P) (ui_dispatch_local env c)"
    unfolding ui_dispatch_local_def ui_set_visibility_def ui_change_surface_def ui_select_node_def Let_def
    by (auto intro!: basic render vis quit sched split: prod.splits command_kind.splits option.splits pyval.splits)
  show "keeps (of_world P) (ui_dispatch env c)"
    unfolding ui_dispatch_def
    by (auto intro!: basic render handle local_keeps consume split: prod.splits sum.splits option.splits)
qed

section \<open>Assertions on the application\<close>

abbreviation phase_of :: "application \<Rightarrow> desktop_phase" where
  "phase_of ap \<equiv> lc_phase (ac_lifecycle (ap_core ap))"

abbreviation on_ap :: "(application \<Rightarrow> bool) \<Rightarrow> 'w app_state \<Rightarrow> bool" where
  "on_ap J \<equiv> \<lambda>\<sigma>. J (fst \<sigma>)"

text \<open>The lease is held, and no shutdown of the runtime is under way.\<close>

definition held :: "nat \<Rightarrow> desktop_phase set \<Rightarrow> application \<Rightarrow> bool" where
  "held t S ap \<longleftrightarrow> ap_lease ap = Some t \<and> rt_state (ap_runtime ap) \<noteq> RtStopping \<and> phase_of ap \<in> S"

lemma ports_keep: "keeps (on_ap J) (on_ports m)"
  by (rule keepsI) (auto simp: on_ports_def split: prod.splits)

lemma request_exit_keeps:
  assumes "DpRunning \<in> S \<Longrightarrow> DpRestarting \<in> S"
  shows "keeps (\<lambda>x. lc_phase (ac_lifecycle (fst x)) \<in> S) (request_exit env b)"
  using assms
  by (intro keepsI)
    (auto simp: request_exit_def Let_def lc_request_restart_def lc_transition_def andthen_def
      split: prod.splits sum.splits if_splits)

lemma window_env_keeps:
  assumes "DpRunning \<in> S \<Longrightarrow> DpRestarting \<in> S"
  shows "host_keeps (\<lambda>x. lc_phase (ac_lifecycle (fst x)) \<in> S) (window_env env)"
proof -
  have "keeps (\<lambda>x. lc_phase (ac_lifecycle (fst x)) \<in> S) (beside_core m)" for m :: "('a, pyexn, 'b) eff"
    by (rule keepsI) (auto simp: beside_core_def split: prod.splits)
  moreover have "keeps (\<lambda>x. lc_phase (ac_lifecycle (fst x)) \<in> S) (beside_core m)" for m :: "('a, pyexn, nat) eff"
    by (rule keepsI) (auto simp: beside_core_def split: prod.splits)
  moreover have "keeps (\<lambda>x. lc_phase (ac_lifecycle (fst x)) \<in> S) (beside_core m)" for m :: "('a, pyexn, handler_return) eff"
    by (rule keepsI) (auto simp: beside_core_def split: prod.splits)
  ultimately show ?thesis
    using request_exit_keeps [OF assms, of env]
    by (auto simp: host_keeps_def window_env_def Let_def)
qed

text \<open>Runs in the window change its own fields and the core only.\<close>

lemma on_window_keeps:
  assumes "keeps (of_world (\<lambda>x. lc_phase (ac_lifecycle (fst x)) \<in> S)) m"
    and "\<And>ap ui core. J ap \<Longrightarrow> J (ap\<lparr>ap_ui := ui, ap_core := core\<rparr>)"
  shows "keeps (on_ap (\<lambda>ap. J ap \<and> phase_of ap \<in> S)) (on_window m)"
proof (rule keepsI)
  fix \<sigma> r \<tau> assume J: "J (fst \<sigma>) \<and> phase_of (fst \<sigma>) \<in> S" and m: "on_window m \<sigma> = (r, \<tau>)"
  obtain ap w where s: "\<sigma> = (ap, w)" by (cases \<sigma>)
  show "J (fst \<tau>) \<and> phase_of (fst \<tau>) \<in> S"
  proof (cases "ap_ui ap")
    case None
    with J m s show ?thesis by (auto simp: on_window_def)
  next
    case (Some u)
    obtain sc ui where u: "u = (sc, ui)" by (cases u)
    obtain r' sc' ui' core' w' where e: "m (sc, ui, ap_core ap, w) = (r', sc', ui', core', w')"
      by (metis prod_cases4 prod.exhaust)
    from keepsD [OF assms(1) _ e] J s have "lc_phase (ac_lifecycle core') \<in> S" by simp
    with J m s Some u e assms(2) show ?thesis by (auto simp: on_window_def)
  qed
qed

lemma held_alt: "held t S = (\<lambda>ap. (ap_lease ap = Some t \<and> rt_state (ap_runtime ap) \<noteq> RtStopping) \<and> phase_of ap \<in> S)"
  by (auto simp: held_def fun_eq_iff)

lemma held_window:
  assumes "DpRunning \<in> S \<Longrightarrow> DpRestarting \<in> S"
  shows "keeps (on_ap (held t S)) (on_window (ui_start (window_env env) minimized))"
    "keeps (on_ap (held t S)) (on_window (ui_dispatch (window_env env) c))"
    "keeps (on_ap (held t S)) (on_window (ui_drain (window_env env)))"
  unfolding held_alt
  by (intro on_window_keeps window_keeps window_env_keeps [OF assms]; simp)+

section \<open>What the runtime leaves\<close>

lemma runtime_start_settles:
  assumes "runtime_start env rt w = (r, rt', w')" and "rt_state rt \<noteq> RtStopping"
  shows "rt_state rt' \<noteq> RtStopping"
  using assms(1) by (cases rule: runtime_start_cases) (use assms(2) in auto)

lemma runtime_stop_settles:
  assumes "runtime_stop env t rt w = (r, rt', w')" and "rt_state rt \<noteq> RtStopping"
  shows "rt_state rt' \<noteq> RtStopping" and "r = Inr s \<Longrightarrow> rt_active rt' = []"
proof -
  from assms(1) have "rt_state rt' \<noteq> RtStopping \<and> (\<forall>s. r = Inr s \<longrightarrow> rt_active rt' = [])"
  proof (cases rule: runtime_stop_cases)
    case (ran timeout f rt2)
    with runtime_shutdown_facts [OF ran(1)] show ?thesis by (cases f) auto
  qed (use assms(2) in \<open>auto simp: runtime_cancel_def\<close>)
  then show "rt_state rt' \<noteq> RtStopping" "r = Inr s \<Longrightarrow> rt_active rt' = []" by auto
qed

section \<open>The body of the run\<close>

lemma triple_keeps: "keeps J m \<Longrightarrow> triple J m (\<lambda>_. J) (\<lambda>_. J)"
  by (simp add: keeps_def)

lemma held_mono: "held t S ap \<Longrightarrow> S \<subseteq> S' \<Longrightarrow> held t S' ap"
  by (auto simp: held_def)

text \<open>A part of the body: it moves the phase from \<open>S\<close> to \<open>S'\<close>, or raises.\<close>

abbreviation leads :: "nat \<Rightarrow> desktop_phase set \<Rightarrow> ('w, 'a) app_eff \<Rightarrow> desktop_phase set \<Rightarrow> bool" where
  "leads t S m S' \<equiv> triple (on_ap (held t S)) m (\<lambda>_. on_ap (held t S')) (\<lambda>_. on_ap (held t UNIV))"

lemma keeps_leads: "keeps (on_ap (held t S)) m \<Longrightarrow> leads t S m S"
  by (erule triple_conseq [OF triple_keeps]) (auto intro: held_mono)

lemma runtime_leads: "leads t S (on_runtime (runtime_start env)) S"
  by (rule tripleI)
    (auto simp: on_runtime_def held_def split: prod.splits dest: runtime_start_settles)

lemma lifecycle_leads:
  "leads t {DpAcquiring} (on_lifecycle begin_start) {DpStarting}"
  "leads t {DpStarting} (on_lifecycle (lc_running v)) {DpRunning, DpRestarting}"
  by (rule tripleI;
      force simp: on_lifecycle_def held_def begin_start_def lc_running_def lc_transition_def
        lc_set_visibility_def andthen_def split: prod.splits if_splits)+

lemma create_leads: "leads t {DpStarting} (create_window env) {DpStarting}"
proof (rule keeps_leads, rule keepsI)
  fix \<sigma> r \<tau> assume h: "held t {DpStarting} (fst \<sigma>)" and m: "create_window env \<sigma> = (r, \<tau>)"
  obtain ap w where s: "\<sigma> = (ap, w)" by (cases \<sigma>)
  have bind: "he_bind (window_env env) (core, w) = (r', x') \<Longrightarrow> fst x' = core" for core r' x'
    by (auto simp: window_env_def Let_def beside_core_def split: prod.splits)
  have "fst x' = core"
    if "mk_UiApplication (window_env env) s0 None 1024 (core, w) = (r', x')" for s0 core r' x'
    using that by (auto simp: mk_UiApplication_def Let_def split: sum.splits prod.splits dest: bind)
  with h m s show "held t {DpStarting} (fst \<tau>)"
    by (fastforce simp: create_window_def held_def split: sum.splits prod.splits)
qed

lemma script_leads:
  "leads t {DpRunning, DpRestarting} (run_script env steps) {DpRunning, DpRestarting}"
proof (rule keeps_leads, induction steps)
  case (Cons st steps)
  let ?S = "{DpRunning, DpRestarting}"
  have raise: "keeps (on_ap (held t ?S)) m \<Longrightarrow>
      keeps (on_ap (held t ?S)) (on_raise m (\<lambda>e. if b e then ret () else throw e))"
    for m :: "('w, unit) app_eff" and b
    unfolding keeps_def by (rule triple_on_raise, assumption) (auto intro: triple_intros)
  have raise': "keeps (on_ap (held t ?S)) m \<Longrightarrow>
      keeps (on_ap (held t ?S)) (on_raise m (\<lambda>e. if b e then ret x else throw e))"
    for m :: "('w, command_result) app_eff" and b x
    unfolding keeps_def by (rule triple_on_raise, assumption) (auto intro: triple_intros)
  show ?case
    unfolding run_script.simps
    by (intro keep_andthen Cons.IH) (cases st; simp add: ports_keep raise held_window)
qed (simp add: keep_ret)

lemma body_leads: "leads t {DpAcquiring} (app_body env minimized scenario) {DpRunning, DpRestarting}"
proof -
  have timers: "leads t {DpStarting} (for_each (\<lambda>(delay, _) _. andthen (on_ports (f delay)) (\<lambda>_. ret ())) xs ()) {DpStarting}"
    for f :: "int \<Rightarrow> ('a, pyexn, nat) eff" and xs :: "(int \<times> lifecycle_action) list"
    by (rule triple_for_each) (auto intro!: keeps_leads keep_andthen ports_keep keep_ret)
  have started: "leads t {DpStarting} (on_window (ui_start (window_env env) minimized)) {DpStarting}"
    by (rule keeps_leads, rule held_window) simp
  have loop: "leads t {DpRunning, DpRestarting} (host_run env) {DpRunning, DpRestarting}"
  proof -
    have "leads t {DpRunning, DpRestarting} (andthen (run_script env steps) (\<lambda>_. on_ports m)) {DpRunning, DpRestarting}"
      for steps and m :: "('a, pyexn, pyval) eff"
      by (rule triple_andthen [OF script_leads keeps_leads [OF ports_keep]])
    then show ?thesis by (simp add: triple_def host_run_def)
  qed
  show ?thesis
    unfolding app_body_def
    by (rule triple_andthen lifecycle_leads runtime_leads create_leads timers started loop)+
      (auto split: sum.splits intro!: triple_ret triple_throw intro: held_mono)
qed

text \<open>After the handler of the run, the phase says which code was chosen.\<close>

definition run_verdict :: "nat \<Rightarrow> int \<Rightarrow> application \<Rightarrow> bool" where
  "run_verdict t code ap \<longleftrightarrow>
     held t {DpRunning, DpRestarting} ap \<or> held t {DpFailed} ap \<and> code = exit_error"

lemma try_verdict:
  "triple (on_ap (held t {DpAcquiring})) (app_try env minimized scenario)
     (\<lambda>code. on_ap (run_verdict t code)) (\<lambda>_. on_ap (held t UNIV))"
proof -
  have fail: "leads t UNIV (app_fail c) {DpFailed}" for c
    by (rule tripleI) (auto simp: app_fail_def on_lifecycle_def held_def lc_fail_def)
  have "triple (on_ap (held t {DpAcquiring})) (app_body env minimized scenario)
     (\<lambda>code. on_ap (run_verdict t code)) (\<lambda>_. on_ap (held t UNIV))"
    by (rule triple_conseq [OF body_leads]) (auto simp: run_verdict_def)
  then show ?thesis
    unfolding app_try_def except_do_def
    by (rule triple_on_raise)
      (auto intro!: triple_if triple_andthen [OF fail] triple_ret triple_throw simp: run_verdict_def)
qed

section \<open>The shutdown\<close>

definition quiet :: "nat \<Rightarrow> desktop_phase \<Rightarrow> bool \<Rightarrow> application \<Rightarrow> bool" where
  "quiet t P b ap \<longleftrightarrow> held t {P} ap \<and> (b \<longrightarrow> rt_active (ap_runtime ap) = [])"

lemma stop_leads:
  "triple (on_ap (held t {P})) (on_runtime (runtime_stop env v))
     (\<lambda>_. on_ap (quiet t P True)) (\<lambda>_. on_ap (quiet t P False))"
  by (rule tripleI)
    (auto simp: on_runtime_def held_def quiet_def split: prod.splits dest: runtime_stop_settles)

lemma triple_get_app: "(\<And>ap. triple P (k ap) Q E) \<Longrightarrow> triple P (get_app k) Q E"
  by (simp add: triple_def get_app_def)

lemma fallback_quiet:
  "triple (on_ap (held t {P})) (app_fallback env) (\<lambda>b. on_ap (quiet t P b)) (\<lambda>_ _. True)"
proof -
  have set: "triple (on_ap (held t {P})) (\<lambda>(ap, w). (Inr (), ap\<lparr>ap_forced := b\<rparr>, w)) (\<lambda>_. on_ap (held t {P})) (\<lambda>_ _. True)"
    for b
    by (rule tripleI) (auto simp: held_def)
  have ports: "triple (on_ap (held t {P})) (on_ports m) (\<lambda>_. on_ap (held t {P})) (\<lambda>_ _. True)" for m :: "('a, pyexn, 'b) eff"
    by (rule triple_conseq [OF triple_keeps [OF ports_keep]]) auto
  have again: "triple (on_ap (held t {P}))
     (andthen (on_runtime (runtime_stop (ae_runtime env) (PInt 0))) (\<lambda>_. get_app (\<lambda>ap. ret (rt_active (ap_runtime ap) = []))))
     (\<lambda>b. on_ap (quiet t P b)) (\<lambda>_. on_ap (quiet t P False))"
    by (rule triple_andthen [OF stop_leads])
      (auto simp: triple_def get_app_def ret_def quiet_def)
  show ?thesis
    unfolding app_fallback_def Let_def
    by (intro triple_get_app triple_andthen [where R = "\<lambda>_. on_ap (held t {P})"] set triple_if
        triple_on_raise [OF again])
      (auto intro!: triple_ret triple_throw triple_andthen [OF ports] simp: quiet_def split: option.splits)
qed

lemma stop_quiet:
  "triple (on_ap (held t {P})) (app_stop_runtime env) (\<lambda>b. on_ap (quiet t P b)) (\<lambda>_ _. True)"
proof -
  have "triple (on_ap (held t {P})) (andthen (on_runtime (runtime_stop (ae_runtime env) v)) (\<lambda>_. ret True))
      (\<lambda>b. on_ap (quiet t P b)) (\<lambda>_. on_ap (quiet t P False))" for v
    by (rule triple_andthen [OF stop_leads]) (auto intro: triple_ret)
  moreover have "triple (on_ap (quiet t P False)) (app_fallback env) (\<lambda>b. on_ap (quiet t P b)) (\<lambda>_ _. True)"
    by (rule triple_pre [OF fallback_quiet]) (simp add: quiet_def)
  ultimately show ?thesis
    unfolding app_stop_runtime_def
    by (intro triple_get_app triple_on_raise triple_if) (auto intro: triple_ret triple_throw)
qed

lemma quiet_weaken: "quiet t P b ap \<Longrightarrow> quiet t P False ap"
  by (simp add: quiet_def)

lemma except_quiet:
  assumes "triple (on_ap (quiet t P b)) m Q (\<lambda>_. Q False)"
  shows "triple (on_ap (quiet t P b)) (except_do m (ret False)) Q (\<lambda>_ _. True)"
  unfolding except_do_def
  by (rule triple_on_raise [OF assms]) (auto intro: triple_ret triple_throw)

lemma ui_stop_quiet:
  assumes "P \<noteq> DpRunning"
  shows "keeps (on_ap (quiet t P b)) (on_window (ui_stop (window_env env) forced))"
proof -
  have alt: "quiet t P b = (\<lambda>ap. (ap_lease ap = Some t \<and> rt_state (ap_runtime ap) \<noteq> RtStopping \<and>
      (b \<longrightarrow> rt_active (ap_runtime ap) = [])) \<and> phase_of ap \<in> {P})" for P
    by (auto simp: quiet_def held_def fun_eq_iff)
  show ?thesis
    unfolding alt by (intro on_window_keeps window_keeps window_env_keeps) (use assms in auto)
qed

lemma close_quiet:
  assumes "P \<noteq> DpRunning"
  shows "triple (on_ap (quiet t P b)) (app_close_window env b) (\<lambda>b'. on_ap (quiet t P b')) (\<lambda>_ _. True)"
  unfolding app_close_window_def
proof (rule except_quiet, rule triple_get_app)
  fix ap
  have J: "keeps (on_ap (quiet t P b))
     (andthen (if ap_ui ap = None then ret () else on_window (ui_stop (window_env env) (ap_forced ap)))
        (\<lambda>_. andthen (on_ports (ae_dispose env)) (\<lambda>_. ret b)))"
    by (auto intro!: keep_andthen keep_ret ports_keep ui_stop_quiet assms)
  show "triple (on_ap (quiet t P b))
     (andthen (if ap_ui ap = None then ret () else on_window (ui_stop (window_env env) (ap_forced ap)))
        (\<lambda>_. andthen (on_ports (ae_dispose env)) (\<lambda>_. ret b)))
     (\<lambda>b'. on_ap (quiet t P b')) (\<lambda>_. on_ap (quiet t P False))"
  proof (rule tripleI)
    fix \<sigma> x \<tau> assume "on_ap (quiet t P b) \<sigma>" and m: "(andthen (if ap_ui ap = None then ret () else on_window (ui_stop (window_env env) (ap_forced ap)))
        (\<lambda>_. andthen (on_ports (ae_dispose env)) (\<lambda>_. ret b))) \<sigma> = (Inr x, \<tau>)"
    moreover have "x = b" using m by (auto simp: andthen_def ret_def split: prod.splits sum.splits)
    ultimately show "on_ap (quiet t P x) \<tau>" using keepsD [OF J] by blast
  next
    fix \<sigma> x \<tau> assume "on_ap (quiet t P b) \<sigma>" and "(andthen (if ap_ui ap = None then ret () else on_window (ui_stop (window_env env) (ap_forced ap)))
        (\<lambda>_. andthen (on_ports (ae_dispose env)) (\<lambda>_. ret b))) \<sigma> = (Inl x, \<tau>)"
    with keepsD [OF J] show "on_ap (quiet t P False) \<tau>" using quiet_weaken by blast
  qed
qed

text \<open>
  After the release, when the shutdown succeeded: the runtime is quiet, and the last thing done to the
  world was the release of the lease \<open>t\<close>, which returned.
\<close>

definition given_back :: "'w app_env \<Rightarrow> nat \<Rightarrow> 'w app_state \<Rightarrow> bool" where
  "given_back env t \<sigma> \<longleftrightarrow> rt_active (ap_runtime (fst \<sigma>)) = [] \<and> ap_lease (fst \<sigma>) = None \<and>
     (\<exists>w. ae_release env t w = (Inr (), snd \<sigma>))"

definition released :: "'w app_env \<Rightarrow> nat \<Rightarrow> desktop_phase \<Rightarrow> bool \<Rightarrow> 'w app_state \<Rightarrow> bool" where
  "released env t P b \<sigma> \<longleftrightarrow> phase_of (fst \<sigma>) = P \<and> (b \<longrightarrow> given_back env t \<sigma>)"

lemma release_quiet:
  "triple (on_ap (quiet t P b)) (app_release env b) (released env t P) (\<lambda>_ _. True)"
  unfolding app_release_def
proof (rule except_quiet)
  show "triple (on_ap (quiet t P b))
     (get_app (\<lambda>ap. case ap_lease ap of None \<Rightarrow> ret b
        | Some t \<Rightarrow> andthen (on_ports (ae_release env t)) (\<lambda>_ (ap, w). (Inr b, ap\<lparr>ap_lease := None\<rparr>, w))))
     (released env t P) (\<lambda>_. released env t P False)"
    by (rule tripleI)
      (auto simp: quiet_def held_def released_def given_back_def get_app_def andthen_def on_ports_def
        split: prod.splits sum.splits)
qed

definition concluded :: "'w app_env \<Rightarrow> nat \<Rightarrow> desktop_phase \<Rightarrow> bool \<Rightarrow> 'w app_state \<Rightarrow> bool" where
  "concluded env t P b \<sigma> \<longleftrightarrow>
     (if b then given_back env t \<sigma> \<and>
        (if P = DpStopping then phase_of (fst \<sigma>) = DpStopped \<and>
             lc_fallback (ac_lifecycle (ap_core (fst \<sigma>))) = ap_forced (fst \<sigma>) \<and>
             lc_graceful (ac_lifecycle (ap_core (fst \<sigma>))) = (\<not> ap_forced (fst \<sigma>))
         else phase_of (fst \<sigma>) = P)
      else phase_of (fst \<sigma>) = DpFailed)"

lemma conclude_released:
  "triple (released env t P b) (app_conclude b) (concluded env t P) (\<lambda>_ _. True)"
  by (rule tripleI)
    (auto simp: released_def concluded_def given_back_def app_conclude_def get_app_def andthen_def
      on_lifecycle_def shutdown_complete_def lc_transition_def app_fail_def lc_fail_def ret_def
      split: if_splits)

text \<open>The phase in which the runtime is stopped.\<close>

definition stop_phase :: "desktop_phase \<Rightarrow> desktop_phase" where
  "stop_phase p = (if p \<in> {DpStarting, DpRunning, DpRestarting} then DpStopping else p)"

lemma shutdown_concludes:
  assumes "app_shutdown env (ap, w) = (Inr b, ap', w')" and "held t UNIV ap"
  shows "concluded env t (stop_phase (phase_of ap)) b (ap', w')"
proof -
  define P where "P = stop_phase (phase_of ap)"
  have P: "P \<noteq> DpRunning" by (simp add: P_def stop_phase_def)
  have enter: "triple (\<lambda>\<sigma>. \<sigma> = (ap, w)) (if phase_of ap \<in> {DpStarting, DpRunning, DpRestarting}
     then on_lifecycle begin_shutdown else ret ()) (\<lambda>_. on_ap (held t {P})) (\<lambda>_ _. True)"
    by (rule tripleI)
      (use assms(2) in \<open>auto simp: on_lifecycle_def begin_shutdown_def lc_transition_def held_def P_def stop_phase_def ret_def split: if_splits\<close>)
  have "triple (\<lambda>\<sigma>. \<sigma> = (ap, w)) (andthen (if phase_of ap \<in> {DpStarting, DpRunning, DpRestarting}
      then on_lifecycle begin_shutdown else ret ()) (\<lambda>_.
     andthen (app_stop_runtime env) (\<lambda>stopped.
     andthen (app_close_window env stopped) (\<lambda>closed.
     andthen (app_release env closed) app_conclude)))) (concluded env t P) (\<lambda>_ _. True)"
    by (intro triple_andthen [OF enter] triple_andthen [OF stop_quiet] triple_andthen [OF close_quiet]
        triple_andthen [OF release_quiet] conclude_released P)
  from triple_Inr [OF this] assms(1) show ?thesis
    by (simp add: app_shutdown_def get_app_def P_def)
qed

section \<open>The outcome of a run\<close>

lemma app_fresh:
  assumes "mk_Application rt initial s f = Inr ap"
  shows "phase_of ap = DpNew" "ap_lease ap = None" "ap_runtime ap = rt" "ap_forced ap = False" "ap_initial ap = initial"
  using assms by (auto simp: mk_Application_def init_lifecycle_def result_simps)

lemma session_outcome:
  assumes "app_session env minimized scenario (ap, w) = (Inr code, ap', w')" and "held t {DpAcquiring} ap"
  shows "concluded env t DpStopping True (ap', w') \<or> phase_of ap' = DpFailed \<and> code = exit_error"
proof -
  obtain r ap1 w1 where t: "app_try env minimized scenario (ap, w) = (r, ap1, w1)" by (metis prod.exhaust)
  obtain c b where r: "r = Inr c" and s: "app_shutdown env (ap1, w1) = (Inr b, ap', w')"
    and code: "code = (let result = (if b then c else exit_error) in
      if ac_restart (ap_core ap') \<and> result = exit_ok then exit_restart else result)"
    using assms(1) t by (auto simp: app_session_def Let_def split: prod.splits sum.splits)
  have v: "run_verdict t c ap1" using triple_Inr [OF try_verdict _ t [unfolded r]] assms(2) by simp
  then have "held t UNIV ap1" by (auto simp: run_verdict_def intro: held_mono)
  from shutdown_concludes [OF s this]
  have "concluded env t (stop_phase (phase_of ap1)) b (ap', w')" .
  moreover have "stop_phase (phase_of ap1) = DpStopping \<or> stop_phase (phase_of ap1) = DpFailed \<and> c = exit_error"
    using v by (auto simp: run_verdict_def held_def stop_phase_def)
  ultimately show ?thesis
    using code by (cases b) (auto simp: concluded_def Let_def exit_error_def exit_ok_def)
qed

text \<open>
  C39: A fresh application whose \<open>run\<close> returns an exit code has either stopped in order - no runtime
  unit is active, the lifecycle records whether the fallback was needed, and the singleton lease is
  given back: the last thing the run did to the world was a call of \<open>release\<close> for the very lease it
  had acquired, and it returned - or failed, and then the code says so: 1 for an error, 3 for a
  second instance. What the handler, the timers and the host did in the meantime does not matter.
\<close>

theorem app_run_outcome:
  assumes "mk_Application rt initial shutdown_timeout fallback_timeout = Inr ap"
    and "rt_state rt \<noteq> RtStopping"
    and "app_run env minimized scenario (ap, w) = (Inr code, ap', w')"
  shows "phase_of ap' = DpStopped \<and> rt_active (ap_runtime ap') = [] \<and> ap_lease ap' = None \<and>
      (\<exists>t w1 w2. ae_acquire env w = (Inr (Some t), w1) \<and> ae_release env t w2 = (Inr (), w')) \<and>
      lc_fallback (ac_lifecycle (ap_core ap')) = ap_forced ap' \<and>
      lc_graceful (ac_lifecycle (ap_core ap')) = (\<not> ap_forced ap')
    \<or> phase_of ap' = DpFailed \<and> (code = exit_error \<or> code = exit_duplicate)"
proof -
  note fresh = app_fresh [OF assms(1)]
  let ?acq = "ap\<lparr>ap_core := (ap_core ap)\<lparr>ac_lifecycle := (ac_lifecycle (ap_core ap))\<lparr>lc_phase := DpAcquiring\<rparr>\<rparr>\<rparr>"
  have b: "on_lifecycle begin_acquire (ap, w) = (Inr (), ?acq, w)"
    by (simp add: on_lifecycle_def begin_acquire_def lc_transition_def fresh)
  obtain lease w1 where a: "ae_acquire env w = (Inr lease, w1)"
    using assms(3) b by (auto simp: app_run_def andthen_def on_ports_def split: prod.splits sum.splits)
  show ?thesis
  proof (cases lease)
    case None
    with assms(3) a b show ?thesis
      by (auto simp: app_run_def andthen_def on_ports_def app_fail_def on_lifecycle_def lc_fail_def ret_def
          split: prod.splits sum.splits)
  next
    case (Some t)
    have "held t {DpAcquiring} (?acq\<lparr>ap_lease := Some t\<rparr>)"
      using assms(2) fresh by (simp add: held_def)
    moreover have "app_session env (minimized \<or> scenario = Some ScMinimizedShowQuit) scenario
        (?acq\<lparr>ap_lease := Some t\<rparr>, w1) = (Inr code, ap', w')"
      using assms(3) a b Some by (simp add: app_run_def andthen_def on_ports_def)
    ultimately show ?thesis
      using session_outcome [of env _ scenario _ w1 code ap' w' t] a Some
      by (auto simp: concluded_def given_back_def)
  qed
qed

text \<open>A run in which the user chooses restart from the tray; the world is the next timer token.\<close>

definition demo_app_env :: "nat app_env" where
  "demo_app_env = \<lparr>
     ae_runtime = \<lparr>env_start = (\<lambda>u w. (None, False, w)), env_stop = (\<lambda>u t w. (None, w)),
        env_join = (\<lambda>u t w. (Inr (PBool True), w)), env_monotonic = (\<lambda>w. (0, w)), env_poll = (\<lambda>w. (False, w))\<rparr>,
     ae_acquire = (\<lambda>w. (Inr (Some 7), w)), ae_release = (\<lambda>t w. (Inr (), w)), ae_fallback = None,
     ae_host = demo_ui, ae_quit = (\<lambda>w. (Inr (), w)), ae_dispose = (\<lambda>w. (Inr (), w)),
     ae_script = (\<lambda>w. [HsDispatch \<lparr>uc_command_id = 1, uc_kind = CkRestart, uc_fields = []\<rparr>, HsFire]),
     ae_swallow = False, ae_run_result = (\<lambda>w. Inr PNone)\<rparr>"

definition demo_app_runtime :: runtime where
  "demo_app_runtime = \<lparr>rt_units = [''sensors''], rt_shutdown_timeout = 5, rt_state = RtStopped, rt_active = [],
     rt_cancelled = False, rt_failure = None\<rparr>"

lemma demo_app_run:
  "(case mk_Application demo_app_runtime default_render (PFloat (Finite 5)) (PFloat (Finite 2)) of
      Inl e \<Rightarrow> False
    | Inr ap \<Rightarrow> (case app_run demo_app_env False None (ap, 0) of
        (Inr code, ap', w') \<Rightarrow> code = exit_restart \<and> phase_of ap' = DpStopped
      | _ \<Rightarrow> False))"
  by code_simp

theorem app_run_outcome_witness:
  "\<exists>ap ap' w'. mk_Application demo_app_runtime default_render (PFloat (Finite 5)) (PFloat (Finite 2)) = Inr ap \<and>
     app_run demo_app_env False None (ap, 0) = (Inr exit_restart, ap', w') \<and>
     rt_active (ap_runtime ap') = [] \<and> (\<exists>w2. ae_release demo_app_env 7 w2 = (Inr (), w'))"
proof -
  obtain ap ap' w' where m: "mk_Application demo_app_runtime default_render (PFloat (Finite 5)) (PFloat (Finite 2)) = Inr ap"
    and r: "app_run demo_app_env False None (ap, 0) = (Inr exit_restart, ap', w')" and p: "phase_of ap' = DpStopped"
    using demo_app_run by (auto split: sum.splits prod.splits) (metis sum.exhaust)
  have "rt_state demo_app_runtime \<noteq> RtStopping" by (simp add: demo_app_runtime_def)
  moreover have "fst (ae_acquire demo_app_env 0) = Inr (Some 7)" by (simp add: demo_app_env_def)
  ultimately show ?thesis using app_run_outcome [OF m _ r] p m r by auto
qed

text \<open>
  When the runtime cannot be stopped and the fallback raises, the exception leaves \<open>_shutdown\<close> from
  inside the handler: the window is not closed and the lease is kept.
\<close>

definition demo_stuck_env :: "nat app_env" where
  "demo_stuck_env = demo_app_env\<lparr>
     ae_runtime := (ae_runtime demo_app_env)\<lparr>env_join := (\<lambda>u t w. (Inr (PBool False), w))\<rparr>,
     ae_fallback := Some (\<lambda>names t w. (Inl OtherException, w)), ae_dispose := (\<lambda>w. (Inr (), w + 100))\<rparr>"

lemma fallback_exception_keeps_lease:
  "(case mk_Application demo_app_runtime default_render (PFloat (Finite 5)) (PFloat (Finite 2)) of
      Inl e \<Rightarrow> False
    | Inr ap \<Rightarrow> (case app_run demo_stuck_env False None (ap, 0) of
        (r, ap', w') \<Rightarrow> r = Inl OtherException \<and> ap_lease ap' = Some 7 \<and> phase_of ap' = DpStopping \<and>
          ap_ui ap' \<noteq> None \<and> w' < 100))"
  by code_simp

section \<open>The first render state\<close>

lemma ui_text_accepts:
  "ui_text s b = (if (b \<or> s \<noteq> []) \<and> length s \<le> ui_max_text \<and> list_all (\<lambda>c. 32 \<le> ord c \<and> ord c \<noteq> 127) s
     then Inr s else Inl ValueError)"
proof -
  have "list_ex (\<lambda>c. ord c < 32 \<or> ord c = 127) t \<longleftrightarrow> \<not> list_all (\<lambda>c. 32 \<le> ord c \<and> ord c \<noteq> 127) t" for t
    by (induction t) auto
  then show ?thesis by (auto simp: ui_text_def)
qed

lemma name_char_plain: "list_all name_char s \<Longrightarrow> list_all (\<lambda>c. 32 \<le> ord c \<and> ord c \<noteq> 127) s"
  by (induction s) (auto simp: name_char_def is_alnum_def is_lower_def is_upper_def is_digit_def ord_def)

definition del_free :: "string \<Rightarrow> bool" where
  "del_free s \<longleftrightarrow> list_all (\<lambda>c. ord c \<noteq> 127) s"

lemma node_text:
  assumes "node_ok n"
  shows "ui_text (cn_node_id n) False = Inr (cn_node_id n)" "ui_text (cn_role n) False = Inr (cn_role n)"
    "ui_text (cn_address n) True = (if del_free (cn_address n) then Inr (cn_address n) else Inl ValueError)"
proof -
  have "text_ok 1 253 (cn_address n)" using assms by (simp add: node_ok_def address_ok_def)
  then show "ui_text (cn_address n) True = (if del_free (cn_address n) then Inr (cn_address n) else Inl ValueError)"
    by (auto simp: ui_text_accepts del_free_def text_ok_def ui_max_text_def list_all_iff)
  show "ui_text (cn_node_id n) False = Inr (cn_node_id n)"
    using assms by (auto simp: node_ok_def config_identifier_def ui_text_accepts ui_max_text_def name_char_plain)
  show "ui_text (cn_role n) False = Inr (cn_role n)"
    using assms by (auto simp: node_ok_def ui_text_accepts ui_max_text_def ord_def)
qed

definition node_render_of :: "config_node \<Rightarrow> node_render" where
  "node_render_of n = \<lparr>nr_node_id = cn_node_id n, nr_name = cn_node_id n, nr_role = cn_role n,
     nr_status = (if cn_enabled n then ''configured'' else ''disabled''),
     nr_cpu_percent = None, nr_memory_percent = None, nr_temperature = None, nr_address = cn_address n\<rparr>"

lemma config_node_states_eq:
  assumes "list_all node_ok ns"
  shows "config_node_states ns =
    (if list_all (\<lambda>n. del_free (cn_address n)) ns then Inr (map node_render_of ns) else Inl ValueError)"
  using assms
proof (induction ns)
  case (Cons n ns)
  have "ui_text (if cn_enabled n then ''configured'' else ''disabled'') False =
      Inr (if cn_enabled n then ''configured'' else ''disabled'')"
    by (simp add: ui_text_accepts ui_max_text_def ord_def)
  moreover have "render_metric PNone = Inr None" by (simp add: render_metric_def)
  ultimately show ?case
    using Cons by (simp add: mk_NodeRenderState_def node_text node_render_of_def)
qed simp

text \<open>
  C40: Which valid configurations can be shown. Building the first render state of a valid
  configuration either succeeds, with a valid state that lists the configured nodes in order, or
  raises \<open>ValueError\<close>; it succeeds exactly when the scale is at most 300 percent, although
  configurations up to 400 percent are valid, and no address holds the character DEL, which a scope
  identifier may.
\<close>

theorem render_state_from_config_exact:
  assumes "config_ok c"
  shows "case render_state_from_config c autostart of
      Inr s \<Rightarrow> cu_scale_percent (cfg_ui c) \<le> 300 \<and> list_all (\<lambda>n. del_free (cn_address n)) (ns_items (cfg_nodes c)) \<and>
        render_ok s \<and> map nr_node_id (rn_nodes s) = map cn_node_id (ns_items (cfg_nodes c)) \<and>
        map nr_address (rn_nodes s) = map cn_address (ns_items (cfg_nodes c)) \<and> rn_rdp_port s = rs_port (cfg_rdp c)
    | Inl e \<Rightarrow> e = ValueError \<and>
        \<not> (cu_scale_percent (cfg_ui c) \<le> 300 \<and> list_all (\<lambda>n. del_free (cn_address n)) (ns_items (cfg_nodes c)))"
proof -
  let ?ns = "ns_items (cfg_nodes c)"
  have parts: "ui_ok (cfg_ui c)" "monitoring_ok (cfg_monitoring c)" "nodes_ok (cfg_nodes c)" "rdp_ok (cfg_rdp c)"
    using assms by (simp_all add: config_ok_def)
  have nodes: "config_node_states ?ns =
      (if list_all (\<lambda>n. del_free (cn_address n)) ?ns then Inr (map node_render_of ?ns) else Inl ValueError)"
    using parts(3) by (intro config_node_states_eq) (simp add: nodes_ok_def)
  have "ui_text (cu_theme (cfg_ui c)) False = Inr (cu_theme (cfg_ui c))"
    using parts(1) by (auto simp: ui_ok_def ui_text_accepts ui_max_text_def ord_def)
  then have settings: "mk_SettingsRenderState (cu_theme (cfg_ui c)) (cu_scale_percent (cfg_ui c)) compact minimized autostart
      (cm_interval_ms (cfg_monitoring c)) =
      (if cu_scale_percent (cfg_ui c) \<le> 300 then Inr \<lparr>sr_theme = cu_theme (cfg_ui c),
         sr_scale_percent = cu_scale_percent (cfg_ui c), sr_compact_view = compact, sr_start_minimized = minimized,
         sr_autostart = autostart, sr_monitoring_interval_ms = cm_interval_ms (cfg_monitoring c)\<rparr> else Inl ValueError)"
    for compact minimized
    using parts(1,2) by (auto simp: mk_SettingsRenderState_def ui_ok_def monitoring_ok_def)
  have ids: "map (nr_node_id \<circ> node_render_of) ns = map cn_node_id ns"
      "map (nr_address \<circ> node_render_of) ns = map cn_address ns" for ns
    by (simp_all add: node_render_of_def)
  have "distinct (map cn_node_id ?ns)"
    using parts(3) distinct_map [of fold_text "map cn_node_id ?ns"]
    by (simp add: nodes_ok_def folded_ids_def o_def)
  then have "card (set (map cn_node_id ?ns)) = length ?ns"
    using distinct_card by fastforce
  then have state: "mk_RenderState (default_render\<lparr>rn_nodes := map node_render_of ?ns,
      rn_selected_node_id := (case map node_render_of ?ns of [] \<Rightarrow> [] | n # _ \<Rightarrow> nr_node_id n),
      rn_rdp_port := rs_port (cfg_rdp c), rn_rdp_connect_timeout := rs_connect_timeout (cfg_rdp c), rn_settings := s\<rparr>) =
    Inr (default_render\<lparr>rn_nodes := map node_render_of ?ns,
      rn_selected_node_id := (case map node_render_of ?ns of [] \<Rightarrow> [] | n # _ \<Rightarrow> nr_node_id n),
      rn_rdp_port := rs_port (cfg_rdp c), rn_rdp_connect_timeout := rs_connect_timeout (cfg_rdp c), rn_settings := s\<rparr>)" for s
    using parts(4)
    by (cases ?ns) (auto simp: mk_RenderState_def default_render_def Let_def rdp_ok_def ids
        ui_text_accepts ui_max_text_def ord_def node_render_of_def)
  show ?thesis
    by (simp add: render_state_from_config_def nodes settings state render_ok_def ids)
qed

text \<open>The default configuration at 350 percent: valid, but it cannot be shown.\<close>

definition large_config :: config where
  "large_config = default_config\<lparr>cfg_ui := default_ui\<lparr>cu_scale_percent := 350\<rparr>\<rparr>"

lemmas section_oks = app_ok_def ui_ok_def monitoring_ok_def nodes_ok_def rdp_ok_def cleanup_ok_def ray_ok_def
  remote_ok_def update_ok_def default_app_def default_ui_def default_monitoring_def default_nodes_def
  default_rdp_def default_cleanup_def default_ray_def default_remote_def default_update_def
  executable_ok_def folded_ids_def

theorem render_state_from_config_exact_witness:
  "config_ok large_config \<and> render_state_from_config large_config False = Inl ValueError"
proof -
  have "map parse_octet (split_on CHR ''.'' ''127.0.0.1'') = [Some 127, Some 0, Some 0, Some 1]" by code_simp
  then have "ip_address ''127.0.0.1'' \<noteq> None"
    by (simp only: ip_address_def parse_ipv4_def) simp
  then have "address_ok ''127.0.0.1''"
    by (simp add: address_ok_def strip_dot_def text_ok_def ord_def)
  then have ok: "config_ok large_config"
    by (simp add: config_ok_def large_config_def default_config_def section_oks text_ok_def ord_def)
  have "\<not> cu_scale_percent (cfg_ui large_config) \<le> 300" by code_simp
  with render_state_from_config_exact [OF ok, of False] ok show ?thesis
    by (auto split: sum.splits)
qed

end
