(* ===== verification/JsonRoundtrip.thy ===== *)
theory JsonRoundtrip
  imports Json
begin

text \<open>
  Reading back what was written. The locale \<open>json_codec\<close> states what a writer and the hooks of a
  reader must promise each other; inside it, scanning the text of a value gives the value with the
  members of its objects in key order, whatever follows it. It is interpreted for the two writers
  of the code, and in \<open>ConfigBytes\<close> for the reader of configurations.
\<close>

section \<open>Numerals\<close>

lemma value_of_digits_append: "value_of_digits dv b acc (s @ t) = value_of_digits dv b (value_of_digits dv b acc s) t"
  by (induction s arbitrary: acc) auto

lemma digits_of_nat_rec:
  "digits_of_nat n = (if n < 10 then [char_of (48 + n)] else digits_of_nat (n div 10) @ [char_of (48 + n mod 10)])"
  by (rule digits_of_nat.simps)

lemma decimal_digits: "decimal_value (digits_of_nat n) = n"
proof (induction n rule: less_induct)
  case (less n)
  show ?case
  proof (cases "n < 10")
    case True
    then show ?thesis by (simp add: digits_of_nat_rec [of n] decimal_value_def)
  next
    case False
    then have "n div 10 < n" by simp
    with less [OF this] False show ?thesis
      by (simp add: digits_of_nat_rec [of n] decimal_value_def value_of_digits_append)
  qed
qed

lemma digits_digits: "list_all is_digit (digits_of_nat n)"
proof (induction n rule: less_induct)
  case (less n)
  show ?case
  proof (cases "n < 10")
    case True
    then show ?thesis by (simp add: digits_of_nat_rec [of n] is_digit_def)
  next
    case False
    then have "n div 10 < n" by simp
    with less [OF this] False show ?thesis by (simp add: digits_of_nat_rec [of n] is_digit_def)
  qed
qed

lemma ord_0: "ord (CHR ''0'') = 48"
  by code_simp

lemma digits_head: "digits_of_nat n \<noteq> [] \<and> (hd (digits_of_nat n) = CHR ''0'' \<longrightarrow> n = 0)"
proof (induction n rule: less_induct)
  case (less n)
  have zero: "char_of (48 + k) = CHR ''0'' \<longleftrightarrow> k = 0" if "k < 10" for k :: nat
    using that by (auto simp: ord_inject [symmetric] ord_0)
  show ?case
  proof (cases "n < 10")
    case True
    with zero [of n] show ?thesis by (simp add: digits_of_nat_rec [of n])
  next
    case False
    then have "n div 10 < n" "n div 10 \<noteq> 0" by simp_all
    with less [OF this(1)] False show ?thesis by (simp add: digits_of_nat_rec [of n])
  qed
qed

lemma digits_length: "n < 10 ^ k \<Longrightarrow> 0 < k \<Longrightarrow> length (digits_of_nat n) \<le> k"
proof (induction k arbitrary: n)
  case (Suc k)
  show ?case
  proof (cases "n < 10")
    case True
    then show ?thesis by (simp add: digits_of_nat_rec [of n])
  next
    case False
    with Suc.prems have "n div 10 < 10 ^ k" "0 < k" by (auto simp: less_mult_imp_div_less intro: ccontr)
    with Suc.IH [OF this] False show ?thesis by (simp add: digits_of_nat_rec [of n])
  qed
qed simp

text \<open>A numeral: its integer digits, its fraction, its exponent. What follows must not continue it.\<close>

definition integer_digits :: "string \<Rightarrow> bool" where
  "integer_digits ds \<longleftrightarrow> ds \<noteq> [] \<and> list_all is_digit ds \<and> (hd ds = CHR ''0'' \<longrightarrow> ds = ''0'')"

definition fraction_text :: "string \<Rightarrow> bool" where
  "fraction_text f \<longleftrightarrow> f = [] \<or> hd f = CHR ''.'' \<and> tl f \<noteq> [] \<and> list_all is_digit (tl f)"

definition exponent_text :: "string \<Rightarrow> bool" where
  "exponent_text e \<longleftrightarrow> e = [] \<or> (hd e = CHR ''e'' \<or> hd e = CHR ''E'') \<and>
     (\<exists>sign ds. tl e = sign @ ds \<and> sign \<in> {[], ''+'', ''-''} \<and> ds \<noteq> [] \<and> list_all is_digit ds)"

definition ends_numeral :: "string \<Rightarrow> bool" where
  "ends_numeral r \<longleftrightarrow> r = [] \<or> \<not> is_digit (hd r) \<and> hd r \<notin> set ''.eE''"

definition float_text :: "string \<Rightarrow> bool" where
  "float_text t \<longleftrightarrow> (\<exists>sign ds f e. t = sign @ ds @ f @ e \<and> sign \<in> {[], ''-''} \<and> integer_digits ds \<and>
     fraction_text f \<and> exponent_text e \<and> (f \<noteq> [] \<or> e \<noteq> []))"

lemma takeWhile_digits:
  assumes "list_all is_digit ds" and "r = [] \<or> \<not> is_digit (hd r)"
  shows "takeWhile is_digit (ds @ r) = ds" "dropWhile is_digit (ds @ r) = r"
  using assms by (induction ds) (cases r; auto)+

lemma digit_not [simp]: "\<not> is_digit (CHR ''.'')" "\<not> is_digit (CHR ''e'')" "\<not> is_digit (CHR ''E'')" "\<not> is_digit (CHR ''+'')"
    "\<not> is_digit (CHR ''-'')" "is_digit (CHR ''0'')"
  by (simp_all add: is_digit_def ord_def)

lemma integer_part_digits:
  assumes "integer_digits ds" and "r = [] \<or> \<not> is_digit (hd r)"
  shows "integer_part (ds @ r) = Some (ds, r)"
  using assms takeWhile_digits [of ds r] by (auto simp: integer_part_def integer_digits_def)

lemma exponent_part_text:
  assumes "exponent_text e" and "ends_numeral r"
  shows "exponent_part (e @ r) = (e, r)"
proof (cases "e = []")
  case True
  with assms(2) show ?thesis by (cases r) (auto simp: exponent_part_def ends_numeral_def)
next
  case False
  with assms(1) obtain c sign ds where e: "e = c # sign @ ds" "c = CHR ''e'' \<or> c = CHR ''E''"
    "sign \<in> {[], ''+'', ''-''}" "ds \<noteq> []" "list_all is_digit ds"
    by (cases e) (auto simp: exponent_text_def)
  then obtain x xs where ds: "ds = x # xs" "is_digit x" by (cases ds) auto
  then have "x \<noteq> CHR ''+''" "x \<noteq> CHR ''-''" by auto
  with e ds assms(2) takeWhile_digits [of ds r] show ?thesis
    by (auto simp: exponent_part_def Let_def ends_numeral_def)
qed

lemma fraction_part_text:
  assumes "fraction_text f" and "r = [] \<or> \<not> is_digit (hd r) \<and> (f = [] \<longrightarrow> hd r \<noteq> CHR ''.'')"
  shows "fraction_part (f @ r) = (f, r)"
proof (cases "f = []")
  case True
  with assms(2) show ?thesis by (cases r) (auto simp: fraction_part_def)
next
  case False
  with assms(1) obtain ds where "f = CHR ''.'' # ds" "ds \<noteq> []" "list_all is_digit ds"
    by (cases f) (auto simp: fraction_text_def)
  with assms(2) takeWhile_digits [of ds r] show ?thesis by (auto simp: fraction_part_def)
qed

lemma scan_number_text:
  assumes "sign \<in> {[], ''-''}" and "integer_digits ds" and "fraction_text f" and "exponent_text e" and "ends_numeral r"
  shows "scan_number (sign @ ds @ f @ e @ r) =
    (if f = [] \<and> e = [] then (if 4300 < length ds then Inl JsonDigits
       else Inr (JInt ((if sign = [] then 1 else -1) * int (decimal_value ds)), r))
     else Inr (JFloat (sign @ ds @ f @ e), r))"
proof -
  have er: "e @ r = [] \<or> \<not> is_digit (hd (e @ r)) \<and> hd (e @ r) \<noteq> CHR ''.''"
    using assms(4,5) by (cases e) (auto simp: exponent_text_def ends_numeral_def)
  have fer: "f @ e @ r = [] \<or> \<not> is_digit (hd (f @ e @ r))"
    using assms(3) er by (cases f) (auto simp: fraction_text_def)
  obtain x xs where "ds = x # xs" "is_digit x"
    using assms(2) by (cases ds) (auto simp: integer_digits_def)
  then have head: "take 1 (ds @ f @ e @ r) \<noteq> ''-''" by auto
  have ip: "integer_part (ds @ f @ e @ r) = Some (ds, f @ e @ r)"
    using integer_part_digits [OF assms(2) fer] .
  have fp: "fraction_part (f @ e @ r) = (f, e @ r)"
    using fraction_part_text [OF assms(3), of "e @ r"] er by blast
  have sgn: "(if take 1 (sign @ ds @ f @ e @ r) = ''-'' then ''-'' else []) = sign"
    using assms(1)
  proof (cases "sign = []")
    case True
    with head show ?thesis by (simp only: append_Nil if_False simp_thms)
  next
    case False
    with assms(1) have "sign = ''-''" by simp
    then show ?thesis by simp
  qed
  have dr: "drop (length sign) (sign @ ds @ f @ e @ r) = ds @ f @ e @ r" by simp
  show ?thesis
    unfolding scan_number_def sgn Let_def dr ip option.case prod.case fp exponent_part_text [OF assms(4,5)] by (rule refl)
qed
section \<open>Strings\<close>

lemma hex_digit_value: "n < 16 \<Longrightarrow> is_hex (hex_digit n) \<and> hex_digit_value (hex_digit n) = n"
  by (auto simp: hex_digit_def is_hex_def hex_digit_value_def is_digit_def)

lemma unescape_short: "short_escape c = Some e \<Longrightarrow> unescape e = Some c \<and> e \<noteq> CHR ''u''"
  by (auto simp: short_escape_def unescape_def split: if_splits)

lemma unicode_escape_char:
  "unicode_escape (CHR ''0'' # CHR ''0'' # hex_digit (ord c div 16) # hex_digit (ord c mod 16) # r) = (Inr c, r)"
proof -
  have "ord c div 16 < 16" using ord_less_256 [of c] by simp
  moreover have "16 * (ord c div 16) + ord c mod 16 = ord c" by simp
  moreover have "is_hex (CHR ''0'')" "hex_digit_value (CHR ''0'') = 0" by code_simp+
  ultimately show ?thesis
    using hex_digit_value [of "ord c div 16"] hex_digit_value [of "ord c mod 16"] ord_less_256 [of c]
    by (simp add: unicode_escape_def hex_value_def mult.commute) (simp add: ord_def)
qed

lemma scan_escape:
  assumes "plain (ord c) \<Longrightarrow> 32 \<le> ord c"
  shows "scan_string (escape_with plain c @ s) = bindE (scan_string s) (\<lambda>(t, r). Inr (c # t, r))"
proof (cases "short_escape c")
  case (Some e)
  with unescape_short [OF Some] show ?thesis
    by (subst scan_string.simps) (simp add: escape_with_def)
next
  case None
  then have "c \<noteq> CHR 0x22" "c \<noteq> CHR 0x5C" by (auto simp: short_escape_def)
  with None assms show ?thesis
    by (subst scan_string.simps) (auto simp: escape_with_def unicode_escape_char)
qed

section \<open>Values\<close>

text \<open>What can be written and read back, the nesting it needs, and the form in which it is read: objects
  with their members in the order of the keys.\<close>

fun json_ok :: "json \<Rightarrow> bool" where
  "json_ok (JInt n) = (length (digits_of_nat (nat (abs n))) \<le> 4300)"
| "json_ok (JFloat t) = float_text t"
| "json_ok (JArr vs) = list_all json_ok vs"
| "json_ok (JObj kvs) = (distinct (map fst kvs) \<and> list_all (\<lambda>kv. json_ok (snd kv)) kvs)"
| "json_ok v = True"

fun json_depth :: "json \<Rightarrow> nat" where
  "json_depth (JArr vs) = Suc (fold max (map json_depth vs) 0)"
| "json_depth (JObj kvs) = Suc (fold max (map (\<lambda>kv. json_depth (snd kv)) kvs) 0)"
| "json_depth v = 0"

fun sort_json :: "json \<Rightarrow> json" where
  "sort_json (JArr vs) = JArr (map sort_json vs)"
| "sort_json (JObj kvs) = JObj (sort_key fst (map (map_prod id sort_json) kvs))"
| "sort_json v = v"

lemma fold_max: "fold max xs a \<le> (d :: nat) \<longleftrightarrow> a \<le> d \<and> list_all (\<lambda>x. x \<le> d) xs"
  by (induction xs arbitrary: a) auto

lemma sort_key_map_fst:
  assumes "\<And>x. fst (g x) = fst x"
  shows "sort_key fst (map g xs) = map g (sort_key fst xs)"
proof -
  have "insort_key fst (g x) (map g xs) = map g (insort_key fst x xs)" for x xs
    by (induction xs) (simp_all add: assms)
  then show ?thesis by (induct xs) simp_all
qed

lemma sort_key_map_keys: "sort_key fst (map (map_prod id g) xs) = map (map_prod id g) (sort_key fst xs)"
  by (rule sort_key_map_fst) simp

lemma no_literal: "c \<notin> set ''ntf'' \<Longrightarrow> scan_literal json_literals (c # cs) = None"
  by (auto simp: scan_literal_def json_literals_def)

lemma no_constant: "c \<notin> set ''NI'' \<Longrightarrow> c = CHR ''-'' \<Longrightarrow> cs \<noteq> [] \<and> hd cs \<noteq> CHR ''I'' \<Longrightarrow>
    List.find (\<lambda>w. starts_with w (c # cs)) json_constants = None"
  "c \<notin> set ''NI-'' \<Longrightarrow> List.find (\<lambda>w. starts_with w (c # cs)) json_constants = None"
  by (cases cs; auto simp: json_constants_def) (auto simp: json_constants_def)

locale json_codec =
  fixes plain :: "nat \<Rightarrow> bool" and h :: json_hooks
  assumes plain_control: "plain n \<Longrightarrow> 32 \<le> n"
    and object_hook: "distinct (map fst kvs) \<Longrightarrow> jh_object h kvs = Inr (JObj kvs)"
begin

lemma scan_dumped_string: "scan_string (concat (map (escape_with plain) s) @ CHR 0x22 # r) = Inr (s, r)"
proof (induction s)
  case Nil
  show ?case by (subst scan_string.simps) simp
next
  case (Cons c s)
  then show ?case using plain_control by (simp add: scan_escape)
qed

text \<open>The first character of a value: no white space, and no bracket that would close one.\<close>

definition opens :: "string \<Rightarrow> bool" where
  "opens s \<longleftrightarrow> s \<noteq> [] \<and> hd s \<notin> {CHR '' '', CHR 0x09, CHR 0x0A, CHR 0x0D, CHR '']'', CHR 0x7D}"

lemma opens_Cons: "c \<notin> {CHR '' '', CHR 0x09, CHR 0x0A, CHR 0x0D, CHR '']'', CHR 0x7D} \<Longrightarrow> opens (c # cs)"
  by (simp add: opens_def)

lemma opens_append: "opens s \<Longrightarrow> opens (s @ r)"
  by (cases s) (auto simp: opens_def)

lemma opens_skip: "opens s \<Longrightarrow> skip_ws s = s \<and> take 1 s \<noteq> '']'' \<and> take 1 s \<noteq> [CHR 0x7D]"
  by (cases s) (auto simp: opens_def skip_ws_def)

lemma digit_opens: "is_digit c \<Longrightarrow> c \<notin> {CHR '' '', CHR 0x09, CHR 0x0A, CHR 0x0D, CHR '']'', CHR 0x7D}"
  by (auto simp: is_digit_def ord_def)

lemma opens_numeral:
  assumes "sign \<in> {[], ''-''}" and "integer_digits ds"
  shows "opens (sign @ ds @ r)"
proof -
  obtain x xs where ds: "ds = x # xs" "is_digit x"
    using assms(2) by (cases ds) (auto simp: integer_digits_def)
  have "opens (CHR ''-'' # u)" for u by (rule opens_Cons) simp
  with opens_Cons [OF digit_opens [OF ds(2)]] assms(1) ds(1) show ?thesis by auto
qed

lemma integer_digits_nat: "integer_digits (digits_of_nat n)"
  using digits_head [of n] digits_digits [of n]
  by (auto simp: integer_digits_def digits_of_nat_rec [of 0])

lemma dumps_opens: "json_ok v \<Longrightarrow> opens (dumps_with plain v)"
proof (cases v)
  case (JInt n)
  then show ?thesis
    using opens_numeral [of "if n < 0 then ''-'' else []" "digits_of_nat (nat (abs n))" "[]"] integer_digits_nat
    by (auto simp: str_int_def split: if_splits)
next
  case (JFloat t)
  moreover assume "json_ok v"
  ultimately obtain sign ds f e where "t = sign @ ds @ f @ e" "sign \<in> {[], ''-''}" "integer_digits ds"
    by (auto simp only: json_ok.simps float_text_def)
  with JFloat opens_numeral [of sign ds "f @ e"] show ?thesis by simp
qed (auto intro!: opens_Cons simp: dump_string_def)

lemma scan_scalar_number:
  assumes "sign \<in> {[], ''-''}" and "integer_digits ds"
  shows "scan_value h d (sign @ ds @ r) = scan_number (sign @ ds @ r)"
proof -
  obtain x xs where ds: "ds = x # xs" "is_digit x"
    using assms(2) by (cases ds) (auto simp: integer_digits_def)
  have x: "x \<notin> set ([CHR 0x22, CHR 0x7B] @ ''[ntfIN-'')" using ds(2) by (auto simp: is_digit_def ord_def)
  have "scan_value h d (x # u) = scan_number (x # u)" for u
    using x by (simp add: scan_value.simps scan_scalar_def no_literal no_constant(2))
  moreover have "scan_value h d (CHR ''-'' # x # u) = scan_number (CHR ''-'' # x # u)" for u
    using x by (simp add: scan_value.simps scan_scalar_def no_literal no_constant(1))
  ultimately show ?thesis using assms(1) ds(1) by auto
qed

end
lemma join_Cons2: "join sep (x # y # ys) = x @ sep @ join sep (y # ys)"
  by (simp add: join_def)

lemma ends_numeral_simps [simp]:
  "ends_numeral []" "ends_numeral (CHR '','' # r)" "ends_numeral (CHR '']'' # r)" "ends_numeral (CHR 0x7D # r)"
  by (simp_all add: ends_numeral_def is_digit_def ord_def)

lemma skip_ws_simps [simp]:
  "skip_ws [] = []" "skip_ws (CHR '','' # r) = CHR '','' # r" "skip_ws (CHR '']'' # r) = CHR '']'' # r"
  "skip_ws (CHR 0x7D # r) = CHR 0x7D # r" "skip_ws (CHR '':'' # r) = CHR '':'' # r" "skip_ws (CHR 0x22 # r) = CHR 0x22 # r"
  by (simp_all add: skip_ws_def)

lemma expect_same [simp]: "expect c (c # r) = Inr r"
  by (simp add: expect_def)

context json_codec
begin

text \<open>Lists of values and of members, when each value alone is read back.\<close>

lemma scan_dumped_items:
  assumes "vs \<noteq> []" and "list_all json_ok vs"
    and "\<And>v r. v \<in> set vs \<Longrightarrow> ends_numeral r \<Longrightarrow> scan_value h d (dumps_with plain v @ r) = Inr (sort_json v, r)"
  shows "scan_items h d (join '','' (map (dumps_with plain) vs) @ CHR '']'' # r) = Inr (map sort_json vs, r)"
  using assms
proof (induction vs)
  case (Cons v vs)
  show ?case
  proof (cases vs)
    case Nil
    with Cons.prems(3) [of v] show ?thesis by (subst scan_items.simps) (simp add: join_def)
  next
    case (Cons w ws)
    have "opens (join '','' (map (dumps_with plain) vs) @ u)" for u
      using Cons.prems(2) dumps_opens [of w] Cons by (auto simp: join_def opens_append)
    from opens_skip [OF this] Cons Cons.IH Cons.prems show ?thesis
      by (subst scan_items.simps) (simp add: join_Cons2)
  qed
qed simp

abbreviation member_text :: "string \<times> json \<Rightarrow> string" where
  "member_text kv \<equiv> dump_string plain (fst kv) @ '':'' @ dumps_with plain (snd kv)"

lemma scan_dumped_members:
  assumes "kvs \<noteq> []" and "list_all (\<lambda>kv. json_ok (snd kv)) kvs"
    and "\<And>kv r. kv \<in> set kvs \<Longrightarrow> ends_numeral r \<Longrightarrow>
      scan_value h d (dumps_with plain (snd kv) @ r) = Inr (sort_json (snd kv), r)"
  shows "scan_members h d (join '','' (map member_text kvs) @ CHR 0x7D # r) = Inr (map (map_prod id sort_json) kvs, r)"
  using assms
proof (induction kvs)
  case (Cons kv kvs)
  have val: "skip_ws (dumps_with plain (snd kv) @ u) = dumps_with plain (snd kv) @ u" for u
    using opens_skip [OF opens_append [OF dumps_opens]] Cons.prems(2) by simp
  note read = val scan_dumped_string dump_string_def
  show ?case
  proof (cases kvs)
    case Nil
    with Cons.prems(3) [of kv] show ?thesis by (subst scan_members.simps) (simp add: join_def read map_prod_def split_beta)
  next
    case (Cons kw ws)
    have "opens (join '','' (map member_text kvs) @ u)" for u
      using Cons by (auto simp: join_def dump_string_def intro!: opens_Cons)
    from opens_skip [OF this] Cons Cons.IH Cons.prems show ?thesis
      by (subst scan_members.simps) (simp add: join_Cons2 read map_prod_def split_beta)
  qed
qed simp

theorem scan_dumped:
  assumes "json_ok v" and "json_depth v \<le> d" and "ends_numeral r"
  shows "scan_value h d (dumps_with plain v @ r) = Inr (sort_json v, r)"
  using assms
proof (induction v arbitrary: d r)
  case JNull
  then show ?case by (simp add: scan_value.simps scan_scalar_def scan_literal_def json_literals_def)
next
  case (JBool b)
  then show ?case by (simp add: scan_value.simps scan_scalar_def scan_literal_def json_literals_def)
next
  case (JInt n)
  let ?sign = "if n < 0 then ''-'' else []"
  have "scan_value h d (?sign @ digits_of_nat (nat (abs n)) @ r) =
      scan_number (?sign @ digits_of_nat (nat (abs n)) @ [] @ [] @ r)"
    by (simp add: scan_scalar_number [OF _ integer_digits_nat])
  also have "\<dots> = Inr (JInt n, r)"
    using JInt.prems
    by (subst scan_number_text) (auto simp: integer_digits_nat fraction_text_def exponent_text_def decimal_digits)
  finally show ?case by (simp add: str_int_def split: if_splits)
next
  case (JFloat t)
  then obtain sign ds f e where t: "t = sign @ ds @ f @ e" "sign \<in> {[], ''-''}" "integer_digits ds"
      "fraction_text f" "exponent_text e" "f \<noteq> [] \<or> e \<noteq> []"
    by (auto simp only: json_ok.simps float_text_def)
  have "scan_value h d (sign @ ds @ f @ e @ r) = scan_number (sign @ ds @ f @ e @ r)"
    by (rule scan_scalar_number [OF t(2,3)])
  with scan_number_text [OF t(2-5) JFloat.prems(3)] t(1,6) show ?case by auto
next
  case (JStr s)
  show ?case by (simp add: scan_value.simps dump_string_def scan_dumped_string)
next
  case (JArr vs)
  then obtain k where d: "d = Suc k" "list_all (\<lambda>v. json_depth v \<le> k) vs"
    by (cases d) (auto simp: fold_max list_all_iff)
  show ?case
  proof (cases "vs = []")
    case True
    with d show ?thesis by (simp add: scan_value.simps join_def)
  next
    case False
    have ok: "list_all json_ok vs" using JArr.prems by simp
    have "scan_items h k (join '','' (map (dumps_with plain) vs) @ CHR '']'' # r) = Inr (map sort_json vs, r)"
      using JArr.IH JArr.prems d False by (intro scan_dumped_items) (auto simp: list_all_iff)
    moreover have "opens (join '','' (map (dumps_with plain) vs) @ u)" for u
      using False ok dumps_opens [of "hd vs"] by (cases vs) (auto simp: join_def opens_append)
    note opens_skip [OF this]
    ultimately show ?thesis using d by (simp add: scan_value.simps)
  qed
next
  case (JObj kvs)
  then obtain k where d: "d = Suc k" "list_all (\<lambda>kv. json_depth (snd kv) \<le> k) kvs"
    by (cases d) (auto simp: fold_max list_all_iff)
  define ms where "ms = sort_key fst kvs"
  have ms: "set ms = set kvs" "map (map_prod id sort_json) ms = sort_key fst (map (map_prod id sort_json) kvs)"
    by (simp_all add: ms_def sort_key_map_keys)
  have dumped: "dumps_with plain (JObj kvs) = CHR 0x7B # join '','' (map member_text ms) @ [CHR 0x7D]"
    by (simp add: ms_def sort_key_map_keys o_def split_beta)
  have dst: "distinct (map fst (map (map_prod id sort_json) ms))"
    using JObj.prems(1) by (simp add: ms_def distinct_map)
  show ?case
  proof (cases "ms = []")
    case True
    then show ?thesis
      using d object_hook [of "[]"] unfolding dumped by (simp add: scan_value.simps join_def ms(2) [symmetric])
  next
    case False
    have "scan_members h k (join '','' (map member_text ms) @ CHR 0x7D # r) = Inr (map (map_prod id sort_json) ms, r)"
      using JObj.IH JObj.prems d False ms(1) by (intro scan_dumped_members) (auto simp: list_all_iff snds.simps)
    moreover have "opens (join '','' (map member_text ms) @ u)" for u
      using False by (cases ms) (auto simp: join_def dump_string_def intro!: opens_Cons)
    note opens_skip [OF this]
    ultimately show ?thesis
      using d object_hook [OF dst] unfolding dumped by (simp add: scan_value.simps ms(2))
  qed
qed

lemma loads_dumped:
  assumes "json_ok v" and "json_depth v \<le> jh_depth h"
  shows "json_loads h (dumps_with plain v) = Inr (sort_json v)"
  using scan_dumped [OF assms, of "[]"] opens_skip [OF dumps_opens [OF assms(1)]]
  by (simp add: json_loads_def)

end

section \<open>The two writers with the default reader\<close>

lemma dict_of_distinct: "distinct (map fst kvs) \<Longrightarrow> dict_of kvs = kvs"
proof -
  assume d: "distinct (map fst kvs)"
  then have "map_of (rev kvs) k = Some v" if "(k, v) \<in> set kvs" for k v
    using that by (intro map_of_is_SomeI) (simp_all add: rev_map [symmetric])
  then have "map (\<lambda>kv. (fst kv, the (map_of (rev kvs) (fst kv)))) kvs = kvs"
    by (intro map_idI) auto
  with d show ?thesis by (simp add: dict_of_def o_def)
qed

interpretation ascii_json: json_codec "\<lambda>n. 32 \<le> n \<and> n \<le> 126" "plain_hooks depth" for depth
  by unfold_locales (simp_all add: plain_hooks_def dict_of_distinct)

interpretation text_json: json_codec "\<lambda>n. 32 \<le> n" "plain_hooks depth" for depth
  by unfold_locales (simp_all add: plain_hooks_def dict_of_distinct)

lemma json_dumps_read:
  "json_ok v \<Longrightarrow> json_depth v \<le> depth \<Longrightarrow> json_loads (plain_hooks depth) (json_dumps v) = Inr (sort_json v)"
  using ascii_json.loads_dumped [of v depth] by (simp add: json_dumps_def plain_hooks_def)

section \<open>Sorting\<close>

abbreviation sort_members :: "(string \<times> json) list \<Rightarrow> (string \<times> json) list" where
  "sort_members kvs \<equiv> sort_key fst (map (map_prod id sort_json) kvs)"

lemma keys_sort_members: "mset (map fst (sort_members kvs)) = mset (map fst kvs)"
proof -
  have "mset (map fst (sort_members kvs)) = image_mset fst (mset (map (map_prod id sort_json) kvs))"
    by (simp only: mset_map mset_sort)
  then show ?thesis by (simp add: multiset.map_comp o_def)
qed

lemma map_of_sort_members:
  assumes "distinct (map fst kvs)"
  shows "map_of (sort_members kvs) k = map_option sort_json (map_of kvs k)"
proof -
  have "distinct (map fst (sort_members kvs))" "distinct (map fst (map (map_prod id sort_json) kvs))"
    using assms mset_eq_imp_distinct_iff [OF keys_sort_members [of kvs]] by (simp_all only: map_map fst_comp_map_prod id_comp)
  then have "map_of (sort_members kvs) = map_of (map (map_prod id sort_json) kvs)"
    by (subst map_of_inject_set) simp_all
  then have "map_of (sort_members kvs) k = map_of (map (map_prod id sort_json) kvs) k"
    by (rule fun_cong)
  also have "\<dots> = map_option sort_json (map_of kvs k)"
    by (induction kvs) auto
  finally show ?thesis .
qed

lemma dumps_sorted: "dumps_with plain (sort_json v) = dumps_with plain v"
proof (induction v)
  case (JObj kvs)
  let ?D = "map_prod id (dumps_with plain)"
  have "map ?D (map (map_prod id sort_json) (sort_key fst kvs)) = map ?D (sort_key fst kvs)"
    using JObj.IH by (auto simp: snds.simps)
  then have "sort_key fst (map ?D (sort_members kvs)) = sort_key fst (map ?D kvs)"
    by (simp only: sort_key_map_keys sort_key_id_if_sorted [OF sorted_sort_key])
  then show ?case by (simp only: sort_json.simps dumps_with.simps)
qed (simp_all cong: map_cong)

end
