(* ===== verification/ConfigBytes.thy ===== *)
theory ConfigBytes
  imports Schema JsonRoundtrip
begin

text \<open>
  The bytes of a configuration (\<open>src/rcm/config/schema.py\<close>, from \<open>_reject_constant\<close> on): strict UTF-8
  and JSON without duplicate keys or non-finite numbers, and the canonical form that is stored and
  hashed. The interpreter's recursion limit and SHA-256 are parameters.
\<close>

section \<open>Decoding\<close>

definition max_config_bytes :: nat where "max_config_bytes = 1048576"

definition reject_constant :: "string \<Rightarrow> json_error + json" where
  "reject_constant w = Inl JsonConstant"

fun unique_object_loop :: "string list \<Rightarrow> (string \<times> json) list \<Rightarrow> json_error + unit" where
  "unique_object_loop seen [] = Inr ()"
| "unique_object_loop seen (kv # kvs) =
     (if fst kv \<in> set seen then Inl (JsonDuplicate (fst kv)) else unique_object_loop (fst kv # seen) kvs)"

definition unique_object :: "(string \<times> json) list \<Rightarrow> json_error + json" where
  "unique_object kvs = bindE (unique_object_loop [] kvs) (\<lambda>_. Inr (JObj kvs))"

definition config_hooks :: "nat \<Rightarrow> json_hooks" where
  "config_hooks depth = \<lparr>jh_object = unique_object, jh_constant = reject_constant, jh_depth = depth\<rparr>"

definition config_json_error :: "json_error \<Rightarrow> config_error" where
  "config_json_error e = (case e of JsonDuplicate k \<Rightarrow> DuplicateKey k | JsonBeyond \<Rightarrow> ConfigBeyond | _ \<Rightarrow> ConfigDecode)"

definition decode_json_bytes :: "nat \<Rightarrow> string \<Rightarrow> nat \<Rightarrow> json cfg" where
  "decode_json_bytes depth raw max_bytes =
     (if max_bytes < length raw then Inl (ConfigTooLarge (length raw) max_bytes)
      else case utf8_decode raw of
        None \<Rightarrow> Inl ConfigDecode
      | Some cps \<Rightarrow>
          if list_ex (\<lambda>n. 256 \<le> n) cps then Inl ConfigBeyond
          else case json_loads (config_hooks depth) (map char_of cps) of
            Inl e \<Rightarrow> Inl (config_json_error e)
          | Inr v \<Rightarrow> Inr v)"

definition parse_config_bytes :: "nat \<Rightarrow> string \<Rightarrow> config cfg" where
  "parse_config_bytes depth raw = bindE (decode_json_bytes depth raw max_config_bytes) config_from_dict"

section \<open>Encoding\<close>

definition canonical_json_bytes :: "json \<Rightarrow> string" where
  "canonical_json_bytes v = utf8_encode (json_dumps_text v)"

definition canonical_config_bytes :: "config \<Rightarrow> string cfg" where
  "canonical_config_bytes c =
     bindE (config_to_dict c) (\<lambda>d.
     let encoded = canonical_json_bytes d in
     if max_config_bytes < length encoded then Inl (ConfigTooLarge (length encoded) max_config_bytes)
     else Inr encoded)"

definition config_checksum :: "(string \<Rightarrow> string) \<Rightarrow> config \<Rightarrow> string cfg" where
  "config_checksum sha256 c = bindE (canonical_config_bytes c) (\<lambda>b. Inr (sha256 b))"

section \<open>Reading back canonical bytes\<close>

lemma unique_object_loop_iff:
  "unique_object_loop seen kvs = Inr () \<longleftrightarrow> distinct (map fst kvs) \<and> set seen \<inter> fst ` set kvs = {}"
  by (induction kvs arbitrary: seen) auto

interpretation config_codec: json_codec "\<lambda>n. 32 \<le> n" "config_hooks depth" for depth
  by unfold_locales (simp_all add: config_hooks_def unique_object_def unique_object_loop_iff [THEN iffD2])

lemma decode_canonical:
  assumes "json_ok v" and "json_depth v \<le> depth" and "length (canonical_json_bytes v) \<le> max_bytes"
  shows "decode_json_bytes depth (canonical_json_bytes v) max_bytes = Inr (sort_json v)"
proof -
  have "map (char_of \<circ> ord) s = s" for s :: string
    by (induction s) (simp_all add: ord_def)
  moreover have "\<not> list_ex (\<lambda>n. 256 \<le> n) (map ord s)" for s
    using ord_less_256 by (induction s) (auto simp: not_le)
  moreover have "jh_depth (config_hooks depth) = depth" by (simp add: config_hooks_def)
  ultimately show ?thesis
    using assms config_codec.loads_dumped [OF assms(1), of depth]
    by (simp add: decode_json_bytes_def canonical_json_bytes_def utf8_roundtrip json_dumps_text_def)
qed

text \<open>A decoded object never holds a key twice.\<close>

lemma unique_object_distinct: "unique_object kvs = Inr v \<Longrightarrow> v = JObj kvs \<and> distinct (map fst kvs)"
  by (auto simp: unique_object_def result_simps unique_object_loop_iff)

section \<open>The schema does not see the order of members\<close>

lemma sort_json_leaf:
  "cfg_string (sort_json v) p a b = cfg_string v p a b" "cfg_boolean (sort_json v) p = cfg_boolean v p"
  "cfg_integer (sort_json v) p i j = cfg_integer v p i j" "cfg_choice (sort_json v) p cs = cfg_choice v p cs"
  "cfg_address (sort_json v) p e = cfg_address v p e" "ray_executable_path (sort_json v) p = ray_executable_path v p"
proof -
  show s: "cfg_string (sort_json v) p a b = cfg_string v p a b" for a b by (cases v) (simp_all add: cfg_string_def)
  show "cfg_boolean (sort_json v) p = cfg_boolean v p" "cfg_integer (sort_json v) p i j = cfg_integer v p i j"
    by (cases v; simp add: cfg_boolean_def cfg_integer_def)+
  show "cfg_choice (sort_json v) p cs = cfg_choice v p cs" "cfg_address (sort_json v) p e = cfg_address v p e"
    "ray_executable_path (sort_json v) p = ray_executable_path v p"
    by (simp_all add: cfg_choice_def cfg_address_def ray_executable_path_def s)
qed

lemma cfg_get_sorted:
  assumes "distinct (map fst kvs)"
  shows "cfg_get (sort_members kvs) k (JStr s) = sort_json (cfg_get kvs k (JStr s))"
    "cfg_get (sort_members kvs) k (JInt n) = sort_json (cfg_get kvs k (JInt n))"
    "cfg_get (sort_members kvs) k (JBool b) = sort_json (cfg_get kvs k (JBool b))"
    "cfg_get (sort_members kvs) k (JArr []) = sort_json (cfg_get kvs k (JArr []))"
  using map_of_sort_members [OF assms, of k] by (simp_all add: cfg_get_def split: option.splits)

lemma cfg_known_sorted: "cfg_known (sort_members kvs) allowed p = cfg_known kvs allowed p"
proof -
  have "sort (filter (\<lambda>k. k \<notin> set allowed) (map fst (sort_members kvs))) = sort (filter (\<lambda>k. k \<notin> set allowed) (map fst kvs))"
    by (rule properties_for_sort) (simp_all only: mset_sort mset_filter keys_sort_members sorted_sort)
  then show ?thesis by (simp only: cfg_known_def)
qed

lemma cfg_section_sorted:
  assumes "json_ok (JObj r)"
    and "\<And>d. distinct (map fst d) \<Longrightarrow> list_all (\<lambda>kv. json_ok (snd kv)) d \<Longrightarrow> F (sort_members d) = F d"
  shows "bindE (cfg_section (sort_members r) k) F = bindE (cfg_section r k) F"
proof (cases "map_of r k")
  case None
  with assms(1) show ?thesis by (simp add: cfg_section_def map_of_sort_members del: list.map)
next
  case (Some v)
  then have "json_ok v" using assms(1) by (auto simp: list_all_iff dest!: map_of_SomeD)
  with Some assms show ?thesis
    by (cases v) (simp_all add: cfg_section_def map_of_sort_members cfg_mapping_def)
qed

lemmas sorted_reads = cfg_known_sorted cfg_get_sorted sort_json_leaf

lemma parse_sections_sorted:
  assumes "json_ok (JObj r)"
  shows "parse_app (sort_members r) = parse_app r" "parse_ui (sort_members r) = parse_ui r"
    "parse_monitoring (sort_members r) = parse_monitoring r" "parse_rdp (sort_members r) = parse_rdp r"
    "parse_cleanup (sort_members r) = parse_cleanup r" "parse_ray (sort_members r) = parse_ray r"
    "parse_remote (sort_members r) = parse_remote r" "parse_update (sort_members r) = parse_update r"
  unfolding parse_app_def parse_ui_def parse_monitoring_def parse_rdp_def parse_cleanup_def parse_ray_def
    parse_remote_def parse_update_def
  by (rule cfg_section_sorted [OF assms], simp only: sorted_reads)+

lemma parse_node_sorted:
  assumes "json_ok v"
  shows "parse_node i (sort_json v) = parse_node i v"
proof (cases v)
  case (JObj d)
  then have "distinct (map fst d)" using assms by simp
  then show ?thesis
    unfolding parse_node_def Let_def JObj cfg_mapping_def sort_json.simps json.case bindE_simps
    by (cases "map_of d ''node_id''"; cases "map_of d ''address''")
      (simp_all only: sorted_reads map_of_sort_members option.map option.case prod.case)
qed (simp_all add: parse_node_def cfg_mapping_def)

lemma parse_nodes_sorted:
  assumes "json_ok (JObj r)"
  shows "parse_nodes (sort_members r) = parse_nodes r"
proof -
  have items: "parse_node_list i (map sort_json vs) = parse_node_list i vs" if "list_all json_ok vs" for i vs
    using that by (induction vs arbitrary: i) (simp_all add: parse_node_sorted)
  have arr: "list_all json_ok vs"
    if "cfg_get d ''items'' (JArr []) = JArr vs" "list_all (\<lambda>kv. json_ok (snd kv)) d" for d vs
    using that by (fastforce simp: cfg_get_def list_all_iff split: option.splits dest: map_of_SomeD)
  show ?thesis
    unfolding parse_nodes_def
  proof (rule cfg_section_sorted [OF assms], goal_cases)
    case (1 d)
    show ?case
    proof (cases "cfg_get d ''items'' (JArr [])")
      case (JArr vs)
      note get = cfg_get_sorted(4) [OF 1(1), of "''items''", unfolded JArr sort_json.simps]
      show ?thesis
        unfolding get JArr json.case items [OF arr [OF JArr 1(2)]] length_map
        by (simp only: sorted_reads 1)
    qed (simp_all only: sorted_reads 1 sort_json.simps json.case)
  qed
qed

lemma config_from_sorted:
  assumes "json_ok v"
  shows "config_from_dict (sort_json v) = config_from_dict v"
proof (cases v)
  case (JObj r)
  then have "distinct (map fst r)" using assms by simp
  then show ?thesis
    unfolding config_from_dict_def JObj sort_json.simps cfg_mapping_def json.case bindE_simps
    by (simp only: sorted_reads parse_sections_sorted [OF assms [unfolded JObj]] parse_nodes_sorted [OF assms [unfolded JObj]])
qed (simp_all add: config_from_dict_def cfg_mapping_def)

section \<open>A configuration as JSON\<close>

lemma json_int_ok: "abs n < 10 ^ 19 \<Longrightarrow> json_ok (JInt n)"
  using digits_length [of "nat (abs n)" 19] by (simp add: nat_less_iff)

lemma json_obj_ok: "json_ok (JObj kvs) \<longleftrightarrow> distinct (map fst kvs) \<and> list_all (\<lambda>kv. json_ok (snd kv)) kvs"
  by simp

lemma node_json_ok: "node_ok n \<Longrightarrow> json_ok (node_json n)" "json_depth (node_json n) = 1"
  by (simp_all add: node_json_def node_ok_def json_int_ok del: json_ok.simps(1))

lemma config_json_ok:
  assumes "config_ok c"
  shows "json_ok (config_json exe c)"
proof -
  let ?n = "cfg_nodes c"
  have nodes: "list_all json_ok (map node_json (ns_items ?n))"
    using assms by (simp add: config_ok_def nodes_ok_def list_all_iff node_json_ok)
  note oks = assms [unfolded config_ok_def]
  have u: "abs (cu_scale_percent (cfg_ui c)) < 10 ^ 19" using oks by (simp add: ui_ok_def)
  have m: "abs (cm_interval_ms (cfg_monitoring c)) < 10 ^ 19" "abs (cm_stale_after_ms (cfg_monitoring c)) < 10 ^ 19"
    "abs (cm_history_samples (cfg_monitoring c)) < 10 ^ 19" using oks by (simp_all add: monitoring_ok_def)
  have d: "abs (rs_port (cfg_rdp c)) < 10 ^ 19" "abs (rs_connect_timeout (cfg_rdp c)) < 10 ^ 19"
    using oks by (simp_all add: rdp_ok_def)
  have cl: "abs (cs_graceful_timeout (cfg_cleanup c)) < 10 ^ 19" "abs (cs_force_timeout (cfg_cleanup c)) < 10 ^ 19"
    "abs (cs_max_processes (cfg_cleanup c)) < 10 ^ 19" using oks by (simp_all add: cleanup_ok_def)
  have r: "abs (ry_client_port (cfg_ray c)) < 10 ^ 19" "abs (ry_dashboard_port (cfg_ray c)) < 10 ^ 19"
    "abs (ry_cpu_count (cfg_ray c)) < 10 ^ 19" "abs (ry_startup_timeout (cfg_ray c)) < 10 ^ 19"
    using oks by (simp_all add: ray_ok_def)
  have rm: "abs (rm_port (cfg_remote c)) < 10 ^ 19" "abs (rm_max_request_bytes (cfg_remote c)) < 10 ^ 19"
    "abs (rm_request_timeout (cfg_remote c)) < 10 ^ 19" using oks by (simp_all add: remote_ok_def)
  have up: "abs (up_check_interval_hours (cfg_update c)) < 10 ^ 19" using oks by (simp add: update_ok_def)
  have v: "abs (cfg_version c) < 10 ^ 19" using oks by simp
  note ints = u m d cl r rm up v
  show ?thesis
    unfolding config_json_def Let_def
    using nodes by (simp add: ints [THEN json_int_ok] del: json_ok.simps(1))
qed

lemma config_json_depth: "json_depth (config_json exe c) \<le> 4"
proof -
  have "fold max (map json_depth (map node_json ns)) 0 \<le> 1" for ns
    by (simp add: fold_max list_all_iff node_json_ok)
  then show ?thesis by (simp add: config_json_def Let_def)
qed

text \<open>Canonical bytes read back, for a valid configuration that fits the limit.\<close>

lemma config_bytes_read:
  assumes "canonical_config_bytes c = Inr b" and "config_ok c" and "4 \<le> depth"
  shows "parse_config_bytes depth b = Inr c"
proof -
  let ?d = "config_json (ry_executable_path (cfg_ray c)) c"
  have "ray_executable_path (JStr (ry_executable_path (cfg_ray c))) ''ray.executable_path'' = Inr (ry_executable_path (cfg_ray c))"
    using assms(2) by (intro ray_executable_again) (simp add: config_ok_def ray_ok_def)
  then have "b = canonical_json_bytes ?d" "length b \<le> max_config_bytes"
    using assms(1) read_config [OF assms(2)]
    by (auto simp: canonical_config_bytes_def config_to_dict_def result_simps Let_def split: if_splits)
  then show ?thesis
    using decode_canonical [OF config_json_ok [OF assms(2)] order_trans [OF config_json_depth assms(3)]]
      config_from_sorted [OF config_json_ok [OF assms(2)]] read_config [OF assms(2)]
    by (simp add: parse_config_bytes_def)
qed

end
