(* ===== verification/Store.thy ===== *)
theory Store
  imports ConfigBytes Effects
begin

text \<open>
  \<open>src/rcm/config/store.py\<close>: the transactional configuration store. The class \<open>ConfigStore\<close> is
  written over its \<open>Filesystem\<close>, its \<open>Lock\<close>, its phase hook, SHA-256 and the recursion limit of the
  JSON reader, all parameters; \<open>StoreDisk\<close> gives the file system of the code. A path is the name of
  the file inside the store's directory. The order of the operations on the files is the code's,
  since what a crash leaves depends on it.
\<close>

section \<open>Errors\<close>

datatype os_error = OsFull | OsDenied | OsOtherError

datatype store_exn =
    StoreConfig config_error | StoreCorrupt | StoreGeneration | StoreConflict | StoreLock
  | StoreDiskFull | StoreReadOnly | StoreIO
  | SxOs os_error | SxTimeout | SxOther pyexn

definition map_os_error :: "os_error \<Rightarrow> store_exn" where
  "map_os_error e = (case e of OsFull \<Rightarrow> StoreDiskFull | OsDenied \<Rightarrow> StoreReadOnly | OsOtherError \<Rightarrow> StoreIO)"

definition of_config :: "'a cfg \<Rightarrow> store_exn + 'a" where
  "of_config r = (case r of Inl e \<Rightarrow> Inl (StoreConfig e) | Inr x \<Rightarrow> Inr x)"

text \<open>\<open>except ConfigError as exc: raise ConfigCorruptError\<close>\<close>

definition or_corrupt :: "'a cfg \<Rightarrow> store_exn + 'a" where
  "or_corrupt r = (case r of Inl e \<Rightarrow> Inl (if e = ConfigBeyond then StoreConfig e else StoreCorrupt) | Inr x \<Rightarrow> Inr x)"

section \<open>Records and journals\<close>

definition max_record_bytes :: nat where "max_record_bytes = max_config_bytes + 65536"

definition max_journal_bytes :: nat where "max_journal_bytes = 65536"

definition max_generation :: int where "max_generation = 2 ^ 63 - 1"

record stored_config =
  st_config :: config
  st_generation :: int
  st_checksum :: string
  st_transaction :: "string option"

record store_record =
  sr_stored :: stored_config
  sr_raw :: string
  sr_raw_checksum :: string

record journal =
  jn_phase :: string
  jn_old_generation :: int
  jn_old_checksum :: "string option"
  jn_new_generation :: int
  jn_new_checksum :: string

definition json_text :: "string option \<Rightarrow> json" where
  "json_text t = (case t of None \<Rightarrow> JNull | Some s \<Rightarrow> JStr s)"

definition record_json :: "json \<Rightarrow> string \<Rightarrow> int \<Rightarrow> string option \<Rightarrow> json" where
  "record_json d checksum generation transaction_id =
     JObj ([(''store_version'', JInt 1), (''generation'', JInt generation), (''checksum'', JStr checksum), (''config'', d)]
       @ (case transaction_id of None \<Rightarrow> [] | Some t \<Rightarrow> [(''transaction_id'', JStr t)]))"

definition record_bytes ::
    "(string \<Rightarrow> string) \<Rightarrow> config \<Rightarrow> int \<Rightarrow> string option \<Rightarrow> store_exn + string" where
  "record_bytes sha256 c generation transaction_id =
     (if \<not> (1 \<le> generation \<and> generation \<le> max_generation) then Inl StoreGeneration
      else if \<not> (case transaction_id of None \<Rightarrow> True | Some t \<Rightarrow> is_digest t) then Inl (SxOther ValueError)
      else bindE (of_config (canonical_config_bytes c)) (\<lambda>payload.
           bindE (of_config (config_to_dict c)) (\<lambda>d.
           Inr (canonical_json_bytes (record_json d (sha256 payload) generation transaction_id)))))"

text \<open>\<open>value.get(key)\<close>: \<open>None\<close> for a missing key and for \<open>null\<close>.\<close>

definition optional_member :: "(string \<times> json) list \<Rightarrow> string \<Rightarrow> json option" where
  "optional_member kvs k = (case map_of kvs k of None \<Rightarrow> None | Some JNull \<Rightarrow> None | Some v \<Rightarrow> Some v)"

definition checksum_of :: "json \<Rightarrow> string option" where
  "checksum_of v = (case v of JStr s \<Rightarrow> if is_digest s then Some s else None | _ \<Rightarrow> None)"

definition record_keys :: "string list" where
  "record_keys = [''store_version'', ''generation'', ''checksum'', ''config'']"

definition decode_record :: "(string \<Rightarrow> string) \<Rightarrow> nat \<Rightarrow> string \<Rightarrow> store_exn + store_record" where
  "decode_record sha256 depth raw =
     bindE (or_corrupt (decode_json_bytes depth raw max_record_bytes)) (\<lambda>v.
     case v of
       JObj kvs \<Rightarrow>
         if set (map fst kvs) \<noteq> set record_keys \<and> set (map fst kvs) \<noteq> set (''transaction_id'' # record_keys)
         then Inl StoreCorrupt
         else if map_of kvs ''store_version'' \<noteq> Some (JInt 1) then Inl StoreCorrupt
         else (case map_of kvs ''generation'' of
           Some (JInt generation) \<Rightarrow>
             if \<not> (1 \<le> generation \<and> generation \<le> max_generation) then Inl StoreGeneration
             else (case (Option.bind (map_of kvs ''checksum'') checksum_of, optional_member kvs ''transaction_id'') of
               (None, _) \<Rightarrow> Inl StoreCorrupt
             | (Some checksum, t) \<Rightarrow>
                 if \<not> (case t of None \<Rightarrow> True | Some x \<Rightarrow> checksum_of x \<noteq> None) then Inl StoreCorrupt
                 else
                 bindE (or_corrupt (config_from_dict (the (map_of kvs ''config'')))) (\<lambda>c.
                 bindE (or_corrupt (canonical_config_bytes c)) (\<lambda>payload.
                 if sha256 payload \<noteq> checksum then Inl StoreCorrupt
                 else Inr \<lparr>sr_stored = \<lparr>st_config = c, st_generation = generation, st_checksum = checksum,
                                       st_transaction = Option.bind t checksum_of\<rparr>,
                           sr_raw = raw, sr_raw_checksum = sha256 raw\<rparr>)))
         | _ \<Rightarrow> Inl StoreGeneration)
     | _ \<Rightarrow> Inl StoreCorrupt)"

definition journal_json :: "journal \<Rightarrow> json" where
  "journal_json j = JObj [(''journal_version'', JInt 1), (''phase'', JStr (jn_phase j)),
     (''old_generation'', JInt (jn_old_generation j)), (''old_record_checksum'', json_text (jn_old_checksum j)),
     (''new_generation'', JInt (jn_new_generation j)), (''new_record_checksum'', JStr (jn_new_checksum j))]"

definition journal_bytes :: "journal \<Rightarrow> string" where
  "journal_bytes j = canonical_json_bytes (journal_json j)"

definition journal_keys :: "string list" where
  "journal_keys = [''journal_version'', ''phase'', ''old_generation'', ''old_record_checksum'',
     ''new_generation'', ''new_record_checksum'']"

definition decode_journal :: "nat \<Rightarrow> string \<Rightarrow> store_exn + journal" where
  "decode_journal depth raw =
     bindE (or_corrupt (decode_json_bytes depth raw max_journal_bytes)) (\<lambda>v.
     case v of
       JObj kvs \<Rightarrow>
         if set (map fst kvs) \<noteq> set journal_keys then Inl StoreCorrupt
         else if map_of kvs ''journal_version'' \<noteq> Some (JInt 1) then Inl StoreCorrupt
         else (case (map_of kvs ''phase'', map_of kvs ''old_generation'', optional_member kvs ''old_record_checksum'',
                     map_of kvs ''new_generation'', Option.bind (map_of kvs ''new_record_checksum'') checksum_of) of
           (Some (JStr phase), Some (JInt old_gen), old_sum, Some (JInt new_gen), Some new_sum) \<Rightarrow>
             if phase \<notin> {''prepared'', ''replaced'', ''committed''} then Inl StoreCorrupt
             else if \<not> (0 \<le> old_gen \<and> old_gen \<le> max_generation) then Inl StoreCorrupt
             else if \<not> (case old_sum of None \<Rightarrow> True | Some x \<Rightarrow> checksum_of x \<noteq> None) then Inl StoreCorrupt
             else if (old_gen = 0) \<noteq> (old_sum = None) then Inl StoreCorrupt
             else if \<not> (1 \<le> new_gen \<and> new_gen \<le> max_generation) then Inl StoreCorrupt
             else if new_gen \<noteq> old_gen + 1 then Inl StoreCorrupt
             else Inr \<lparr>jn_phase = phase, jn_old_generation = old_gen, jn_old_checksum = Option.bind old_sum checksum_of,
                       jn_new_generation = new_gen, jn_new_checksum = new_sum\<rparr>
         | _ \<Rightarrow> Inl StoreCorrupt)
     | _ \<Rightarrow> Inl StoreCorrupt)"

section \<open>The store\<close>

record 'w store_env =
  se_ensure_parent :: "string \<Rightarrow> ('w, store_exn, unit) eff"
  se_exists :: "string \<Rightarrow> ('w, store_exn, bool) eff"
  se_read :: "string \<Rightarrow> ('w, store_exn, string) eff"
  se_write :: "string \<Rightarrow> string \<Rightarrow> ('w, store_exn, unit) eff"
  se_fsync :: "string \<Rightarrow> ('w, store_exn, unit) eff"
  se_replace :: "string \<Rightarrow> string \<Rightarrow> ('w, store_exn, unit) eff"
  se_fsync_dir :: "('w, store_exn, unit) eff"
  se_unlink :: "string \<Rightarrow> ('w, store_exn, unit) eff"
  se_acquire :: "('w, store_exn, unit) eff"
  se_release :: "('w, store_exn, unit) eff"
  se_hook :: "string \<Rightarrow> ('w, store_exn, unit) eff"
  se_sha256 :: "string \<Rightarrow> string"
  se_depth :: nat

record 'w config_store =
  cs_env :: "'w store_env"
  cs_path :: string
  cs_backup_path :: string
  cs_backup_temp_path :: string
  cs_temp_path :: string
  cs_journal_path :: string
  cs_journal_temp_path :: string

definition store_at :: "string \<Rightarrow> 'w store_env \<Rightarrow> 'w config_store" where
  "store_at name env = \<lparr>cs_env = env, cs_path = name, cs_backup_path = name @ ''.bak'',
     cs_backup_temp_path = name @ ''.bak.tmp'', cs_temp_path = name @ ''.tmp'',
     cs_journal_path = name @ ''.journal'', cs_journal_temp_path = name @ ''.journal.tmp''\<rparr>"

definition mk_ConfigStore :: "string \<Rightarrow> 'w store_env \<Rightarrow> 'w config_store result" where
  "mk_ConfigStore name env = (if name = [] then Inl ValueError else Inr (store_at name env))"

type_synonym ('w, 'a) store_eff = "('w, store_exn, 'a) eff"

definition lift_result :: "store_exn + 'a \<Rightarrow> ('w, 'a) store_eff" where
  "lift_result r w = (r, w)"

definition checkpoint_hook :: "'w config_store \<Rightarrow> string \<Rightarrow> ('w, unit) store_eff" where
  "checkpoint_hook st phase = se_hook (cs_env st) phase"

definition write_synced :: "'w config_store \<Rightarrow> string \<Rightarrow> string \<Rightarrow> ('w, unit) store_eff" where
  "write_synced st p raw = andthen (se_write (cs_env st) p raw) (\<lambda>_. se_fsync (cs_env st) p)"

definition replace_synced :: "'w config_store \<Rightarrow> string \<Rightarrow> string \<Rightarrow> ('w, unit) store_eff" where
  "replace_synced st source destination =
     andthen (se_replace (cs_env st) source destination) (\<lambda>_. se_fsync_dir (cs_env st))"

definition write_journal :: "'w config_store \<Rightarrow> journal \<Rightarrow> ('w, unit) store_eff" where
  "write_journal st j =
     andthen (write_synced st (cs_journal_temp_path st) (journal_bytes j)) (\<lambda>_.
     replace_synced st (cs_journal_temp_path st) (cs_journal_path st))"

text \<open>\<open>fs.read_bytes(path) if fs.exists(path) else None\<close>\<close>

definition read_if_present :: "'w config_store \<Rightarrow> string \<Rightarrow> ('w, string option) store_eff" where
  "read_if_present st p =
     andthen (se_exists (cs_env st) p) (\<lambda>present.
     if present then andthen (se_read (cs_env st) p) (\<lambda>raw. ret (Some raw)) else ret None)"

definition read_record_if_present :: "'w config_store \<Rightarrow> string \<Rightarrow> ('w, store_record option) store_eff" where
  "read_record_if_present st p =
     andthen (read_if_present st p) (\<lambda>raw.
     case raw of
       None \<Rightarrow> ret None
     | Some raw \<Rightarrow> andthen (lift_result (decode_record (se_sha256 (cs_env st)) (se_depth (cs_env st)) raw)) (\<lambda>r. ret (Some r)))"

definition clean_residue :: "'w config_store \<Rightarrow> ('w, unit) store_eff" where
  "clean_residue st =
     andthen (se_unlink (cs_env st) (cs_temp_path st)) (\<lambda>_.
     andthen (se_unlink (cs_env st) (cs_backup_temp_path st)) (\<lambda>_.
     andthen (se_unlink (cs_env st) (cs_journal_temp_path st)) (\<lambda>_.
     andthen (se_unlink (cs_env st) (cs_journal_path st)) (\<lambda>_.
     se_fsync_dir (cs_env st)))))"

definition recover_without_journal :: "'w config_store \<Rightarrow> ('w, unit) store_eff" where
  "recover_without_journal st =
     andthen (for_each (\<lambda>p changed.
         andthen (se_exists (cs_env st) p) (\<lambda>present.
         if present then andthen (se_unlink (cs_env st) p) (\<lambda>_. ret True) else ret changed))
       [cs_temp_path st, cs_backup_temp_path st, cs_journal_temp_path st] False) (\<lambda>changed.
     if changed then se_fsync_dir (cs_env st) else ret ())"

text \<open>A record that the journal names as its old or its new one.\<close>

definition is_new_record :: "journal \<Rightarrow> store_record option \<Rightarrow> bool" where
  "is_new_record j r = (case r of None \<Rightarrow> False
     | Some r \<Rightarrow> sr_raw_checksum r = jn_new_checksum j \<and> st_generation (sr_stored r) = jn_new_generation j)"

definition is_old_record :: "journal \<Rightarrow> store_record option \<Rightarrow> bool" where
  "is_old_record j r = (case r of None \<Rightarrow> False
     | Some r \<Rightarrow> jn_old_checksum j = Some (sr_raw_checksum r) \<and> st_generation (sr_stored r) = jn_old_generation j)"

definition recover_journal ::
    "'w config_store \<Rightarrow> journal \<Rightarrow> store_record option \<Rightarrow> store_record option \<Rightarrow> store_record option
       \<Rightarrow> ('w, unit) store_eff" where
  "recover_journal st j target staged backup =
     (if is_new_record j target then clean_residue st
      else if is_old_record j target \<or> target = None \<and> jn_old_checksum j = None then
        andthen (if is_new_record j staged then replace_synced st (cs_temp_path st) (cs_path st) else ret ()) (\<lambda>_.
        clean_residue st)
      else if target = None then
        (if is_new_record j staged then
           andthen (replace_synced st (cs_temp_path st) (cs_path st)) (\<lambda>_. clean_residue st)
         else case backup of
           Some b \<Rightarrow>
             if is_old_record j backup then
               andthen (write_synced st (cs_backup_temp_path st) (sr_raw b)) (\<lambda>_.
               andthen (replace_synced st (cs_backup_temp_path st) (cs_path st)) (\<lambda>_.
               clean_residue st))
             else throw StoreCorrupt
         | None \<Rightarrow> throw StoreCorrupt)
      else andthen (clean_residue st) (\<lambda>_. throw StoreConflict))"

definition store_recover :: "'w config_store \<Rightarrow> ('w, unit) store_eff" where
  "store_recover st =
     andthen (read_if_present st (cs_journal_path st)) (\<lambda>raw.
     case raw of
       None \<Rightarrow> recover_without_journal st
     | Some raw \<Rightarrow>
         andthen (lift_result (decode_journal (se_depth (cs_env st)) raw)) (\<lambda>j.
         andthen (read_record_if_present st (cs_path st)) (\<lambda>target.
         andthen (read_record_if_present st (cs_temp_path st)) (\<lambda>staged.
         andthen (read_record_if_present st (cs_backup_path st)) (\<lambda>backup.
         recover_journal st j target staged backup)))))"

section \<open>Load and save\<close>

definition map_store_error :: "store_exn \<Rightarrow> store_exn" where
  "map_store_error e = (case e of SxTimeout \<Rightarrow> StoreLock | SxOs o1 \<Rightarrow> map_os_error o1 | _ \<Rightarrow> e)"

definition under_lock :: "'w config_store \<Rightarrow> ('w, 'a) store_eff \<Rightarrow> ('w, 'a) store_eff" where
  "under_lock st operation =
     on_raise (andthen (se_acquire (cs_env st)) (\<lambda>_. finally_do operation (se_release (cs_env st))))
       (\<lambda>e. throw (map_store_error e))"

text \<open>\<open>ensure_parent\<close> with the mapping of \<open>OSError\<close>, a base class of \<open>TimeoutError\<close>.\<close>

definition prepared :: "'w config_store \<Rightarrow> ('w, 'a) store_eff \<Rightarrow> ('w, 'a) store_eff" where
  "prepared st operation =
     andthen (on_raise (se_ensure_parent (cs_env st) (cs_path st)) (\<lambda>e.
       throw (case e of SxOs o1 \<Rightarrow> map_os_error o1 | SxTimeout \<Rightarrow> StoreIO | _ \<Rightarrow> e))) (\<lambda>_.
     under_lock st operation)"

definition default_stored :: "'w config_store \<Rightarrow> store_exn + stored_config" where
  "default_stored st =
     bindE (of_config (canonical_config_bytes default_config)) (\<lambda>b.
     Inr \<lparr>st_config = default_config, st_generation = 0, st_checksum = se_sha256 (cs_env st) b, st_transaction = None\<rparr>)"

definition store_load :: "'w config_store \<Rightarrow> bool \<Rightarrow> ('w, stored_config) store_eff" where
  "store_load st require_existing = prepared st
     (andthen (store_recover st) (\<lambda>_.
      andthen (read_record_if_present st (cs_path st)) (\<lambda>r.
      case r of
        None \<Rightarrow> if require_existing then throw StoreCorrupt else lift_result (default_stored st)
      | Some r \<Rightarrow> ret (sr_stored r))))"

definition generation_of :: "store_record option \<Rightarrow> int" where
  "generation_of r = (case r of None \<Rightarrow> 0 | Some r \<Rightarrow> st_generation (sr_stored r))"

text \<open>From the commit of the target on, the same in a save and in a rollback.\<close>

definition publish :: "'w config_store \<Rightarrow> journal \<Rightarrow> ('w, unit) store_eff" where
  "publish st j =
     andthen (replace_synced st (cs_temp_path st) (cs_path st)) (\<lambda>_.
     andthen (checkpoint_hook st ''target_replaced'') (\<lambda>_.
     andthen (write_journal st (j\<lparr>jn_phase := ''replaced''\<rparr>)) (\<lambda>_.
     andthen (checkpoint_hook st ''journal_replaced'') (\<lambda>_.
     andthen (write_journal st (j\<lparr>jn_phase := ''committed''\<rparr>)) (\<lambda>_.
     andthen (checkpoint_hook st ''journal_committed'') (\<lambda>_.
     andthen (clean_residue st) (\<lambda>_.
     checkpoint_hook st ''cleanup_complete'')))))))"

definition saved_config ::
    "'w config_store \<Rightarrow> config \<Rightarrow> int \<Rightarrow> string option \<Rightarrow> ('w, stored_config) store_eff" where
  "saved_config st c generation transaction_id =
     andthen (lift_result (of_config (canonical_config_bytes c))) (\<lambda>b.
     ret \<lparr>st_config = c, st_generation = generation, st_checksum = se_sha256 (cs_env st) b,
          st_transaction = transaction_id\<rparr>)"

definition commit_locked ::
    "'w config_store \<Rightarrow> config \<Rightarrow> store_record option \<Rightarrow> string option \<Rightarrow> ('w, stored_config) store_eff" where
  "commit_locked st c old transaction_id =
     (let env = cs_env st; old_generation = generation_of old; new_generation = old_generation + 1 in
      if max_generation \<le> old_generation then throw StoreGeneration
      else
      andthen (lift_result (record_bytes (se_sha256 env) c new_generation transaction_id)) (\<lambda>new_raw.
      let j = \<lparr>jn_phase = ''prepared'', jn_old_generation = old_generation,
               jn_old_checksum = map_option sr_raw_checksum old,
               jn_new_generation = new_generation, jn_new_checksum = se_sha256 env new_raw\<rparr> in
      andthen (case old of
          Some r \<Rightarrow>
            andthen (write_synced st (cs_backup_temp_path st) (sr_raw r)) (\<lambda>_.
            replace_synced st (cs_backup_temp_path st) (cs_backup_path st))
        | None \<Rightarrow>
            andthen (se_exists env (cs_backup_path st)) (\<lambda>present.
            if present then andthen (se_unlink env (cs_backup_path st)) (\<lambda>_. se_fsync_dir env) else ret ())) (\<lambda>_.
      andthen (checkpoint_hook st ''backup_durable'') (\<lambda>_.
      andthen (write_synced st (cs_temp_path st) new_raw) (\<lambda>_.
      andthen (checkpoint_hook st ''new_staged'') (\<lambda>_.
      andthen (write_journal st j) (\<lambda>_.
      andthen (checkpoint_hook st ''journal_prepared'') (\<lambda>_.
      andthen (read_if_present st (cs_path st)) (\<lambda>current_raw.
      if current_raw \<noteq> map_option sr_raw old
      then andthen (clean_residue st) (\<lambda>_. throw StoreConflict)
      else
      andthen (publish st j) (\<lambda>_.
      saved_config st c new_generation transaction_id))))))))))"

definition is_optional_digest :: "string option \<Rightarrow> bool" where
  "is_optional_digest t = (case t of None \<Rightarrow> True | Some x \<Rightarrow> is_digest x)"

definition store_save ::
    "'w config_store \<Rightarrow> config \<Rightarrow> int option \<Rightarrow> string option \<Rightarrow> ('w, stored_config) store_eff" where
  "store_save st c expected_generation transaction_id =
     andthen (lift_result (of_config (canonical_config_bytes c))) (\<lambda>_.
     if (case expected_generation of None \<Rightarrow> False | Some g \<Rightarrow> \<not> (0 \<le> g \<and> g \<le> max_generation))
     then throw (SxOther ValueError)
     else if \<not> is_optional_digest transaction_id then throw (SxOther ValueError)
     else prepared st
       (andthen (store_recover st) (\<lambda>_.
        andthen (read_record_if_present st (cs_path st)) (\<lambda>old.
        if expected_generation \<noteq> None \<and> expected_generation \<noteq> Some (generation_of old) then throw StoreConflict
        else commit_locked st c old transaction_id))))"

section \<open>Rollback\<close>

definition commit_rollback_locked ::
    "'w config_store \<Rightarrow> config \<Rightarrow> store_record \<Rightarrow> store_record \<Rightarrow> ('w, stored_config) store_eff" where
  "commit_rollback_locked st c current backup =
     (let env = cs_env st; old_generation = st_generation (sr_stored current); new_generation = old_generation + 1 in
      if max_generation \<le> old_generation then throw StoreGeneration
      else
      andthen (lift_result (record_bytes (se_sha256 env) c new_generation None)) (\<lambda>new_raw.
      let j = \<lparr>jn_phase = ''prepared'', jn_old_generation = old_generation,
               jn_old_checksum = Some (sr_raw_checksum current),
               jn_new_generation = new_generation, jn_new_checksum = se_sha256 env new_raw\<rparr> in
      andthen (checkpoint_hook st ''backup_durable'') (\<lambda>_.
      andthen (write_synced st (cs_temp_path st) new_raw) (\<lambda>_.
      andthen (checkpoint_hook st ''new_staged'') (\<lambda>_.
      andthen (write_journal st j) (\<lambda>_.
      andthen (checkpoint_hook st ''journal_prepared'') (\<lambda>_.
      andthen (read_if_present st (cs_path st)) (\<lambda>current_raw.
      andthen (read_if_present st (cs_backup_path st)) (\<lambda>backup_raw.
      if current_raw \<noteq> Some (sr_raw current) \<or> backup_raw \<noteq> Some (sr_raw backup)
      then andthen (clean_residue st) (\<lambda>_. throw StoreConflict)
      else
      andthen (publish st j) (\<lambda>_.
      saved_config st c new_generation None))))))))))"

definition store_rollback_previous ::
    "'w config_store \<Rightarrow> int \<Rightarrow> int \<Rightarrow> string \<Rightarrow> string option \<Rightarrow> ('w, stored_config) store_eff" where
  "store_rollback_previous st current_generation backup_generation backup_checksum current_transaction =
     (if \<not> (1 \<le> current_generation \<and> current_generation \<le> max_generation) \<or>
         \<not> (1 \<le> backup_generation \<and> backup_generation \<le> max_generation) \<or>
         \<not> is_digest backup_checksum \<or> \<not> is_optional_digest current_transaction
      then throw (SxOther ValueError)
      else prepared st
        (andthen (store_recover st) (\<lambda>_.
         andthen (read_record_if_present st (cs_path st)) (\<lambda>current.
         case current of
           None \<Rightarrow> throw StoreConflict
         | Some cur \<Rightarrow>
             if st_generation (sr_stored cur) \<noteq> current_generation then throw StoreConflict
             else if st_transaction (sr_stored cur) \<noteq> current_transaction then throw StoreConflict
             else
             andthen (read_record_if_present st (cs_backup_path st)) (\<lambda>backup.
             case backup of
               None \<Rightarrow> throw StoreCorrupt
             | Some b \<Rightarrow>
                 if st_generation (sr_stored b) \<noteq> current_generation - 1 then throw StoreConflict
                 else if st_generation (sr_stored b) \<noteq> backup_generation \<or> st_checksum (sr_stored b) \<noteq> backup_checksum
                 then throw StoreConflict
                 else commit_rollback_locked st (st_config (sr_stored b)) cur b)))))"

end
