(* ===== verification/ConfigStrict.thy ===== *)
theory ConfigStrict
  imports ConfigBytes
begin

text \<open>
  Sizes of encoded configurations, the bytes of the default configuration, and what the strict
  decoder of \<open>src/rcm/config/schema.py\<close> lets through.
\<close>

section \<open>Sizes of encoded text\<close>

lemma utf8_append: "utf8_encode (a @ b) = utf8_encode a @ utf8_encode b"
  by (simp add: utf8_encode_def)

lemma length_utf8: "length (utf8_encode s) \<le> 2 * length s"
  by (induction s) (auto simp: utf8_encode_def utf8_encode_char_def)

lemma length_concat_le: "(\<And>c. length (f c) \<le> n) \<Longrightarrow> length (concat (map f s)) \<le> n * length s"
  by (induction s) (auto intro: add_mono)

lemma length_dump_string: "length (utf8_encode (dump_string plain s)) \<le> 12 * length s + 4"
proof -
  have "length (escape_with plain c) \<le> 6" for c by (simp add: escape_with_def split: option.split)
  then have "length (concat (map (escape_with plain) s)) \<le> 6 * length s" by (rule length_concat_le)
  then have "length (dump_string plain s) \<le> 6 * length s + 2" by (simp add: dump_string_def)
  then show ?thesis using length_utf8 [of "dump_string plain s"] by simp
qed

lemma length_str_int: "abs n < 10 ^ 19 \<Longrightarrow> length (utf8_encode (str_int n)) \<le> 40"
  using digits_length [of "nat (abs n)" 19] length_utf8 [of "str_int n"]
  by (auto simp: str_int_def nat_less_iff)

lemma length_utf8_join:
  "length (utf8_encode (join sep xs)) \<le> sum_list (map (\<lambda>x. length (utf8_encode x) + length (utf8_encode sep)) xs)"
proof (induction xs)
  case (Cons x xs)
  then show ?case by (cases xs) (simp_all add: join_Cons2 utf8_append, simp_all add: join_def)
qed (simp add: join_def utf8_encode_def)

lemma sum_list_sort_key: "sum_list (map f (sort_key k xs)) = (sum_list (map f xs) :: nat)"
  by (metis mset_map mset_sort sum_mset_sum_list)

lemma utf8_punctuation:
  "utf8_encode [] = []" "utf8_encode (CHR '','' # s) = CHR '','' # utf8_encode s" "utf8_encode (CHR '':'' # s) = CHR '':'' # utf8_encode s"
  "utf8_encode (CHR ''{'' # s) = CHR ''{'' # utf8_encode s" "utf8_encode (CHR 0x7D # s) = CHR 0x7D # utf8_encode s"
  by (simp_all add: utf8_encode_def utf8_encode_char_def ord_def)

lemma length_dumps_object:
  "length (utf8_encode (dumps_with plain (JObj kvs))) \<le>
   2 + sum_list (map (\<lambda>kv. 12 * length (fst kv) + 6 + length (utf8_encode (dumps_with plain (snd kv)))) kvs)"
proof -
  let ?D = "map_prod id (dumps_with plain)" and ?T = "\<lambda>(k, t). dump_string plain k @ '':'' @ t"
  let ?L = "\<lambda>x. length (utf8_encode x) + length (utf8_encode '','')"
  have "sum_list (map ?L (map ?T (sort_key fst (map ?D kvs)))) = sum_list (map (?L \<circ> ?T) (map ?D kvs))"
    by (simp only: map_map [symmetric] sum_list_sort_key) (simp only: map_map sum_list_sort_key o_assoc)
  also have "\<dots> \<le> sum_list (map (\<lambda>kv. 12 * length (fst kv) + 6 + length (utf8_encode (dumps_with plain (snd kv)))) kvs)"
    unfolding map_map
  proof (rule sum_list_mono)
    fix kv :: "string \<times> json"
    show "((?L \<circ> ?T) \<circ> ?D) kv \<le> 12 * length (fst kv) + 6 + length (utf8_encode (dumps_with plain (snd kv)))"
      using length_dump_string [of plain "fst kv"]
      by (simp add: split_beta utf8_append utf8_punctuation)
  qed
  finally show ?thesis
    using length_utf8_join [of "'',''" "map ?T (sort_key fst (map ?D kvs))"]
    by (simp add: utf8_append utf8_punctuation)
qed
section \<open>The default configuration\<close>

text \<open>A bound on the size of encoded JSON that does not need the encoding.\<close>

fun json_bound :: "json \<Rightarrow> nat" where
  "json_bound JNull = 8"
| "json_bound (JBool b) = 10"
| "json_bound (JInt n) = (if abs n < 10 ^ 19 then 40 else 2 * length (str_int n))"
| "json_bound (JFloat t) = 2 * length t"
| "json_bound (JStr s) = 12 * length s + 4"
| "json_bound (JArr vs) = 2 + sum_list (map (\<lambda>v. json_bound v + 1) vs)"
| "json_bound (JObj kvs) = 2 + sum_list (map (\<lambda>kv. 12 * length (fst kv) + 6 + json_bound (snd kv)) kvs)"

lemma utf8_brackets: "utf8_encode (CHR ''['' # s) = CHR ''['' # utf8_encode s" "utf8_encode (CHR '']'' # s) = CHR '']'' # utf8_encode s"
  by (simp_all add: utf8_encode_def utf8_encode_char_def ord_def)

lemma json_bound: "length (utf8_encode (dumps_with plain v)) \<le> json_bound v"
proof (induction v rule: json_bound.induct)
  case 1
  show ?case using length_utf8 [of "''null''"] by simp
next
  case (2 b)
  show ?case using length_utf8 [of "''true''"] length_utf8 [of "''false''"] by simp
next
  case (3 n)
  show ?case using length_utf8 [of "str_int n"] length_str_int [of n] by simp
next
  case (4 t)
  show ?case using length_utf8 [of t] by simp
next
  case (5 s)
  show ?case using length_dump_string [of plain s] by simp
next
  case (6 vs)
  then have "sum_list (map (\<lambda>v. length (utf8_encode (dumps_with plain v)) + 1) vs) \<le> sum_list (map (\<lambda>v. json_bound v + 1) vs)"
    by (intro sum_list_mono) simp
  then show ?case
    using length_utf8_join [of "'',''" "map (dumps_with plain) vs"]
    by (simp add: utf8_append utf8_brackets utf8_punctuation o_def)
next
  case (7 kvs)
  then have "sum_list (map (\<lambda>kv. 12 * length (fst kv) + 6 + length (utf8_encode (dumps_with plain (snd kv)))) kvs) \<le>
      sum_list (map (\<lambda>kv. 12 * length (fst kv) + 6 + json_bound (snd kv)) kvs)"
    by (intro sum_list_mono) simp
  then show ?case using length_dumps_object [of plain kvs] by simp
qed

lemma default_config_read: "config_from_dict (JObj []) = Inr default_config"
proof -
  have "map parse_octet (split_on CHR ''.'' ''127.0.0.1'') = [Some 127, Some 0, Some 0, Some 1]" by code_simp
  then have "ip_address ''127.0.0.1'' \<noteq> None" by (simp only: ip_address_def parse_ipv4_def) simp
  then have "address_ok ''127.0.0.1''" by (simp add: address_ok_def strip_dot_def text_ok_def ord_def)
  then show ?thesis
    by (simp add: config_from_dict_def cfg_mapping_def cfg_known_def cfg_get_def cfg_integer_def missing_sections default_config_def)
qed

lemma default_bytes: "\<exists>b. canonical_config_bytes default_config = Inr b"
proof -
  have ok: "config_ok default_config" by (rule config_accepted [OF default_config_read])
  then have exe: "ray_executable_path (JStr (ry_executable_path (cfg_ray default_config))) ''ray.executable_path''
      = Inr (ry_executable_path (cfg_ray default_config))"
    by (intro ray_executable_again) (simp add: config_ok_def ray_ok_def)
  let ?d = "config_json (ry_executable_path (cfg_ray default_config)) default_config"
  have "json_bound ?d \<le> 1048576"
    by (simp add: config_json_def Let_def default_config_def default_app_def default_ui_def default_monitoring_def
        default_nodes_def default_rdp_def default_cleanup_def default_ray_def default_remote_def default_update_def)
  then have "length (canonical_json_bytes ?d) \<le> max_config_bytes"
    using json_bound [of "\<lambda>n. 32 \<le> n" ?d] unfolding canonical_json_bytes_def json_dumps_text_def max_config_bytes_def by linarith
  then show ?thesis
    using exe read_config [OF ok] by (simp add: canonical_config_bytes_def config_to_dict_def Let_def)
qed

section \<open>What the decoder lets through\<close>

fun unique_keys :: "json \<Rightarrow> bool" where
  "unique_keys (JArr vs) = list_all unique_keys vs"
| "unique_keys (JObj kvs) = (distinct (map fst kvs) \<and> list_all (\<lambda>kv. unique_keys (snd kv)) kvs)"
| "unique_keys v = True"

abbreviation fits :: "nat \<Rightarrow> json \<Rightarrow> bool" where
  "fits d v \<equiv> unique_keys v \<and> json_depth v \<le> d"

lemma scan_scalar_fits: "scan_scalar (config_hooks dep) s = Inr (v, r) \<Longrightarrow> fits d v"
  by (auto simp: scan_scalar_def scan_literal_def json_literals_def config_hooks_def reject_constant_def scan_number_def
      result_simps Let_def split: option.splits prod.splits if_splits)

lemma scan_fits:
  "h = config_hooks dep \<Longrightarrow> scan_value h d s = Inr (v, r) \<Longrightarrow> fits d v"
  "h = config_hooks dep \<Longrightarrow> scan_members h d s = Inr (kvs, r) \<Longrightarrow> list_all (\<lambda>kv. fits d (snd kv)) kvs"
  "h = config_hooks dep \<Longrightarrow> scan_items h d s = Inr (vs, r) \<Longrightarrow> list_all (fits d) vs"
proof (induction h d s and h d s and h d s arbitrary: v r and kvs r and vs r
    rule: scan_value_scan_members_scan_items.induct)
  case (1 h d s)
  have hook: "jh_object (config_hooks dep) kvs = Inr v \<longleftrightarrow> v = JObj kvs \<and> distinct (map fst kvs)" for kvs v
    by (auto simp: config_hooks_def unique_object_def result_simps unique_object_loop_iff)
  obtain c cs where s: "s = c # cs" using "1.prems"(2) by (cases s) (simp_all add: scan_value.simps)
  note read = "1.prems"(2) [unfolded s scan_value.simps [of h d "c # cs"] list.case]
  consider (str) "c = CHR 0x22" | (obj) "c = CHR 0x7B" "d \<noteq> 0" | (arr) "c = CHR ''[''" "d \<noteq> 0"
    | (scalar) "scan_scalar h s = Inr (v, r)"
    using read s by (auto split: if_splits)
  then show ?case
  proof cases
    case str
    then show ?thesis using read by (auto simp: result_simps)
  next
    case o1: obj
    then show ?thesis
      using read "1.IH"(1) [OF s] by (cases d) (auto simp: result_simps hook "1.prems"(1) fold_max list_all_iff split: if_splits)
  next
    case a1: arr
    then show ?thesis
      using read "1.IH"(2) [OF s] by (cases d) (auto simp: result_simps "1.prems"(1) fold_max list_all_iff split: if_splits)
  next
    case scalar
    then show ?thesis using scan_scalar_fits [of dep s v r d] "1.prems"(1) by simp
  qed
next
  case (2 h d s)
  from "2.prems"(2) obtain s1 k s2 s3 v s4 where
    p: "expect (CHR 0x22) s = Inr s1" "scan_string s1 = Inr (k, s2)" "expect (CHR '':'') (skip_ws s2) = Inr s3"
      "scan_value h d (skip_ws s3) = Inr (v, s4)" and
    r: "kvs = [(k, v)] \<or> (\<exists>s5 x. take 1 (skip_ws s4) \<noteq> [CHR 0x7D] \<and> expect (CHR '','') (skip_ws s4) = Inr s5 \<and>
      scan_members h d (skip_ws s5) = Inr (x, r) \<and> kvs = (k, v) # x)"
    by (subst (asm) scan_members.simps) (auto simp: result_simps split: if_splits)
  have "fits d v" by (rule "2.IH"(1) [OF p(1, 2) refl p(3) "2.prems"(1) p(4)])
  then show ?case using r "2.IH"(2) [OF p(1, 2) refl p(3, 4) refl _ _ "2.prems"(1)] by auto
next
  case (3 h d s)
  from "3.prems"(2) obtain v s1 where
    p: "scan_value h d s = Inr (v, s1)" and
    r: "vs = [v] \<or> (\<exists>s2 x. take 1 (skip_ws s1) \<noteq> '']'' \<and> expect (CHR '','') (skip_ws s1) = Inr s2 \<and>
      scan_items h d (skip_ws s2) = Inr (x, r) \<and> vs = v # x)"
    by (subst (asm) scan_items.simps) (auto simp: result_simps split: if_splits)
  have "fits d v" by (rule "3.IH"(1) [OF "3.prems"(1) p])
  then show ?case using r "3.IH"(2) [OF p refl _ _ "3.prems"(1)] by auto
qed

text \<open>C10: a decoded document holds no key twice at any level and is not nested deeper than the limit.\<close>

theorem decode_json_strict:
  assumes "decode_json_bytes depth raw max_bytes = Inr v"
  shows "length raw \<le> max_bytes \<and> unique_keys v \<and> json_depth v \<le> depth"
proof -
  obtain t r where "scan_value (config_hooks depth) depth t = Inr (v, r)"
    using assms by (auto simp: decode_json_bytes_def json_loads_def result_simps config_hooks_def
        split: if_splits option.splits sum.splits)
  from scan_fits(1) [OF refl this] assms show ?thesis
    by (auto simp: decode_json_bytes_def split: if_splits)
qed

text \<open>C11: the canonical bytes of a configuration are read back as that configuration.\<close>

theorem config_bytes_roundtrip:
  assumes "config_ok c" and "canonical_config_bytes c = Inr b" and "4 \<le> depth"
  shows "parse_config_bytes depth b = Inr c"
  by (rule config_bytes_read [OF assms(2, 1, 3)])

theorem decode_json_strict_witness:
  "\<exists>b v. canonical_config_bytes default_config = Inr b \<and> decode_json_bytes 4 b max_config_bytes = Inr v \<and>
     unique_keys v \<and> json_depth v \<le> 4"
proof -
  obtain b where b: "canonical_config_bytes default_config = Inr b" using default_bytes by blast
  have "config_ok default_config" by (rule config_accepted [OF default_config_read])
  then have "parse_config_bytes 4 b = Inr default_config" by (rule config_bytes_read [OF b]) simp
  then obtain v where "decode_json_bytes 4 b max_config_bytes = Inr v" by (auto simp: parse_config_bytes_def result_simps)
  with b decode_json_strict [OF this] show ?thesis by blast
qed

theorem config_bytes_roundtrip_witness:
  "\<exists>b. canonical_config_bytes default_config = Inr b \<and> parse_config_bytes 1000 b = Inr default_config"
proof -
  obtain b where b: "canonical_config_bytes default_config = Inr b" using default_bytes by blast
  have "config_ok default_config" by (rule config_accepted [OF default_config_read])
  from config_bytes_roundtrip [OF this b, of 1000] b show ?thesis by simp
qed

end
