(* ===== verification/StoreCodec.thy ===== *)
theory StoreCodec
  imports Store ConfigStrict
begin

text \<open>
  The records and journals of the configuration store read back: what \<open>_record_bytes\<close> and
  \<open>_journal_bytes\<close> write stays below the size limits of their readers and decodes to the record
  and the journal that were written.
\<close>

section \<open>Records and journals read back\<close>

lemma digest_json: "is_digest s \<Longrightarrow> length (utf8_encode (dumps_with plain (JStr s))) \<le> 772"
  using length_dump_string [of plain s] by (simp add: is_digest_def)

lemma set_sort_members: "set (map fst (sort_members kvs)) = set (map fst kvs)"
  by (metis keys_sort_members set_mset_mset)

lemma generation_ok: "0 \<le> g \<Longrightarrow> g \<le> max_generation \<Longrightarrow> abs g < 10 ^ 19"
  by (simp add: max_generation_def)

lemma canonical_config:
  assumes "canonical_config_bytes c = Inr payload" and "config_ok c"
  obtains d where "config_to_dict c = Inr d" "payload = canonical_json_bytes d" "json_ok d" "json_depth d \<le> 4"
    "length payload \<le> max_config_bytes" "config_from_dict (sort_json d) = Inr c"
proof -
  let ?d = "config_json (ry_executable_path (cfg_ray c)) c"
  have "ray_executable_path (JStr (ry_executable_path (cfg_ray c))) ''ray.executable_path'' = Inr (ry_executable_path (cfg_ray c))"
    using assms(2) by (intro ray_executable_again) (simp add: config_ok_def ray_ok_def)
  then have "config_to_dict c = Inr ?d" "payload = canonical_json_bytes ?d" "length payload \<le> max_config_bytes"
    using assms(1) read_config [OF assms(2)]
    by (auto simp: canonical_config_bytes_def config_to_dict_def result_simps Let_def split: if_splits)
  then show thesis
    using that config_json_ok [OF assms(2)] config_json_depth config_from_sorted [OF config_json_ok [OF assms(2)]]
      read_config [OF assms(2)] by metis
qed

definition record_of :: "(string \<Rightarrow> string) \<Rightarrow> config \<Rightarrow> int \<Rightarrow> string option \<Rightarrow> string \<Rightarrow> string \<Rightarrow> store_record" where
  "record_of sha256 c g t payload raw =
     \<lparr>sr_stored = \<lparr>st_config = c, st_generation = g, st_checksum = sha256 payload, st_transaction = t\<rparr>,
      sr_raw = raw, sr_raw_checksum = sha256 raw\<rparr>"

lemma record_json_facts:
  assumes "json_ok d" and "json_depth d \<le> 4" and "length (canonical_json_bytes d) \<le> max_config_bytes"
    and "is_digest s" and "1 \<le> g" and "g \<le> max_generation" and "is_optional_digest t"
  shows "json_ok (record_json d s g t)" "json_depth (record_json d s g t) \<le> 5"
    "length (canonical_json_bytes (record_json d s g t)) \<le> max_record_bytes"
proof -
  note g = json_int_ok [OF generation_ok [of g]]
  show "json_ok (record_json d s g t)"
    using assms g json_int_ok [of 1] by (cases t) (simp_all add: record_json_def del: json_ok.simps(1))
  show "json_depth (record_json d s g t) \<le> 5"
    using assms(2) by (cases t) (simp_all add: record_json_def fold_max)
  note parts = assms(3) [unfolded canonical_json_bytes_def json_dumps_text_def] digest_json [OF assms(4), of "\<lambda>n. 32 \<le> n"]
    length_str_int [OF generation_ok [of g]] length_str_int [of 1]
  show "length (canonical_json_bytes (record_json d s g t)) \<le> max_record_bytes"
  proof (cases t)
    case None
    then show ?thesis
      using parts assms(5, 6) unfolding canonical_json_bytes_def json_dumps_text_def record_json_def max_record_bytes_def
      by (intro order_trans [OF length_dumps_object]) (simp del: dumps_with.simps(5))
  next
    case (Some u)
    then have "is_digest u" using assms(7) by (simp add: is_optional_digest_def)
    with Some show ?thesis
      using parts digest_json [of u "\<lambda>n. 32 \<le> n"] assms(5, 6)
      unfolding canonical_json_bytes_def json_dumps_text_def record_json_def max_record_bytes_def
      by (intro order_trans [OF length_dumps_object]) (simp del: dumps_with.simps(5))
  qed
qed

lemma record_read:
  assumes "record_bytes sha256 c g t = Inr raw" and "config_ok c" and "\<And>x. is_digest (sha256 x)" and "5 \<le> depth"
    and payload: "canonical_config_bytes c = Inr payload"
  shows "decode_record sha256 depth raw = Inr (record_of sha256 c g t payload raw)"
proof -
  obtain d where d: "config_to_dict c = Inr d" "payload = canonical_json_bytes d" "json_ok d" "json_depth d \<le> 4"
    "length payload \<le> max_config_bytes" "config_from_dict (sort_json d) = Inr c"
    using canonical_config [OF payload assms(2)] .
  have raw: "raw = canonical_json_bytes (record_json d (sha256 payload) g t)" "1 \<le> g" "g \<le> max_generation" "is_optional_digest t"
    using assms(1) d(1) payload
    by (auto simp: record_bytes_def of_config_def is_optional_digest_def split: if_splits)
  note facts = record_json_facts [OF d(3, 4) d(5) [unfolded d(2)] assms(3) [of payload] raw(2-4)]
  obtain kvs where kvs: "record_json d (sha256 payload) g t = JObj kvs" by (simp add: record_json_def)
  then have dist: "distinct (map fst kvs)" using facts(1) by simp
  have look: "map_of kvs ''store_version'' = Some (JInt 1)" "map_of kvs ''generation'' = Some (JInt g)"
    "map_of kvs ''checksum'' = Some (JStr (sha256 payload))" "map_of kvs ''config'' = Some d"
    "map_of kvs ''transaction_id'' = map_option JStr t"
    "set (map fst kvs) = set record_keys \<or> set (map fst kvs) = set (''transaction_id'' # record_keys)"
    using kvs by (cases t; auto simp: record_json_def record_keys_def)+
  have dec: "decode_json_bytes depth raw max_record_bytes = Inr (JObj (sort_members kvs))"
    using decode_canonical [OF facts(1) order_trans [OF facts(2) assms(4)] facts(3)] raw(1) kvs by simp
  have t: "Option.bind (map_option JStr t) (\<lambda>v. case v of JNull \<Rightarrow> None | _ \<Rightarrow> Some v) = map_option JStr t"
    by (cases t) simp_all
  have om: "optional_member (sort_members kvs) ''transaction_id'' = map_option JStr t"
    by (cases t) (simp_all add: optional_member_def map_of_sort_members [OF dist] look(5))
  show ?thesis
    unfolding decode_record_def dec or_corrupt_def sum.case bindE_simps json.case set_sort_members
      map_of_sort_members [OF dist] look(1-4) om option.map
    using look(6) raw(2-4) assms(3) [of payload] payload
    by (cases t) (auto simp: d(6) checksum_of_def is_optional_digest_def record_of_def)
qed

definition journal_ok :: "journal \<Rightarrow> bool" where
  "journal_ok j \<longleftrightarrow> jn_phase j \<in> {''prepared'', ''replaced'', ''committed''} \<and>
     0 \<le> jn_old_generation j \<and> jn_old_generation j < max_generation \<and>
     jn_new_generation j = jn_old_generation j + 1 \<and> is_optional_digest (jn_old_checksum j) \<and>
     (jn_old_generation j = 0 \<longleftrightarrow> jn_old_checksum j = None) \<and> is_digest (jn_new_checksum j)"

lemma journal_json_facts:
  assumes "journal_ok j"
  shows "json_ok (journal_json j)" "json_depth (journal_json j) \<le> 1"
    "length (canonical_json_bytes (journal_json j)) \<le> max_journal_bytes"
proof -
  have gens: "abs (jn_old_generation j) < 10 ^ 19" "abs (jn_new_generation j) < 10 ^ 19"
    using assms by (simp_all add: journal_ok_def max_generation_def)
  show "json_ok (journal_json j)"
    using json_int_ok [OF gens(1)] json_int_ok [OF gens(2)] json_int_ok [of 1]
    by (cases "jn_old_checksum j") (simp_all add: journal_json_def json_text_def del: json_ok.simps(1))
  show "json_depth (journal_json j) \<le> 1"
    by (cases "jn_old_checksum j") (simp_all add: journal_json_def json_text_def)
  have ph: "length (utf8_encode (dumps_with (\<lambda>n. 32 \<le> n) (JStr (jn_phase j)))) \<le> 112"
    using assms length_dump_string [of "\<lambda>n. 32 \<le> n" "jn_phase j"] by (auto simp: journal_ok_def)
  have old: "length (utf8_encode (dumps_with (\<lambda>n. 32 \<le> n) (json_text (jn_old_checksum j)))) \<le> 772"
  proof (cases "jn_old_checksum j")
    case None
    then show ?thesis by (simp add: json_text_def utf8_encode_def utf8_encode_char_def)
  next
    case (Some u)
    then show ?thesis using assms digest_json [of u] by (simp add: json_text_def journal_ok_def is_optional_digest_def)
  qed
  have new: "length (utf8_encode (dumps_with (\<lambda>n. 32 \<le> n) (JStr (jn_new_checksum j)))) \<le> 772"
    using assms by (intro digest_json) (simp add: journal_ok_def)
  show "length (canonical_json_bytes (journal_json j)) \<le> max_journal_bytes"
    using ph old new length_str_int [OF gens(1)] length_str_int [OF gens(2)] length_str_int [of 1]
    unfolding canonical_json_bytes_def json_dumps_text_def journal_json_def max_journal_bytes_def
    by (intro order_trans [OF length_dumps_object]) (simp del: dumps_with.simps(5))
qed

lemma journal_read:
  assumes "journal_ok j" and "1 \<le> depth"
  shows "decode_journal depth (journal_bytes j) = Inr j"
proof -
  note facts = journal_json_facts [OF assms(1)]
  obtain kvs where kvs: "journal_json j = JObj kvs" by (simp add: journal_json_def)
  then have dist: "distinct (map fst kvs)" using facts(1) by simp
  have look: "map_of kvs ''journal_version'' = Some (JInt 1)" "map_of kvs ''phase'' = Some (JStr (jn_phase j))"
    "map_of kvs ''old_generation'' = Some (JInt (jn_old_generation j))"
    "map_of kvs ''old_record_checksum'' = Some (json_text (jn_old_checksum j))"
    "map_of kvs ''new_generation'' = Some (JInt (jn_new_generation j))"
    "map_of kvs ''new_record_checksum'' = Some (JStr (jn_new_checksum j))"
    "set (map fst kvs) = set journal_keys"
    using kvs by (auto simp: journal_json_def journal_keys_def)
  have om: "optional_member (sort_members kvs) ''old_record_checksum'' = map_option JStr (jn_old_checksum j)"
    by (cases "jn_old_checksum j") (simp_all add: optional_member_def map_of_sort_members [OF dist] look(4) json_text_def)
  have dec: "decode_json_bytes depth (journal_bytes j) max_journal_bytes = Inr (JObj (sort_members kvs))"
    using decode_canonical [OF facts(1) order_trans [OF facts(2) assms(2)] facts(3)] kvs by (simp add: journal_bytes_def)
  show ?thesis
    unfolding decode_journal_def dec or_corrupt_def sum.case bindE_simps json.case set_sort_members
      map_of_sort_members [OF dist] look om option.map
    using assms(1)
    by (cases "jn_old_checksum j")
      (auto simp: journal_ok_def checksum_of_def is_optional_digest_def json_text_def)
qed

end
