(* ===== verification/StoreCrash.thy ===== *)
theory StoreCrash
  imports StoreCodec
begin

text \<open>
  Crash safety of the configuration store, relative to a contract of its file system. \<open>stores v f\<close>
  says of a directory \<open>f\<close> that recovery ends with the value \<open>v\<close> (the record of the configuration, or
  none): nothing is in progress, or a journal announces the record that is staged or already in
  place. The contract (\<open>durable_files\<close>) gives one law per operation, with the directories that a
  failure may leave; from it follow the laws of \<open>recover\<close>, \<open>load\<close>, \<open>save\<close> and
  \<open>rollback_previous\<close>. \<open>StoreDisk\<close> interprets it on the disk of the code.
\<close>

section \<open>What a directory holds\<close>

text \<open>The content of a file and whether it is known to have reached the disk.\<close>

type_synonym file_map = "string \<Rightarrow> (string \<times> bool) option"

definition on_disk :: "store_record option \<Rightarrow> (string \<times> bool) option" where
  "on_disk v = map_option (\<lambda>r. (sr_raw r, True)) v"

definition valid_value :: "(string \<Rightarrow> string) \<Rightarrow> nat \<Rightarrow> store_record option \<Rightarrow> bool" where
  "valid_value sha256 depth v \<longleftrightarrow> (case v of None \<Rightarrow> True | Some r \<Rightarrow> decode_record sha256 depth (sr_raw r) = Inr r)"

definition backup_fine :: "(string \<Rightarrow> string) \<Rightarrow> nat \<Rightarrow> (string \<times> bool) option \<Rightarrow> bool" where
  "backup_fine sha256 depth b \<longleftrightarrow> (\<exists>v. b = on_disk v \<and> valid_value sha256 depth v)"

definition announces :: "journal \<Rightarrow> store_record option \<Rightarrow> store_record \<Rightarrow> bool" where
  "announces j u r \<longleftrightarrow> journal_ok j \<and>
     jn_old_generation j = generation_of u \<and> jn_old_checksum j = map_option sr_raw_checksum u \<and>
     jn_new_generation j = st_generation (sr_stored r) \<and> jn_new_checksum j = sr_raw_checksum r"

definition resting :: "'w config_store \<Rightarrow> store_record option \<Rightarrow> file_map \<Rightarrow> bool" where
  "resting st v f \<longleftrightarrow> f (cs_path st) = on_disk v \<and> f (cs_journal_path st) = None"

definition staged :: "'w config_store \<Rightarrow> store_record option \<Rightarrow> store_record \<Rightarrow> journal \<Rightarrow> file_map \<Rightarrow> bool" where
  "staged st u r j f \<longleftrightarrow> announces j u r \<and> f (cs_path st) = on_disk u \<and> f (cs_temp_path st) = on_disk (Some r) \<and>
     f (cs_journal_path st) = Some (journal_bytes j, True)"

definition placed :: "'w config_store \<Rightarrow> store_record option \<Rightarrow> store_record \<Rightarrow> journal \<Rightarrow> file_map \<Rightarrow> bool" where
  "placed st u r j f \<longleftrightarrow> announces j u r \<and> f (cs_path st) = on_disk (Some r) \<and> f (cs_temp_path st) = None \<and>
     f (cs_journal_path st) = Some (journal_bytes j, True)"

text \<open>The directory holds the value \<open>v\<close>: recovery ends with it.\<close>

definition stores ::
    "(string \<Rightarrow> string) \<Rightarrow> nat \<Rightarrow> 'w config_store \<Rightarrow> store_record option \<Rightarrow> file_map \<Rightarrow> bool" where
  "stores sha256 depth st v f \<longleftrightarrow>
     backup_fine sha256 depth (f (cs_backup_path st)) \<and> valid_value sha256 depth v \<and>
     (resting st v f \<or>
      (\<exists>u r j. v = Some r \<and> valid_value sha256 depth u \<and> (staged st u r j f \<or> placed st u r j f)))"

text \<open>No transaction in progress and no residue of one.\<close>

definition calm :: "'w config_store \<Rightarrow> store_record option \<Rightarrow> (string \<times> bool) option \<Rightarrow> file_map \<Rightarrow> bool" where
  "calm st v b f \<longleftrightarrow> f (cs_path st) = on_disk v \<and> f (cs_backup_path st) = b \<and> f (cs_journal_path st) = None \<and>
     f (cs_temp_path st) = None \<and> f (cs_backup_temp_path st) = None \<and> f (cs_journal_temp_path st) = None"

section \<open>The contract of the file system\<close>

text \<open>The directory satisfies \<open>F\<close>, and every earlier directory that a power loss may bring back
  satisfies \<open>A\<close>.\<close>

definition standing ::
    "('w \<Rightarrow> file_map) \<Rightarrow> ('w \<Rightarrow> file_map list) \<Rightarrow> (file_map \<Rightarrow> bool) \<Rightarrow> (file_map \<Rightarrow> bool) \<Rightarrow> 'w \<Rightarrow> bool" where
  "standing files older A F w \<longleftrightarrow> F (files w) \<and> (\<forall>f\<in>set (older w). A f)"

definition upset ::
    "('w \<Rightarrow> file_map) \<Rightarrow> ('w \<Rightarrow> file_map list) \<Rightarrow> ('w \<Rightarrow> bool) \<Rightarrow> (file_map \<Rightarrow> bool) \<Rightarrow> 'w \<Rightarrow> bool" where
  "upset files older fired A w \<longleftrightarrow> standing files older A A w \<and> fired w"

locale durable_files =
  fixes st :: "'w config_store"
    and files :: "'w \<Rightarrow> file_map"
    and older :: "'w \<Rightarrow> file_map list"
    and fired :: "'w \<Rightarrow> bool"
  assumes names: "distinct [cs_path st, cs_backup_path st, cs_backup_temp_path st, cs_temp_path st,
      cs_journal_path st, cs_journal_temp_path st]"
    and silent_law: "m \<in> {se_ensure_parent (cs_env st) p, se_fsync_dir (cs_env st), se_acquire (cs_env st),
        se_release (cs_env st), se_hook (cs_env st) phase} \<Longrightarrow> (\<And>f. F f \<Longrightarrow> A f) \<Longrightarrow>
      triple (standing files older A F) m (\<lambda>_. standing files older A F) (\<lambda>_. upset files older fired A)"
    and exists_law: "(\<And>f. F f \<Longrightarrow> A f) \<Longrightarrow>
      triple (standing files older A F) (se_exists (cs_env st) p)
        (\<lambda>b. standing files older A (\<lambda>f. F f \<and> b = (f p \<noteq> None))) (\<lambda>_. upset files older fired A)"
    and read_law: "(\<And>f. F f \<Longrightarrow> A f \<and> f p \<noteq> None) \<Longrightarrow>
      triple (standing files older A F) (se_read (cs_env st) p)
        (\<lambda>raw. standing files older A (\<lambda>f. F f \<and> map_option fst (f p) = Some raw)) (\<lambda>_. upset files older fired A)"
    and write_law: "(\<And>f. F f \<Longrightarrow> A f \<and> f p = None) \<Longrightarrow> (\<And>f t. F f \<Longrightarrow> A (f(p \<mapsto> (t, False)))) \<Longrightarrow>
      (\<And>f. F f \<Longrightarrow> Q (f(p \<mapsto> (raw, False)))) \<Longrightarrow>
      triple (standing files older A F) (se_write (cs_env st) p raw) (\<lambda>_. standing files older A Q) (\<lambda>_. upset files older fired A)"
    and fsync_law: "(\<And>f. F f \<Longrightarrow> A f \<and> f p \<noteq> None) \<Longrightarrow>
      (\<And>f. F f \<Longrightarrow> A (f(p \<mapsto> (fst (the (f p)), True))) \<and> Q (f(p \<mapsto> (fst (the (f p)), True)))) \<Longrightarrow>
      triple (standing files older A F) (se_fsync (cs_env st) p) (\<lambda>_. standing files older A Q) (\<lambda>_. upset files older fired A)"
    and replace_law: "(\<And>f. F f \<Longrightarrow> A f \<and> f p \<noteq> None) \<Longrightarrow>
      (\<And>f. F f \<Longrightarrow> A (f(q := f p, p := None)) \<and> Q (f(q := f p, p := None))) \<Longrightarrow>
      triple (standing files older A F) (se_replace (cs_env st) p q) (\<lambda>_. standing files older B Q) (\<lambda>_. upset files older fired A)"
    and unlink_law: "(\<And>f. F f \<Longrightarrow> A f) \<Longrightarrow> (\<And>f. F f \<Longrightarrow> A (f(p := None)) \<and> Q (f(p := None))) \<Longrightarrow>
      triple (standing files older A F) (se_unlink (cs_env st) p) (\<lambda>_. standing files older A Q) (\<lambda>_. upset files older fired A)"
    and sticky_law: "triple fired (se_release (cs_env st)) (\<lambda>_. fired) (\<lambda>_. fired)"
begin

abbreviation inside :: "(file_map \<Rightarrow> bool) \<Rightarrow> (file_map \<Rightarrow> bool) \<Rightarrow> 'w \<Rightarrow> bool" where
  "inside \<equiv> standing files older"

abbreviation broken :: "(file_map \<Rightarrow> bool) \<Rightarrow> store_exn \<Rightarrow> 'w \<Rightarrow> bool" where
  "broken A \<equiv> (\<lambda>_. upset files older fired A)"

lemmas name_simps = names [simplified]

lemma inside_ex: "(\<And>x. triple (inside A (G x)) m Q E) \<Longrightarrow> triple (inside A (\<lambda>f. \<exists>x. G x f)) m Q E"
  by (fastforce simp: triple_def standing_def)

lemma inside_disj: "triple (inside A F) m Q E \<Longrightarrow> triple (inside A G) m Q E \<Longrightarrow> triple (inside A (\<lambda>f. F f \<or> G f)) m Q E"
  by (auto simp add: triple_def standing_def)

lemma inside_pure: "(C \<Longrightarrow> triple (inside A F) m Q E) \<Longrightarrow> triple (inside A (\<lambda>f. C \<and> F f)) m Q E"
  by (auto simp: triple_def standing_def)

lemma inside_pre: "triple (inside A F) m Q E \<Longrightarrow> (\<And>f. G f \<Longrightarrow> F f) \<Longrightarrow> triple (inside A G) m Q E"
  by (simp add: triple_def standing_def)

lemma write_synced_law:
  assumes "\<And>f. F f \<Longrightarrow> A f \<and> f p = None" and "\<And>f x. F f \<Longrightarrow> A (f(p := x))" and "\<And>f. F f \<Longrightarrow> Q (f(p \<mapsto> (raw, True)))"
  shows "triple (inside A F) (write_synced st p raw) (\<lambda>_. inside A Q) (broken A)"
  unfolding write_synced_def
  by (rule triple_andthen [OF write_law [where Q = "\<lambda>g. \<exists>f. F f \<and> g = f(p \<mapsto> (raw, False))"]], (use assms in auto)[3],
      rule fsync_law) (use assms in \<open>auto simp: fun_upd_idem\<close>)

lemma replace_synced_law:
  assumes "\<And>f. F f \<Longrightarrow> A f \<and> f p \<noteq> None" and "\<And>f. F f \<Longrightarrow> Q (f(q := f p, p := None))"
    and "\<And>f. Q f \<Longrightarrow> B f" and "\<And>f. B f \<Longrightarrow> A f"
  shows "triple (inside A F) (replace_synced st p q) (\<lambda>_. inside B Q) (broken A)"
proof -
  have "triple (inside B Q) (se_fsync_dir (cs_env st)) (\<lambda>_. inside B Q) (broken A)"
    by (rule triple_conseq [OF silent_law [of _ _ _ Q B]]) (use assms(3, 4) in \<open>auto simp: standing_def upset_def\<close>)
  then show ?thesis
    unfolding replace_synced_def by (intro triple_andthen [OF replace_law [of F A p q Q]]) (use assms in auto)
qed

lemma write_journal_law:
  assumes "\<And>f. F f \<Longrightarrow> A f \<and> f (cs_journal_temp_path st) = None" and "\<And>f x. F f \<Longrightarrow> A (f(cs_journal_temp_path st := x))"
    and "\<And>f. F f \<Longrightarrow> Q (f(cs_journal_path st \<mapsto> (journal_bytes j, True)))"
    and "\<And>f. Q f \<Longrightarrow> A f"
  shows "triple (inside A F) (write_journal st j) (\<lambda>_. inside A Q) (broken A)"
proof -
  have same: "f(t \<mapsto> x, p := Some x, t := None) = f(p \<mapsto> x)" if "f t = None" "p \<noteq> t" for f :: file_map and t p x
    using that by (auto simp: fun_eq_iff)
  show ?thesis
    unfolding write_journal_def
    by (rule triple_andthen [OF write_synced_law
          [where Q = "\<lambda>g. \<exists>f. F f \<and> g = f(cs_journal_temp_path st \<mapsto> (journal_bytes j, True))"]], (use assms in auto)[3],
        rule replace_synced_law) (use assms names in \<open>auto simp: same\<close>)
qed

lemma read_if_present_law:
  assumes "\<And>f. F f \<Longrightarrow> A f" and "\<And>f. F f \<Longrightarrow> map_option fst (f p) = x"
  shows "triple (inside A F) (read_if_present st p) (\<lambda>r w. inside A F w \<and> r = x) (broken A)"
  unfolding read_if_present_def
proof (rule triple_andthen [OF exists_law])
  fix b
  show "triple (inside A (\<lambda>f. F f \<and> b = (f p \<noteq> None)))
      (if b then andthen (se_read (cs_env st) p) (\<lambda>raw. ret (Some raw)) else ret None) (\<lambda>r w. inside A F w \<and> r = x) (broken A)"
  proof (rule triple_if)
    assume b
    then show "triple (inside A (\<lambda>f. F f \<and> b = (f p \<noteq> None))) (andthen (se_read (cs_env st) p) (\<lambda>raw. ret (Some raw)))
        (\<lambda>r w. inside A F w \<and> r = x) (broken A)"
      using assms(1) by (intro triple_andthen [OF read_law] triple_ret) (auto simp: standing_def dest!: assms(2))
  next
    assume "\<not> b"
    then show "triple (inside A (\<lambda>f. F f \<and> b = (f p \<noteq> None))) (ret None) (\<lambda>r w. inside A F w \<and> r = x) (broken A)"
      by (intro triple_ret) (auto simp: standing_def simp del: not_None_eq dest!: assms(2))
  qed
qed (rule assms(1))

lemma triple_returns:
  "triple P m (\<lambda>x w. I w \<and> x = y) E \<Longrightarrow> triple I (k y) Q E \<Longrightarrow> triple P (andthen m k) Q E"
  by (rule phase_then [where I = I and F = "\<lambda>x. x = y"]) auto

end
section \<open>Recovery\<close>

lemma announces_old: "announces j u r \<Longrightarrow> valid_value sha256 depth u \<Longrightarrow> \<not> is_new_record j u"
  by (auto simp: announces_def is_new_record_def journal_ok_def generation_of_def split: option.splits)

lemma announces_base: "announces j u r \<Longrightarrow> is_old_record j u \<or> u = None \<and> jn_old_checksum j = None"
  by (cases u) (auto simp: announces_def is_old_record_def generation_of_def)

lemma announces_new: "announces j u r \<Longrightarrow> is_new_record j (Some r)"
  by (simp add: announces_def is_new_record_def)

lemma announces_phase:
  "announces j u r \<Longrightarrow> p \<in> {''prepared'', ''replaced'', ''committed''} \<Longrightarrow> announces (j\<lparr>jn_phase := p\<rparr>) u r"
  by (auto simp: announces_def journal_ok_def)

context durable_files
begin

lemma read_record_law:
  assumes "\<And>f. F f \<Longrightarrow> A f" and "\<And>f. F f \<Longrightarrow> f p = on_disk u"
    and "valid_value (se_sha256 (cs_env st)) (se_depth (cs_env st)) u"
  shows "triple (inside A F) (read_record_if_present st p) (\<lambda>r w. inside A F w \<and> r = u) (broken A)"
  unfolding read_record_if_present_def
  by (rule triple_returns [OF read_if_present_law [where x = "map_option sr_raw u"]])
    (use assms in \<open>auto simp: on_disk_def valid_value_def lift_result_def andthen_def ret_def triple_def
       option.map_comp o_def split: option.splits\<close>)

lemma silent_keeps:
  assumes "m \<in> {se_ensure_parent (cs_env st) p, se_fsync_dir (cs_env st), se_acquire (cs_env st),
      se_release (cs_env st), se_hook (cs_env st) phase}"
    and "\<And>f. Q f \<Longrightarrow> B f" and "\<And>f. B f \<Longrightarrow> A f"
  shows "triple (inside B Q) m (\<lambda>_. inside B Q) (broken A)"
  by (rule triple_conseq [OF silent_law [OF assms(1), of Q B]]) (use assms(2, 3) in \<open>auto simp: standing_def upset_def\<close>)

lemma unlink_keeps:
  assumes "\<And>f. F f \<Longrightarrow> B f" and "\<And>f. F f \<Longrightarrow> Q (f(p := None))" and "\<And>f. Q f \<Longrightarrow> B f" and "\<And>f. B f \<Longrightarrow> A f"
  shows "triple (inside B F) (se_unlink (cs_env st) p) (\<lambda>_. inside B Q) (broken A)"
  by (rule triple_conseq [OF unlink_law [of F B p Q]]) (use assms in \<open>auto simp: standing_def upset_def\<close>)

definition cleaned :: "file_map \<Rightarrow> file_map" where
  "cleaned f = f(cs_temp_path st := None, cs_backup_temp_path st := None, cs_journal_temp_path st := None)"

lemma clean_residue_law:
  assumes "\<And>f. F f \<Longrightarrow> B f" and "\<And>f. B f \<Longrightarrow> A f"
    and "\<And>f p. F f \<Longrightarrow> p \<in> {cs_temp_path st, cs_backup_temp_path st, cs_journal_temp_path st} \<Longrightarrow> F (f(p := None))"
    and "\<And>f. F f \<Longrightarrow> f (cs_temp_path st) = None \<Longrightarrow> f (cs_backup_temp_path st) = None \<Longrightarrow>
      f (cs_journal_temp_path st) = None \<Longrightarrow> Q (f(cs_journal_path st := None))"
    and "\<And>f. Q f \<Longrightarrow> B f"
  shows "triple (inside B F) (clean_residue st) (\<lambda>_. inside B Q) (broken A)"
proof -
  let ?t = "cs_temp_path st" and ?b = "cs_backup_temp_path st" and ?j = "cs_journal_temp_path st"
  show ?thesis
    unfolding clean_residue_def
    by (rule triple_andthen [OF unlink_keeps [where Q = "\<lambda>f. F f \<and> f ?t = None"]], (use assms in auto)[4],
        rule triple_andthen [OF unlink_keeps [where Q = "\<lambda>f. F f \<and> f ?t = None \<and> f ?b = None"]], (use assms in auto)[4],
        rule triple_andthen [OF unlink_keeps [where Q = "\<lambda>f. F f \<and> f ?t = None \<and> f ?b = None \<and> f ?j = None"]],
        (use assms in auto)[4],
        rule triple_andthen [OF unlink_keeps [where Q = Q]], (use assms in auto)[4],
        rule silent_keeps) (use assms in auto)
qed

lemma unlink_if_present_law:
  assumes "\<And>f. F f \<Longrightarrow> B f" and "\<And>f. F f \<Longrightarrow> F (f(p := None))" and "\<And>f. B f \<Longrightarrow> A f"
  shows "triple (inside B F)
    (andthen (se_exists (cs_env st) p) (\<lambda>present. if present then andthen (se_unlink (cs_env st) p) (\<lambda>_. ret True) else ret changed))
    (\<lambda>_. inside B (\<lambda>f. F f \<and> f p = None)) (broken A)"
proof (rule triple_andthen)
  show "triple (inside B F) (se_exists (cs_env st) p) (\<lambda>b. inside B (\<lambda>f. F f \<and> b = (f p \<noteq> None))) (broken A)"
    by (rule triple_conseq [OF exists_law [of F B p]]) (use assms in \<open>auto simp: standing_def upset_def\<close>)
  fix b
  show "triple (inside B (\<lambda>f. F f \<and> b = (f p \<noteq> None)))
      (if b then andthen (se_unlink (cs_env st) p) (\<lambda>_. ret True) else ret changed)
      (\<lambda>_. inside B (\<lambda>f. F f \<and> f p = None)) (broken A)"
    by (cases b; simp del: not_None_eq)
      (use assms in \<open>auto intro!: triple_andthen [OF unlink_keeps [where Q = "\<lambda>f. F f \<and> f p = None"]] triple_ret
         simp: standing_def\<close>)
qed

lemma recover_without_journal_law:
  assumes "\<And>f. F f \<Longrightarrow> B f" and "\<And>f. B f \<Longrightarrow> A f"
    and upd: "\<And>f p. F f \<Longrightarrow> p \<in> {cs_temp_path st, cs_backup_temp_path st, cs_journal_temp_path st} \<Longrightarrow> F (f(p := None))"
  shows "triple (inside B F) (recover_without_journal st)
    (\<lambda>_. inside B (\<lambda>f. F f \<and> f (cs_temp_path st) = None \<and> f (cs_backup_temp_path st) = None \<and> f (cs_journal_temp_path st) = None))
    (broken A)"
proof -
  let ?t = "cs_temp_path st" and ?b = "cs_backup_temp_path st" and ?j = "cs_journal_temp_path st"
  let ?G = "\<lambda>f. F f \<and> f ?t = None \<and> f ?b = None \<and> f ?j = None"
  have fin: "triple (inside B ?G) (if x then se_fsync_dir (cs_env st) else ret ()) (\<lambda>_. inside B ?G) (broken A)" for x
    using assms by (intro triple_if silent_keeps triple_ret) auto
  show ?thesis
    unfolding recover_without_journal_def for_each.simps
    by (rule triple_andthen [OF _ fin],
        rule triple_andthen [OF unlink_if_present_law [where F = F]], (use assms in auto)[3],
        rule triple_andthen [OF unlink_if_present_law [where F = "\<lambda>f. F f \<and> f ?t = None"]], (use assms in auto)[3],
        rule triple_andthen [OF unlink_if_present_law [where F = "\<lambda>f. (F f \<and> f ?t = None) \<and> f ?b = None"]], (use assms in auto)[3])
      (auto intro!: triple_ret simp: standing_def)
qed

end
context durable_files
begin

abbreviation valid :: "store_record option \<Rightarrow> bool" where
  "valid \<equiv> valid_value (se_sha256 (cs_env st)) (se_depth (cs_env st))"

abbreviation fine :: "(string \<times> bool) option \<Rightarrow> bool" where
  "fine \<equiv> backup_fine (se_sha256 (cs_env st)) (se_depth (cs_env st))"

abbreviation stored :: "store_record option \<Rightarrow> file_map \<Rightarrow> bool" where
  "stored \<equiv> stores (se_sha256 (cs_env st)) (se_depth (cs_env st)) st"

definition at_rest :: "store_record option \<Rightarrow> file_map \<Rightarrow> bool" where
  "at_rest v f \<longleftrightarrow> (\<exists>b. fine b \<and> calm st v b f)"

lemma calm_stored: "calm st v b f \<Longrightarrow> fine b \<Longrightarrow> valid v \<Longrightarrow> stored v f"
  by (simp add: calm_def stores_def resting_def)

lemma placed_stored: "placed st u r j f \<Longrightarrow> valid u \<Longrightarrow> valid (Some r) \<Longrightarrow> fine (f (cs_backup_path st)) \<Longrightarrow> stored (Some r) f"
  by (auto simp: stores_def)

lemma staged_stored: "staged st u r j f \<Longrightarrow> valid u \<Longrightarrow> valid (Some r) \<Longrightarrow> fine (f (cs_backup_path st)) \<Longrightarrow> stored (Some r) f"
  by (auto simp: stores_def)

lemma clean_placed:
  assumes "valid u" and "valid (Some r)" and "fine b" and "\<And>f. stored (Some r) f \<Longrightarrow> B f" and "\<And>f. B f \<Longrightarrow> A f"
  shows "triple (inside B (\<lambda>f. placed st u r j f \<and> f (cs_backup_path st) = b)) (clean_residue st)
    (\<lambda>_. inside B (calm st (Some r) b)) (broken A)"
proof -
  have B: "B f" if "placed st u r j f" "f (cs_backup_path st) = b" for f
    using assms(1-4) placed_stored [OF that(1)] that(2) by auto
  have C: "B f" if "calm st (Some r) b f" for f
    using assms(2-4) calm_stored [OF that] by auto
  show ?thesis
    by (rule clean_residue_law) (use B C assms(5) names in \<open>auto simp: placed_def calm_def\<close>)
qed

lemma recover_resting:
  assumes "valid v" and "fine b" and "\<And>f. stored v f \<Longrightarrow> B f" and "\<And>f. B f \<Longrightarrow> A f"
  shows "triple (inside B (\<lambda>f. resting st v f \<and> f (cs_backup_path st) = b)) (store_recover st)
    (\<lambda>_. inside B (calm st v b)) (broken A)"
proof -
  let ?F = "\<lambda>f. resting st v f \<and> f (cs_backup_path st) = b"
  have B: "B f" if "?F f" for f using that assms by (auto simp: stores_def)
  have "triple (inside B ?F) (read_if_present st (cs_journal_path st)) (\<lambda>r w. inside B ?F w \<and> r = None) (broken A)"
    by (rule triple_conseq [OF read_if_present_law [of ?F B _ None]])
      (use B assms(4) in \<open>auto simp: resting_def standing_def upset_def\<close>)
  moreover have "triple (inside B ?F) (recover_without_journal st) (\<lambda>_. inside B (calm st v b)) (broken A)"
    by (rule triple_conseq [OF recover_without_journal_law [of ?F B A]])
      (use B assms(4) names in \<open>auto simp: resting_def standing_def calm_def\<close>)
  ultimately show ?thesis
    unfolding store_recover_def by (intro triple_returns [where y = None]) simp_all
qed

lemma broken_mono: "(\<And>f. B f \<Longrightarrow> A f) \<Longrightarrow> triple P m Q (broken B) \<Longrightarrow> triple P m Q (broken A)"
  by (rule triple_conseq, assumption) (auto simp: standing_def upset_def)

text \<open>Recovery reads the journal and the three records before it decides.\<close>

lemma recover_reads:
  assumes "\<And>f. F f \<Longrightarrow> B f" and "journal_ok j" and "1 \<le> se_depth (cs_env st)"
    and "valid target" and "valid temp" and "valid backup"
    and "\<And>f. F f \<Longrightarrow> f (cs_journal_path st) = Some (journal_bytes j, True) \<and> f (cs_path st) = on_disk target \<and>
      f (cs_temp_path st) = on_disk temp \<and> f (cs_backup_path st) = on_disk backup"
    and "triple (inside B F) (recover_journal st j target temp backup) Q (broken B)"
  shows "triple (inside B F) (store_recover st) Q (broken B)"
proof -
  have "triple (inside B F) (andthen (read_record_if_present st (cs_path st)) (\<lambda>target.
         andthen (read_record_if_present st (cs_temp_path st)) (\<lambda>staged.
         andthen (read_record_if_present st (cs_backup_path st)) (\<lambda>backup.
         recover_journal st j target staged backup)))) Q (broken B)"
    by (rule triple_returns [OF read_record_law [where u = target]], (use assms in auto)[3],
        rule triple_returns [OF read_record_law [where u = temp]], (use assms in auto)[3],
        rule triple_returns [OF read_record_law [where u = backup]], (use assms in auto)[3], rule assms(8))
  then have "triple (inside B F) (case Some (journal_bytes j) of
       None \<Rightarrow> recover_without_journal st
     | Some raw \<Rightarrow>
         andthen (lift_result (decode_journal (se_depth (cs_env st)) raw)) (\<lambda>j.
         andthen (read_record_if_present st (cs_path st)) (\<lambda>target.
         andthen (read_record_if_present st (cs_temp_path st)) (\<lambda>staged.
         andthen (read_record_if_present st (cs_backup_path st)) (\<lambda>backup.
         recover_journal st j target staged backup))))) Q (broken B)"
    using journal_read [OF assms(2, 3)] by (simp add: lift_result_def andthen_def [of "\<lambda>w. (Inr j, w)" for w] triple_def andthen_def)
  then show ?thesis
    unfolding store_recover_def
    by (rule triple_returns [OF read_if_present_law, rotated 2]) (use assms(1, 7) in auto)
qed

lemma recover_placed:
  assumes "valid u" and "valid (Some r)" and "fine b" and "\<And>f. stored (Some r) f \<Longrightarrow> B f" and "\<And>f. B f \<Longrightarrow> A f"
    and "1 \<le> se_depth (cs_env st)" and "announces j u r"
  shows "triple (inside B (\<lambda>f. placed st u r j f \<and> f (cs_backup_path st) = b)) (store_recover st)
    (\<lambda>_. inside B (calm st (Some r) b)) (broken A)"
proof -
  obtain w where w: "b = on_disk w" "valid w" using assms(3) by (auto simp: backup_fine_def)
  have rec: "recover_journal st j (Some r) None w = clean_residue st"
    using announces_new [OF assms(7)] by (simp add: recover_journal_def)
  have clean: "triple (inside B (\<lambda>f. placed st u r j f \<and> f (cs_backup_path st) = b)) (clean_residue st)
      (\<lambda>_. inside B (calm st (Some r) b)) (broken B)"
    by (rule clean_placed [OF assms(1-4)])
  show ?thesis
    by (rule broken_mono [OF assms(5)], assumption, rule recover_reads [where j = j and target = "Some r" and temp = None and backup = w])
      (use assms w placed_stored rec clean in \<open>auto simp: announces_def placed_def valid_value_def on_disk_def\<close>)
qed

lemma recover_staged:
  assumes "valid u" and "valid (Some r)" and "fine b" and "\<And>f. stored (Some r) f \<Longrightarrow> B f" and "\<And>f. B f \<Longrightarrow> A f"
    and "1 \<le> se_depth (cs_env st)" and "announces j u r"
  shows "triple (inside B (\<lambda>f. staged st u r j f \<and> f (cs_backup_path st) = b)) (store_recover st)
    (\<lambda>_. inside B (calm st (Some r) b)) (broken A)"
proof -
  obtain w where w: "b = on_disk w" "valid w" using assms(3) by (auto simp: backup_fine_def)
  have rec: "recover_journal st j u (Some r) w =
      andthen (replace_synced st (cs_temp_path st) (cs_path st)) (\<lambda>_. clean_residue st)"
    using announces_new [OF assms(7)] announces_base [OF assms(7)] announces_old [OF assms(7, 1)]
    by (auto simp: recover_journal_def)
  have "triple (inside B (\<lambda>f. staged st u r j f \<and> f (cs_backup_path st) = b))
      (replace_synced st (cs_temp_path st) (cs_path st))
      (\<lambda>_. inside B (\<lambda>f. placed st u r j f \<and> f (cs_backup_path st) = b)) (broken B)"
    by (rule replace_synced_law)
      (use assms(1-4) names in \<open>auto simp: staged_def placed_def on_disk_def intro!: assms(4) intro: staged_stored placed_stored\<close>)
  then have act: "triple (inside B (\<lambda>f. staged st u r j f \<and> f (cs_backup_path st) = b)) (recover_journal st j u (Some r) w)
      (\<lambda>_. inside B (calm st (Some r) b)) (broken B)"
    unfolding rec by (rule triple_andthen) (rule clean_placed [OF assms(1-4)])
  show ?thesis
    by (rule broken_mono [OF assms(5)], assumption, rule recover_reads [where j = j and target = u and temp = "Some r" and backup = w])
      (use assms w staged_stored act in \<open>auto simp: announces_def staged_def\<close>)
qed

lemma recover_value:
  assumes "\<And>f. stored v f \<Longrightarrow> B f" and "1 \<le> se_depth (cs_env st)"
  shows "triple (inside B (\<lambda>f. stored v f \<and> f (cs_backup_path st) = b)) (store_recover st)
    (\<lambda>_. inside B (calm st v b)) (broken B)"
proof -
  have "triple (inside B (\<lambda>f. (fine b \<and> valid v) \<and> ((resting st v f \<and> f (cs_backup_path st) = b) \<or>
      (\<exists>u r j. (v = Some r \<and> valid u \<and> announces j u r) \<and>
        (staged st u r j f \<and> f (cs_backup_path st) = b \<or> placed st u r j f \<and> f (cs_backup_path st) = b)))))
      (store_recover st) (\<lambda>_. inside B (calm st v b)) (broken B)"
    by (intro inside_ex inside_disj inside_pure; elim conjE)
      (use assms recover_resting recover_staged recover_placed in auto)
  then show ?thesis
    by (rule inside_pre) (fastforce simp: stores_def staged_def placed_def)
qed

lemma recover_law:
  assumes "\<And>f. stored v f \<Longrightarrow> B f" and "1 \<le> se_depth (cs_env st)"
  shows "triple (inside B (stored v)) (store_recover st) (\<lambda>_. inside B (at_rest v)) (broken B)"
proof -
  have "triple (inside B (\<lambda>f. stored v f \<and> f (cs_backup_path st) = b)) (store_recover st)
      (\<lambda>_. inside B (at_rest v)) (broken B)" for b
  proof (cases "fine b")
    case True
    then show ?thesis
      by (intro triple_conseq [OF recover_value [OF assms]]) (auto simp: standing_def at_rest_def)
  next
    case False
    then show ?thesis by (auto simp: triple_def standing_def stores_def)
  qed
  then have "triple (inside B (\<lambda>f. \<exists>b. stored v f \<and> f (cs_backup_path st) = b)) (store_recover st)
      (\<lambda>_. inside B (at_rest v)) (broken B)"
    by (rule inside_ex)
  then show ?thesis by simp
qed

end
section \<open>Committing a new record\<close>

context durable_files
begin

definition ready :: "store_record option \<Rightarrow> store_record \<Rightarrow> journal \<Rightarrow> (string \<times> bool) option \<Rightarrow> file_map \<Rightarrow> bool" where
  "ready u r j b f \<longleftrightarrow> staged st u r j f \<and> f (cs_backup_path st) = b \<and> f (cs_backup_temp_path st) = None \<and>
     f (cs_journal_temp_path st) = None"

definition published :: "store_record option \<Rightarrow> store_record \<Rightarrow> journal \<Rightarrow> (string \<times> bool) option \<Rightarrow> file_map \<Rightarrow> bool" where
  "published u r j b f \<longleftrightarrow> placed st u r j f \<and> f (cs_backup_path st) = b \<and> f (cs_journal_temp_path st) = None"

lemma publish_law:
  assumes "valid u" and "valid (Some r)" and "fine b" and "announces j u r"
    and "\<And>f. stored (Some r) f \<Longrightarrow> B f" and "\<And>f. B f \<Longrightarrow> A f"
  shows "triple (inside A (ready u r j b)) (publish st j) (\<lambda>_. inside B (calm st (Some r) b)) (broken A)"
proof -
  have B: "B f" if "placed st u r k f" "f (cs_backup_path st) = b" for f k
    using assms(1-3, 5) placed_stored [OF that(1)] that(2) by auto
  have C: "B f" if "calm st (Some r) b f" for f
    using assms(2, 3, 5) calm_stored [OF that] by auto
  have S: "B f" if "ready u r j b f" for f
    using assms(1-3, 5) staged_stored [of u r j f] that by (auto simp: ready_def)
  have hook: "triple (inside B Q) (checkpoint_hook st x) (\<lambda>_. inside B Q) (broken A)" if "\<And>f. Q f \<Longrightarrow> B f" for Q x
    unfolding checkpoint_hook_def using that assms(6) by (intro silent_keeps) auto
  have rewrite: "triple (inside B (published u r k b)) (write_journal st k') (\<lambda>_. inside B (published u r k' b)) (broken A)"
    if "announces k' u r" for k k'
    by (rule broken_mono [OF assms(6)], assumption, rule write_journal_law)
      (use that B names in \<open>auto simp: published_def placed_def intro!: B [where k = k]\<close>)
  have last: "triple (inside B (published u r k b)) (clean_residue st) (\<lambda>_. inside B (calm st (Some r) b)) (broken A)" for k
    by (rule triple_pre [OF clean_placed [OF assms(1-3, 5, 6)]]) (auto simp: standing_def published_def)
  have first: "triple (inside A (ready u r j b)) (replace_synced st (cs_temp_path st) (cs_path st))
      (\<lambda>_. inside B (published u r j b)) (broken A)"
    by (rule replace_synced_law) (use S B assms(6) names in \<open>auto simp: ready_def published_def staged_def placed_def on_disk_def\<close>)
  note phases = announces_phase [OF assms(4)]
  show ?thesis
    unfolding publish_def
    by (rule triple_andthen [OF first], rule triple_andthen [OF hook], (use B in \<open>auto simp: published_def\<close>)[1],
        rule triple_andthen [OF rewrite], (use phases in simp)[1],
        rule triple_andthen [OF hook], (use B in \<open>auto simp: published_def\<close>)[1],
        rule triple_andthen [OF rewrite], (use phases in simp)[1],
        rule triple_andthen [OF hook], (use B in \<open>auto simp: published_def\<close>)[1],
        rule triple_andthen [OF last], rule hook) (rule C)
qed

text \<open>From the staging of the new record to the durable journal.\<close>

lemma stage_law:
  assumes "valid u" and "valid (Some r)" and "fine b" and "announces j u r"
    and "\<And>f. stored u f \<Longrightarrow> A f" and "\<And>f. stored (Some r) f \<Longrightarrow> A f"
    and "triple (inside A (ready u r j b)) m Q (broken A)"
  shows "triple (inside A (calm st u b))
    (andthen (checkpoint_hook st p1) (\<lambda>_. andthen (write_synced st (cs_temp_path st) (sr_raw r)) (\<lambda>_.
     andthen (checkpoint_hook st p2) (\<lambda>_. andthen (write_journal st j) (\<lambda>_. andthen (checkpoint_hook st p3) (\<lambda>_. m)))))) Q (broken A)"
proof -
  let ?L = "\<lambda>f. resting st u f \<and> f (cs_temp_path st) = on_disk (Some r) \<and> f (cs_backup_path st) = b \<and>
    f (cs_backup_temp_path st) = None \<and> f (cs_journal_temp_path st) = None"
  have R: "A f" if "resting st u f" "f (cs_backup_path st) = b" for f
    using that assms(1, 3, 5) by (auto simp: stores_def)
  have S: "A f" if "ready u r j b f" for f
    using assms(1-3, 6) staged_stored [of u r j f] that by (auto simp: ready_def)
  have C: "A f" if "calm st u b f" for f using that by (intro R) (auto simp: calm_def resting_def)
  have hook: "triple (inside A G) (checkpoint_hook st x) (\<lambda>_. inside A G) (broken A)" if "\<And>f. G f \<Longrightarrow> A f" for G x
    unfolding checkpoint_hook_def using that by (intro silent_keeps) auto
  have w: "triple (inside A (calm st u b)) (write_synced st (cs_temp_path st) (sr_raw r)) (\<lambda>_. inside A ?L) (broken A)"
    by (rule write_synced_law) (use R names in \<open>auto simp: calm_def resting_def on_disk_def intro!: R\<close>)
  have jw: "triple (inside A ?L) (write_journal st j) (\<lambda>_. inside A (ready u r j b)) (broken A)"
    by (rule write_journal_law)
      (use assms(4) names S in \<open>auto simp: resting_def ready_def staged_def on_disk_def intro!: R\<close>)
  show ?thesis
    by (rule triple_andthen [OF hook [OF C]], assumption, rule triple_andthen [OF w],
        rule triple_andthen [OF hook], (use R in blast)[1], rule triple_andthen [OF jw],
        rule triple_andthen [OF hook [OF S]], assumption, rule assms(7))
qed

end
section \<open>Values\<close>

lemma decode_record_facts:
  assumes "decode_record sha256 depth raw = Inr r"
  shows "config_ok (st_config (sr_stored r))" "1 \<le> st_generation (sr_stored r)" "st_generation (sr_stored r) \<le> max_generation"
    "sr_raw_checksum r = sha256 raw" "sr_raw r = raw"
    "is_digest (st_checksum (sr_stored r))" "is_optional_digest (st_transaction (sr_stored r))"
proof -
  obtain kvs where kvs: "decode_json_bytes depth raw max_record_bytes = Inr (JObj kvs)"
    using assms by (auto simp: decode_record_def or_corrupt_def split: sum.splits json.splits)
  then obtain g where g: "map_of kvs ''generation'' = Some (JInt g)" "1 \<le> g" "g \<le> max_generation"
    using assms by (auto simp: decode_record_def or_corrupt_def simp del: One_nat_def split: if_splits option.splits json.splits)
  define t where "t = optional_member kvs ''transaction_id''"
  obtain cs c p where c: "Option.bind (map_of kvs ''checksum'') checksum_of = Some cs"
    "config_from_dict (the (map_of kvs ''config'')) = Inr c"
    "r = \<lparr>sr_stored = \<lparr>st_config = c, st_generation = g, st_checksum = cs, st_transaction = Option.bind t checksum_of\<rparr>,
          sr_raw = raw, sr_raw_checksum = sha256 raw\<rparr>"
    using assms kvs g unfolding decode_record_def t_def
    by (auto simp: or_corrupt_def bindE_def split: if_splits sum.splits option.splits)
  show "config_ok (st_config (sr_stored r))" using config_accepted [OF c(2)] c(3) by simp
  show "1 \<le> st_generation (sr_stored r)" "st_generation (sr_stored r) \<le> max_generation"
    "sr_raw_checksum r = sha256 raw" "sr_raw r = raw" using g c(3) by simp_all
  have digest: "is_digest s" if "checksum_of x = Some s" for x s
    using that by (auto simp: checksum_of_def split: json.splits if_splits)
  show "is_digest (st_checksum (sr_stored r))" using c(1, 3) by (auto simp: bind_eq_Some_conv digest)
  show "is_optional_digest (st_transaction (sr_stored r))"
    using c(3) digest by (cases "Option.bind t checksum_of") (auto simp: is_optional_digest_def bind_eq_Some_conv)
qed

text \<open>The record that a save or a rollback writes over the value \<open>v\<close>.\<close>

definition next_record ::
    "(string \<Rightarrow> string) \<Rightarrow> store_record option \<Rightarrow> config \<Rightarrow> string option \<Rightarrow> store_exn + store_record" where
  "next_record sha256 v c t =
     (if max_generation \<le> generation_of v then Inl StoreGeneration
      else bindE (record_bytes sha256 c (generation_of v + 1) t) (\<lambda>raw.
           bindE (of_config (canonical_config_bytes c)) (\<lambda>payload.
           Inr (record_of sha256 c (generation_of v + 1) t payload raw))))"

lemma next_record_facts:
  assumes "next_record sha256 v c t = Inr n"
  shows "\<not> max_generation \<le> generation_of v" "record_bytes sha256 c (generation_of v + 1) t = Inr (sr_raw n)"
    "st_config (sr_stored n) = c" "st_generation (sr_stored n) = generation_of v + 1" "st_transaction (sr_stored n) = t"
    "sr_raw_checksum n = sha256 (sr_raw n)" "is_optional_digest t"
    "\<exists>payload. canonical_config_bytes c = Inr payload \<and> n = record_of sha256 c (generation_of v + 1) t payload (sr_raw n)"
  using assms
  by (auto simp: next_record_def record_of_def of_config_def record_bytes_def is_optional_digest_def result_simps
      split: if_splits sum.splits)

lemma next_record_valid:
  assumes "next_record sha256 v c t = Inr n" and "config_ok c" and "\<And>x. is_digest (sha256 x)" and "5 \<le> depth"
  shows "valid_value sha256 depth (Some n)"
proof -
  note facts = next_record_facts [OF assms(1)]
  obtain payload where p: "canonical_config_bytes c = Inr payload"
    "n = record_of sha256 c (generation_of v + 1) t payload (sr_raw n)" using facts(8) by blast
  show ?thesis
    using record_read [OF facts(2) assms(2-4) p(1)] p(2) by (simp add: valid_value_def)
qed

definition announcement :: "store_record option \<Rightarrow> store_record \<Rightarrow> journal" where
  "announcement v n = \<lparr>jn_phase = ''prepared'', jn_old_generation = generation_of v,
     jn_old_checksum = map_option sr_raw_checksum v,
     jn_new_generation = generation_of v + 1, jn_new_checksum = sr_raw_checksum n\<rparr>"

lemma announcement_ok:
  assumes "next_record sha256 v c t = Inr n" and "valid_value sha256 depth v" and "\<And>x. is_digest (sha256 x)"
  shows "announces (announcement v n) v n"
proof -
  note facts = next_record_facts [OF assms(1)]
  show ?thesis
  proof (cases v)
    case None
    then show ?thesis
      using facts assms(3) by (auto simp: announces_def announcement_def journal_ok_def generation_of_def is_optional_digest_def)
  next
    case (Some r)
    then have "decode_record sha256 depth (sr_raw r) = Inr r" using assms(2) by (simp add: valid_value_def)
    from decode_record_facts [OF this] show ?thesis
      using facts assms(3) Some
      by (auto simp: announces_def announcement_def journal_ok_def generation_of_def is_optional_digest_def)
  qed
qed

section \<open>The operations of the store\<close>

lemma triple_lift: "r = Inr x \<Longrightarrow> triple P (k x) Q E \<Longrightarrow> triple P (andthen (lift_result r) k) Q E"
  by (simp add: triple_def andthen_def lift_result_def)

context durable_files
begin

lemma backup_law:
  assumes "valid v" and "fine b" and "\<And>f. stored v f \<Longrightarrow> A f"
  shows "triple (inside A (calm st v b))
    (case v of
       Some r \<Rightarrow>
         andthen (write_synced st (cs_backup_temp_path st) (sr_raw r)) (\<lambda>_.
         replace_synced st (cs_backup_temp_path st) (cs_backup_path st))
     | None \<Rightarrow>
         andthen (se_exists (cs_env st) (cs_backup_path st)) (\<lambda>present.
         if present then andthen (se_unlink (cs_env st) (cs_backup_path st)) (\<lambda>_. se_fsync_dir (cs_env st)) else ret ()))
    (\<lambda>_. inside A (calm st v (on_disk v))) (broken A)"
proof (cases v)
  case None
  have C: "A f" if "calm st v c f" "fine c" for f c using that assms calm_stored [OF that] by auto
  have n: "fine None" by (auto simp: backup_fine_def on_disk_def valid_value_def)
  have u: "triple (inside A (\<lambda>f. calm st v b f \<and> True = (f (cs_backup_path st) \<noteq> None)))
      (andthen (se_unlink (cs_env st) (cs_backup_path st)) (\<lambda>_. se_fsync_dir (cs_env st)))
      (\<lambda>_. inside A (calm st v (on_disk v))) (broken A)"
    by (rule triple_andthen [OF unlink_law [where Q = "calm st v None"]], (use C n assms(2) names in \<open>auto simp: calm_def\<close>)[2])
      (use C n None in \<open>auto simp: on_disk_def intro!: silent_keeps\<close>)
  have r: "triple (inside A (\<lambda>f. calm st v b f \<and> False = (f (cs_backup_path st) \<noteq> None))) (ret ())
      (\<lambda>_. inside A (calm st v (on_disk v))) (broken A)"
    using None by (intro triple_ret) (auto simp: standing_def calm_def on_disk_def simp del: not_None_eq)
  show ?thesis
    unfolding None option.case
    by (rule triple_andthen [OF exists_law [of "calm st v b", unfolded None]])
      (use C assms(2) u r None in \<open>auto split: if_splits\<close>)
next
  case (Some r)
  let ?Q = "\<lambda>g. \<exists>f. calm st v b f \<and> g = f(cs_backup_temp_path st \<mapsto> (sr_raw r, True))"
  have R: "A f" if "resting st v f" "fine (f (cs_backup_path st))" for f using that assms by (auto simp: stores_def)
  have d: "fine (on_disk v)" using assms(1) by (auto simp: backup_fine_def)
  have w: "triple (inside A (calm st v b)) (write_synced st (cs_backup_temp_path st) (sr_raw r)) (\<lambda>_. inside A ?Q) (broken A)"
    by (rule write_synced_law) (use R assms(2) names in \<open>auto simp: calm_def resting_def\<close>)
  have "triple (inside A ?Q) (replace_synced st (cs_backup_temp_path st) (cs_backup_path st))
      (\<lambda>_. inside A (calm st v (on_disk v))) (broken A)"
    by (rule replace_synced_law)
      (use R d assms(2) names Some in \<open>auto simp: calm_def resting_def on_disk_def\<close>)
  with w Some show ?thesis by (auto intro: triple_andthen)
qed

lemma commit_law:
  assumes "valid v" and "fine b" and "config_ok c" and "\<And>x. is_digest (se_sha256 (cs_env st) x)" and "5 \<le> se_depth (cs_env st)"
    and n: "next_record (se_sha256 (cs_env st)) v c t = Inr n"
    and "\<And>f. stored v f \<Longrightarrow> A f" and "\<And>f. stored (Some n) f \<Longrightarrow> B f" and "\<And>f. B f \<Longrightarrow> A f"
  shows "triple (inside A (calm st v b)) (commit_locked st c v t)
    (\<lambda>s w. s = sr_stored n \<and> inside B (calm st (Some n) (on_disk v)) w) (broken A)"
proof -
  note facts = next_record_facts [OF n] and vn = next_record_valid [OF n assms(3-5)]
  note ann = announcement_ok [OF n assms(1, 4)]
  have d: "fine (on_disk v)" using assms(1) by (auto simp: backup_fine_def)
  have S: "A f" if "ready v n (announcement v n) (on_disk v) f" for f
    using assms(1, 8, 9) d vn staged_stored [of v n "announcement v n" f] that by (auto simp: ready_def)
  have saved: "triple (inside B G) (saved_config st c (generation_of v + 1) t) (\<lambda>s w. s = sr_stored n \<and> inside B G w) (broken A)" for G
    using facts(8)
    by (auto simp: saved_config_def of_config_def lift_result_def andthen_def ret_def triple_def record_of_def
        dest!: arg_cong [where f = sr_stored])
  have check: "triple (inside A (ready v n (announcement v n) (on_disk v)))
      (andthen (read_if_present st (cs_path st)) (\<lambda>current_raw.
        if current_raw \<noteq> map_option sr_raw v then andthen (clean_residue st) (\<lambda>_. throw StoreConflict)
        else andthen (publish st (announcement v n)) (\<lambda>_. saved_config st c (generation_of v + 1) t)))
      (\<lambda>s w. s = sr_stored n \<and> inside B (calm st (Some n) (on_disk v)) w) (broken A)"
    by (rule triple_returns [OF read_if_present_law [where x = "map_option sr_raw v"]])
      (use S vn d ann assms(1, 8, 9) saved publish_law in
        \<open>auto simp: ready_def staged_def on_disk_def option.map_comp o_def option.map_ident intro!: triple_andthen\<close>)
  have jn: "\<lparr>jn_phase = ''prepared'', jn_old_generation = generation_of v, jn_old_checksum = map_option sr_raw_checksum v,
      jn_new_generation = generation_of v + 1, jn_new_checksum = se_sha256 (cs_env st) (sr_raw n)\<rparr> = announcement v n"
    by (simp add: announcement_def facts(6))
  show ?thesis
    unfolding commit_locked_def Let_def if_not_P [OF facts(1)]
    by (rule triple_lift [OF facts(2)], rule triple_andthen [OF backup_law [OF assms(1, 2, 7)]], assumption,
        unfold jn, rule stage_law [OF assms(1) vn d ann assms(7) _ check]) (use assms(8, 9) in auto)
qed

end
context durable_files
begin

lemma rollback_commit_law:
  assumes "valid (Some r)" and "valid (Some k)" and "\<And>x. is_digest (se_sha256 (cs_env st) x)" and "5 \<le> se_depth (cs_env st)"
    and n: "next_record (se_sha256 (cs_env st)) (Some r) (st_config (sr_stored k)) None = Inr n"
    and "\<And>f. stored (Some r) f \<Longrightarrow> A f" and "\<And>f. stored (Some n) f \<Longrightarrow> B f" and "\<And>f. B f \<Longrightarrow> A f"
  shows "triple (inside A (calm st (Some r) (on_disk (Some k)))) (commit_rollback_locked st (st_config (sr_stored k)) r k)
    (\<lambda>s w. s = sr_stored n \<and> inside B (calm st (Some n) (on_disk (Some k))) w) (broken A)"
proof -
  let ?c = "st_config (sr_stored k)" and ?b = "on_disk (Some k)" and ?v = "Some r"
  have ok: "config_ok ?c" by (rule decode_record_facts(1)) (use assms(2) in \<open>simp add: valid_value_def\<close>)
  note facts = next_record_facts [OF n, unfolded generation_of_def option.case] and vn = next_record_valid [OF n ok assms(3, 4)]
  note ann = announcement_ok [OF n assms(1, 3)]
  have d: "fine ?b" using assms(2) by (auto simp: backup_fine_def)
  have S: "A f" if "ready ?v n (announcement ?v n) ?b f" for f
    using assms(1, 7, 8) d vn staged_stored [of ?v n "announcement ?v n" f] that by (auto simp: ready_def)
  have saved: "triple (inside B G) (saved_config st ?c (st_generation (sr_stored r) + 1) None) (\<lambda>s w. s = sr_stored n \<and> inside B G w) (broken A)" for G
    using facts(8)
    by (auto simp: saved_config_def of_config_def lift_result_def andthen_def ret_def triple_def record_of_def
        dest!: arg_cong [where f = sr_stored])
  have commit: "triple (inside A (ready ?v n (announcement ?v n) ?b))
      (if Some (sr_raw r) \<noteq> Some (sr_raw r) \<or> Some (sr_raw k) \<noteq> Some (sr_raw k)
        then andthen (clean_residue st) (\<lambda>_. throw StoreConflict)
        else andthen (publish st (announcement ?v n)) (\<lambda>_. saved_config st ?c (st_generation (sr_stored r) + 1) None))
      (\<lambda>s w. s = sr_stored n \<and> inside B (calm st (Some n) ?b) w) (broken A)"
    by (simp, rule triple_andthen [OF publish_law [OF assms(1) vn d ann assms(7, 8)] saved])
  have check: "triple (inside A (ready ?v n (announcement ?v n) ?b))
      (andthen (read_if_present st (cs_path st)) (\<lambda>current_raw. andthen (read_if_present st (cs_backup_path st)) (\<lambda>backup_raw.
        if current_raw \<noteq> Some (sr_raw r) \<or> backup_raw \<noteq> Some (sr_raw k)
        then andthen (clean_residue st) (\<lambda>_. throw StoreConflict)
        else andthen (publish st (announcement ?v n)) (\<lambda>_. saved_config st ?c (st_generation (sr_stored r) + 1) None))))
      (\<lambda>s w. s = sr_stored n \<and> inside B (calm st (Some n) ?b) w) (broken A)"
    by (rule triple_returns [OF read_if_present_law [where x = "Some (sr_raw r)"]],
        (use S in \<open>auto simp: ready_def staged_def on_disk_def\<close>)[2],
        rule triple_returns [OF read_if_present_law [where x = "Some (sr_raw k)"]],
        (use S in \<open>auto simp: ready_def staged_def on_disk_def\<close>)[2], rule commit)
  have jn: "\<lparr>jn_phase = ''prepared'', jn_old_generation = st_generation (sr_stored r), jn_old_checksum = Some (sr_raw_checksum r),
      jn_new_generation = st_generation (sr_stored r) + 1, jn_new_checksum = se_sha256 (cs_env st) (sr_raw n)\<rparr> = announcement ?v n"
    by (simp add: announcement_def facts(6) generation_of_def)
  show ?thesis
    unfolding commit_rollback_locked_def Let_def if_not_P [OF facts(1)]
    by (rule triple_lift [OF facts(2)], unfold jn, rule stage_law [OF assms(1) vn d ann assms(6) _ check]) (use assms(7, 8) in auto)
qed

text \<open>The lock and the preparation of the directory change no file.\<close>

lemma broken_idem: "inside A A w \<and> fired w \<longleftrightarrow> broken A e w"
  by (simp add: upset_def)

lemma release_broken: "triple (broken A e) (se_release (cs_env st)) (\<lambda>_. broken A e) (\<lambda>_. broken A e)"
proof (rule tripleI)
  fix w x w'
  assume "broken A e w" and step: "se_release (cs_env st) w = (Inr x, w')"
  then have "inside A A w" "fired w" by (simp_all add: upset_def)
  then show "broken A e w'"
    using triple_Inr [OF silent_law [of "se_release (cs_env st)" _ _ A A] _ step] triple_Inr [OF sticky_law _ step]
    by (simp add: upset_def)
next
  fix w x w'
  assume "broken A e w" and step: "se_release (cs_env st) w = (Inl x, w')"
  then show "broken A e w'"
    using triple_Inl [OF silent_law [of "se_release (cs_env st)" _ _ A A] _ step] by (simp add: upset_def)
qed

lemma prepared_law:
  assumes "triple (inside A F) m (\<lambda>x w. R x \<and> inside B (G x) w) (broken A)" and "\<And>f. F f \<Longrightarrow> A f"
    and "\<And>x f. G x f \<Longrightarrow> B f" and "\<And>f. B f \<Longrightarrow> A f"
  shows "triple (inside A F) (prepared st m) (\<lambda>x w. R x \<and> inside B (G x) w) (broken A)"
proof -
  let ?Q = "\<lambda>x w. R x \<and> inside B (G x) w"
  have release: "triple (?Q x) (se_release (cs_env st)) (\<lambda>_. ?Q x) (broken A)" for x
  proof (cases "R x")
    case True
    then show ?thesis
      by (intro triple_conseq [OF silent_keeps [where m = "se_release (cs_env st)" and Q = "G x" and B = B and A = A]])
        (use assms(3, 4) in auto)
  qed (simp add: triple_def)
  have fin: "triple (inside A F) (finally_do m (se_release (cs_env st))) ?Q (broken A)"
    using assms(1) release release_broken [of A]
    by (fastforce simp: triple_def finally_do_def upset_def split: prod.splits sum.splits)
  have reraise: "triple P (on_raise k (\<lambda>e. throw (h e))) Q (broken A)" if "triple P k Q (broken A)" for P k Q and h :: "store_exn \<Rightarrow> store_exn"
    by (rule triple_on_raise [OF that]) (auto intro: triple_throw)
  have "triple (inside A F) (under_lock st m) ?Q (broken A)"
    unfolding under_lock_def
    by (intro reraise triple_andthen [OF silent_law]) (use fin assms(2) in auto)
  then show ?thesis
    unfolding prepared_def
    by (intro triple_andthen [OF reraise [OF silent_law]]) (use assms(2) in auto)
qed

end
text \<open>The value that \<open>load\<close> returns.\<close>

definition loaded_value :: "'w config_store \<Rightarrow> store_record option \<Rightarrow> store_exn + stored_config" where
  "loaded_value st v = (case v of None \<Rightarrow> default_stored st | Some r \<Rightarrow> Inr (sr_stored r))"

lemma generation_bounds: "valid_value sha256 depth v \<Longrightarrow> 0 \<le> generation_of v \<and> generation_of v \<le> max_generation"
  using decode_record_facts(2, 3)
  by (fastforce simp: valid_value_def generation_of_def max_generation_def split: option.splits)

context durable_files
begin

lemma load_law:
  assumes "loaded_value st v = Inr s" and "v \<noteq> None \<or> \<not> require_existing" and "1 \<le> se_depth (cs_env st)"
    and "\<And>f. stored v f \<Longrightarrow> A f"
  shows "triple (inside A (stored v)) (store_load st require_existing)
    (\<lambda>x w. x = s \<and> inside A (stored v) w) (broken A)"
proof (cases "valid v")
  case True
  have rest: "stored v f" if "at_rest v f" for f using that True calm_stored by (auto simp: at_rest_def)
  have read: "triple (inside A (at_rest v)) (read_record_if_present st (cs_path st)) (\<lambda>r w. inside A (at_rest v) w \<and> r = v) (broken A)"
    by (rule read_record_law) (use rest assms(4) True in \<open>auto simp: at_rest_def calm_def\<close>)
  have out: "triple (inside A (at_rest v))
      (case v of None \<Rightarrow> if require_existing then throw StoreCorrupt else lift_result (default_stored st) | Some r \<Rightarrow> ret (sr_stored r))
      (\<lambda>x w. x = s \<and> inside A (stored v) w) (broken A)"
    using assms(1, 2) rest
    by (cases v) (auto simp: loaded_value_def triple_def lift_result_def ret_def standing_def)
  show ?thesis
    unfolding store_load_def
  proof (rule prepared_law [where G = "\<lambda>_. stored v" and R = "\<lambda>x. x = s" and B = A])
    show "triple (inside A (stored v)) (andthen (store_recover st) (\<lambda>_. andthen (read_record_if_present st (cs_path st)) (\<lambda>r.
        case r of None \<Rightarrow> if require_existing then throw StoreCorrupt else lift_result (default_stored st)
        | Some r \<Rightarrow> ret (sr_stored r)))) (\<lambda>x w. x = s \<and> inside A (stored v) w) (broken A)"
      by (rule triple_andthen [OF recover_law [OF assms(4, 3)]], assumption, rule triple_returns [OF read]) (rule out)
  qed (use assms(4) in auto)
qed (auto simp: triple_def standing_def stores_def)

lemma save_law:
  assumes "config_ok c" and "\<And>x. is_digest (se_sha256 (cs_env st) x)" and "5 \<le> se_depth (cs_env st)"
    and n: "next_record (se_sha256 (cs_env st)) v c t = Inr n" and g: "g = None \<or> g = Some (generation_of v)"
    and A: "\<And>f. stored v f \<Longrightarrow> A f" "\<And>f. stored (Some n) f \<Longrightarrow> B f" "\<And>f. B f \<Longrightarrow> A f"
  shows "triple (inside A (stored v)) (store_save st c g t)
    (\<lambda>s w. s = sr_stored n \<and> inside B (\<lambda>f. stored (Some n) f \<and> f (cs_backup_path st) = on_disk v) w) (broken A)"
proof (cases "valid v")
  case True
  note facts = next_record_facts [OF n] and vn = next_record_valid [OF n assms(1-3)]
  have d: "fine (on_disk v)" using True by (auto simp: backup_fine_def)
  have rest: "A f" if "at_rest v f" for f using that True A(1) calm_stored by (auto simp: at_rest_def)
  have fin: "stored (Some n) f \<and> f (cs_backup_path st) = on_disk v" if "calm st (Some n) (on_disk v) f" for f
    using that calm_stored [OF that d vn] by (simp add: calm_def)
  have read: "triple (inside A (at_rest v)) (read_record_if_present st (cs_path st)) (\<lambda>r w. inside A (at_rest v) w \<and> r = v) (broken A)"
    by (rule read_record_law) (use rest True in \<open>auto simp: at_rest_def calm_def\<close>)
  have commit: "triple (inside A (at_rest v)) (commit_locked st c v t)
      (\<lambda>s w. s = sr_stored n \<and> inside B (\<lambda>f. stored (Some n) f \<and> f (cs_backup_path st) = on_disk v) w) (broken A)"
    unfolding at_rest_def
    by (intro inside_ex inside_pure triple_conseq [OF commit_law [OF True _ assms(1-3) n A]])
      (use fin in \<open>auto simp: standing_def\<close>)
  have op: "triple (inside A (stored v)) (andthen (store_recover st) (\<lambda>_. andthen (read_record_if_present st (cs_path st)) (\<lambda>old.
      if g \<noteq> None \<and> g \<noteq> Some (generation_of old) then throw StoreConflict else commit_locked st c old t)))
      (\<lambda>s w. s = sr_stored n \<and> inside B (\<lambda>f. stored (Some n) f \<and> f (cs_backup_path st) = on_disk v) w) (broken A)"
    by (rule triple_andthen [OF recover_law], (use A(1) assms(3) in auto)[2], rule triple_returns [OF read])
      (use g commit in auto)
  obtain payload where p: "of_config (canonical_config_bytes c) = Inr payload"
    using facts(8) by (auto simp: of_config_def)
  have opt: "\<not> \<not> is_optional_digest t" using facts(7) by simp
  have range: "\<not> (case g of None \<Rightarrow> False | Some g \<Rightarrow> \<not> (0 \<le> g \<and> g \<le> max_generation))"
    using g generation_bounds [OF True] by auto
  show ?thesis
    unfolding store_save_def
    by (rule triple_lift [OF p], unfold if_not_P [OF range] if_not_P [OF opt], rule prepared_law [OF op]) (use A in auto)
qed (auto simp: triple_def standing_def stores_def)

lemma rollback_law:
  assumes "\<And>x. is_digest (se_sha256 (cs_env st) x)" and "5 \<le> se_depth (cs_env st)"
    and n: "next_record (se_sha256 (cs_env st)) (Some r) (st_config (sr_stored k)) None = Inr n"
    and k: "valid (Some k)" "st_generation (sr_stored k) = st_generation (sr_stored r) - 1"
    and A: "\<And>f. stored (Some r) f \<Longrightarrow> A f" "\<And>f. stored (Some n) f \<Longrightarrow> B f" "\<And>f. B f \<Longrightarrow> A f"
    and sums: "is_digest (st_checksum (sr_stored k))" "is_optional_digest (st_transaction (sr_stored r))"
  shows "triple (inside A (\<lambda>f. stored (Some r) f \<and> f (cs_backup_path st) = on_disk (Some k)))
    (store_rollback_previous st (st_generation (sr_stored r)) (st_generation (sr_stored k)) (st_checksum (sr_stored k))
       (st_transaction (sr_stored r)))
    (\<lambda>s w. s = sr_stored n \<and> inside B (\<lambda>f. stored (Some n) f \<and> f (cs_backup_path st) = on_disk (Some k)) w) (broken A)"
proof (cases "valid (Some r)")
  case True
  let ?b = "on_disk (Some k)"
  have dr: "decode_record (se_sha256 (cs_env st)) (se_depth (cs_env st)) (sr_raw r) = Inr r"
    "decode_record (se_sha256 (cs_env st)) (se_depth (cs_env st)) (sr_raw k) = Inr k"
    using True k(1) by (simp_all add: valid_value_def)
  note rf = decode_record_facts [OF dr(1)] and kf = decode_record_facts [OF dr(2)]
  have vn: "valid (Some n)" by (rule next_record_valid [OF n kf(1) assms(1, 2)])
  have d: "fine ?b" using k(1) by (auto simp: backup_fine_def)
  have C: "A f" if "calm st (Some r) ?b f" for f using calm_stored [OF that d True] A(1) by auto
  have fin: "stored (Some n) f \<and> f (cs_backup_path st) = ?b" if "calm st (Some n) ?b f" for f
    using that calm_stored [OF that d vn] by (simp add: calm_def)
  have read: "triple (inside A (calm st (Some r) ?b)) (read_record_if_present st p)
      (\<lambda>x w. inside A (calm st (Some r) ?b) w \<and> x = y) (broken A)"
    if "(p, y) \<in> {(cs_path st, Some r), (cs_backup_path st, Some k)}" for p y
    by (rule read_record_law) (use C True k(1) that in \<open>auto simp: calm_def\<close>)
  note reads = read [of "cs_path st" "Some r"] read [of "cs_backup_path st" "Some k"]
  let ?Q = "\<lambda>s w. s = sr_stored n \<and> inside B (\<lambda>f. stored (Some n) f \<and> f (cs_backup_path st) = ?b) w"
  have commit: "triple (inside A (calm st (Some r) ?b)) (commit_rollback_locked st (st_config (sr_stored k)) r k) ?Q (broken A)"
    by (rule triple_conseq [OF rollback_commit_law [OF True k(1) assms(1, 2) n A]]) (use fin in \<open>auto simp: standing_def\<close>)
  have pick: "triple (inside A (calm st (Some r) ?b)) (andthen (read_record_if_present st (cs_backup_path st)) (\<lambda>backup.
      case backup of None \<Rightarrow> throw StoreCorrupt
      | Some b \<Rightarrow>
          if st_generation (sr_stored b) \<noteq> st_generation (sr_stored r) - 1 then throw StoreConflict
          else if st_generation (sr_stored b) \<noteq> st_generation (sr_stored k) \<or> st_checksum (sr_stored b) \<noteq> st_checksum (sr_stored k)
          then throw StoreConflict
          else commit_rollback_locked st (st_config (sr_stored b)) r b)) ?Q (broken A)"
    by (rule triple_returns [OF reads(2)]) (use k(2) commit in auto)
  note reading = triple_returns [OF reads(1)]
  have bounds: "\<not> (\<not> (1 \<le> st_generation (sr_stored r) \<and> st_generation (sr_stored r) \<le> max_generation) \<or>
      \<not> (1 \<le> st_generation (sr_stored k) \<and> st_generation (sr_stored k) \<le> max_generation) \<or>
      \<not> is_digest (st_checksum (sr_stored k)) \<or> \<not> is_optional_digest (st_transaction (sr_stored r)))"
    using rf kf sums by auto
  show ?thesis
    unfolding store_rollback_previous_def if_not_P [OF bounds]
    by (rule prepared_law [OF triple_andthen [OF recover_value reading]])
      (use A assms(2) pick in auto)
qed (auto simp: triple_def standing_def stores_def)

end
section \<open>Any operation, with any outcome\<close>

lemma commit_rejected:
  "next_record (se_sha256 (cs_env st)) v c t = Inl e \<Longrightarrow> commit_locked st c v t = throw e"
  by (auto simp: next_record_def commit_locked_def Let_def result_simps of_config_def record_bytes_def
      lift_result_def andthen_def throw_def fun_eq_iff split: if_splits sum.splits)

lemma rollback_rejected:
  "next_record (se_sha256 (cs_env st)) (Some r) c None = Inl e \<Longrightarrow> commit_rollback_locked st c r k = throw e"
  by (auto simp: next_record_def commit_rollback_locked_def Let_def result_simps of_config_def record_bytes_def
      generation_of_def lift_result_def andthen_def throw_def fun_eq_iff split: if_splits sum.splits)

lemma keep_finally [keep_intros]: "keeps J m \<Longrightarrow> keeps J f \<Longrightarrow> keeps J (finally_do m f)"
  by (rule keepsI) (auto simp: finally_do_def dest: keepsD split: prod.splits sum.splits)

context durable_files
begin

definition readable :: "file_map \<Rightarrow> bool" where
  "readable f \<longleftrightarrow> (\<exists>v. stored v f)"

lemma broken_readable: "triple P m Q (broken readable) \<Longrightarrow> triple P m Q (\<lambda>_. inside readable readable)"
  by (rule triple_conseq, assumption) (auto simp: upset_def)

lemma readable_rest: "valid v \<Longrightarrow> fine b \<Longrightarrow> calm st v b f \<Longrightarrow> readable f"
  using calm_stored readable_def by blast

lemma silent_readable [keep_intros]:
  "keeps (inside readable readable) (se_ensure_parent (cs_env st) p)" "keeps (inside readable readable) (se_acquire (cs_env st))"
  "keeps (inside readable readable) (se_release (cs_env st))"
  unfolding keeps_def
  by (rule broken_readable, rule silent_law [where p = p and phase = "[]"]; simp)+

lemma prepared_readable:
  assumes "keeps (inside readable readable) m"
  shows "keeps (inside readable readable) (prepared st m)"
  unfolding prepared_def under_lock_def using assms by (intro keep_intros)

text \<open>After the recovery the directory is calm, with some value and some backup.\<close>

lemma after_recovery:
  assumes "1 \<le> se_depth (cs_env st)"
    and "\<And>v w. valid v \<Longrightarrow> valid w \<Longrightarrow>
      triple (inside readable (calm st v (on_disk w))) m (\<lambda>_. inside readable readable) (\<lambda>_. inside readable readable)"
  shows "keeps (inside readable readable) (andthen (store_recover st) (\<lambda>_. m))"
proof -
  let ?J = "inside readable readable"
  have "triple (inside readable (\<lambda>f. \<exists>v. valid v \<and> stored v f)) (andthen (store_recover st) (\<lambda>_. m)) (\<lambda>_. ?J) (\<lambda>_. ?J)"
  proof (intro inside_ex inside_pure)
    fix v
    assume v: "valid v"
    have m: "triple (inside readable (at_rest v)) m (\<lambda>_. ?J) (\<lambda>_. ?J)"
      unfolding at_rest_def by (intro inside_ex inside_pure) (auto simp: backup_fine_def intro: assms(2) v)
    show "triple (inside readable (stored v)) (andthen (store_recover st) (\<lambda>_. m)) (\<lambda>_. ?J) (\<lambda>_. ?J)"
      by (rule triple_andthen [OF broken_readable [OF recover_law]], (use assms(1) in \<open>auto simp: readable_def\<close>)[2], rule m)
  qed
  then show ?thesis
    unfolding keeps_def by (rule inside_pre) (auto simp: readable_def stores_def)
qed

lemma read_calm:
  assumes "valid v" and "valid w" and "(p, y) \<in> {(cs_path st, v), (cs_backup_path st, w)}"
  shows "triple (inside readable (calm st v (on_disk w))) (read_record_if_present st p)
    (\<lambda>x s. inside readable (calm st v (on_disk w)) s \<and> x = y) (\<lambda>_. inside readable readable)"
proof -
  have "fine (on_disk w)" using assms(2) by (auto simp: backup_fine_def)
  then show ?thesis
    using assms readable_rest by (intro broken_readable read_record_law) (auto simp: calm_def)
qed

lemma calm_throw:
  assumes "valid v" and "valid w"
  shows "triple (inside readable (calm st v (on_disk w))) (throw e) (\<lambda>_. inside readable readable) (\<lambda>_. inside readable readable)"
proof -
  have "fine (on_disk w)" using assms(2) by (auto simp: backup_fine_def)
  then show ?thesis using readable_rest [OF assms(1)] by (auto intro!: triple_throw simp: standing_def)
qed

lemma calm_result:
  assumes "valid v" and "valid w"
  shows "triple (inside readable (calm st v (on_disk w))) (lift_result r) (\<lambda>_. inside readable readable) (\<lambda>_. inside readable readable)"
proof -
  have "fine (on_disk w)" using assms(2) by (auto simp: backup_fine_def)
  then show ?thesis using readable_rest [OF assms(1)] by (auto simp: triple_def lift_result_def standing_def split: sum.splits)
qed

lemma load_readable: "1 \<le> se_depth (cs_env st) \<Longrightarrow> keeps (inside readable readable) (store_load st require_existing)"
  unfolding store_load_def
  by (intro prepared_readable after_recovery, assumption, rule triple_returns [OF read_calm])
    (auto split: option.splits intro: calm_throw calm_result simp: ret_def [abs_def] lift_result_def [abs_def, symmetric])

lemma save_readable:
  assumes "config_ok c" and "\<And>x. is_digest (se_sha256 (cs_env st) x)" and "5 \<le> se_depth (cs_env st)"
  shows "keeps (inside readable readable) (store_save st c g t)"
proof -
  let ?J = "inside readable readable"
  have commit: "triple (inside readable (calm st v (on_disk w))) (commit_locked st c v t) (\<lambda>_. ?J) (\<lambda>_. ?J)"
    if v: "valid v" and w: "valid w" for v w
  proof (cases "next_record (se_sha256 (cs_env st)) v c t")
    case (Inl e)
    then show ?thesis by (simp only: commit_rejected calm_throw v w)
  next
    case (Inr n)
    have f: "fine (on_disk w)" "fine (on_disk v)" using v w by (auto simp: backup_fine_def)
    show ?thesis
      by (rule triple_conseq [OF broken_readable [OF commit_law [OF v f(1) assms Inr, where A = readable and B = readable]]])
        (use f readable_rest next_record_valid [OF Inr assms] in \<open>auto simp: readable_def standing_def\<close>)
  qed
  have "keeps ?J (prepared st (andthen (store_recover st) (\<lambda>_. andthen (read_record_if_present st (cs_path st)) (\<lambda>old.
      if g \<noteq> None \<and> g \<noteq> Some (generation_of old) then throw StoreConflict else commit_locked st c old t))))"
    by (intro prepared_readable after_recovery, (use assms(3) in simp), rule triple_returns [OF read_calm])
      (auto simp del: not_None_eq intro!: triple_if intro: commit calm_throw)
  moreover have "keeps ?J (lift_result r)" for r :: "store_exn + 'z"
    by (auto simp: keeps_def triple_def lift_result_def split: sum.splits)
  ultimately show ?thesis
    unfolding store_save_def by (intro keep_intros)
qed

lemma rollback_readable:
  assumes "\<And>x. is_digest (se_sha256 (cs_env st) x)" and "5 \<le> se_depth (cs_env st)"
  shows "keeps (inside readable readable) (store_rollback_previous st g k s t)"
proof -
  let ?J = "inside readable readable"
  have commit: "triple (inside readable (calm st (Some r) (on_disk (Some b)))) (commit_rollback_locked st (st_config (sr_stored b)) r b)
      (\<lambda>_. ?J) (\<lambda>_. ?J)" if v: "valid (Some r)" and w: "valid (Some b)" for r b
  proof (cases "next_record (se_sha256 (cs_env st)) (Some r) (st_config (sr_stored b)) None")
    case (Inl e)
    then show ?thesis by (simp only: rollback_rejected calm_throw v w)
  next
    case (Inr n)
    have f: "fine (on_disk (Some b))" using w by (auto simp: backup_fine_def)
    have ok: "config_ok (st_config (sr_stored b))"
      by (rule decode_record_facts(1)) (use w in \<open>simp add: valid_value_def\<close>)
    show ?thesis
      by (rule triple_conseq [OF broken_readable [OF rollback_commit_law [OF v w assms Inr, where A = readable and B = readable]]])
        (use f readable_rest next_record_valid [OF Inr ok assms] in \<open>auto simp: readable_def standing_def\<close>)
  qed
  have pick: "triple (inside readable (calm st (Some r) (on_disk w)))
      (andthen (read_record_if_present st (cs_backup_path st)) (\<lambda>backup.
         case backup of None \<Rightarrow> throw StoreCorrupt
         | Some b \<Rightarrow>
             if st_generation (sr_stored b) \<noteq> g - 1 then throw StoreConflict
             else if st_generation (sr_stored b) \<noteq> k \<or> st_checksum (sr_stored b) \<noteq> s
             then throw StoreConflict
             else commit_rollback_locked st (st_config (sr_stored b)) r b)) (\<lambda>_. ?J) (\<lambda>_. ?J)"
    if "valid (Some r)" "valid w" for r w
    by (rule triple_returns [OF read_calm [where y = w]]) (use that commit calm_throw in \<open>auto split: option.splits\<close>)
  show ?thesis
    unfolding store_rollback_previous_def
    by (intro keep_if keep_throw prepared_readable after_recovery, (use assms(2) in simp), rule triple_returns [OF read_calm])
      (use pick calm_throw in \<open>auto split: option.splits\<close>)
qed

end

end
