(* ===== verification/StoreDisk.thy ===== *)
theory StoreDisk
  imports StoreCrash
begin

text \<open>
  The configuration store on the code's own file system (\<open>PathFilesystem\<close> on Windows) and its crash
  safety. A disk is a directory whose files are flushed or not, the earlier directories a power loss
  may bring back, and a plan of failures, one entry per operation: an operation can raise any
  exception, with its effect or without, and the end of the process is the exception that no
  handler of the store catches. The directory's changes reach the disk in their order, a flushed
  file keeps its bytes, and a move with \<open>MOVEFILE_WRITE_THROUGH\<close> that returns is on the disk.
\<close>

section \<open>The disk\<close>

text \<open>A planned failure: the operation raises, with its effect on the directory (a write then leaves
  the given bytes) or without.\<close>

datatype fault = Fault store_exn "string option"

record disk =
  dk_files :: file_map
  dk_older :: "file_map list"
  dk_plan :: "fault option list"
  dk_fired :: bool

definition faulty :: "(disk, store_exn, 'a) eff \<Rightarrow> (string \<Rightarrow> disk \<Rightarrow> disk) \<Rightarrow> (disk, store_exn, 'a) eff" where
  "faulty run partial d =
     (case dk_plan d of
        [] \<Rightarrow> run d
      | None # fs \<Rightarrow> run (d\<lparr>dk_plan := fs\<rparr>)
      | Some (Fault e effect) # fs \<Rightarrow>
          let d' = d\<lparr>dk_plan := fs, dk_fired := True\<rparr> in
          (Inl e, case effect of None \<Rightarrow> d' | Some t \<Rightarrow> partial t d'))"

text \<open>A change of the directory that may still be lost.\<close>

definition change_dir :: "file_map \<Rightarrow> disk \<Rightarrow> disk" where
  "change_dir f d = d\<lparr>dk_files := f, dk_older := dk_files d # dk_older d\<rparr>"

definition disk_touch :: "(disk, store_exn, unit) eff" where
  "disk_touch = faulty (\<lambda>d. (Inr (), d)) (\<lambda>_ d. d)"

definition disk_exists :: "string \<Rightarrow> (disk, store_exn, bool) eff" where
  "disk_exists p = faulty (\<lambda>d. (Inr (dk_files d p \<noteq> None), d)) (\<lambda>_ d. d)"

definition disk_read :: "string \<Rightarrow> (disk, store_exn, string) eff" where
  "disk_read p = faulty (\<lambda>d. (case dk_files d p of None \<Rightarrow> Inl (SxOs OsOtherError) | Some (t, _) \<Rightarrow> Inr t, d)) (\<lambda>_ d. d)"

text \<open>\<open>path.open("xb")\<close>: the file must not exist.\<close>

definition disk_create :: "string \<Rightarrow> string \<Rightarrow> disk \<Rightarrow> disk" where
  "disk_create p t d = (if dk_files d p = None then change_dir ((dk_files d)(p \<mapsto> (t, False))) d else d)"

definition disk_write :: "string \<Rightarrow> string \<Rightarrow> (disk, store_exn, unit) eff" where
  "disk_write p raw = faulty
     (\<lambda>d. if dk_files d p \<noteq> None then (Inl (SxOs OsOtherError), d) else (Inr (), disk_create p raw d))
     (disk_create p)"

definition disk_flush :: "string \<Rightarrow> disk \<Rightarrow> disk" where
  "disk_flush p d = (case dk_files d p of None \<Rightarrow> d | Some (t, _) \<Rightarrow> d\<lparr>dk_files := (dk_files d)(p \<mapsto> (t, True))\<rparr>)"

definition disk_fsync :: "string \<Rightarrow> (disk, store_exn, unit) eff" where
  "disk_fsync p = faulty
     (\<lambda>d. if dk_files d p = None then (Inl (SxOs OsOtherError), d) else (Inr (), disk_flush p d))
     (\<lambda>_. disk_flush p)"

text \<open>\<open>MoveFileExW\<close> with \<open>MOVEFILE_REPLACE_EXISTING | MOVEFILE_WRITE_THROUGH\<close>: when it returns, the
  directory is on the disk; when it is interrupted, the move may have happened without that.\<close>

definition disk_move :: "string \<Rightarrow> string \<Rightarrow> disk \<Rightarrow> disk" where
  "disk_move p q d =
     (if dk_files d p = None then d else change_dir ((dk_files d)(q := dk_files d p, p := None)) d)"

definition disk_replace :: "string \<Rightarrow> string \<Rightarrow> (disk, store_exn, unit) eff" where
  "disk_replace p q = faulty
     (\<lambda>d. if dk_files d p = None then (Inl (SxOs OsOtherError), d) else (Inr (), (disk_move p q d)\<lparr>dk_older := []\<rparr>))
     (\<lambda>_. disk_move p q)"

definition disk_remove :: "string \<Rightarrow> disk \<Rightarrow> disk" where
  "disk_remove p d = (if dk_files d p = None then d else change_dir ((dk_files d)(p := None)) d)"

definition disk_unlink :: "string \<Rightarrow> (disk, store_exn, unit) eff" where
  "disk_unlink p = faulty (\<lambda>d. (Inr (), disk_remove p d)) (\<lambda>_. disk_remove p)"

definition disk_env :: "(string \<Rightarrow> string) \<Rightarrow> nat \<Rightarrow> disk store_env" where
  "disk_env sha256 depth = \<lparr>se_ensure_parent = \<lambda>_. disk_touch, se_exists = disk_exists, se_read = disk_read,
     se_write = disk_write, se_fsync = disk_fsync, se_replace = disk_replace, se_fsync_dir = disk_touch,
     se_unlink = disk_unlink, se_acquire = disk_touch, se_release = disk_touch, se_hook = \<lambda>_. disk_touch,
     se_sha256 = sha256, se_depth = depth\<rparr>"

text \<open>After a power loss the directory is the current or an earlier one, and what was not flushed
  holds anything.\<close>

definition power_loss :: "disk \<Rightarrow> disk \<Rightarrow> bool" where
  "power_loss d d' \<longleftrightarrow> dk_older d' = [] \<and>
     (\<exists>f\<in>set (dk_files d # dk_older d). \<forall>p.
        (case f p of None \<Rightarrow> dk_files d' p = None
         | Some (t, flushed) \<Rightarrow> \<exists>t'. dk_files d' p = Some (t', True) \<and> (flushed \<longrightarrow> t' = t)))"

section \<open>The disk keeps the contract\<close>

lemma faulty_law:
  assumes "\<And>d. standing dk_files dk_older A F d \<Longrightarrow> \<exists>x d'. run d = (Inr x, d') \<and> Q x d'"
    and "\<And>d t. standing dk_files dk_older A F d \<Longrightarrow> standing dk_files dk_older A A (partial t d) \<and> dk_fired (partial t d) = dk_fired d"
    and "\<And>f. F f \<Longrightarrow> A f"
  shows "triple (standing dk_files dk_older A F) (faulty run partial) Q (\<lambda>_. upset dk_files dk_older dk_fired A)"
proof -
  have reads: "standing dk_files dk_older A F (d\<lparr>dk_plan := p, dk_fired := b\<rparr>)" "standing dk_files dk_older A F (d\<lparr>dk_plan := p\<rparr>)"
    if "standing dk_files dk_older A F d" for d p b
    using that by (simp_all add: standing_def)
  show ?thesis
  proof (rule tripleI)
    fix d x d'
    assume "standing dk_files dk_older A F d" "faulty run partial d = (Inr x, d')"
    then show "Q x d'"
      using assms(1) [of d] assms(1) [OF reads(2) [of d "tl (dk_plan d)"]]
      by (auto simp: faulty_def Let_def split: list.splits option.splits fault.splits)
  next
    fix d e d'
    assume pre: "standing dk_files dk_older A F d" and "faulty run partial d = (Inl e, d')"
    then have "\<exists>fs. d' = d\<lparr>dk_plan := fs, dk_fired := True\<rparr> \<or> (\<exists>t. d' = partial t (d\<lparr>dk_plan := fs, dk_fired := True\<rparr>))"
      using assms(1) [OF pre] assms(1) [OF reads(2) [OF pre, of "tl (dk_plan d)"]]
      by (auto simp: faulty_def Let_def split: list.splits option.splits fault.splits)
    then show "upset dk_files dk_older dk_fired A d'"
      using assms(2) [OF reads(1) [OF pre]] assms(3) pre by (auto simp: upset_def standing_def)
  qed
qed

lemma disk_remove_files:
  "dk_files (disk_remove p d) = (dk_files d)(p := None)" "dk_fired (disk_remove p d) = dk_fired d"
  "set (dk_older (disk_remove p d)) \<subseteq> insert (dk_files d) (set (dk_older d))"
  by (auto simp: disk_remove_def change_dir_def fun_upd_idem)

lemma disk_unlink_law:
  assumes "\<And>f. F f \<Longrightarrow> A f" and "\<And>f. F f \<Longrightarrow> A (f(p := None)) \<and> Q (f(p := None))"
  shows "triple (standing dk_files dk_older A F) (disk_unlink p) (\<lambda>_. standing dk_files dk_older A Q)
    (\<lambda>_. upset dk_files dk_older dk_fired A)"
  unfolding disk_unlink_def
  by (rule faulty_law) (use assms disk_remove_files(3) [of p] in \<open>fastforce simp: standing_def disk_remove_files(1, 2)\<close>)+

interpretation disk_files: durable_files "store_at name (disk_env sha256 depth)" dk_files dk_older dk_fired
  for name sha256 depth
proof unfold_locales
  let ?st = "store_at name (disk_env sha256 depth)"
  show "distinct [cs_path ?st, cs_backup_path ?st, cs_backup_temp_path ?st, cs_temp_path ?st,
      cs_journal_path ?st, cs_journal_temp_path ?st]"
    by (simp add: store_at_def)
  show "triple (standing dk_files dk_older A F) m (\<lambda>_. standing dk_files dk_older A F) (\<lambda>_. upset dk_files dk_older dk_fired A)"
    if "m \<in> {se_ensure_parent (cs_env ?st) p, se_fsync_dir (cs_env ?st), se_acquire (cs_env ?st),
      se_release (cs_env ?st), se_hook (cs_env ?st) phase}" "\<And>f. F f \<Longrightarrow> A f" for A F m p phase
  proof -
    have "m = disk_touch" using that(1) by (auto simp: store_at_def disk_env_def)
    then show ?thesis
      unfolding disk_touch_def by (auto intro!: faulty_law simp: that(2) standing_def)
  qed
  show "triple dk_fired (se_release (cs_env ?st)) (\<lambda>_. dk_fired) (\<lambda>_. dk_fired)"
    by (auto simp: store_at_def disk_env_def disk_touch_def faulty_def triple_def Let_def
        split: list.splits option.splits fault.splits)
qed (simp_all add: store_at_def disk_env_def disk_exists_def disk_read_def disk_write_def disk_fsync_def disk_replace_def,
    (rule disk_unlink_law faulty_law; force simp: standing_def disk_create_def disk_flush_def disk_move_def
    change_dir_def split: option.splits)+)

section \<open>Power loss\<close>

lemma power_loss_keeps:
  assumes "power_loss d d'" and "\<And>f. f \<in> set (dk_files d # dk_older d) \<Longrightarrow> \<exists>v\<in>V. stores sha256 depth st v f"
  shows "\<exists>v\<in>V. stores sha256 depth st v (dk_files d')"
proof -
  obtain f where f: "f \<in> set (dk_files d # dk_older d)" "\<And>p. (case f p of None \<Rightarrow> dk_files d' p = None
      | Some (t, flushed) \<Rightarrow> \<exists>t'. dk_files d' p = Some (t', True) \<and> (flushed \<longrightarrow> t' = t))"
    using assms(1) by (auto simp: power_loss_def)
  obtain v where v: "v \<in> V" "stores sha256 depth st v f" using assms(2) [OF f(1)] by blast
  have same: "dk_files d' p = x" if "f p = x" "x = None \<or> (\<exists>t. x = Some (t, True))" for p x
    using f(2) [of p] that by auto
  have rec: "dk_files d' p = on_disk u" if "f p = on_disk u" for p u
    using same [OF that] by (cases u) (auto simp: on_disk_def)
  have "stores sha256 depth st v (dk_files d')"
    using v(2) same rec unfolding stores_def backup_fine_def resting_def staged_def placed_def by fastforce
  with v(1) show ?thesis by blast
qed

definition disk_holds :: "(string \<Rightarrow> string) \<Rightarrow> nat \<Rightarrow> disk config_store \<Rightarrow> store_record option set \<Rightarrow> disk \<Rightarrow> bool" where
  "disk_holds sha256 depth st V d \<longleftrightarrow> (\<forall>f\<in>set (dk_files d # dk_older d). \<exists>v\<in>V. stores sha256 depth st v f)"

lemma disk_holds_standing:
  "disk_holds sha256 depth st V d \<longleftrightarrow> standing dk_files dk_older (\<lambda>f. \<exists>v\<in>V. stores sha256 depth st v f) (\<lambda>f. \<exists>v\<in>V. stores sha256 depth st v f) d"
  by (simp add: disk_holds_def standing_def)

lemma power_loss_holds:
  assumes "power_loss d d'" and "disk_holds sha256 depth st V d"
  shows "disk_holds sha256 depth st V d'"
proof -
  have "\<exists>v\<in>V. stores sha256 depth st v (dk_files d')"
    by (rule power_loss_keeps [OF assms(1)]) (use assms(2) in \<open>auto simp: disk_holds_def\<close>)
  then show ?thesis using assms(1) by (simp add: disk_holds_def power_loss_def)
qed

lemma loaded_total: "\<exists>s. loaded_value st v = Inr s"
  using default_bytes by (cases v) (auto simp: loaded_value_def default_stored_def of_config_def)

lemma mk_store: "mk_ConfigStore name env = Inr st \<Longrightarrow> st = store_at name env"
  by (simp add: mk_ConfigStore_def split: if_splits)

lemma disk_env_simps [simp]:
  "se_sha256 (cs_env (store_at name (disk_env sha256 depth))) = sha256" "se_depth (cs_env (store_at name (disk_env sha256 depth))) = depth"
  by (simp_all add: store_at_def disk_env_def)

text \<open>Loading from a directory that holds one value, without further failures.\<close>

lemma load_after:
  assumes "mk_ConfigStore name (disk_env sha256 depth) = Inr st" and "1 \<le> depth"
    and "disk_holds sha256 depth st {v} d" and "loaded_value st v = Inr s"
  shows "\<exists>x d'. store_load st False d = (x, d') \<and> (x = Inr s \<or> dk_fired d') \<and> disk_holds sha256 depth st {v} d'"
proof -
  have st: "st = store_at name (disk_env sha256 depth)" by (rule mk_store [OF assms(1)])
  have law: "triple (standing dk_files dk_older (stores sha256 depth st v) (stores sha256 depth st v)) (store_load st False)
      (\<lambda>x w. x = s \<and> standing dk_files dk_older (stores sha256 depth st v) (stores sha256 depth st v) w)
      (\<lambda>_. upset dk_files dk_older dk_fired (stores sha256 depth st v))"
    using disk_files.load_law [of name sha256 depth v s False "stores sha256 depth st v"] assms(2, 4) by (simp add: st)
  obtain x d' where out: "store_load st False d = (x, d')" by (cases "store_load st False d")
  have pre: "standing dk_files dk_older (stores sha256 depth st v) (stores sha256 depth st v) d"
    using assms(3) by (auto simp: disk_holds_def standing_def)
  show ?thesis
    using triple_Inr [OF law pre] triple_Inl [OF law pre] out
    by (cases x) (auto simp: disk_holds_def upset_def standing_def)
qed

lemma save_on_disk:
  assumes "mk_ConfigStore name (disk_env sha256 depth) = Inr st" and "\<And>x. is_digest (sha256 x)" and "5 \<le> depth"
    and "config_ok c" and "disk_holds sha256 depth st {v} d" and "next_record sha256 v c t = Inr n"
    and "g = None \<or> g = Some (generation_of v)" and out: "store_save st c g t d = (out, d')"
  shows "disk_holds sha256 depth st {v, Some n} d'"
    and "(out = Inr (sr_stored n) \<and> disk_holds sha256 depth st {Some n} d' \<and>
         dk_files d' (cs_backup_path st) = on_disk v) \<or> (\<exists>e. out = Inl e) \<and> dk_fired d'"
proof -
  have st: "st = store_at name (disk_env sha256 depth)" by (rule mk_store [OF assms(1)])
  let ?A = "\<lambda>f. \<exists>u\<in>{v, Some n}. stores sha256 depth st u f"
  have law: "triple (standing dk_files dk_older ?A (stores sha256 depth st v)) (store_save st c g t)
      (\<lambda>s w. s = sr_stored n \<and> standing dk_files dk_older (stores sha256 depth st (Some n))
         (\<lambda>f. stores sha256 depth st (Some n) f \<and> f (cs_backup_path st) = on_disk v) w)
      (\<lambda>_. upset dk_files dk_older dk_fired ?A)"
    using disk_files.save_law [of c name sha256 depth v t n g ?A "stores sha256 depth st (Some n)"] assms(2-4, 6, 7)
    by (simp add: st)
  have pre: "standing dk_files dk_older ?A (stores sha256 depth st v) d"
    using assms(5) by (auto simp: disk_holds_def standing_def)
  show "disk_holds sha256 depth st {v, Some n} d'"
    using triple_Inr [OF law pre] triple_Inl [OF law pre] out
    by (cases out) (auto simp: disk_holds_def upset_def standing_def)
  show "(out = Inr (sr_stored n) \<and> disk_holds sha256 depth st {Some n} d' \<and>
         dk_files d' (cs_backup_path st) = on_disk v) \<or> (\<exists>e. out = Inl e) \<and> dk_fired d'"
    using triple_Inr [OF law pre] triple_Inl [OF law pre] out
    by (cases out) (auto simp: disk_holds_def upset_def standing_def)
qed

text \<open>Without planned failures none fires.\<close>

definition faultless :: "disk \<Rightarrow> bool" where
  "faultless d \<longleftrightarrow> dk_plan d = [] \<and> \<not> dk_fired d"

lemma faulty_faultless:
  "(\<And>d. faultless d \<Longrightarrow> faultless (snd (run d))) \<Longrightarrow> keeps faultless (faulty run partial)"
  by (rule keepsI) (force simp: faulty_def faultless_def)

lemma disk_faultless:
  "keeps faultless disk_touch" "keeps faultless (disk_exists p)" "keeps faultless (disk_read p)"
  "keeps faultless (disk_write p raw)" "keeps faultless (disk_fsync p)" "keeps faultless (disk_replace p q)"
  "keeps faultless (disk_unlink p)"
  unfolding disk_touch_def disk_exists_def disk_read_def disk_write_def disk_fsync_def disk_replace_def disk_unlink_def
  by (rule faulty_faultless; simp add: faultless_def disk_create_def disk_flush_def disk_move_def disk_remove_def
    change_dir_def split: option.splits)+

lemma env_faultless:
  assumes "st = store_at name (disk_env sha256 depth)"
  shows "keeps faultless (se_ensure_parent (cs_env st) p)" "keeps faultless (se_exists (cs_env st) p)"
    "keeps faultless (se_read (cs_env st) p)" "keeps faultless (se_write (cs_env st) p raw)"
    "keeps faultless (se_fsync (cs_env st) p)" "keeps faultless (se_replace (cs_env st) p q)"
    "keeps faultless (se_fsync_dir (cs_env st))" "keeps faultless (se_unlink (cs_env st) p)"
    "keeps faultless (se_acquire (cs_env st))" "keeps faultless (se_release (cs_env st))"
  using disk_faultless by (simp_all add: assms store_at_def disk_env_def)

lemma lift_faultless: "keeps J (lift_result r)"
  by (auto simp: keeps_def triple_def lift_result_def split: sum.splits)

lemma load_faultless:
  assumes "st = store_at name (disk_env sha256 depth)"
  shows "keeps faultless (store_load st require_existing)"
  unfolding store_load_def prepared_def under_lock_def store_recover_def recover_journal_def read_record_if_present_def
    read_if_present_def recover_without_journal_def clean_residue_def replace_synced_def write_synced_def
  by (intro keep_intros env_faultless [OF assms] lift_faultless)

lemma hook_faultless: "st = store_at name (disk_env sha256 depth) \<Longrightarrow> keeps faultless (checkpoint_hook st x)"
  using disk_faultless by (simp add: checkpoint_hook_def store_at_def disk_env_def)

lemma save_faultless:
  assumes "st = store_at name (disk_env sha256 depth)"
  shows "keeps faultless (store_save st c g t)"
  unfolding store_save_def prepared_def under_lock_def store_recover_def recover_journal_def read_record_if_present_def
    read_if_present_def recover_without_journal_def clean_residue_def replace_synced_def write_synced_def commit_locked_def
    publish_def saved_config_def write_journal_def Let_def
  by (intro keep_intros env_faultless [OF assms] hook_faultless [OF assms] lift_faultless)

lemma load_succeeds:
  assumes "mk_ConfigStore name (disk_env sha256 depth) = Inr st" and "1 \<le> depth"
    and "disk_holds sha256 depth st {v} d" and "loaded_value st v = Inr s" and "dk_plan d = []" and "\<not> dk_fired d"
  shows "\<exists>d'. store_load st False d = (Inr s, d') \<and> disk_holds sha256 depth st {v} d'"
  using load_after [OF assms(1-4)] keepsD [OF load_faultless [OF mk_store [OF assms(1)]], of d] assms(5, 6)
  by (fastforce simp: faultless_def)

text \<open>C2: a save is atomic and durable.\<close>

theorem config_save_atomic:
  assumes "mk_ConfigStore name (disk_env sha256 depth) = Inr st" and "\<And>x. is_digest (sha256 x)" and "5 \<le> depth"
    and "config_ok c" and "disk_holds sha256 depth st {v} d" and "next_record sha256 v c t = Inr n"
    and "g = None \<or> g = Some (generation_of v)"
    and "store_save st c g t d = (out, d1)" and "power_loss d1 d2" and "dk_plan d2 = []" and "\<not> dk_fired d2"
  shows "\<exists>s d3. store_load st False d2 = (Inr s, d3) \<and>
           (Inr s = loaded_value st v \<or> s = sr_stored n) \<and>
           (\<forall>s'. out = Inr s' \<longrightarrow> s' = s \<and> s = sr_stored n) \<and>
           (out = Inr (sr_stored n) \<or> dk_fired d1)"
proof -
  note save = save_on_disk [OF assms(1-8)]
  have held: "disk_holds sha256 depth st V d2" if "disk_holds sha256 depth st V d1" for V
    by (rule power_loss_holds [OF assms(9) that])
  have single: "\<exists>u\<in>V. disk_holds sha256 depth st {u} d2" if "disk_holds sha256 depth st V d2" for V
    using that assms(9) by (auto simp: disk_holds_def power_loss_def)
  obtain u where u: "u \<in> {v, Some n}" "disk_holds sha256 depth st {u} d2" "\<forall>s'. out = Inr s' \<longrightarrow> u = Some n"
    using single [OF held [OF save(1)]] single [OF held, of "{Some n}"] save(2) by (cases out) auto
  obtain s where s: "loaded_value st u = Inr s" using loaded_total by blast
  obtain d3 where load: "store_load st False d2 = (Inr s, d3)"
    using load_succeeds [OF assms(1) _ u(2) s assms(10, 11)] assms(3) by auto
  have new: "s = sr_stored n" if "u = Some n" using that s by (simp add: loaded_value_def)
  show ?thesis
  proof (intro exI conjI)
    show "store_load st False d2 = (Inr s, d3)" by (rule load)
    show "Inr s = loaded_value st v \<or> s = sr_stored n" using u(1) s new by auto
    show "\<forall>s'. out = Inr s' \<longrightarrow> s' = s \<and> s = sr_stored n" using u(3) save(2) new by auto
    show "out = Inr (sr_stored n) \<or> dk_fired d1" using save(2) by auto
  qed
qed

inductive store_reachable :: "(string \<Rightarrow> string) \<Rightarrow> nat \<Rightarrow> disk config_store \<Rightarrow> disk \<Rightarrow> bool"
  for sha256 depth st where
  fresh: "dk_files d = Map.empty \<Longrightarrow> dk_older d = [] \<Longrightarrow> store_reachable sha256 depth st d"
| planned: "store_reachable sha256 depth st d \<Longrightarrow> store_reachable sha256 depth st (d\<lparr>dk_plan := p, dk_fired := b\<rparr>)"
| loaded: "store_reachable sha256 depth st d \<Longrightarrow> store_load st require_existing d = (x, d') \<Longrightarrow> store_reachable sha256 depth st d'"
| saved: "store_reachable sha256 depth st d \<Longrightarrow> config_ok c \<Longrightarrow> store_save st c g t d = (x, d') \<Longrightarrow> store_reachable sha256 depth st d'"
| rolled_back: "store_reachable sha256 depth st d \<Longrightarrow> store_rollback_previous st g k s t d = (x, d') \<Longrightarrow> store_reachable sha256 depth st d'"
| powered_off: "store_reachable sha256 depth st d \<Longrightarrow> power_loss d d' \<Longrightarrow> store_reachable sha256 depth st d'"

lemma reachable_readable:
  assumes "store_reachable sha256 depth st d" and st: "st = store_at name (disk_env sha256 depth)"
    and "\<And>x. is_digest (sha256 x)" and "5 \<le> depth"
  shows "disk_holds sha256 depth st UNIV d"
  using assms(1)
proof (induction rule: store_reachable.induct)
  let ?R = "\<lambda>f. \<exists>v. stores sha256 depth st v f"
  have J: "disk_holds sha256 depth st UNIV = standing dk_files dk_older ?R ?R"
    by (simp add: fun_eq_iff disk_holds_standing)
  have readable: "disk_files.readable name sha256 depth = ?R"
    by (simp add: fun_eq_iff disk_files.readable_def st)
  note laws = disk_files.load_readable [of name sha256 depth] disk_files.save_readable [of _ name sha256 depth]
    disk_files.rollback_readable [of name sha256 depth]
  { case (fresh d)
    then have "stores sha256 depth st None (dk_files d)"
      by (auto simp: stores_def resting_def backup_fine_def on_disk_def valid_value_def)
    with fresh show ?case by (auto simp: disk_holds_def)
  next
    case (planned d p b)
    then show ?case by (simp add: disk_holds_def)
  next
    case (loaded d e x d')
    then show ?case
      using keepsD [OF laws(1)] assms(4) unfolding J readable by (simp add: st)
  next
    case (saved d c g t x d')
    then show ?case
      using keepsD [OF laws(2)] assms(3, 4) unfolding J readable by (simp add: st)
  next
    case (rolled_back d g k s t x d')
    then show ?case
      using keepsD [OF laws(3)] assms(3, 4) unfolding J readable by (simp add: st)
  next
    case (powered_off d d')
    then show ?case
      using power_loss_holds by blast
  }
qed

text \<open>C3: no sequence of operations, failures and power losses makes the store unreadable.\<close>

theorem store_never_unreadable:
  assumes "mk_ConfigStore name (disk_env sha256 depth) = Inr st" and "\<And>x. is_digest (sha256 x)" and "5 \<le> depth"
    and "store_reachable sha256 depth st d"
  shows "\<exists>s d'. store_load st False (d\<lparr>dk_plan := [], dk_fired := False\<rparr>) = (Inr s, d')"
proof -
  note st = mk_store [OF assms(1)]
  have held: "disk_holds sha256 depth st UNIV d" by (rule reachable_readable [OF assms(4) st assms(2, 3)])
  from held obtain v where v: "stores sha256 depth st v (dk_files d)" by (auto simp: disk_holds_def)
  obtain s where s: "loaded_value st v = Inr s" using loaded_total by blast
  let ?R = "\<lambda>f. \<exists>v. stores sha256 depth st v f" and ?d = "d\<lparr>dk_plan := [], dk_fired := False\<rparr>"
  have law: "triple (standing dk_files dk_older ?R (stores sha256 depth st v)) (store_load st False)
      (\<lambda>x w. x = s \<and> standing dk_files dk_older ?R (stores sha256 depth st v) w) (\<lambda>_. upset dk_files dk_older dk_fired ?R)"
    using disk_files.load_law [of name sha256 depth v s False ?R] assms(3) s by (auto simp: st)
  have pre: "standing dk_files dk_older ?R (stores sha256 depth st v) ?d"
    using held v by (auto simp: standing_def disk_holds_def)
  obtain x d' where out: "store_load st False ?d = (x, d')" by (cases "store_load st False ?d")
  have "faultless d'"
    using keepsD [OF load_faultless [OF st] _ out] by (simp add: faultless_def)
  with triple_Inr [OF law pre] triple_Inl [OF law pre] out show ?thesis
    by (cases x) (auto simp: upset_def faultless_def)
qed


section \<open>Rollback\<close>

lemma rollback_on_disk:
  assumes "mk_ConfigStore name (disk_env sha256 depth) = Inr st" and "\<And>x. is_digest (sha256 x)" and "5 \<le> depth"
    and "disk_holds sha256 depth st {Some r} d" and "dk_files d (cs_backup_path st) = on_disk (Some k)"
    and "valid_value sha256 depth (Some k)" and "valid_value sha256 depth (Some r)"
    and n: "next_record sha256 (Some r) (st_config (sr_stored k)) None = Inr n"
    and "st_generation (sr_stored k) = st_generation (sr_stored r) - 1"
    and out: "store_rollback_previous st (st_generation (sr_stored r)) (st_generation (sr_stored k))
      (st_checksum (sr_stored k)) (st_transaction (sr_stored r)) d = (out, d')"
  shows "disk_holds sha256 depth st {Some r, Some n} d'"
    and "out = Inr (sr_stored n) \<and> disk_holds sha256 depth st {Some n} d' \<or> (\<exists>e. out = Inl e) \<and> dk_fired d'"
proof -
  have st: "st = store_at name (disk_env sha256 depth)" by (rule mk_store [OF assms(1)])
  let ?A = "\<lambda>f. \<exists>u\<in>{Some r, Some n}. stores sha256 depth st u f"
  let ?F = "\<lambda>f. stores sha256 depth st (Some r) f \<and> f (cs_backup_path st) = on_disk (Some k)"
  have facts: "is_digest (st_checksum (sr_stored k))" "is_optional_digest (st_transaction (sr_stored r))"
    using assms(6, 7) decode_record_facts(6) [of sha256 depth "sr_raw k" k] decode_record_facts(7) [of sha256 depth "sr_raw r" r]
    by (simp_all add: valid_value_def)
  have law: "triple (standing dk_files dk_older ?A ?F) (store_rollback_previous st (st_generation (sr_stored r))
        (st_generation (sr_stored k)) (st_checksum (sr_stored k)) (st_transaction (sr_stored r)))
      (\<lambda>s w. s = sr_stored n \<and> standing dk_files dk_older (stores sha256 depth st (Some n))
         (\<lambda>f. stores sha256 depth st (Some n) f \<and> f (cs_backup_path st) = on_disk (Some k)) w)
      (\<lambda>_. upset dk_files dk_older dk_fired ?A)"
    using disk_files.rollback_law [of name sha256 depth r k n ?A "stores sha256 depth st (Some n)"] assms(2, 3, 6, 9) n facts
    by (simp add: st)
  have pre: "standing dk_files dk_older ?A ?F d"
    using assms(4, 5) by (auto simp: disk_holds_def standing_def)
  show "disk_holds sha256 depth st {Some r, Some n} d'"
    using triple_Inr [OF law pre] triple_Inl [OF law pre] out
    by (cases out) (auto simp: disk_holds_def upset_def standing_def)
  show "out = Inr (sr_stored n) \<and> disk_holds sha256 depth st {Some n} d' \<or> (\<exists>e. out = Inl e) \<and> dk_fired d'"
    using triple_Inr [OF law pre] triple_Inl [OF law pre] out
    by (cases out) (auto simp: disk_holds_def upset_def standing_def)
qed

text \<open>C8: a rollback undoes the save before it.\<close>

theorem config_rollback_restores:
  assumes "mk_ConfigStore name (disk_env sha256 depth) = Inr st" and "\<And>x. is_digest (sha256 x)" and "5 \<le> depth"
    and "config_ok c" and "disk_holds sha256 depth st {Some r} d" and "next_record sha256 (Some r) c t = Inr n"
    and "store_save st c (Some (st_generation (sr_stored r))) t d = (Inr s, d1)"
    and "next_record sha256 (Some n) (st_config (sr_stored r)) None = Inr m"
    and "store_rollback_previous st (st_generation s) (st_generation (sr_stored r)) (st_checksum (sr_stored r)) t d1 = (out, d2)"
  shows "st_config (sr_stored m) = st_config (sr_stored r) \<and> st_generation (sr_stored m) = st_generation (sr_stored r) + 2 \<and>
    disk_holds sha256 depth st {Some n, Some m} d2 \<and>
    (out = Inr (sr_stored m) \<and> disk_holds sha256 depth st {Some m} d2 \<or> (\<exists>e. out = Inl e) \<and> dk_fired d2)"
proof -
  note nf = next_record_facts [OF assms(6)] and mf = next_record_facts [OF assms(8)]
  have saved: "s = sr_stored n" "disk_holds sha256 depth st {Some n} d1" "dk_files d1 (cs_backup_path st) = on_disk (Some r)"
    using save_on_disk(2) [OF assms(1-6) _ assms(7)] by (auto simp: generation_of_def)
  have r: "valid_value sha256 depth (Some r)" using assms(5) by (auto simp: disk_holds_def stores_def)
  have n: "valid_value sha256 depth (Some n)" by (rule next_record_valid [OF assms(6, 4, 2, 3)])
  have out: "store_rollback_previous st (st_generation (sr_stored n)) (st_generation (sr_stored r)) (st_checksum (sr_stored r))
      (st_transaction (sr_stored n)) d1 = (out, d2)"
    using assms(9) saved(1) nf(5) by simp
  have "st_generation (sr_stored r) = st_generation (sr_stored n) - 1" using nf(4) by (simp add: generation_of_def)
  note undone = rollback_on_disk [OF assms(1-3) saved(2, 3) r n assms(8) this out]
  show ?thesis
    using undone mf(3, 4) nf(4) by (simp add: generation_of_def)
qed

section \<open>Witnesses\<close>

definition demo_store :: "disk config_store" where
  "demo_store = store_at ''config.json'' (disk_env (\<lambda>_. replicate 64 (CHR ''0'')) 5)"

text \<open>A disk whose tenth operation fails half-way, and the disk after a power loss that keeps the
  current directory.\<close>

definition demo_disk :: disk where
  "demo_disk = \<lparr>dk_files = Map.empty, dk_older = [],
     dk_plan = replicate 9 None @ [Some (Fault (SxOther RuntimeErr) (Some ''{''))], dk_fired = False\<rparr>"

definition settled :: "disk \<Rightarrow> disk" where
  "settled d = \<lparr>dk_files = \<lambda>p. map_option (\<lambda>x. (fst x, True)) (dk_files d p), dk_older = [], dk_plan = [], dk_fired = False\<rparr>"

lemma settled_loss: "power_loss d (settled d)" "dk_plan (settled d) = []" "\<not> dk_fired (settled d)"
  by (auto simp: power_loss_def settled_def split: option.splits)

lemma demo_digest: "is_digest (replicate 64 (CHR ''0''))"
  by code_simp

lemma demo_made: "mk_ConfigStore ''config.json'' (disk_env (\<lambda>_. replicate 64 (CHR ''0'')) 5) = Inr demo_store"
  by (simp add: mk_ConfigStore_def demo_store_def)

lemma demo_empty: "disk_holds sha256 depth st {None} demo_disk"
  by (auto simp: disk_holds_def demo_disk_def stores_def resting_def backup_fine_def on_disk_def valid_value_def)

lemma demo_next:
  assumes "0 \<le> generation_of v" and "generation_of v < max_generation"
  shows "\<exists>n. next_record (\<lambda>_. replicate 64 (CHR ''0'')) v default_config None = Inr n"
proof -
  obtain b where b: "canonical_config_bytes default_config = Inr b" using default_bytes by blast
  moreover from b obtain d where "config_to_dict default_config = Inr d"
    by (auto simp: canonical_config_bytes_def bindE_eq_Inr)
  ultimately show ?thesis
    using assms by (simp add: next_record_def record_bytes_def of_config_def)
qed

lemma demo_record: "\<exists>n. next_record (\<lambda>_. replicate 64 (CHR ''0'')) None default_config None = Inr n"
  by (rule demo_next) (simp_all add: generation_of_def max_generation_def)

lemma default_config_ok: "config_ok default_config"
  by (rule config_accepted [OF default_config_read])

theorem config_save_atomic_witness:
  "\<exists>s d3. store_load demo_store False (settled (snd (store_save demo_store default_config None None demo_disk))) = (Inr s, d3) \<and>
     (Inr s = loaded_value demo_store None \<or> st_config s = default_config \<and> st_generation s = 1)"
proof -
  obtain n where n: "next_record (\<lambda>_. replicate 64 (CHR ''0'')) None default_config None = Inr n" using demo_record by blast
  obtain out d1 where save: "store_save demo_store default_config None None demo_disk = (out, d1)" by fastforce
  have "config_ok default_config" by (rule default_config_ok)
  then obtain s d3 where "store_load demo_store False (settled d1) = (Inr s, d3)" "Inr s = loaded_value demo_store None \<or> s = sr_stored n"
    using config_save_atomic [OF demo_made demo_digest _ _ demo_empty n _ save settled_loss] by auto
  then show ?thesis
    using save next_record_facts(3, 4) [OF n] by (auto simp: generation_of_def)
qed

theorem store_never_unreadable_witness:
  "\<exists>s d'. store_load demo_store False
     ((settled (snd (store_save demo_store default_config None None demo_disk)))\<lparr>dk_plan := [], dk_fired := False\<rparr>) = (Inr s, d')"
proof -
  have "store_reachable (\<lambda>_. replicate 64 (CHR ''0'')) 5 demo_store demo_disk"
    by (rule fresh) (simp_all add: demo_disk_def)
  moreover have "config_ok default_config" by (rule default_config_ok)
  moreover obtain out d1 where save: "store_save demo_store default_config None None demo_disk = (out, d1)" by fastforce
  ultimately have "store_reachable (\<lambda>_. replicate 64 (CHR ''0'')) 5 demo_store (settled d1)"
    using settled_loss(1) by (blast intro: saved powered_off)
  with save show ?thesis
    using store_never_unreadable [OF demo_made demo_digest] by simp
qed

theorem config_rollback_restores_witness:
  "\<exists>(r :: store_record) n m s d1 out d2. st_config (sr_stored m) = default_config \<and> st_generation (sr_stored m) = 3 \<and>
     store_save demo_store (st_config (sr_stored r)) (Some 1) None \<lparr>dk_files = [''config.json'' \<mapsto> (sr_raw r, True)],
       dk_older = [], dk_plan = [], dk_fired = False\<rparr> = (Inr s, d1) \<and>
     store_rollback_previous demo_store 2 1 (st_checksum (sr_stored r)) None d1 = (out, d2) \<and>
     disk_holds (\<lambda>_. replicate 64 (CHR ''0'')) 5 demo_store {Some n, Some m} d2"
proof -
  let ?sha = "\<lambda>_. replicate 64 (CHR ''0'')"
  obtain r where r: "next_record ?sha None default_config None = Inr r" using demo_record by blast
  note rf = next_record_facts(3, 4) [OF r, unfolded generation_of_def, simplified]
  obtain n where n: "next_record ?sha (Some r) default_config None = Inr n"
    using demo_next [of "Some r"] rf by (auto simp: generation_of_def max_generation_def)
  note nf = next_record_facts(3, 4) [OF n, unfolded generation_of_def, simplified]
  obtain m where m: "next_record ?sha (Some n) default_config None = Inr m"
    using demo_next [of "Some n"] rf nf by (auto simp: generation_of_def max_generation_def)
  let ?d = "\<lparr>dk_files = [''config.json'' \<mapsto> (sr_raw r, True)], dk_older = [], dk_plan = [], dk_fired = False\<rparr>"
  have held: "disk_holds ?sha 5 demo_store {Some r} ?d"
    using next_record_valid [OF r default_config_ok demo_digest, of 5]
    by (simp add: disk_holds_def stores_def resting_def backup_fine_def on_disk_def demo_store_def store_at_def)
      (auto simp: valid_value_def)
  obtain x d1 where save: "store_save demo_store default_config (Some 1) None ?d = (x, d1)" by fastforce
  have st: "demo_store = store_at ''config.json'' (disk_env ?sha 5)" by (simp add: demo_store_def)
  have "faultless d1" using keepsD [OF save_faultless [OF st] _ save] by (simp add: faultless_def)
  then have x: "x = Inr (sr_stored n)"
    using save_on_disk(2) [OF demo_made demo_digest _ default_config_ok held n _ save] rf
    by (auto simp: faultless_def generation_of_def)
  obtain out d2 where undo: "store_rollback_previous demo_store 2 1 (st_checksum (sr_stored r)) None d1 = (out, d2)"
    by fastforce
  have fin: "st_config (sr_stored m) = default_config \<and> st_generation (sr_stored m) = 3 \<and>
      disk_holds ?sha 5 demo_store {Some n, Some m} d2"
    using config_rollback_restores [OF demo_made demo_digest _ default_config_ok held n _ _ , of "sr_stored n" d1 m out d2] save m undo x rf nf
    by simp
  show ?thesis
    by (rule exI [where x = r], rule exI [where x = n], rule exI [where x = m], rule exI [where x = "sr_stored n"],
        rule exI [where x = d1], rule exI [where x = out], rule exI [where x = d2]) (use fin save x undo rf in simp)
qed

end
