(* ===== verification/FileLock.thy ===== *)
theory FileLock
  imports Store
begin

text \<open>
  \<open>FileLock\<close> of \<open>src/rcm/config/store.py\<close> on Windows: the loop that takes the lock, with the clock,
  the stream and \<open>msvcrt\<close> as parameters, and that it ends.
\<close>

section \<open>The lock\<close>

record file_lock =
  fl_path :: string
  fl_timeout :: pyfloat
  fl_retry :: pyfloat

text \<open>The comparisons and the arithmetic of the lock on floats: every comparison with NaN is false.\<close>

fun below_zero :: "pyfloat \<Rightarrow> bool" where
  "below_zero (Finite t) = (t < 0)"
| "below_zero t = (t = NegInf)"

fun at_most_zero :: "pyfloat \<Rightarrow> bool" where
  "at_most_zero (Finite t) = (t \<le> 0)"
| "at_most_zero t = (t = NegInf)"

definition mk_FileLock :: "string \<Rightarrow> pyfloat \<Rightarrow> pyfloat \<Rightarrow> file_lock result" where
  "mk_FileLock path timeout_seconds retry_seconds =
     (if below_zero timeout_seconds \<or> at_most_zero retry_seconds then Inl ValueError
      else Inr \<lparr>fl_path = path, fl_timeout = timeout_seconds, fl_retry = retry_seconds\<rparr>)"

text \<open>\<open>time.monotonic() + self._timeout\<close>, and \<open>time.monotonic() >= deadline\<close>.\<close>

fun deadline_at :: "rat \<Rightarrow> pyfloat \<Rightarrow> pyfloat" where
  "deadline_at now (Finite t) = Finite (now + t)"
| "deadline_at now t = t"

fun deadline_reached :: "pyfloat \<Rightarrow> rat \<Rightarrow> bool" where
  "deadline_reached (Finite d) now = (d \<le> now)"
| "deadline_reached d now = (d = NegInf)"

text \<open>\<open>max(0.0, deadline - time.monotonic())\<close> and \<open>min(self._retry, ...)\<close>: \<open>max\<close> and \<open>min\<close> keep their first
  argument unless the second is greater or smaller.\<close>

fun time_left :: "pyfloat \<Rightarrow> rat \<Rightarrow> pyfloat" where
  "time_left (Finite d) now = Finite (max 0 (d - now))"
| "time_left PosInf now = PosInf"
| "time_left d now = Finite 0"

fun lock_pause :: "pyfloat \<Rightarrow> pyfloat \<Rightarrow> pyfloat" where
  "lock_pause (Finite r) (Finite t) = Finite (min r t)"
| "lock_pause PosInf t = t"
| "lock_pause retry t = retry"

text \<open>The stream, \<open>msvcrt\<close> and \<open>time\<close>. \<open>le_try\<close> is \<open>seek(0)\<close> and \<open>locking(LK_NBLCK)\<close>, \<open>le_unlock\<close>
  \<open>seek(0)\<close> and \<open>locking(LK_UNLCK)\<close>, \<open>le_initialise\<close> the byte written to an empty file.\<close>

record 'w lock_env =
  le_open :: "string \<Rightarrow> ('w, store_exn, unit) eff"
  le_empty :: "('w, store_exn, bool) eff"
  le_initialise :: "('w, store_exn, unit) eff"
  le_try :: "('w, store_exn, unit) eff"
  le_unlock :: "('w, store_exn, unit) eff"
  le_close :: "('w, store_exn, unit) eff"
  le_monotonic :: "'w \<Rightarrow> rat \<times> 'w"
  le_sleep :: "rat \<Rightarrow> ('w, store_exn, unit) eff"

text \<open>\<open>TimeoutError\<close> is an \<open>OSError\<close>.\<close>

definition is_os_error :: "store_exn \<Rightarrow> bool" where
  "is_os_error e = (case e of SxOs _ \<Rightarrow> True | SxTimeout \<Rightarrow> True | _ \<Rightarrow> False)"

text \<open>\<open>time.sleep\<close> refuses NaN and an infinite time.\<close>

fun lock_sleep :: "'w lock_env \<Rightarrow> pyfloat \<Rightarrow> ('w, store_exn, unit) eff" where
  "lock_sleep env (Finite t) = le_sleep env t"
| "lock_sleep env PosInf = throw (SxOther OverflowErr)"
| "lock_sleep env t = throw (SxOther ValueError)"

text \<open>The loop of \<open>acquire\<close>; \<open>None\<close> when it never ends.\<close>

partial_function (option) lock_loop ::
    "'w lock_env \<Rightarrow> pyfloat \<Rightarrow> pyfloat \<Rightarrow> 'w \<Rightarrow> ((store_exn + unit) \<times> 'w) option" where
  "lock_loop env retry deadline w =
     (case le_try env w of
        (Inr _, w1) \<Rightarrow> Some (Inr (), w1)
      | (Inl e, w1) \<Rightarrow>
          if \<not> is_os_error e then Some (Inl e, w1)
          else (case le_monotonic env w1 of (now, w2) \<Rightarrow>
            if deadline_reached deadline now then Some (Inl SxTimeout, w2)
            else (case le_monotonic env w2 of (later, w3) \<Rightarrow>
              case lock_sleep env (lock_pause retry (time_left deadline later)) w3 of
                (Inl e2, w4) \<Rightarrow> Some (Inl e2, w4)
              | (Inr _, w4) \<Rightarrow> lock_loop env retry deadline w4)))"

text \<open>The part of the context manager before its \<open>yield\<close>, with the \<open>finally\<close> that closes the
  stream when the lock was not taken, and the part after it.\<close>

definition closing :: "'w lock_env \<Rightarrow> store_exn \<Rightarrow> ('w, store_exn, unit) eff" where
  "closing env e = finally_do (throw e) (le_close env)"

definition lock_enter :: "file_lock \<Rightarrow> 'w lock_env \<Rightarrow> 'w \<Rightarrow> ((store_exn + unit) \<times> 'w) option" where
  "lock_enter lk env w =
     (case le_open env (fl_path lk) w of
        (Inl e, w1) \<Rightarrow> Some (Inl e, w1)
      | (Inr _, w1) \<Rightarrow>
          (case le_monotonic env w1 of (now, w2) \<Rightarrow>
           case andthen (le_empty env) (\<lambda>b. if b then le_initialise env else ret ()) w2 of
             (Inl e, w3) \<Rightarrow> Some (closing env e w3)
           | (Inr _, w3) \<Rightarrow>
               (case lock_loop env (fl_retry lk) (deadline_at now (fl_timeout lk)) w3 of
                  None \<Rightarrow> None
                | Some (Inl e, w4) \<Rightarrow> Some (closing env e w4)
                | Some (Inr _, w4) \<Rightarrow> Some (Inr (), w4))))"

definition lock_exit :: "'w lock_env \<Rightarrow> ('w, store_exn, unit) eff" where
  "lock_exit env = andthen (le_unlock env) (\<lambda>_. le_close env)"

section \<open>The lock is taken or refused in bounded time\<close>

text \<open>What \<open>time\<close> documents: the clock never goes back, and \<open>sleep\<close> returns no earlier than asked.\<close>

definition clock_advances :: "'w lock_env \<Rightarrow> ('w \<Rightarrow> rat) \<Rightarrow> bool" where
  "clock_advances env clock \<longleftrightarrow>
     (\<forall>w. fst (le_monotonic env w) = clock (snd (le_monotonic env w)) \<and> clock w \<le> clock (snd (le_monotonic env w)) \<and>
        clock w \<le> clock (snd (le_try env w))) \<and>
     (\<forall>t w w'. le_sleep env t w = (Inr (), w') \<longrightarrow> clock w + t \<le> clock w')"

lemma clock_rules:
  assumes "clock_advances env clock"
  shows "le_monotonic env w = (t, w') \<Longrightarrow> t = clock w' \<and> clock w \<le> clock w'"
    "le_try env w = (x, w') \<Longrightarrow> clock w \<le> clock w'"
    "le_sleep env r w = (Inr (), w') \<Longrightarrow> clock w + r \<le> clock w'"
  using assms unfolding clock_advances_def by (metis fst_conv snd_conv)+

text \<open>What one sleep of the loop achieves when the deadline is finite: it raises, or the clock has moved
  by the retry time, or the deadline has come.\<close>

lemma lock_sleep_moves:
  assumes "clock_advances env clock" and "\<not> at_most_zero retry"
    and "lock_sleep env (lock_pause retry (time_left (Finite d) (clock w))) w = (Inr (), w')"
  shows "d \<le> clock w' \<or> clock w + (case retry of Finite r \<Rightarrow> r | _ \<Rightarrow> 1) \<le> clock w'"
proof (cases retry)
  case (Finite r)
  then have "le_sleep env (min r (max 0 (d - clock w))) w = (Inr (), w')" "0 < r" using assms(2, 3) by auto
  then show ?thesis
    using clock_rules(3) [OF assms(1)] Finite by (fastforce simp: min_def max_def split: if_splits)
next
  case PosInf
  then have "clock w + max 0 (d - clock w) \<le> clock w'" using clock_rules(3) [OF assms(1)] assms(3) by simp
  then show ?thesis by (auto simp: max_def split: if_splits)
qed (use assms in \<open>auto simp: throw_def\<close>)

lemma lock_loop_returns:
  assumes "clock_advances env clock" and "\<not> at_most_zero retry"
    and "d - clock w \<le> of_nat n * (case retry of Finite r \<Rightarrow> r | _ \<Rightarrow> 1)"
  shows "lock_loop env retry (Finite d) w \<noteq> None"
  using assms(3)
proof (induction n arbitrary: w)
  case 0
  note rules = clock_rules [OF assms(1)]
  obtain x w1 where tr: "le_try env w = (x, w1)" by fastforce
  obtain now w2 where m: "le_monotonic env w1 = (now, w2)" by fastforce
  have "d \<le> now" using 0 rules(2) [OF tr] rules(1) [OF m] by simp
  then show ?case using tr m by (subst lock_loop.simps) (cases x; auto)
next
  case (Suc n)
  note rules = clock_rules [OF assms(1)]
  obtain x w1 where tr: "le_try env w = (x, w1)" by fastforce
  obtain now w2 where m: "le_monotonic env w1 = (now, w2)" by fastforce
  obtain later w3 where m2: "le_monotonic env w2 = (later, w3)" by fastforce
  obtain y w4 where s: "lock_sleep env (lock_pause retry (time_left (Finite d) later)) w3 = (y, w4)" by fastforce
  let ?r = "case retry of Finite r \<Rightarrow> r | _ \<Rightarrow> 1"
  have r: "0 < ?r" using assms(2) by (cases retry) auto
  have "d - clock w4 \<le> of_nat n * ?r" if "y = Inr ()"
  proof -
    have "d \<le> clock w4 \<or> clock w3 + ?r \<le> clock w4"
      using lock_sleep_moves [OF assms(1, 2)] s that rules(1) [OF m2] by simp
    moreover have "0 \<le> of_nat n * ?r" using r by simp
    moreover have "d - clock w \<le> of_nat n * ?r + ?r" using Suc.prems by (simp add: algebra_simps)
    ultimately show ?thesis
      using rules(2) [OF tr] rules(1) [OF m] rules(1) [OF m2] by auto
  qed
  note again = Suc.IH [OF this]
  show ?case
    using tr m m2 s again by (subst lock_loop.simps) (cases x; cases y; auto)
qed

text \<open>C9: taking the configuration lock ends, whatever the other holder does, for every finite timeout
  the constructor accepts and every retry time it accepts, NaN and infinity included.\<close>

theorem file_lock_returns:
  assumes "mk_FileLock path (Finite timeout_seconds) retry_seconds = Inr lk" and "clock_advances env clock"
  shows "\<exists>x w'. lock_enter lk env w = Some (x, w')"
proof -
  have lk: "fl_timeout lk = Finite timeout_seconds" "\<not> at_most_zero (fl_retry lk)"
    using assms(1) by (auto simp: mk_FileLock_def split: if_splits)
  have loop: "lock_loop env (fl_retry lk) (deadline_at now (fl_timeout lk)) v \<noteq> None" for now v
  proof -
    let ?r = "case fl_retry lk of Finite r \<Rightarrow> r | _ \<Rightarrow> 1"
    have r: "0 < ?r" using lk(2) by (cases "fl_retry lk") auto
    obtain n where "(now + timeout_seconds - clock v) / ?r \<le> of_nat n" using real_arch_simple by blast
    then have "now + timeout_seconds - clock v \<le> of_nat n * ?r" using r by (simp add: divide_le_eq)
    from lock_loop_returns [OF assms(2) lk(2) this] show ?thesis by (simp add: lk(1))
  qed
  have "lock_enter lk env w \<noteq> None"
    using loop unfolding lock_enter_def by (simp del: not_None_eq split: prod.split sum.split option.split)
  then show ?thesis by auto
qed

text \<open>A lock that another process never gives up, and a clock that only \<open>sleep\<close> moves.\<close>

definition busy_lock :: "rat lock_env" where
  "busy_lock = \<lparr>le_open = \<lambda>_. ret (), le_empty = ret False, le_initialise = ret (), le_try = throw (SxOs OsDenied),
     le_unlock = ret (), le_close = ret (), le_monotonic = \<lambda>w. (w, w), le_sleep = \<lambda>t w. (Inr (), w + t)\<rparr>"

theorem file_lock_returns_witness:
  "\<exists>x w'. lock_enter \<lparr>fl_path = ''config.json.lock'', fl_timeout = Finite 5, fl_retry = Finite (1 / 20)\<rparr> busy_lock 0 = Some (x, w')"
  by (rule file_lock_returns [where path = "''config.json.lock''" and timeout_seconds = 5 and retry_seconds = "Finite (1 / 20)" and clock = id])
    (simp_all add: mk_FileLock_def clock_advances_def busy_lock_def throw_def)

text \<open>The constructor accepts timeouts that are no bound at all: with an infinite timeout, or NaN, whose
  comparison with the clock is never true, the loop asks for ever for a lock that is never given up.
  The only caller uses the default of five seconds.\<close>

lemma unbounded_timeout_never_returns:
  assumes "timeout_seconds \<in> {PosInf, NaN}"
  shows "\<exists>lk. mk_FileLock path timeout_seconds (Finite (1 / 20)) = Inr lk \<and> lock_enter lk busy_lock w = None"
proof -
  let ?P = "\<lambda>env retry deadline v y. env = busy_lock \<longrightarrow> retry = Finite (1 / 20) \<longrightarrow> deadline \<notin> {PosInf, NaN}"
  have "?P env retry deadline v y" if "lock_loop env retry deadline v = Some y" for env retry deadline v y
  proof (rule lock_loop.raw_induct [where P = ?P, OF _ that])
    fix loop :: "rat lock_env \<Rightarrow> pyfloat \<Rightarrow> pyfloat \<Rightarrow> rat \<Rightarrow> ((store_exn + unit) \<times> rat) option"
    fix env retry deadline w y
    assume ih: "\<And>env retry deadline w y. loop env retry deadline w = Some y \<Longrightarrow> ?P env retry deadline w y"
    assume "(case le_try env w of
        (Inr _, w1) \<Rightarrow> Some (Inr (), w1)
      | (Inl e, w1) \<Rightarrow>
          if \<not> is_os_error e then Some (Inl e, w1)
          else (case le_monotonic env w1 of (now, w2) \<Rightarrow>
            if deadline_reached deadline now then Some (Inl SxTimeout, w2)
            else (case le_monotonic env w2 of (later, w3) \<Rightarrow>
              case lock_sleep env (lock_pause retry (time_left deadline later)) w3 of
                (Inl e2, w4) \<Rightarrow> Some (Inl e2, w4)
              | (Inr _, w4) \<Rightarrow> loop env retry deadline w4))) = Some y"
    then show "?P env retry deadline w y"
      using ih [of busy_lock "Finite (1 / 20)" PosInf "w + 1 / 20" y] ih [of busy_lock "Finite (1 / 20)" NaN w y]
      by (auto simp: busy_lock_def throw_def is_os_error_def)
  qed
  then have "lock_loop busy_lock (Finite (1 / 20)) timeout_seconds v = None" for v
    using assms by (metis option.exhaust)
  then show ?thesis
    using assms by (auto simp: mk_FileLock_def lock_enter_def busy_lock_def andthen_def ret_def)
qed

end
