(* ===== verification/IpRoundtrip.thy ===== *)
theory IpRoundtrip
  imports Schema JsonRoundtrip
begin

text \<open>
  Addresses read back. What \<open>ip_address\<close> accepts has a compressed text, and that text is accepted
  and names the same address; accepted IPv4 text is its own compressed form. The IPv6 part follows
  the reader: eight hextets, or the two ends around one run of zeros that was left out.
\<close>

section \<open>Splitting and joining\<close>

lemma join_split_on: "join [sep] (split_on sep s) = s"
proof (induction s)
  case (Cons c s)
  obtain w ws where w: "split_on sep s = w # ws" by (rule split_on_Cons_obtain)
  with Cons show ?case by (cases ws) (auto simp: join_def)
qed (simp add: join_def)

section \<open>IPv4\<close>

lemma octet_text:
  assumes "parse_octet s = Some v"
  shows "str_int (int v) = s" "v < 256"
proof -
  have s: "s \<noteq> []" "list_all is_digit s" "length s \<le> 3" "s = ''0'' \<or> hd s \<noteq> CHR ''0''" "decimal_value s = v" "v \<le> 255"
    using assms by (auto simp: parse_octet_def split: if_splits)
  have dg: "c = char_of (48 + (ord c - 48)) \<and> ord c - 48 < 10" if "is_digit c" for c
    using that ord_less_256 [of c] by (auto simp: is_digit_def ord_inject [symmetric])
  have zero: "c = CHR ''0'' \<longleftrightarrow> ord c - 48 = 0" if "is_digit c" for c
    using that by (auto simp: is_digit_def ord_inject [symmetric] ord_0)
  consider a where "s = [a]" | a b where "s = [a, b]" | a b c where "s = [a, b, c]"
    using s(1, 3) by (cases s; cases "tl s"; cases "tl (tl s)"; cases "tl (tl (tl s))") auto
  then show "str_int (int v) = s"
  proof cases
    case 1
    then show ?thesis
      using s(2, 5) dg [of a] by (simp add: str_int_def decimal_value_def digits_of_nat_rec [of v])
  next
    case 2
    then have d: "is_digit a" "is_digit b" "ord a - 48 \<noteq> 0" using s(2, 4) zero [of a] by auto
    define x y where "x = ord a - 48" and "y = ord b - 48"
    have xy: "x < 10" "y < 10" "0 < x" "a = char_of (48 + x)" "b = char_of (48 + y)"
      using dg [OF d(1)] dg [OF d(2)] d(3) by (auto simp: x_def y_def)
    have v: "v = x * 10 + y" using s(5) 2 by (simp add: decimal_value_def x_def y_def)
    show ?thesis
      unfolding v using xy 2 by (simp add: str_int_def nat_add_distrib nat_mult_distrib digits_of_nat_rec [of "x * 10 + y"] digits_of_nat_rec [of x])
  next
    case 3
    then have d: "is_digit a" "is_digit b" "is_digit c" "ord a - 48 \<noteq> 0" using s(2, 4) zero [of a] by auto
    define x y z where "x = ord a - 48" and "y = ord b - 48" and "z = ord c - 48"
    have xyz: "x < 10" "y < 10" "z < 10" "0 < x" "a = char_of (48 + x)" "b = char_of (48 + y)" "c = char_of (48 + z)"
      using dg [OF d(1)] dg [OF d(2)] dg [OF d(3)] d(4) by (auto simp: x_def y_def z_def)
    have v: "v = (x * 10 + y) * 10 + z" using s(5) 3 by (simp add: decimal_value_def x_def y_def z_def)
    define w where "w = x * 10 + y"
    have w: "w div 10 = x" "w mod 10 = y" "\<not> w < 10" using xyz by (simp_all add: w_def)
    show ?thesis
      unfolding v w_def [symmetric]
      using xyz 3 w by (simp add: str_int_def nat_add_distrib nat_mult_distrib digits_of_nat_rec [of "w * 10 + z"] digits_of_nat_rec [of w] digits_of_nat_rec [of x])
  qed
  show "v < 256" using s(6) by simp
qed

lemma octet_read: "v < 256 \<Longrightarrow> parse_octet (str_int (int v)) = Some v"
proof -
  assume v: "v < 256"
  have "length (digits_of_nat v) \<le> 3" using v by (intro digits_length) simp_all
  then show "parse_octet (str_int (int v)) = Some v"
    using v digits_digits [of v] digits_head [of v] decimal_digits [of v]
    by (auto simp: parse_octet_def str_int_def digits_of_nat_rec [of 0])
qed

lemma octet_plain: "c \<in> set (str_int (int v)) \<Longrightarrow> is_digit c"
  using digits_digits [of v] by (auto simp: str_int_def list_all_iff)

lemma ipv4_octets:
  fixes a b c d :: nat
  assumes "a < 256" "b < 256" "c < 256" "d < 256" and n: "n = ((a * 256 + b) * 256 + c) * 256 + d"
  shows "n div 256 ^ 3 mod 256 = a" "n div 256 ^ 2 mod 256 = b" "n div 256 ^ 1 mod 256 = c" "n div 256 ^ 0 mod 256 = d" "n < 2 ^ 32"
proof -
  have split: "(k * 256 + e) div 256 = k" "(k * 256 + e) mod 256 = e" if "e < 256" for k e :: nat using that by simp_all
  note d = split [OF assms(4), of "(a * 256 + b) * 256 + c", folded n]
  note c = split [OF assms(3), of "a * 256 + b", folded d(1)]
  note b = split [OF assms(2), of a, folded c(1)]
  have "n div 256 ^ 3 = n div 256 div 256 div 256" "n div 256 ^ 2 = n div 256 div 256"
    by (simp_all add: div_mult2_eq [symmetric])
  then show "n div 256 ^ 3 mod 256 = a" "n div 256 ^ 2 mod 256 = b" "n div 256 ^ 1 mod 256 = c" "n div 256 ^ 0 mod 256 = d"
    using d(2) c(2) b assms(1) by simp_all
  show "n < 2 ^ 32" using assms by simp
qed

text \<open>Accepted IPv4 text is its own compressed form.\<close>

lemma ipv4_text:
  assumes "parse_ipv4 s = Some n"
  shows "ip_compressed (IPv4 n) = s" "n < 2 ^ 32"
proof -
  obtain ws a b c d where ws: "split_on CHR ''.'' s = ws" "map parse_octet ws = [Some a, Some b, Some c, Some d]"
    "n = ((a * 256 + b) * 256 + c) * 256 + d"
    using assms by (auto simp: parse_ipv4_def split: list.splits option.splits)
  then obtain w1 w2 w3 w4 where w: "ws = [w1, w2, w3, w4]" "parse_octet w1 = Some a" "parse_octet w2 = Some b"
    "parse_octet w3 = Some c" "parse_octet w4 = Some d" by auto
  note o = octet_text [OF w(2)] octet_text [OF w(3)] octet_text [OF w(4)] octet_text [OF w(5)]
  note parts = ipv4_octets [OF o(2) o(4) o(6) o(8) ws(3)]
  have "join ''.'' (split_on CHR ''.'' s) = s" by (rule join_split_on)
  then show "ip_compressed (IPv4 n) = s"
    using parts o(1, 3, 5, 7) ws(1) w(1) by simp
  show "n < 2 ^ 32" by (rule parts(5))
qed
section \<open>IPv6\<close>

abbreviation hex_of :: "nat \<Rightarrow> char" where
  "hex_of k \<equiv> if k < 10 then char_of (48 + k) else char_of (87 + k)"

lemma hex_of_digit: "k < 16 \<Longrightarrow> is_hex (hex_of k) \<and> hex_digit_value (hex_of k) = k \<and> hex_of k \<notin> set '':./%''"
proof -
  assume "k < 16"
  then have "k = 0 \<or> k = 1 \<or> k = 2 \<or> k = 3 \<or> k = 4 \<or> k = 5 \<or> k = 6 \<or> k = 7 \<or> k = 8 \<or> k = 9 \<or> k = 10 \<or>
      k = 11 \<or> k = 12 \<or> k = 13 \<or> k = 14 \<or> k = 15" by presburger
  then show ?thesis
    by (elim disjE) (simp_all add: is_hex_def is_digit_def hex_digit_value_def ord_inject [symmetric], simp_all add: ord_def)
qed

lemma hextet_read:
  assumes "k < 65536"
  shows "parse_hextet (hex_text k) = Some k" "hex_text k \<noteq> []" "set (hex_text k) \<inter> set '':./%'' = {}"
proof -
  consider "k < 16" | "16 \<le> k" "k < 256" | "256 \<le> k" "k < 4096" | "4096 \<le> k" by linarith
  then have "parse_hextet (hex_text k) = Some k \<and> hex_text k \<noteq> [] \<and> set (hex_text k) \<inter> set '':./%'' = {}"
  proof cases
    case 1
    then show ?thesis using hex_of_digit [of k] by (simp add: hex_text_def parse_hextet_def hex_value_def)
  next
    case 2
    have "k = k div 16 * 16 + k mod 16" by simp
    moreover have "k div 16 < 16" "k mod 16 < 16" using 2 by auto
    ultimately show ?thesis
      using hex_of_digit [of "k div 16"] hex_of_digit [of "k mod 16"] 2
      by (simp add: hex_text_def parse_hextet_def hex_value_def)
  next
    case 3
    define a b c where "a = k div 256" and "b = k div 16 mod 16" and "c = k mod 16"
    define q where "q = k div 16"
    have "q div 16 = a" "q mod 16 = b" by (simp_all add: a_def b_def q_def div_mult2_eq [symmetric])
    moreover have "k = q * 16 + c" "q = q div 16 * 16 + q mod 16" by (simp_all add: c_def q_def)
    moreover have "a < 16" "b < 16" "c < 16" using 3 by (simp_all add: a_def b_def c_def less_mult_imp_div_less)
    ultimately have k: "(a * 16 + b) * 16 + c = k" "a < 16" "b < 16" "c < 16" by simp_all
    have "hex_text k = [hex_of a, hex_of b, hex_of c]" using 3 unfolding hex_text_def a_def b_def c_def Let_def by simp
    then show ?thesis
      using hex_of_digit [OF k(2)] hex_of_digit [OF k(3)] hex_of_digit [OF k(4)] k(1)
      by (simp add: parse_hextet_def hex_value_def)
  next
    case 4
    define a b c e where "a = k div 4096 mod 16" and "b = k div 256 mod 16" and "c = k div 16 mod 16" and "e = k mod 16"
    define q where "q = k div 16"
    define r where "r = q div 16"
    have "r div 16 < 16" using assms by (simp add: r_def q_def div_mult2_eq [symmetric] less_mult_imp_div_less)
    then have "r div 16 = a" "r mod 16 = b" "q mod 16 = c"
      by (simp_all add: a_def b_def c_def q_def r_def div_mult2_eq [symmetric])
    moreover have "k = q * 16 + e" "q = r * 16 + q mod 16" "r = r div 16 * 16 + r mod 16" by (simp_all add: e_def q_def r_def)
    moreover have "a < 16" "b < 16" "c < 16" "e < 16" by (simp_all add: a_def b_def c_def e_def)
    ultimately have k: "((a * 16 + b) * 16 + c) * 16 + e = k" "a < 16" "b < 16" "c < 16" "e < 16" by simp_all
    have "hex_text k = [hex_of a, hex_of b, hex_of c, hex_of e]" using 4 unfolding hex_text_def a_def b_def c_def e_def Let_def by simp
    then show ?thesis
      using hex_of_digit [OF k(2)] hex_of_digit [OF k(3)] hex_of_digit [OF k(4)] hex_of_digit [OF k(5)] k(1)
      by (simp add: parse_hextet_def hex_value_def)
  qed
  then show "parse_hextet (hex_text k) = Some k" "hex_text k \<noteq> []" "set (hex_text k) \<inter> set '':./%'' = {}" by simp_all
qed

definition zero_window :: "string list \<Rightarrow> nat \<Rightarrow> nat \<Rightarrow> bool" where
  "zero_window hs s l \<longleftrightarrow> s + l \<le> length hs \<and> (\<forall>j<l. hs ! (s + j) = ''0'')"

lemma best_run_window:
  assumes "best_run i rest (bs, bl) (cs, cl) = (s, l)" and "rest = drop i hs" and "i \<le> length hs"
    and "bl = 0 \<or> zero_window hs bs bl" and "cl = 0 \<or> cs + cl = i \<and> zero_window hs cs cl"
  shows "l = 0 \<or> zero_window hs s l"
  using assms
proof (induction rest arbitrary: i bs bl cs cl)
  case (Cons h rest)
  have i: "i < length hs" "hs ! i = h" "rest = drop (Suc i) hs"
    using Cons.prems(2) by (metis drop_eq_Nil list.distinct(1) not_le, metis Cons_nth_drop_Suc drop_eq_Nil list.distinct(1) list.sel(1) not_le,
        metis Cons_nth_drop_Suc drop_eq_Nil list.distinct(1) list.sel(3) not_le)
  show ?case
  proof (cases "h = ''0''")
    case True
    let ?c = "if cl = 0 then i else cs"
    have w: "zero_window hs ?c (cl + 1) \<and> ?c + (cl + 1) = Suc i"
      using Cons.prems(5) i True by (auto simp: zero_window_def less_Suc_eq)
    show ?thesis
      using Cons.IH [of "Suc i" "if bl < cl + 1 then ?c else bs" "if bl < cl + 1 then cl + 1 else bl" ?c "cl + 1"]
        Cons.prems(1, 4) True i w by (auto simp: Let_def split: if_splits)
  next
    case False
    then show ?thesis using Cons.IH [of "Suc i" bs bl 0 0] Cons.prems(1, 4) i by simp
  qed
qed auto
lemma hextets_value_read:
  "list_all (\<lambda>k. k < 65536) ks \<Longrightarrow> hextets_value acc (map hex_text ks) = Some (foldl (\<lambda>a k. a * 65536 + k) acc ks)"
  by (induction ks arbitrary: acc) (simp_all add: hextet_read)

lemma hex_text_0: "hex_text 0 = ''0''"
  by code_simp

lemma hex_text_zero: "k < 65536 \<Longrightarrow> hex_text k = ''0'' \<Longrightarrow> k = 0"
  using hextet_read(1) [of k] hextet_read(1) [of 0] by (simp add: hex_text_0)

definition ipv6_parts :: "string list \<Rightarrow> nat option" where
  "ipv6_parts parts = (case skip_positions parts of
      [] \<Rightarrow> if length parts \<noteq> 8 \<or> hd parts = [] \<or> last parts = [] then None else hextets_value 0 parts
    | [skip] \<Rightarrow>
        let hi = (if hd parts = [] then skip - 1 else skip);
            lo = (if last parts = [] then length parts - skip - 2 else length parts - skip - 1) in
        if hd parts = [] \<and> hi \<noteq> 0 \<or> last parts = [] \<and> lo \<noteq> 0 then None
        else if 8 < hi + lo + 1 then None
        else (case hextets_value 0 (take hi parts) of
            None \<Rightarrow> None
          | Some v \<Rightarrow> hextets_value (v * 65536 ^ (8 - (hi + lo))) (drop (length parts - lo) parts))
    | _ \<Rightarrow> None)"

lemma parse_joined:
  assumes "list_all (\<lambda>w. set w \<inter> set '':.'' = {}) parts" and "3 \<le> length parts" and "length parts \<le> 9"
  shows "parse_ipv6_digits (join '':'' parts) = ipv6_parts parts"
proof -
  have split: "split_on CHR '':'' (join '':'' parts) = parts"
    using assms by (intro split_on_join) (auto simp: list_all_iff)
  have ne: "join '':'' parts \<noteq> []"
    using assms(2) by (cases parts; cases "tl parts") (auto simp: join_def)
  have "last parts \<in> set parts" using assms(2) by (cases parts) simp_all
  then have "CHR ''.'' \<notin> set (last parts)" using assms(1) by (auto simp: list_all_iff)
  then show ?thesis
    using assms(2, 3) ne unfolding parse_ipv6_digits_def ipv6_parts_def split
    by (simp add: expand_ipv4_suffix_def)
qed

lemma filter_upt_single:
  assumes "m \<le> i" and "i < n" and "\<And>j. m \<le> j \<Longrightarrow> j < n \<Longrightarrow> P j \<longleftrightarrow> j = i"
  shows "filter P [m..<n] = [i]"
proof -
  have "[m..<n] = [m..<i] @ i # [Suc i..<n]" using assms(1, 2) using upt_add_eq_append [of m i "n - i"] upt_conv_Cons [of i n] by simp
  moreover have "filter P [m..<i] = []" "filter P [Suc i..<n] = []" "P i" using assms by (auto simp: filter_empty_conv)
  ultimately show ?thesis by simp
qed

lemma foldl_zeros: "foldl (\<lambda>a k. a * 65536 + k) x (replicate l 0) = (x * 65536 ^ l :: nat)"
  by (induction l arbitrary: x) simp_all

text \<open>A run of zeros left out between \<open>as\<close> and \<open>bs\<close>.\<close>

lemma gap_read:
  assumes "list_all (\<lambda>k. k < 65536) (as @ bs)" and "length as + l + length bs = 8" and "2 \<le> l"
    and parts: "parts = (if as = [] then [[]] else []) @ map hex_text as @ [[]] @ map hex_text bs @ (if bs = [] then [[]] else [])"
  shows "ipv6_parts parts = Some (foldl (\<lambda>a k. a * 65536 + k) 0 (as @ replicate l 0 @ bs))"
proof -
  let ?skip = "if as = [] then 1 else length as"
  have ne: "hex_text k \<noteq> []" if "k \<in> set as \<union> set bs" for k
    using that assms(1) hextet_read(2) by (auto simp: list_all_iff)
  have len: "length parts = length as + length bs + 1 + (if as = [] then 1 else 0) + (if bs = [] then 1 else 0)"
    unfolding parts by simp
  have skip: "skip_positions parts = [?skip]"
    unfolding skip_positions_def
  proof (rule filter_upt_single)
    show "1 \<le> ?skip" "?skip < length parts - 1" unfolding len by (cases as; cases bs; simp)+
    show "parts ! j = [] \<longleftrightarrow> j = ?skip" if "1 \<le> j" "j < length parts - 1" for j
      using that ne unfolding len parts
      by (cases "as = []"; cases "bs = []") (auto simp: nth_append nth_Cons' split: if_splits)
  qed
  have ends: "hd parts = [] \<longleftrightarrow> as = []" "last parts = [] \<longleftrightarrow> bs = []"
    using ne unfolding parts by (cases as; cases bs rule: rev_cases; simp)+
  have hi: "(if hd parts = [] then ?skip - 1 else ?skip) = length as" using ends by simp
  have lo: "(if last parts = [] then length parts - ?skip - 2 else length parts - ?skip - 1) = length bs"
    using ends unfolding len by (cases as; cases bs) simp_all
  have "take (length as) parts = map hex_text as" "drop (length parts - length bs) parts = map hex_text bs"
    unfolding len unfolding parts by (cases as; cases bs; simp)+
  moreover have "8 - (length as + length bs) = l" using assms(2) by simp
  ultimately show ?thesis
    unfolding ipv6_parts_def skip list.case Let_def hi lo
    using assms ends hextets_value_read by (simp add: foldl_zeros)
qed

lemma zero_run:
  assumes "length ks = 8" and "list_all (\<lambda>k. k < 65536) ks" and "zero_window (map hex_text ks) s l"
  shows "ks = take s ks @ replicate l 0 @ drop (s + l) ks" and "s + l \<le> 8"
proof -
  show sl: "s + l \<le> 8" using assms(1, 3) by (simp add: zero_window_def)
  have "take l (drop s ks) = replicate l 0"
  proof (rule replicate_eqI)
    show "length (take l (drop s ks)) = l" using sl assms(1) by simp
    show "y = 0" if y: "y \<in> set (take l (drop s ks))" for y
    proof -
      obtain i where i: "i < l" "y = ks ! (s + i)" using y sl assms(1) by (auto simp: in_set_conv_nth)
      then have "hex_text y = ''0''" "y < 65536" using assms sl by (auto simp: zero_window_def list_all_iff)
      then show ?thesis by (intro hex_text_zero)
    qed
  qed
  then show "ks = take s ks @ replicate l 0 @ drop (s + l) ks"
    by (metis add.commute append_take_drop_id drop_drop)
qed

lemma compressed_read:
  assumes "length ks = 8" and "list_all (\<lambda>k. k < 65536) ks"
  shows "parse_ipv6_digits (join '':'' (compress_hextets (map hex_text ks))) = Some (foldl (\<lambda>a k. a * 65536 + k) 0 ks)"
proof -
  let ?hs = "map hex_text ks"
  have ne: "list_all (\<lambda>w. w \<noteq> [] \<and> set w \<inter> set '':.'' = {}) ?hs"
    using assms(2) hextet_read(2, 3) by (fastforce simp: list_all_iff)
  obtain s l where run: "best_run 0 ?hs (0, 0) (0, 0) = (s, l)" by fastforce
  have win: "l = 0 \<or> zero_window ?hs s l" using best_run_window [OF run] by simp
  show ?thesis
  proof (cases "l \<le> 1")
    case True
    then have c: "compress_hextets ?hs = ?hs" by (simp add: compress_hextets_def run)
    have "skip_positions ?hs = []" using ne by (auto simp: skip_positions_def filter_empty_conv list_all_iff)
    moreover have "?hs \<noteq> []" using assms(1) by auto
    then have "hd ?hs \<in> set ?hs" "last ?hs \<in> set ?hs" by (rule hd_in_set, rule last_in_set)
    ultimately have "length ?hs = 8" "hd ?hs \<noteq> []" "last ?hs \<noteq> []" using ne assms(1) by (simp_all only: list_all_iff length_map not_False_eq_True)
    with \<open>skip_positions ?hs = []\<close> have "ipv6_parts ?hs = hextets_value 0 ?hs"
      unfolding ipv6_parts_def by (simp only: list.case simp_thms if_False)
    then show ?thesis
      using parse_joined [of ?hs] hextets_value_read [OF assms(2), of 0] ne assms(1) unfolding c by (simp add: list_all_iff)
  next
    case False
    then have w: "zero_window ?hs s l" "2 \<le> l" using win by auto
    note z = zero_run [OF assms w(1)]
    let ?as = "take s ks" and ?bs = "drop (s + l) ks"
    let ?parts = "(if ?as = [] then [[]] else []) @ map hex_text ?as @ [[]] @ map hex_text ?bs @ (if ?bs = [] then [[]] else [])"
    have "(s = 0) = (?as = [])" "(s + l = length ?hs) = (?bs = [])" using assms(1) z(2) by auto
    then have c: "compress_hextets ?hs = ?parts"
      using False unfolding compress_hextets_def run by (simp add: take_map drop_map)
    have small: "list_all (\<lambda>k. k < 65536) (?as @ ?bs)" "length ?as + l + length ?bs = 8"
      using assms z(2) by (auto simp: list_all_iff dest: in_set_takeD in_set_dropD)
    have "list_all (\<lambda>w. set w \<inter> set '':.'' = {}) ?parts"
      using small(1) hextet_read(3) by (fastforce simp: list_all_iff)
    moreover have "3 \<le> length ?parts" "length ?parts \<le> 9"
      using small(2) w(2) by (cases ?as; cases ?bs; simp)+
    ultimately show ?thesis
      using parse_joined gap_read [OF small w(2) refl] z(1) unfolding c by simp
  qed
qed
section \<open>An address reads back from its compressed form\<close>

lemma hexes_bound: "list_all is_hex s \<Longrightarrow> value_of_digits hex_digit_value 16 acc s < (acc + 1) * 16 ^ length s"
proof (induction s arbitrary: acc)
  case (Cons c s)
  have "hex_digit_value c < 16" using Cons.prems by (auto simp: is_hex_def hex_digit_value_def is_digit_def)
  then have "acc * 16 + hex_digit_value c + 1 \<le> (acc + 1) * 16" by simp
  then have "(acc * 16 + hex_digit_value c + 1) * 16 ^ length s \<le> (acc + 1) * 16 * 16 ^ length s" by (rule mult_right_mono) simp
  then have "value_of_digits hex_digit_value 16 (acc * 16 + hex_digit_value c) s < (acc + 1) * (16 * 16 ^ length s)"
    using Cons.IH [of "acc * 16 + hex_digit_value c"] Cons.prems unfolding mult.assoc [symmetric] by (auto intro: less_le_trans)
  then show ?case by simp
qed simp

lemma hextet_bound: "parse_hextet s = Some v \<Longrightarrow> v < 65536"
proof -
  assume "parse_hextet s = Some v"
  then have "v < 16 ^ length s" "length s \<le> 4"
    using hexes_bound [of s 0] by (auto simp: parse_hextet_def hex_value_def split: if_splits)
  then have "v < 16 ^ 4" by (meson less_le_trans one_le_numeral power_increasing)
  then show "v < 65536" by simp
qed

lemma hextets_bound: "hextets_value acc hs = Some v \<Longrightarrow> v < (acc + 1) * 65536 ^ length hs"
proof (induction hs arbitrary: acc)
  case (Cons h hs)
  then obtain w where w: "parse_hextet h = Some w" "hextets_value (acc * 65536 + w) hs = Some v" by (auto split: option.splits)
  have "acc * 65536 + w + 1 \<le> (acc + 1) * 65536" using hextet_bound [OF w(1)] by simp
  then have "(acc * 65536 + w + 1) * 65536 ^ length hs \<le> (acc + 1) * 65536 * 65536 ^ length hs" by (rule mult_right_mono) simp
  from less_le_trans [OF Cons.IH [OF w(2)] this] have "v < (acc + 1) * (65536 * 65536 ^ length hs)"
    unfolding mult.assoc .
  then show ?case by simp
qed simp

lemma ipv6_bound:
  assumes "parse_ipv6_digits s = Some n"
  shows "n < 65536 ^ 8"
proof -
  obtain parts where p: "expand_ipv4_suffix (split_on CHR '':'' s) = Some parts" "ipv6_parts parts = Some n"
    using assms by (auto simp: parse_ipv6_digits_def ipv6_parts_def split: if_splits option.splits)
  consider "hextets_value 0 parts = Some n" "length parts = 8"
    | hi lo v where "hi + lo \<le> 7" "hextets_value 0 (take hi parts) = Some v"
      "hextets_value (v * 65536 ^ (8 - (hi + lo))) (drop (length parts - lo) parts) = Some n"
  proof (cases "skip_positions parts")
    case Nil
    then show ?thesis using p(2) that(1) by (auto simp: ipv6_parts_def split: if_splits)
  next
    case (Cons skip rest)
    define hi where "hi = (if hd parts = [] then skip - 1 else skip)"
    define lo where "lo = (if last parts = [] then length parts - skip - 2 else length parts - skip - 1)"
    have "rest = []" "\<not> 8 < hi + lo + 1"
      using p(2) Cons by (auto simp: ipv6_parts_def hi_def lo_def Let_def split: list.splits if_splits)
    then show ?thesis
      using p(2) Cons that(2) [of hi lo]
      by (auto simp: ipv6_parts_def hi_def [symmetric] lo_def [symmetric] Let_def split: if_splits option.splits)
  qed
  then show ?thesis
  proof cases
    case 1
    then show ?thesis using hextets_bound [of 0 parts n] by simp
  next
    case 2
    let ?z = "8 - (hi + lo)"
    have "v < 65536 ^ length (take hi parts)" using hextets_bound [OF 2(2)] by simp
    also have "\<dots> \<le> 65536 ^ hi" by (rule power_increasing) simp_all
    finally have "v * 65536 ^ ?z + 1 * 65536 ^ ?z \<le> 65536 ^ hi * 65536 ^ ?z"
      by (simp only: distrib_right [symmetric]) (rule mult_le_mono1, simp)
    moreover have "(1 :: nat) \<le> 65536 ^ ?z" by simp
    ultimately have v: "v * 65536 ^ ?z + 1 \<le> 65536 ^ (hi + ?z)" unfolding power_add by linarith
    have "n < (v * 65536 ^ ?z + 1) * 65536 ^ length (drop (length parts - lo) parts)" by (rule hextets_bound [OF 2(3)])
    also have "\<dots> \<le> 65536 ^ (hi + ?z) * 65536 ^ lo"
      by (rule mult_le_mono [OF v]) (rule power_increasing, simp_all)
    also have "\<dots> = 65536 ^ 8" using 2(1) by (simp add: power_add [symmetric])
    finally show ?thesis .
  qed
qed

lemma hextets_whole: "(n :: nat) < 65536 ^ Suc k \<Longrightarrow> foldl (\<lambda>a h. a * 65536 + h) 0 (map (\<lambda>i. n div 65536 ^ i mod 65536) (rev [0..<Suc k])) = n"
proof (induction k arbitrary: n)
  case (Suc k)
  have shift: "map (\<lambda>i. n div 65536 ^ i mod 65536) (rev [0..<Suc (Suc k)]) =
      map (\<lambda>i. n div 65536 div 65536 ^ i mod 65536) (rev [0..<Suc k]) @ [n mod 65536]"
    by (simp add: upt_conv_Cons [of 0] map_Suc_upt [symmetric] rev_map [symmetric] div_mult2_eq [symmetric] o_def del: upt_Suc)
  have "n div 65536 < 65536 ^ Suc k" using Suc.prems by (simp add: less_mult_imp_div_less mult.commute)
  from Suc.IH [OF this] show ?case unfolding shift by simp
qed simp

lemma compressed_chars: "c \<in> set (join '':'' (compress_hextets (hextets n))) \<Longrightarrow> c \<noteq> CHR ''.'' \<and> c \<noteq> CHR ''/'' \<and> c \<noteq> CHR ''%''"
proof -
  assume "c \<in> set (join '':'' (compress_hextets (hextets n)))"
  then have "c = CHR '':'' \<or> (\<exists>h\<in>set (hextets n). c \<in> set h)"
    using join_chars [of "CHR '':''" "compress_hextets (hextets n)"]
    by (fastforce simp: compress_hextets_def split: prod.splits if_splits dest: in_set_takeD in_set_dropD)
  then show ?thesis using hextet_read(3) by (fastforce simp: hextets_def)
qed

lemma partition_at_none: "sep \<notin> set s \<Longrightarrow> partition_at sep s = (s, False, [])"
  by (induction s) auto

lemma partition_at_first: "sep \<notin> set s \<Longrightarrow> partition_at sep (s @ sep # t) = (s, True, t)"
  by (induction s) auto

lemma partition_chars: "partition_at sep s = (a, b, t) \<Longrightarrow> set t \<subseteq> set s"
  by (induction s arbitrary: a b t) (auto split: if_splits prod.splits)

lemma split_on_prefix: "sep \<notin> set t \<Longrightarrow> \<exists>ws. split_on sep (t @ u) = (t @ hd (split_on sep u)) # ws"
proof (induction t)
  case Nil
  then show ?case by (cases "split_on sep u") auto
qed (auto split: list.split)

lemma ip_read_back:
  assumes "ip_address s = Some a"
  shows "ip_address (ip_compressed a) = Some a"
proof (cases a)
  case (IPv4 n)
  then have s: "parse_ipv4 s = Some n" "CHR ''/'' \<notin> set s"
    using assms by (auto simp: ip_address_def parse_ipv6_def split: if_splits option.splits prod.splits bool.splits)
  then show ?thesis using ipv4_text(1) [OF s(1)] IPv4 assms by simp
next
  case (IPv6 n scope)
  let ?t = "join '':'' (compress_hextets (hextets n))"
  have n: "n < 65536 ^ 8" and sc: "\<And>t. scope = Some t \<Longrightarrow> t \<noteq> [] \<and> CHR ''%'' \<notin> set t \<and> CHR ''/'' \<notin> set t"
    using assms IPv6 ipv6_bound
    by (auto simp: ip_address_def parse_ipv6_def split: if_splits option.splits prod.splits bool.splits dest: partition_chars)
  have "hextets n = map hex_text (map (\<lambda>i. n div 65536 ^ i mod 65536) (rev [0..<8]))"
    by (simp add: hextets_def upt_rec)
  moreover have "foldl (\<lambda>a h. a * 65536 + h) 0 (map (\<lambda>i. n div 65536 ^ i mod 65536) (rev [0..<8])) = n"
    using hextets_whole [of n 7] n by simp
  ultimately have d: "parse_ipv6_digits ?t = Some n"
    using compressed_read [of "map (\<lambda>i. n div 65536 ^ i mod 65536) (rev [0..<8])"] by (simp add: list_all_iff)
  note chars = compressed_chars [of _ n]
  have colon: "CHR '':'' \<in> set ?t"
  proof (rule ccontr)
    assume "CHR '':'' \<notin> set ?t"
    then show False using d split_on_word by (simp add: parse_ipv6_digits_def split: if_splits)
  qed
  have first: "\<exists>ws. split_on CHR ''.'' (?t @ u) = (?t @ hd (split_on CHR ''.'' u)) # ws" for u
    using chars by (intro split_on_prefix) blast
  have no4: "parse_ipv4 (?t @ u) = None" for u
  proof -
    have "parse_octet (?t @ w) = None" for w
    proof -
      have "\<not> is_digit (CHR '':'')" by (simp add: is_digit_def ord_def)
      moreover have "CHR '':'' \<in> set (?t @ w)" using colon by simp
      ultimately have "\<not> list_all is_digit (?t @ w)" by (metis list_all_iff)
      then show ?thesis unfolding parse_octet_def by (simp only: if_True disj_assoc simp_thms)
    qed
    then show ?thesis using first [of u] by (auto simp: parse_ipv4_def split: list.splits)
  qed
  show ?thesis
  proof (cases scope)
    case None
    have "CHR ''/'' \<notin> set ?t" "partition_at CHR ''%'' ?t = (?t, False, [])" using chars by (auto intro: partition_at_none)
    then show ?thesis using None IPv6 no4 [of "[]"] d by (simp add: ip_address_def parse_ipv6_def)
  next
    case (Some t)
    have "CHR ''/'' \<notin> set (?t @ CHR ''%'' # t)" "partition_at CHR ''%'' (?t @ CHR ''%'' # t) = (?t, True, t)"
      using chars sc [OF Some] by (auto intro: partition_at_first)
    then show ?thesis using Some IPv6 no4 [of "CHR ''%'' # t"] d sc [OF Some] by (simp add: ip_address_def parse_ipv6_def)
  qed
qed

end
