(* ===== verification/Latin1.thy ===== *)
theory Latin1
  imports Schema JsonRoundtrip Core
begin

text \<open>
  What the code uses of Python's \<open>str\<close> on text with code points up to 255 (CPython 3.12): white
  space, \<open>strip\<close>, the \<open>g\<close> format of a number, the text of a Windows path, and the
  text validator of \<open>src/rcm/ports.py\<close>.
\<close>

section \<open>White space\<close>

text \<open>\<open>str.strip\<close> on Latin-1.\<close>

definition is_space :: "char \<Rightarrow> bool" where
  "is_space c \<longleftrightarrow> 9 \<le> ord c \<and> ord c \<le> 13 \<or> 28 \<le> ord c \<and> ord c \<le> 32 \<or> ord c = 133 \<or> ord c = 160"

definition py_strip :: "string \<Rightarrow> string" where
  "py_strip s = rev (dropWhile is_space (rev (dropWhile is_space s)))"

section \<open>Numbers\<close>

text \<open>
  \<open>format(x, 'g')\<close> of a number that is not negative: six significant digits, rounded half to even,
  without trailing zeros, with an exponent below \<open>1e-4\<close> and from \<open>1e6\<close> on. The decimal exponent of a
  finite double lies between -324 and 308, so 400 steps are enough to find it.
\<close>

fun decimal_exponent :: "nat \<Rightarrow> rat \<Rightarrow> int" where
  "decimal_exponent 0 r = 0"
| "decimal_exponent (Suc fuel) r =
     (if r < 1 then decimal_exponent fuel (r * 10) - 1
      else if 10 \<le> r then decimal_exponent fuel (r / 10) + 1
      else 0)"

definition round_half_even :: "rat \<Rightarrow> int" where
  "round_half_even r =
     (let n = floor r; d = r - of_int n in
      if d < 1 / 2 then n else if 1 / 2 < d then n + 1 else if even n then n else n + 1)"

definition strip_zeros :: "string \<Rightarrow> string" where
  "strip_zeros s = rev (dropWhile (\<lambda>c. c = CHR ''0'') (rev s))"

definition with_fraction :: "string \<Rightarrow> string \<Rightarrow> string" where
  "with_fraction whole part = (if part = [] then whole else whole @ CHR ''.'' # part)"

definition format_g :: "rat \<Rightarrow> string" where
  "format_g r =
     (if r = 0 then ''0''
      else
        let e0 = decimal_exponent 400 r;
            q0 = round_half_even (if e0 \<le> 5 then r * 10 ^ nat (5 - e0) else r / 10 ^ nat (e0 - 5));
            e = (if 1000000 \<le> q0 then e0 + 1 else e0);
            ds = (if 1000000 \<le> q0 then ''100000'' else str_int q0) in
        if e < -4 \<or> 6 \<le> e
        then with_fraction (take 1 ds) (strip_zeros (drop 1 ds)) @ CHR ''e'' #
             (if e < 0 then CHR ''-'' else CHR ''+'') #
             (if abs e < 10 then CHR ''0'' # str_int (abs e) else str_int (abs e))
        else if 0 \<le> e
        then with_fraction (take (nat e + 1) ds) (strip_zeros (drop (nat e + 1) ds))
        else with_fraction ''0'' (strip_zeros (replicate (nat (- e) - 1) CHR ''0'' @ ds)))"

text \<open>
  \<open>int(raw)\<close> followed by \<open>str(port) != raw\<close>: only the text \<open>str\<close> itself writes for an integer is left.
\<close>

definition canonical_int :: "string \<Rightarrow> int option" where
  "canonical_int raw =
     (let digits = (\<lambda>s. s \<noteq> [] \<and> list_all is_digit s \<and> (hd s = CHR ''0'' \<longrightarrow> s = ''0'')) in
      if digits raw then Some (int (decimal_value raw))
      else if raw \<noteq> [] \<and> hd raw = CHR ''-'' \<and> digits (tl raw) \<and> tl raw \<noteq> ''0''
        then Some (- int (decimal_value (tl raw)))
      else None)"

lemma canonical_int_text: "0 \<le> n \<Longrightarrow> canonical_int (str_int n) = Some n"
proof -
  assume n: "0 \<le> n"
  define d where "d = digits_of_nat (nat n)"
  have t: "str_int n = d" using n by (simp add: str_int_def d_def)
  have zero: "d = ''0''" if "nat n = 0"
    unfolding d_def that by (subst digits_of_nat_rec) (simp add: ord_inject [symmetric], simp add: ord_def)
  have d: "d \<noteq> []" "list_all is_digit d" "hd d = CHR ''0'' \<longrightarrow> d = ''0''"
    using digits_digits [of "nat n"] digits_head [of "nat n"] zero unfolding d_def by blast+
  have "int (decimal_value d) = n" using decimal_digits [of "nat n"] n by (simp add: d_def)
  then show ?thesis unfolding t canonical_int_def Let_def using d by simp
qed

lemma str_int_digits: "0 \<le> n \<Longrightarrow> c \<in> set (str_int n) \<Longrightarrow> is_digit c"
  using digits_digits [of "nat n"] by (auto simp: str_int_def list_all_iff)

section \<open>Windows paths as text\<close>

text \<open>\<open>str(path)\<close>, also of a relative path.\<close>

definition wp_str :: "windows_path \<Rightarrow> string" where
  "wp_str p =
     (if wp_anchor p \<noteq> [] then wp_text p
      else let tail = (case wp_tail p of [] \<Rightarrow> [] | x # _ \<Rightarrow> if take 1 (drop 1 x) = '':'' then ''.'' # wp_tail p else wp_tail p) in
        if tail = [] then ''.'' else join [CHR 0x5C] tail)"

section \<open>Validated text (\<open>ports.py\<close>)\<close>

definition ports_safe_text :: "pyval \<Rightarrow> bool \<Rightarrow> string result" where
  "ports_safe_text v allow_empty =
     (case v of
        PStr s \<Rightarrow>
          (if s = [] \<and> \<not> allow_empty \<or> 4096 < length s then Inl ValueError
           else if has_control s then Inl ValueError
           else Inr s)
      | _ \<Rightarrow> Inl TypeError)"

end
