(* ===== verification/Rdp.thy ===== *)
theory Rdp
  imports IpRoundtrip Latin1 Effects Core
begin

text \<open>
  \<open>src/rcm/rdp.py\<close> and the credential references of \<open>src/rcm/ports.py\<close>: Remote Desktop requests,
  the launch plan with the bytes of its \<open>.rdp\<close> file, and the service that makes a plan. The
  credential store, the token source and the launcher are parameters. Addresses and targets read
  back, so an accepted request always passes the checks of the plan made from it.
\<close>

section \<open>Credential references (\<open>ports.py\<close>)\<close>

record credential_reference =
  crf_value :: string

definition mk_CredentialReference :: "pyval \<Rightarrow> credential_reference result" where
  "mk_CredentialReference v =
     (case v of
        PStr s \<Rightarrow>
          (if starts_with ''credential://'' s \<and> list_all credential_segment (split_on CHR ''/'' (drop 13 s))
           then Inr \<lparr>crf_value = s\<rparr> else Inl ValueError)
      | _ \<Rightarrow> Inl ValueError)"

record credential_target =
  crt_reference :: credential_reference
  crt_target :: string
  crt_principal :: string

definition mk_CredentialTarget :: "credential_reference \<Rightarrow> pyval \<Rightarrow> pyval \<Rightarrow> credential_target result" where
  "mk_CredentialTarget reference target user =
     bindE (ports_safe_text target False) (\<lambda>t.
     bindE (ports_safe_text user True) (\<lambda>p.
     Inr \<lparr>crt_reference = reference, crt_target = t, crt_principal = p\<rparr>))"

section \<open>Addresses and targets\<close>

definition rdp_plain :: "string \<Rightarrow> bool" where
  "rdp_plain s \<longleftrightarrow> s \<noteq> [] \<and> length s \<le> 253 \<and> CHR ''%'' \<notin> set s \<and>
     \<not> list_ex (\<lambda>c. ord c < 33 \<or> ord c = 127) s"

definition rdp_canonical :: "string \<Rightarrow> (string \<times> bool) result" where
  "rdp_canonical s =
     (case ip_address s of
        Some a \<Rightarrow> Inr (ip_compressed a, (case a of IPv4 _ \<Rightarrow> False | IPv6 _ _ \<Rightarrow> True))
      | None \<Rightarrow>
          let candidate = strip_dot s in
          if list_ex (\<lambda>l. \<not> host_label l) (split_on CHR ''.'' candidate) \<or> candidate = []
          then Inl ValueError
          else Inr (casefold candidate, False))"

definition rdp_address :: "pyval \<Rightarrow> (string \<times> bool) result" where
  "rdp_address v =
     (case v of PStr s \<Rightarrow> if rdp_plain s then rdp_canonical s else Inl ValueError | _ \<Rightarrow> Inl ValueError)"

definition rdp_port :: "pyval \<Rightarrow> int result" where
  "rdp_port v =
     (case v of PInt n \<Rightarrow> if 1 \<le> n \<and> n \<le> 65535 then Inr n else Inl ValueError | _ \<Rightarrow> Inl ValueError)"

definition rdp_principal_safe :: "string \<Rightarrow> bool" where
  "rdp_principal_safe s \<longleftrightarrow> length s \<le> 256 \<and> s = py_strip s \<and> \<not> has_control s"

definition rdp_host :: "string \<Rightarrow> bool \<Rightarrow> string" where
  "rdp_host address six = (if six then CHR ''['' # address @ '']'' else address)"

definition rdp_target_text :: "string \<Rightarrow> bool \<Rightarrow> int \<Rightarrow> string" where
  "rdp_target_text address six port = rdp_host address six @ CHR '':'' # str_int port"

text \<open>\<open>value.rsplit(':', 1)\<close>, when there is a colon.\<close>

definition rsplit_at :: "char \<Rightarrow> string \<Rightarrow> (string \<times> string) option" where
  "rsplit_at sep s =
     (case partition_at sep (rev s) of
        (b, found, a) \<Rightarrow> if found then Some (rev a, rev b) else None)"

definition split_target :: "string \<Rightarrow> (string \<times> string) option" where
  "split_target s =
     (if starts_with ''['' s
      then (case partition_at CHR '']'' (tl s) of
          (a, found, rest) \<Rightarrow> if found \<and> starts_with '':'' rest then Some (a, tl rest) else None)
      else rsplit_at CHR '':'' s)"

definition rdp_parse_target :: "pyval \<Rightarrow> (string \<times> string) result" where
  "rdp_parse_target v =
     (case v of
        PStr s \<Rightarrow>
          (case split_target s of
             None \<Rightarrow> Inl ValueError
           | Some (raw_address, raw_port) \<Rightarrow>
               (case canonical_int raw_port of
                  None \<Rightarrow> Inl ValueError
                | Some port \<Rightarrow>
                    bindE (rdp_address (PStr raw_address)) (\<lambda>(address, six).
                    bindE (rdp_port (PInt port)) (\<lambda>_.
                    Inr (address, rdp_target_text address six port)))))
      | _ \<Rightarrow> Inl ValueError)"

section \<open>Requests\<close>

record rdp_request =
  rr_address :: string
  rr_principal :: string
  rr_port :: int
  rr_credential_reference :: "credential_reference option"
  rr_redirect_clipboard :: bool

definition mk_RdpRequest ::
    "pyval \<Rightarrow> pyval \<Rightarrow> pyval \<Rightarrow> credential_reference option \<Rightarrow> pyval \<Rightarrow> rdp_request result" where
  "mk_RdpRequest address user port reference clipboard =
     bindE (rdp_address address) (\<lambda>(normalized, _).
     bindE (rdp_port port) (\<lambda>p.
     case user of
       PStr s \<Rightarrow>
         if \<not> rdp_principal_safe s then Inl ValueError
         else (case clipboard of
             PBool b \<Rightarrow> Inr \<lparr>rr_address = normalized, rr_principal = s, rr_port = p,
                 rr_credential_reference = reference, rr_redirect_clipboard = b\<rparr>
           | _ \<Rightarrow> Inl TypeError)
     | _ \<Rightarrow> Inl ValueError))"

definition rr_target :: "rdp_request \<Rightarrow> string result" where
  "rr_target r =
     bindE (rdp_address (PStr (rr_address r))) (\<lambda>(normalized, six).
     Inr (rdp_target_text normalized six (rr_port r)))"

definition rr_credential_target :: "rdp_request \<Rightarrow> string result" where
  "rr_credential_target r =
     bindE (rdp_address (PStr (rr_address r))) (\<lambda>(normalized, _). Inr (''TERMSRV/'' @ normalized))"

section \<open>The launch file\<close>

definition int_of_bool :: "bool \<Rightarrow> int" where
  "int_of_bool b = (if b then 1 else 0)"

definition rdp_lines :: "string \<Rightarrow> string \<Rightarrow> bool \<Rightarrow> bool \<Rightarrow> string list" where
  "rdp_lines target user prompt clipboard =
     [''screen mode id:i:2'', ''use multimon:i:0'', ''keyboardhook:i:0'', ''desktopwidth:i:1280'',
      ''desktopheight:i:720'', ''session bpp:i:32'', ''full address:s:'' @ target,
      ''prompt for credentials:i:'' @ str_int (int_of_bool prompt), ''authentication level:i:2'',
      ''enablecredsspsupport:i:1'', ''redirectclipboard:i:'' @ str_int (int_of_bool clipboard),
      ''drivestoredirect:s:'', ''devicestoredirect:s:'', ''usbdevicestoredirect:s:'',
      ''camerastoredirect:s:'', ''audiocapturemode:i:0'', ''redirectprinters:i:0'',
      ''redirectcomports:i:0'', ''redirectsmartcards:i:0'', ''redirectwebauthn:i:0'',
      ''redirectlocation:i:0''] @
     (if user \<noteq> [] then [''username:s:'' @ user] else [])"

definition crlf :: string where "crlf = [CHR 0x0D, CHR 0x0A]"

text \<open>UTF-16-LE of code points below 256.\<close>

definition utf16_le :: "string \<Rightarrow> string" where
  "utf16_le s = concat (map (\<lambda>c. [c, CHR 0x00]) s)"

definition rdp_bytes :: "string \<Rightarrow> string \<Rightarrow> bool \<Rightarrow> bool \<Rightarrow> string" where
  "rdp_bytes target user prompt clipboard =
     [CHR 0xFF, CHR 0xFE] @ utf16_le (join crlf (rdp_lines target user prompt clipboard) @ crlf)"

definition rdp_file_name :: "string \<Rightarrow> string" where
  "rdp_file_name token = ''rcm_rdp_'' @ token @ ''.rdp''"

definition rdp_token :: "string \<Rightarrow> bool" where
  "rdp_token s \<longleftrightarrow> length s = 32 \<and> list_all is_lower_hex s"

text \<open>\<open>rcm_rdp_[0-9a-f]{32}\.rdp\<close> with \<open>fullmatch\<close>.\<close>

definition rdp_file_name_ok :: "string \<Rightarrow> bool" where
  "rdp_file_name_ok s \<longleftrightarrow> starts_with ''rcm_rdp_'' s \<and> rdp_token (take 32 (drop 8 s)) \<and> drop 40 s = ''.rdp''"

section \<open>Launch plans and receipts\<close>

record rdp_plan =
  rp_target :: string
  rp_reference :: "credential_reference option"
  rp_credential_target :: string
  rp_principal :: string
  rp_prompt :: bool
  rp_clipboard :: bool
  rp_file_name :: string
  rp_file_bytes :: string

definition mk_RdpLaunchPlan ::
    "string \<Rightarrow> credential_reference option \<Rightarrow> string \<Rightarrow> string \<Rightarrow> bool \<Rightarrow> bool \<Rightarrow> string \<Rightarrow> string \<Rightarrow> rdp_plan result" where
  "mk_RdpLaunchPlan target reference credential user prompt clipboard file_name file_bytes =
     bindE (rdp_parse_target (PStr target)) (\<lambda>(address, canonical).
     if target \<noteq> canonical then Inl ValueError
     else if credential \<noteq> ''TERMSRV/'' @ address then Inl ValueError
     else if \<not> rdp_principal_safe user then Inl ValueError
     else if prompt \<noteq> (reference = None) then Inl ValueError
     else if \<not> rdp_file_name_ok file_name then Inl ValueError
     else if file_bytes \<noteq> rdp_bytes target user prompt clipboard then Inl ValueError
     else Inr \<lparr>rp_target = target, rp_reference = reference, rp_credential_target = credential,
       rp_principal = user, rp_prompt = prompt, rp_clipboard = clipboard,
       rp_file_name = file_name, rp_file_bytes = file_bytes\<rparr>)"

record rdp_receipt =
  rc_process_id :: "int option"
  rc_artifact_path :: string

definition mk_RdpLaunchReceipt :: "pyval \<Rightarrow> pyval \<Rightarrow> rdp_receipt result" where
  "mk_RdpLaunchReceipt pid path =
     bindE (case pid of PNone \<Rightarrow> Inr None | PInt n \<Rightarrow> if n \<le> 0 then Inl ValueError else Inr (Some n)
       | _ \<Rightarrow> Inl ValueError) (\<lambda>p.
     case path of
       PStr s \<Rightarrow> if s = [] then Inl ValueError else Inr \<lparr>rc_process_id = p, rc_artifact_path = s\<rparr>
     | _ \<Rightarrow> Inl ValueError)"

section \<open>The service\<close>

text \<open>
  The credential store, the token source and the launcher. A \<open>resolve\<close> that returns \<open>None\<close> is \<open>None\<close>.
\<close>

record 'w rdp_env =
  rd_contains :: "credential_reference \<Rightarrow> ('w, pyexn, bool) eff"
  rd_resolve :: "credential_reference \<Rightarrow> ('w, pyexn, credential_target option) eff"
  rd_token :: "('w, pyexn, pyval) eff"
  rd_launch :: "rdp_plan \<Rightarrow> ('w, pyexn, rdp_receipt) eff"
  rd_cleanup :: "rdp_receipt \<Rightarrow> ('w, pyexn, unit) eff"
  rd_cleanup_all :: "('w, pyexn, unit) eff"

definition or_unavailable :: "('w, pyexn, 'a) eff \<Rightarrow> ('w, pyexn, 'a) eff" where
  "or_unavailable m = on_raise m (\<lambda>e. throw (if is_exception e then RcmUnavailable else e))"

definition rdp_check_binding ::
    "'w rdp_env \<Rightarrow> rdp_request \<Rightarrow> credential_reference \<Rightarrow> ('w, pyexn, unit) eff" where
  "rdp_check_binding env r reference =
     andthen (or_unavailable (andthen (rd_contains env reference) (\<lambda>available.
       if available then rd_resolve env reference else ret None))) (\<lambda>found.
     case found of
       None \<Rightarrow> throw RcmUnavailable
     | Some b \<Rightarrow>
         if crt_reference b \<noteq> reference then throw RcmRejected
         else andthen (of_result (rr_credential_target r)) (\<lambda>target.
           if fold_text (crt_target b) \<noteq> fold_text target \<or>
              fold_text (crt_principal b) \<noteq> fold_text (rr_principal r)
           then throw RcmRejected else ret ()))"

definition rdp_plan_with :: "rdp_request \<Rightarrow> string \<Rightarrow> rdp_plan result" where
  "rdp_plan_with r token =
     (let reference = rr_credential_reference r; prompt = (reference = None) in
      bindE (rr_target r) (\<lambda>target.
      bindE (rr_credential_target r) (\<lambda>credential.
      mk_RdpLaunchPlan target reference credential (rr_principal r) prompt (rr_redirect_clipboard r)
        (rdp_file_name token) (rdp_bytes target (rr_principal r) prompt (rr_redirect_clipboard r)))))"

definition rdp_make_plan :: "'w rdp_env \<Rightarrow> rdp_request \<Rightarrow> ('w, pyexn, rdp_plan) eff" where
  "rdp_make_plan env r =
     andthen (case rr_credential_reference r of None \<Rightarrow> ret () | Some c \<Rightarrow> rdp_check_binding env r c) (\<lambda>_.
     andthen (or_unavailable (rd_token env)) (\<lambda>token.
     case token of
       PStr t \<Rightarrow> if rdp_token t then of_result (rdp_plan_with r t) else throw RcmUnavailable
     | _ \<Rightarrow> throw RcmUnavailable))"

definition rdp_launch :: "'w rdp_env \<Rightarrow> rdp_request \<Rightarrow> ('w, pyexn, rdp_receipt) eff" where
  "rdp_launch env r = andthen (rdp_make_plan env r) (rd_launch env)"

definition rdp_cleanup :: "'w rdp_env \<Rightarrow> rdp_receipt \<Rightarrow> ('w, pyexn, unit) eff" where
  "rdp_cleanup env receipt = rd_cleanup env receipt"

definition rdp_cleanup_all :: "'w rdp_env \<Rightarrow> ('w, pyexn, unit) eff" where
  "rdp_cleanup_all env = rd_cleanup_all env"

section \<open>Accepted addresses\<close>

lemma hextet_shape: "k < 65536 \<Longrightarrow> length (hex_text k) \<le> 4 \<and> list_all is_hex (hex_text k)"
  using hextet_read(1) [of k] by (auto simp: parse_hextet_def split: if_splits)

lemma hextets_shape: "h \<in> set (hextets n) \<Longrightarrow> length h \<le> 4 \<and> list_all is_hex h"
  unfolding hextets_def using hextet_shape by fastforce

lemma compressed_hex: "c \<in> set (join '':'' (compress_hextets (hextets n))) \<Longrightarrow> is_hex c \<or> c = CHR '':''"
proof -
  assume "c \<in> set (join '':'' (compress_hextets (hextets n)))"
  then have "c = CHR '':'' \<or> (\<exists>h\<in>set (hextets n). c \<in> set h)"
    using join_chars [of "CHR '':''" "compress_hextets (hextets n)"]
    by (fastforce simp: compress_hextets_def split: prod.splits if_splits dest: in_set_takeD in_set_dropD)
  then show ?thesis using hextets_shape by (fastforce simp: list_all_iff)
qed

text \<open>The length of a text joined by one character, counting one separator per part.\<close>

definition joined_size :: "string list \<Rightarrow> nat" where
  "joined_size xs = sum_list (map (\<lambda>x. Suc (length x)) xs)"

lemma joined_size_simps [simp]:
  "joined_size [] = 0" "joined_size (x # xs) = Suc (length x) + joined_size xs"
  "joined_size (xs @ ys) = joined_size xs + joined_size ys"
  by (simp_all add: joined_size_def)

lemma joined_size_parts: "joined_size (take i xs) \<le> joined_size xs" "joined_size (drop i xs) \<le> joined_size xs"
  using joined_size_simps(3) [of "take i xs" "drop i xs"] by simp_all

lemma length_join: "length (join [c] xs) \<le> joined_size xs"
  by (cases xs) (auto simp: join_def length_concat o_def joined_size_def)

lemma compressed_length: "length (join '':'' (compress_hextets (hextets n))) \<le> 83"
proof -
  let ?hs = "hextets n"
  have "joined_size ?hs \<le> sum_list (map (\<lambda>_. 5) ?hs)"
    unfolding joined_size_def by (rule sum_list_mono) (use hextets_shape in fastforce)
  then have h: "joined_size ?hs \<le> 40" by (simp add: hextets_def sum_list_replicate)
  obtain start m where run: "best_run 0 ?hs (0, 0) (0, 0) = (start, m)" by force
  have "joined_size (compress_hextets ?hs) \<le> 3 + 2 * joined_size ?hs"
    using joined_size_parts(1) [of start ?hs] joined_size_parts(2) [of "start + m" ?hs]
    by (auto simp: compress_hextets_def run)
  then show ?thesis using length_join [of "CHR '':''" "compress_hextets ?hs"] h by linarith
qed

lemma is_hex_plain: "is_hex c \<or> c = CHR '':'' \<Longrightarrow> 33 \<le> ord c \<and> ord c \<noteq> 127 \<and> c \<noteq> CHR ''%'' \<and> c \<noteq> CHR '']'' \<and> c \<noteq> CHR ''[''"
  by (auto simp: is_hex_def is_digit_def ord_def)

definition host_char :: "char \<Rightarrow> bool" where
  "host_char c \<longleftrightarrow> is_alnum c \<or> c = CHR ''-'' \<or> c = CHR ''.''"

lemma host_char_plain:
  "host_char c \<Longrightarrow> 33 \<le> ord c \<and> ord c \<noteq> 127 \<and> c \<notin> set ''%:[]/''"
  by (auto simp: host_char_def is_alnum_def is_lower_def is_upper_def is_digit_def ord_def)

lemma casefold_char_cases: "host_char (casefold_char c) \<longleftrightarrow> host_char c"
  "is_alnum (casefold_char c) \<longleftrightarrow> is_alnum c" "casefold_char c = CHR ''-'' \<longleftrightarrow> c = CHR ''-''" "casefold_char c = CHR ''.'' \<longleftrightarrow> c = CHR ''.''"
proof -
  show dash: "casefold_char c = CHR ''-'' \<longleftrightarrow> c = CHR ''-''" and dot: "casefold_char c = CHR ''.'' \<longleftrightarrow> c = CHR ''.''"
    by (auto simp: casefold_char_def is_upper_def ord_inject [symmetric], simp_all add: ord_def)
  show alnum: "is_alnum (casefold_char c) \<longleftrightarrow> is_alnum c"
    by (auto simp: casefold_char_def is_alnum_def is_lower_def is_upper_def is_digit_def)
  show "host_char (casefold_char c) \<longleftrightarrow> host_char c" by (simp add: host_char_def alnum dash dot)
qed

lemma host_label_casefold: "host_label (casefold s) \<longleftrightarrow> host_label s"
  by (cases s) (auto simp: host_label_def casefold_def casefold_char_cases list_all_iff last_map)

lemma split_on_casefold: "split_on CHR ''.'' (casefold s) = map casefold (split_on CHR ''.'' s)"
  by (induction s) (auto simp: casefold_def casefold_char_cases split: list.splits)

lemma host_text: "list_all host_label (split_on CHR ''.'' s) \<Longrightarrow> list_all host_char s"
proof -
  assume a: "list_all host_label (split_on CHR ''.'' s)"
  have "c = CHR ''.'' \<or> (\<exists>w\<in>set (split_on CHR ''.'' s). c \<in> set w)" if "c \<in> set s" for c
    using that join_chars [of "CHR ''.''" "split_on CHR ''.'' s"] join_split_on [of "CHR ''.''" s] by auto
  then show ?thesis using a by (fastforce simp: list_all_iff host_label_def host_char_def)
qed

lemma ip_of_host: "list_all host_char s \<Longrightarrow> ip_address s = Some a \<Longrightarrow> \<exists>n. a = IPv4 n \<and> ip_compressed a = s"
proof -
  assume h: "list_all host_char s" and a: "ip_address s = Some a"
  have "split_on CHR '':'' s = [s]" if "CHR '':'' \<notin> set s" for s using that by (induction s) auto
  then have "parse_ipv6_digits s = None" using h host_char_plain by (fastforce simp: parse_ipv6_digits_def list_all_iff)
  moreover have "partition_at CHR ''%'' s = (s, False, [])" using h host_char_plain by (intro partition_at_none) (auto simp: list_all_iff)
  ultimately have "parse_ipv6 s = None" by (simp add: parse_ipv6_def)
  then obtain n where "parse_ipv4 s = Some n" "a = IPv4 n"
    using a by (auto simp: ip_address_def split: option.splits if_splits)
  then show ?thesis using ipv4_text(1) by blast
qed

lemma strip_dot_label: "host_label (last (split_on CHR ''.'' t)) \<Longrightarrow> strip_dot t = t"
proof (cases t rule: rev_cases)
  case (snoc u c)
  assume h: "host_label (last (split_on CHR ''.'' t))"
  have "split_on CHR ''.'' (u @ [CHR ''.'']) = split_on CHR ''.'' u @ [[]]"
    by (induction u) (auto split: list.splits)
  then have "c \<noteq> CHR ''.''" using h snoc by (auto simp: host_label_def)
  then show ?thesis using snoc by (simp add: strip_dot_def)
qed (simp add: strip_dot_def)

text \<open>What an accepted address looks like, and that reading it again gives it back.\<close>

lemma rdp_canonical_host:
  assumes labels: "list_all host_label (split_on CHR ''.'' a)" and "a \<noteq> []" and fold: "casefold a = a"
  shows "rdp_canonical a = Inr (a, False)"
proof (cases "ip_address a")
  case (Some x)
  then show ?thesis using ip_of_host [OF host_text [OF labels] Some] by (auto simp: rdp_canonical_def)
next
  case None
  have "last (split_on CHR ''.'' a) \<in> set (split_on CHR ''.'' a)" by simp
  then have "host_label (last (split_on CHR ''.'' a))" using labels by (simp add: list_all_iff)
  then have "strip_dot a = a" by (rule strip_dot_label)
  moreover have "\<not> list_ex (\<lambda>l. \<not> host_label l) (split_on CHR ''.'' a)" using labels by (simp add: list_ex_iff list_all_iff)
  ultimately show ?thesis using assms(2) fold None by (simp add: rdp_canonical_def)
qed

lemma octets_host: "parse_ipv4 s = Some n \<Longrightarrow> list_all host_char s"
proof -
  assume p: "parse_ipv4 s = Some n"
  have "c = CHR ''.'' \<or> is_digit c" if "c \<in> set s" for c
  proof -
    have "c \<in> set (ip_compressed (IPv4 n))" using that ipv4_text(1) [OF p] by simp
    then show ?thesis
      using join_chars [of "CHR ''.''" "map (\<lambda>i. str_int (int (n div 256 ^ i mod 256))) [3, 2, 1, 0]"] octet_plain
      by fastforce
  qed
  then show ?thesis by (auto simp: list_all_iff host_char_def is_alnum_def)
qed

lemma ip_six_unscoped: "ip_address s = Some (IPv6 n scope) \<Longrightarrow> CHR ''%'' \<notin> set s \<Longrightarrow> scope = None"
  using partition_at_none [of "CHR ''%''" s]
  by (auto simp: ip_address_def parse_ipv6_def split: if_splits option.splits)

lemma join_not_Nil: "2 \<le> length xs \<Longrightarrow> join [c] xs \<noteq> []"
  by (cases xs; cases "tl xs") (auto simp: join_def)

lemma compressed_not_Nil: "join '':'' (compress_hextets (hextets n)) \<noteq> []"
proof -
  have len: "length (hextets n) = 8" by (simp add: hextets_def)
  obtain start m where run: "best_run 0 (hextets n) (0, 0) (0, 0) = (start, m)" by force
  have "2 \<le> length (compress_hextets (hextets n))"
    unfolding compress_hextets_def run using len by (auto simp: min_def)
  then show ?thesis by (rule join_not_Nil)
qed

definition rdp_shape :: "string \<Rightarrow> bool \<Rightarrow> bool" where
  "rdp_shape a six \<longleftrightarrow> a \<noteq> [] \<and> length a \<le> 253 \<and>
     (if six then \<forall>c\<in>set a. is_hex c \<or> c = CHR '':'' else list_all host_char a)"

lemma rdp_shape_chars: "rdp_shape a six \<Longrightarrow> c \<in> set a \<Longrightarrow> 33 \<le> ord c \<and> ord c \<noteq> 127 \<and> c \<noteq> CHR ''%'' \<and> c \<noteq> CHR '']'' \<and> c \<noteq> CHR ''[''"
  using is_hex_plain [of c] host_char_plain [of c] by (cases six) (auto simp: rdp_shape_def list_all_iff)

lemma rdp_shape_plain: "rdp_shape a six \<Longrightarrow> rdp_plain a"
proof -
  assume a: "rdp_shape a six"
  then have "a \<noteq> []" "length a \<le> 253" by (simp_all add: rdp_shape_def)
  moreover have "\<not> (ord c < 33 \<or> ord c = 127)" "c \<noteq> CHR ''%''" if "c \<in> set a" for c
    using rdp_shape_chars [OF a that] by simp_all
  ultimately show "rdp_plain a" by (auto simp: rdp_plain_def list_ex_iff)
qed

lemma rdp_canonical_shape:
  assumes plain: "rdp_plain s" and can: "rdp_canonical s = Inr (a, six)"
  shows "rdp_shape a six \<and> rdp_canonical a = Inr (a, six)"
proof (cases "ip_address s")
  case (Some x)
  then have a: "a = ip_compressed x" "ip_address a = Some x"
    using can ip_read_back [OF Some] by (auto simp: rdp_canonical_def)
  show ?thesis
  proof (cases x)
    case (IPv4 n)
    have p: "parse_ipv4 s = Some n"
      using Some IPv4 by (auto simp: ip_address_def parse_ipv6_def split: if_splits option.splits prod.splits bool.splits)
    have "a = s" using ipv4_text(1) [OF p] a(1) IPv4 by simp
    moreover have "\<not> six" using can Some IPv4 by (simp add: rdp_canonical_def)
    ultimately show ?thesis using can plain octets_host [OF p] by (simp add: rdp_shape_def rdp_plain_def)
  next
    case (IPv6 n scope)
    have "scope = None" using ip_six_unscoped [OF Some [unfolded IPv6]] plain by (simp add: rdp_plain_def)
    then have t: "a = join '':'' (compress_hextets (hextets n))" using a(1) IPv6 by simp
    have "\<forall>c\<in>set a. is_hex c \<or> c = CHR '':''" using compressed_hex by (simp add: t)
    moreover have "six" using can Some IPv6 by (simp add: rdp_canonical_def)
    moreover have "length a \<le> 253" using compressed_length [of n] by (simp add: t)
    ultimately have "rdp_shape a six" using compressed_not_Nil [of n] by (simp add: rdp_shape_def t)
    then show ?thesis using \<open>six\<close> a IPv6 by (simp add: rdp_canonical_def)
  qed
next
  case None
  then have h: "list_all host_label (split_on CHR ''.'' (strip_dot s))" "strip_dot s \<noteq> []"
    and a: "a = casefold (strip_dot s)" "\<not> six"
    using can None by (auto simp: rdp_canonical_def Let_def list_ex_iff list_all_iff split: if_splits)
  have labels: "list_all host_label (split_on CHR ''.'' a)"
    using h(1) by (simp add: a split_on_casefold list_all_iff host_label_casefold)
  have len: "a \<noteq> []" "length a \<le> 253" using h(2) plain by (auto simp: a casefold_def strip_dot_def rdp_plain_def)
  have "casefold a = a" by (simp add: a)
  from rdp_canonical_host [OF labels len(1) this] show ?thesis
    using len host_text [OF labels] a(2) by (simp add: rdp_shape_def)
qed

lemma rdp_address_shape:
  assumes "rdp_address v = Inr (a, six)"
  shows "rdp_shape a six" "rdp_address (PStr a) = Inr (a, six)"
proof -
  obtain s where s: "v = PStr s" "rdp_plain s" "rdp_canonical s = Inr (a, six)"
    using assms by (auto simp: rdp_address_def split: pyval.splits if_splits)
  note sh = rdp_canonical_shape [OF s(2, 3)]
  then show "rdp_shape a six" by blast
  with sh show "rdp_address (PStr a) = Inr (a, six)" by (simp add: rdp_address_def rdp_shape_plain)
qed

section \<open>Targets read back\<close>

lemma split_target_text:
  assumes "rdp_shape a six" and "0 \<le> port"
  shows "split_target (rdp_target_text a six port) = Some (a, str_int port)"
proof -
  have no_colon: "CHR '':'' \<notin> set (str_int port)"
    using str_int_digits [OF assms(2), of "CHR '':''"] by (auto simp: is_digit_def ord_def)
  show ?thesis
  proof (cases six)
    case True
    have "CHR '']'' \<notin> set a" using rdp_shape_chars [OF assms(1)] by blast
    then show ?thesis
      using True partition_at_first [of "CHR '']''" a "CHR '':'' # str_int port"]
      by (simp add: split_target_def rdp_target_text_def rdp_host_def)
  next
    case False
    obtain c r where a: "a = c # r" using assms(1) by (cases a) (auto simp: rdp_shape_def)
    have "c \<noteq> CHR ''[''" using rdp_shape_chars [OF assms(1), of c] a by simp
    then show ?thesis
      using False a no_colon partition_at_first [of "CHR '':''" "rev (str_int port)" "rev a"]
      by (simp add: split_target_def rdp_target_text_def rdp_host_def rsplit_at_def)
  qed
qed

lemma parse_target_text:
  assumes "rdp_address v = Inr (a, six)" and "rdp_port (PInt port) = Inr n"
  shows "rdp_parse_target (PStr (rdp_target_text a six port)) = Inr (a, rdp_target_text a six port)"
proof -
  have port: "1 \<le> port" "port \<le> 65535" "n = port" using assms(2) by (auto simp: rdp_port_def split: if_splits)
  then show ?thesis
    using split_target_text [OF rdp_address_shape(1) [OF assms(1)], of port] rdp_address_shape(2) [OF assms(1)]
      canonical_int_text [of port] assms(2)
    by (simp add: rdp_parse_target_def)
qed

section \<open>Plans of accepted requests\<close>

lemma rdp_request_shape:
  assumes "mk_RdpRequest address user port reference clipboard = Inr r"
  shows "\<exists>six. rdp_address (PStr (rr_address r)) = Inr (rr_address r, six) \<and>
      rr_target r = Inr (rdp_target_text (rr_address r) six (rr_port r)) \<and>
      rr_credential_target r = Inr (''TERMSRV/'' @ rr_address r) \<and>
      rdp_port (PInt (rr_port r)) = Inr (rr_port r) \<and> rdp_principal_safe (rr_principal r)"
proof -
  obtain a six p s b where v: "rdp_address address = Inr (a, six)" "rdp_port port = Inr p" "user = PStr s"
      "rdp_principal_safe s" "rr_address r = a" "rr_port r = p" "rr_principal r = s"
    using assms unfolding mk_RdpRequest_def
    by (cases user; cases clipboard) (auto simp: result_simps split: if_splits)
  moreover have "rdp_port (PInt p) = Inr p" using v(2) by (auto simp: rdp_port_def split: pyval.splits if_splits)
  ultimately show ?thesis
    using rdp_address_shape(2) [OF v(1)] by (auto simp: rr_target_def rr_credential_target_def)
qed

lemma file_name_ok: "rdp_token t \<Longrightarrow> rdp_file_name_ok (rdp_file_name t)"
proof -
  assume "rdp_token t"
  moreover have "starts_with xs (xs @ ys)" for xs ys by (induction xs) auto
  from this [of "''rcm_rdp_''" "t @ ''.rdp''"]
  have "starts_with ''rcm_rdp_'' (rdp_file_name t)" by (simp add: rdp_file_name_def)
  moreover have "drop 8 (rdp_file_name t) = t @ ''.rdp''" "drop 40 (rdp_file_name t) = drop 32 (t @ ''.rdp'')"
    by (simp_all add: rdp_file_name_def)
  ultimately show ?thesis by (simp add: rdp_file_name_ok_def rdp_token_def)
qed

text \<open>The plan of a request: nothing in it depends on anything but the request and the token.\<close>

definition plan_of :: "rdp_request \<Rightarrow> string \<Rightarrow> string \<Rightarrow> rdp_plan" where
  "plan_of r target token =
     \<lparr>rp_target = target, rp_reference = rr_credential_reference r,
      rp_credential_target = ''TERMSRV/'' @ rr_address r, rp_principal = rr_principal r,
      rp_prompt = (rr_credential_reference r = None), rp_clipboard = rr_redirect_clipboard r,
      rp_file_name = rdp_file_name token,
      rp_file_bytes = rdp_bytes target (rr_principal r) (rr_credential_reference r = None) (rr_redirect_clipboard r)\<rparr>"

lemma rdp_plan_with_request:
  assumes "mk_RdpRequest address user port reference clipboard = Inr r" and "rdp_token t"
    and "rr_target r = Inr target"
  shows "rdp_plan_with r t = Inr (plan_of r target t)"
proof -
  obtain six where s: "rdp_address (PStr (rr_address r)) = Inr (rr_address r, six)"
      "rr_target r = Inr (rdp_target_text (rr_address r) six (rr_port r))"
      "rr_credential_target r = Inr (''TERMSRV/'' @ rr_address r)"
      "rdp_port (PInt (rr_port r)) = Inr (rr_port r)" "rdp_principal_safe (rr_principal r)"
    using rdp_request_shape [OF assms(1)] by blast
  then show ?thesis
    using assms(3) parse_target_text [OF s(1, 4)] file_name_ok [OF assms(2)]
    by (simp add: rdp_plan_with_def mk_RdpLaunchPlan_def plan_of_def Let_def)
qed

section \<open>Reading the launch file\<close>

text \<open>
  A reader of the file: the byte order mark, UTF-16, lines that end in CR LF, and a key before the
  first colon of a line.
\<close>

fun utf16_read :: "string \<Rightarrow> string option" where
  "utf16_read [] = Some []"
| "utf16_read [_] = None"
| "utf16_read (c # z # r) = (if z = CHR 0x00 then map_option ((#) c) (utf16_read r) else None)"

definition read_line :: "string \<Rightarrow> (string \<times> string) option" where
  "read_line s =
     (if s = [] \<or> last s \<noteq> CHR 0x0D \<or> CHR 0x0D \<in> set (butlast s) then None
      else (case partition_at CHR '':'' (butlast s) of (k, found, v) \<Rightarrow> if found then Some (k, v) else None))"

definition rdp_read :: "string \<Rightarrow> (string \<times> string) list option" where
  "rdp_read raw =
     (if \<not> starts_with [CHR 0xFF, CHR 0xFE] raw then None
      else (case utf16_read (drop 2 raw) of
        None \<Rightarrow> None
      | Some s \<Rightarrow>
          let lines = split_on CHR 0x0A s in
          if last lines \<noteq> [] \<or> list_ex (\<lambda>l. read_line l = None) (butlast lines) then None
          else Some (map (\<lambda>l. the (read_line l)) (butlast lines))))"

definition rdp_settings :: "string \<Rightarrow> string \<Rightarrow> bool \<Rightarrow> bool \<Rightarrow> (string \<times> string) list" where
  "rdp_settings target user prompt clipboard =
     [(''screen mode id'', ''i:2''), (''use multimon'', ''i:0''), (''keyboardhook'', ''i:0''),
      (''desktopwidth'', ''i:1280''), (''desktopheight'', ''i:720''), (''session bpp'', ''i:32''),
      (''full address'', ''s:'' @ target),
      (''prompt for credentials'', if prompt then ''i:1'' else ''i:0''),
      (''authentication level'', ''i:2''), (''enablecredsspsupport'', ''i:1''),
      (''redirectclipboard'', if clipboard then ''i:1'' else ''i:0''),
      (''drivestoredirect'', ''s:''), (''devicestoredirect'', ''s:''), (''usbdevicestoredirect'', ''s:''),
      (''camerastoredirect'', ''s:''), (''audiocapturemode'', ''i:0''), (''redirectprinters'', ''i:0''),
      (''redirectcomports'', ''i:0''), (''redirectsmartcards'', ''i:0''), (''redirectwebauthn'', ''i:0''),
      (''redirectlocation'', ''i:0'')] @
     (if user \<noteq> [] then [(''username'', ''s:'' @ user)] else [])"

lemma utf16_read_back: "utf16_read (utf16_le s) = Some s"
  by (induction s) (simp_all add: utf16_le_def)

lemma split_lines:
  "\<forall>l\<in>set ls. CHR 0x0A \<notin> set l \<Longrightarrow> ls \<noteq> [] \<Longrightarrow>
   split_on CHR 0x0A (join crlf ls @ crlf) = map (\<lambda>l. l @ [CHR 0x0D]) ls @ [[]]"
proof (induction ls)
  case (Cons l ls)
  have word: "split_on CHR 0x0A (l @ CHR 0x0D # CHR 0x0A # r) = (l @ [CHR 0x0D]) # split_on CHR 0x0A r" for r
    using Cons.prems(1) split_on_append [of "CHR 0x0A" "l @ [CHR 0x0D]" r] by simp
  show ?case
  proof (cases ls)
    case Nil
    then show ?thesis using word [of "[]"] by (simp add: join_def crlf_def)
  next
    case (Cons l' ls')
    then have "join crlf (l # ls) @ crlf = l @ CHR 0x0D # CHR 0x0A # (join crlf ls @ crlf)"
      by (simp add: join_def crlf_def)
    then show ?thesis using word Cons.IH Cons.prems Cons by simp
  qed
qed simp

lemma read_line_text:
  "CHR '':'' \<notin> set k \<Longrightarrow> CHR 0x0D \<notin> set (k @ v) \<Longrightarrow> read_line (k @ CHR '':'' # v @ [CHR 0x0D]) = Some (k, v)"
  using partition_at_first [of "CHR '':''" k v] by (auto simp: read_line_def butlast_append)

definition line_of :: "string \<times> string \<Rightarrow> string" where
  "line_of kv = fst kv @ CHR '':'' # snd kv"

lemma rdp_lines_settings: "rdp_lines target user prompt clipboard = map line_of (rdp_settings target user prompt clipboard)"
proof -
  have b: "str_int (int_of_bool x) = (if x then ''1'' else ''0'')" for x
    by (cases x) (simp_all add: int_of_bool_def str_int_def digits_of_nat_rec ord_inject [symmetric], simp_all add: ord_def)
  show ?thesis
    by (simp add: rdp_lines_def rdp_settings_def line_of_def b)
qed

lemma read_settings:
  assumes "\<forall>(k, v)\<in>set kvs. CHR '':'' \<notin> set k \<and> (\<forall>c\<in>set k \<union> set v. 32 \<le> ord c)" and "kvs \<noteq> []"
  shows "rdp_read ([CHR 0xFF, CHR 0xFE] @ utf16_le (join crlf (map line_of kvs) @ crlf)) = Some kvs"
proof -
  have low: "ord (CHR 0x0A) < 32" "ord (CHR 0x0D) < 32" by (simp_all add: ord_def)
  have kv: "CHR '':'' \<notin> set k" "CHR 0x0D \<notin> set (k @ v)" "CHR 0x0A \<notin> set (line_of (k, v))" if "(k, v) \<in> set kvs" for k v
    using assms(1) that low by (force simp: line_of_def)+
  have lines: "split_on CHR 0x0A (join crlf (map line_of kvs) @ crlf) = map (\<lambda>l. l @ [CHR 0x0D]) (map line_of kvs) @ [[]]"
    by (rule split_lines) (use kv(3) assms(2) in force)+
  have one: "read_line (line_of kv @ [CHR 0x0D]) = Some kv" if "kv \<in> set kvs" for kv
    using read_line_text [of "fst kv" "snd kv"] kv [of "fst kv" "snd kv"] that by (simp add: line_of_def)
  have all: "\<not> list_ex (\<lambda>l. read_line l = None) (map ((\<lambda>l. l @ [CHR 0x0D]) \<circ> line_of) kvs)"
    using one by (auto simp: list_ex_iff)
  have "map (\<lambda>l. the (read_line l)) (map ((\<lambda>l. l @ [CHR 0x0D]) \<circ> line_of) kvs) = kvs"
    using one by (auto intro: map_idI)
  then show ?thesis using all by (simp add: rdp_read_def utf16_read_back lines o_def)
qed

lemma andthen_Inr: "andthen m k w = (Inr y, w') \<longleftrightarrow> (\<exists>x w1. m w = (Inr x, w1) \<and> k x w1 = (Inr y, w'))"
  by (auto simp: andthen_def split: prod.splits sum.splits)

section \<open>What the launcher is given\<close>

lemma target_text_plain:
  assumes "rdp_shape a six" and "0 \<le> port" and "c \<in> set (rdp_target_text a six port)"
  shows "32 \<le> ord c"
proof -
  have "c \<in> set a \<or> c \<in> set (str_int port) \<or> c \<in> set ''[]:''"
    using assms(3) by (auto simp: rdp_target_text_def rdp_host_def split: if_splits)
  moreover have "32 \<le> ord c" if "c \<in> set ''[]:''" using that by (auto simp: ord_def)
  ultimately show ?thesis
    using rdp_shape_chars [OF assms(1), of c] str_int_digits [OF assms(2), of c] by (auto simp: is_digit_def)
qed

lemma settings_plain:
  assumes "\<forall>c\<in>set target \<union> set user. 32 \<le> ord c"
  shows "\<forall>(k, v)\<in>set (rdp_settings target user prompt clipboard). CHR '':'' \<notin> set k \<and> (\<forall>c\<in>set k \<union> set v. 32 \<le> ord c)"
proof -
  have "CHR '':'' \<notin> set k \<and> (\<forall>c\<in>set k \<union> set v. 32 \<le> ord c)" if "(k, v) \<in> set (rdp_settings target user prompt clipboard)" for k v
    using that assms unfolding rdp_settings_def by (auto simp: ord_def split: if_splits)
  then show ?thesis by blast
qed

lemma launch_plan_target:
  assumes "mk_RdpLaunchPlan target reference credential user prompt clipboard name raw = Inr p"
  shows "\<forall>c\<in>set target \<union> set user. 32 \<le> ord c"
    "rp_target p = target" "rp_principal p = user" "rp_prompt p = prompt" "rp_clipboard p = clipboard"
    "rp_file_bytes p = rdp_bytes target user prompt clipboard"
proof -
  obtain a where pt: "rdp_parse_target (PStr target) = Inr (a, target)" and safe: "rdp_principal_safe user"
    and p: "rp_target p = target" "rp_principal p = user" "rp_prompt p = prompt" "rp_clipboard p = clipboard"
    "rp_file_bytes p = rdp_bytes target user prompt clipboard"
    using assms by (auto simp: mk_RdpLaunchPlan_def result_simps split: if_splits)
  then show "rp_target p = target" "rp_principal p = user" "rp_prompt p = prompt" "rp_clipboard p = clipboard"
    "rp_file_bytes p = rdp_bytes target user prompt clipboard" by blast+
  obtain v b six n port where "rdp_address v = Inr (b, six)" "rdp_port (PInt port) = Inr n" "target = rdp_target_text b six port"
    using pt by (auto simp: rdp_parse_target_def result_simps split: option.splits)
  moreover from this have "0 \<le> port" by (auto simp: rdp_port_def split: if_splits)
  ultimately have "\<forall>c\<in>set target. 32 \<le> ord c" using target_text_plain rdp_address_shape(1) by blast
  moreover have "\<forall>c\<in>set user. 32 \<le> ord c" using safe by (auto simp: rdp_principal_safe_def has_control_def list_ex_iff not_less)
  ultimately show "\<forall>c\<in>set target \<union> set user. 32 \<le> ord c" by blast
qed

text \<open>
  C16: nothing in a launch plan can add a line to its file. Whatever address, principal and options an
  accepted plan was built from, a reader that undoes UTF-16 and splits the lines finds exactly the
  fixed list of settings, each key once, the address and the principal where they belong and every
  redirection of devices off.
\<close>

theorem rdp_file_settings:
  assumes "mk_RdpLaunchPlan target reference credential user prompt clipboard name raw = Inr p"
  shows "rdp_read (rp_file_bytes p) = Some (rdp_settings target user prompt clipboard) \<and>
    distinct (map fst (rdp_settings target user prompt clipboard))"
proof
  note lp = launch_plan_target [OF assms]
  show "rdp_read (rp_file_bytes p) = Some (rdp_settings target user prompt clipboard)"
    unfolding lp(6) rdp_bytes_def rdp_lines_settings
    by (rule read_settings [OF settings_plain [OF lp(1)]]) (simp add: rdp_settings_def)
  show "distinct (map fst (rdp_settings target user prompt clipboard))" by (simp add: rdp_settings_def)
qed

text \<open>
  C17: a plan comes out of the service exactly when the credential reference of the request, if it has
  one, is there and bound to the request's own target and principal, and the token is well formed;
  the plan is then the request's: an accepted request never fails the checks of the launch plan.
\<close>

theorem rdp_plan_exact:
  assumes "mk_RdpRequest address user port reference clipboard = Inr r"
  shows "\<exists>target. rr_target r = Inr target \<and> (rdp_make_plan env r w = (Inr p, w') \<longleftrightarrow>
    (\<exists>w1 t. (case rr_credential_reference r of
         None \<Rightarrow> w1 = w
       | Some c \<Rightarrow> \<exists>w2 b. rd_contains env c w = (Inr True, w2) \<and> rd_resolve env c w2 = (Inr (Some b), w1) \<and>
           crt_reference b = c \<and> fold_text (crt_target b) = fold_text (''TERMSRV/'' @ rr_address r) \<and>
           fold_text (crt_principal b) = fold_text (rr_principal r)) \<and>
       rd_token env w1 = (Inr (PStr t), w') \<and> rdp_token t \<and> p = plan_of r target t))"
proof -
  obtain target where cred: "rr_credential_target r = Inr (''TERMSRV/'' @ rr_address r)" and target: "rr_target r = Inr target"
    using rdp_request_shape [OF assms] by blast
  have bound: "rdp_check_binding env r c w = (Inr u, w1) \<longleftrightarrow>
      (\<exists>w2 b. rd_contains env c w = (Inr True, w2) \<and> rd_resolve env c w2 = (Inr (Some b), w1) \<and>
           crt_reference b = c \<and> fold_text (crt_target b) = fold_text (''TERMSRV/'' @ rr_address r) \<and>
           fold_text (crt_principal b) = fold_text (rr_principal r))" for c w1 u
    by (auto simp: rdp_check_binding_def or_unavailable_def andthen_def on_raise_def of_result_def ret_def throw_def cred
        split: prod.splits sum.splits if_splits option.splits)
  have token: "andthen (or_unavailable (rd_token env)) (\<lambda>token.
       case token of PStr t \<Rightarrow> if rdp_token t then of_result (rdp_plan_with r t) else throw RcmUnavailable
       | _ \<Rightarrow> throw RcmUnavailable) w1 = (Inr p, w') \<longleftrightarrow>
      (\<exists>t. rd_token env w1 = (Inr (PStr t), w') \<and> rdp_token t \<and> p = plan_of r target t)" for w1
    using rdp_plan_with_request [OF assms _ target]
    by (auto simp: or_unavailable_def andthen_def on_raise_def of_result_def ret_def throw_def
        split: prod.splits sum.splits if_splits pyval.splits)
  have "rdp_make_plan env r w = (Inr p, w') \<longleftrightarrow>
      (\<exists>u w1. (case rr_credential_reference r of None \<Rightarrow> ret () | Some c \<Rightarrow> rdp_check_binding env r c) w = (Inr u, w1) \<and>
        (\<exists>t. rd_token env w1 = (Inr (PStr t), w') \<and> rdp_token t \<and> p = plan_of r target t))"
    unfolding rdp_make_plan_def token [symmetric] by (rule andthen_Inr)
  then show ?thesis using target by (cases "rr_credential_reference r") (auto simp: ret_def bound)
qed

section \<open>Witnesses\<close>

abbreviation sample_reference :: credential_reference where
  "sample_reference \<equiv> \<lparr>crf_value = ''credential://lab/pc1''\<rparr>"

definition sample_rdp_env :: "unit rdp_env" where
  "sample_rdp_env =
     \<lparr>rd_contains = (\<lambda>c w. (Inr (c = sample_reference), w)),
      rd_resolve = (\<lambda>c w. (Inr (Some \<lparr>crt_reference = c, crt_target = ''termsrv/pc1'', crt_principal = ''OPERATOR''\<rparr>), w)),
      rd_token = (\<lambda>w. (Inr (PStr (replicate 32 CHR ''a'')), w)),
      rd_launch = (\<lambda>p w. (Inl OtherException, w)), rd_cleanup = (\<lambda>c w. (Inr (), w)), rd_cleanup_all = (\<lambda>w. (Inr (), w))\<rparr>"

lemma sample_request:
  "mk_RdpRequest (PStr ''PC1.'') (PStr ''operator'') (PInt 3389) (Some sample_reference) (PBool False) =
     Inr \<lparr>rr_address = ''pc1'', rr_principal = ''operator'', rr_port = 3389,
       rr_credential_reference = Some sample_reference, rr_redirect_clipboard = False\<rparr>"
  by code_simp

theorem rdp_plan_exact_witness:
  "\<exists>(r :: rdp_request). mk_RdpRequest (PStr ''PC1.'') (PStr ''operator'') (PInt 3389) (Some sample_reference) (PBool False) = Inr r \<and>
     rdp_make_plan sample_rdp_env r () = (Inr (plan_of r ''pc1:3389'' (replicate 32 CHR ''a'')), ())"
proof -
  let ?r = "\<lparr>rr_address = ''pc1'', rr_principal = ''operator'', rr_port = 3389,
       rr_credential_reference = Some sample_reference, rr_redirect_clipboard = False\<rparr>"
  have fold: "fold_text ''termsrv/pc1'' = fold_text (''TERMSRV/'' @ ''pc1'')" "fold_text ''OPERATOR'' = fold_text ''operator''"
    "rdp_token (replicate 32 CHR ''a'')" "rr_target ?r = Inr ''pc1:3389''" by code_simp+
  show ?thesis
    using rdp_plan_exact [OF sample_request, of sample_rdp_env "()" "plan_of ?r ''pc1:3389'' (replicate 32 CHR ''a'')" "()"]
      fold sample_request
    by (simp add: sample_rdp_env_def)
qed

theorem rdp_file_settings_witness:
  "\<exists>p. mk_RdpLaunchPlan ''pc1:3389'' None ''TERMSRV/pc1'' ''operator'' True False
      (rdp_file_name (replicate 32 CHR ''a'')) (rdp_bytes ''pc1:3389'' ''operator'' True False) = Inr p \<and>
    rdp_read (rp_file_bytes p) = Some (rdp_settings ''pc1:3389'' ''operator'' True False) \<and>
    map_of (rdp_settings ''pc1:3389'' ''operator'' True False) ''username'' = Some ''s:operator''"
proof -
  have "rdp_parse_target (PStr ''pc1:3389'') = Inr (''pc1'', ''pc1:3389'')" "rdp_principal_safe ''operator''"
    "rdp_file_name_ok (rdp_file_name (replicate 32 CHR ''a''))" by code_simp+
  then have ok: "\<exists>p. mk_RdpLaunchPlan ''pc1:3389'' None ''TERMSRV/pc1'' ''operator'' True False
      (rdp_file_name (replicate 32 CHR ''a'')) (rdp_bytes ''pc1:3389'' ''operator'' True False) = Inr p"
    by (simp add: mk_RdpLaunchPlan_def)
  moreover have "map_of (rdp_settings ''pc1:3389'' ''operator'' True False) ''username'' = Some ''s:operator''" by code_simp
  ultimately show ?thesis using rdp_file_settings by blast
qed

end
