(* ===== verification/RayCli.thy ===== *)
theory RayCli
  imports Latin1
begin

text \<open>
  \<open>src/rcm/ray.py\<close>: the specifications of the Ray commands with their checks, and the builder that
  turns each into the argument list of a process. A specification's constructor is given the record
  of its fields, and every refusal is a \<open>ValueError\<close>.
\<close>

section \<open>Modes, commands and resources\<close>

datatype ray_mode = ModeHead | ModeWorker | ModeDriverOnly

datatype ray_command_kind = RkStart | RkStop | RkStatus | RkStateList

datatype state_resource = SrNodes | SrJobs | SrTasks | SrActors | SrPlacementGroups

fun resource_value :: "state_resource \<Rightarrow> string" where
  "resource_value SrNodes = ''nodes''"
| "resource_value SrJobs = ''jobs''"
| "resource_value SrTasks = ''tasks''"
| "resource_value SrActors = ''actors''"
| "resource_value SrPlacementGroups = ''placement-groups''"

fun active_state_filters :: "state_resource \<Rightarrow> string list" where
  "active_state_filters SrNodes = []"
| "active_state_filters SrJobs = [''status!=STOPPED'', ''status!=SUCCEEDED'', ''status!=FAILED'']"
| "active_state_filters SrTasks = [''state!=FINISHED'', ''state!=FAILED'']"
| "active_state_filters SrActors = [''state!=DEAD'']"
| "active_state_filters SrPlacementGroups = [''state!=REMOVED'']"

section \<open>Validators\<close>

text \<open>\<open>[A-Za-z0-9_.:\[\]-]+\<close>\<close>

definition endpoint_char :: "char \<Rightarrow> bool" where
  "endpoint_char c \<longleftrightarrow> is_alnum c \<or> c \<in> set ''_.:[]-''"

definition ray_text :: "bool \<Rightarrow> string \<Rightarrow> bool" where
  "ray_text endpoint s \<longleftrightarrow> s \<noteq> [] \<and> \<not> has_control s \<and>
     (endpoint \<longrightarrow> \<not> starts_with ''-'' s \<and> list_all endpoint_char s)"

definition ray_port :: "int \<Rightarrow> bool" where
  "ray_port n \<longleftrightarrow> 1 \<le> n \<and> n \<le> 65535"

definition opt_all :: "('a \<Rightarrow> bool) \<Rightarrow> 'a option \<Rightarrow> bool" where
  "opt_all P x = (case x of None \<Rightarrow> True | Some y \<Rightarrow> P y)"

section \<open>Specifications\<close>

record start_spec =
  sp_executable :: string
  sp_mode :: ray_mode
  sp_address :: "string option"
  sp_node_ip_address :: "string option"
  sp_port :: "int option"
  sp_dashboard_host :: "string option"
  sp_dashboard_port :: "int option"
  sp_num_cpus :: "int option"
  sp_temp_dir :: "string option"
  sp_node_manager_port :: "int option"
  sp_object_manager_port :: "int option"
  sp_runtime_env_agent_port :: "int option"
  sp_dashboard_agent_grpc_port :: "int option"
  sp_dashboard_agent_listen_port :: "int option"
  sp_metrics_export_port :: "int option"
  sp_min_worker_port :: "int option"
  sp_max_worker_port :: "int option"
  sp_node_name :: "string option"
  sp_block :: bool

definition fixed_ports :: "start_spec \<Rightarrow> (string \<times> int option) list" where
  "fixed_ports s =
     [(''--node-manager-port'', sp_node_manager_port s),
      (''--object-manager-port'', sp_object_manager_port s),
      (''--runtime-env-agent-port'', sp_runtime_env_agent_port s),
      (''--dashboard-agent-grpc-port'', sp_dashboard_agent_grpc_port s),
      (''--dashboard-agent-listen-port'', sp_dashboard_agent_listen_port s),
      (''--metrics-export-port'', sp_metrics_export_port s),
      (''--min-worker-port'', sp_min_worker_port s),
      (''--max-worker-port'', sp_max_worker_port s)]"

definition start_spec_ok :: "start_spec \<Rightarrow> bool" where
  "start_spec_ok s \<longleftrightarrow>
     ray_text False (sp_executable s) \<and>
     opt_all (ray_text True) (sp_address s) \<and>
     opt_all (ray_text True) (sp_node_ip_address s) \<and>
     opt_all (ray_text True) (sp_dashboard_host s) \<and>
     opt_all (\<lambda>t. ray_text False t \<and> \<not> starts_with ''-'' t) (sp_temp_dir s) \<and>
     opt_all (ray_text True) (sp_node_name s) \<and>
     list_all (opt_all ray_port) ([sp_port s, sp_dashboard_port s] @ map snd (fixed_ports s)) \<and>
     (case (sp_min_worker_port s, sp_max_worker_port s) of
        (Some a, Some b) \<Rightarrow> a \<le> b | _ \<Rightarrow> True) \<and>
     opt_all (\<lambda>n. 0 \<le> n) (sp_num_cpus s) \<and>
     (if sp_mode s = ModeHead then sp_address s = None
      else sp_address s \<noteq> None \<and> sp_port s = None \<and> sp_dashboard_host s = None \<and> sp_dashboard_port s = None) \<and>
     (sp_mode s = ModeDriverOnly \<longrightarrow> sp_num_cpus s = None \<or> sp_num_cpus s = Some 0)"

text \<open>Every refusal is a \<open>ValueError\<close>.\<close>

definition mk_RayStartSpec :: "start_spec \<Rightarrow> start_spec result" where
  "mk_RayStartSpec s = (if start_spec_ok s then Inr s else Inl ValueError)"

record stop_spec =
  st_executable :: string
  st_force :: bool
  st_grace :: "pyfloat option"

definition mk_RayStopSpec :: "stop_spec \<Rightarrow> stop_spec result" where
  "mk_RayStopSpec s =
     (if ray_text False (st_executable s) \<and>
         (case st_grace s of None \<Rightarrow> True | Some (Finite r) \<Rightarrow> 0 \<le> r | _ \<Rightarrow> False)
      then Inr s else Inl ValueError)"

record status_spec =
  ss_executable :: string
  ss_address :: "string option"

definition mk_RayStatusSpec :: "status_spec \<Rightarrow> status_spec result" where
  "mk_RayStatusSpec s =
     (if ray_text False (ss_executable s) \<and> opt_all (ray_text True) (ss_address s)
      then Inr s else Inl ValueError)"

record list_spec =
  ls_executable :: string
  ls_resource :: state_resource
  ls_address :: string
  ls_timeout :: int
  ls_limit :: int

definition mk_RayStateListSpec :: "list_spec \<Rightarrow> list_spec result" where
  "mk_RayStateListSpec s =
     (if ray_text False (ls_executable s) \<and> ray_text True (ls_address s) \<and>
         1 \<le> ls_timeout s \<and> ls_timeout s \<le> 10 \<and> 1 \<le> ls_limit s \<and> ls_limit s \<le> 10000
      then Inr s else Inl ValueError)"

section \<open>The command builder\<close>

record ray_command =
  ry_kind :: ray_command_kind
  ry_arguments :: "string list"

definition mk_RayCommand :: "ray_command_kind \<Rightarrow> string list \<Rightarrow> ray_command result" where
  "mk_RayCommand kind arguments =
     (if arguments = [] \<or> [] \<in> set arguments then Inl ValueError
      else Inr \<lparr>ry_kind = kind, ry_arguments = arguments\<rparr>)"

definition option_pair :: "string \<Rightarrow> string option \<Rightarrow> string list" where
  "option_pair name v = (case v of None \<Rightarrow> [] | Some t \<Rightarrow> [name, t])"

definition start_arguments :: "start_spec \<Rightarrow> string list" where
  "start_arguments s =
     [sp_executable s, ''start''] @
     (if sp_mode s = ModeHead then [''--head''] else option_pair ''--address'' (sp_address s)) @
     option_pair ''--node-ip-address'' (sp_node_ip_address s) @
     option_pair ''--port'' (map_option str_int (sp_port s)) @
     option_pair ''--dashboard-host'' (sp_dashboard_host s) @
     option_pair ''--dashboard-port'' (map_option str_int (sp_dashboard_port s)) @
     option_pair ''--num-cpus'' (map_option str_int (if sp_mode s = ModeDriverOnly then Some 0 else sp_num_cpus s)) @
     option_pair ''--temp-dir'' (sp_temp_dir s) @
     concat (map (\<lambda>(name, v). option_pair name (map_option str_int v)) (fixed_ports s)) @
     option_pair ''--node-name'' (sp_node_name s) @
     (if sp_block s then [''--block''] else [])"

definition build_start :: "start_spec \<Rightarrow> ray_command result" where
  "build_start s = mk_RayCommand RkStart (start_arguments s)"

definition stop_arguments :: "stop_spec \<Rightarrow> string list" where
  "stop_arguments s =
     [st_executable s, ''stop''] @ (if st_force s then [''--force''] else []) @
     (case st_grace s of Some (Finite r) \<Rightarrow> [''--grace-period'', format_g r] | _ \<Rightarrow> [])"

definition build_stop :: "stop_spec \<Rightarrow> ray_command result" where
  "build_stop s = mk_RayCommand RkStop (stop_arguments s)"

definition build_status :: "status_spec \<Rightarrow> ray_command result" where
  "build_status s = mk_RayCommand RkStatus ([ss_executable s, ''status''] @ option_pair ''--address'' (ss_address s))"

definition list_arguments :: "list_spec \<Rightarrow> string list" where
  "list_arguments s =
     [ls_executable s, ''list'', resource_value (ls_resource s), ''--format'', ''json''] @
     concat (map (\<lambda>f. [''--filter'', f]) (active_state_filters (ls_resource s))) @
     [''--address'', ls_address s, ''--timeout'', str_int (ls_timeout s), ''--limit'', str_int (ls_limit s)]"

definition build_list_state :: "list_spec \<Rightarrow> ray_command result" where
  "build_list_state s = mk_RayCommand RkStateList (list_arguments s)"

end
