(* ===== verification/RayRunner.thy ===== *)
theory RayRunner
  imports RayCli Effects
begin

text \<open>
  \<open>LocalRayProcessRunner\<close> of \<open>src/rcm/adapters/ray_cli.py\<close>, with the requests and results of
  \<open>src/rcm/ports.py\<close>: the allowlist of Ray command lines and the grammar it amounts to, the output
  captured by two reader threads under one bound, and the loop that waits for the process. The
  operating system, the clock and \<open>ntpath.normcase\<close> are parameters.
\<close>

section \<open>Requests and results (\<open>ports.py\<close>)\<close>

definition finite_seconds :: "pyval \<Rightarrow> bool \<Rightarrow> rat result" where
  "finite_seconds v positive =
     (let check = (\<lambda>r. if r < 0 \<or> positive \<and> r = 0 then Inl ValueError else Inr r) in
      case v of
        PInt n \<Rightarrow> bindE (float_of_int n) check
      | PFloat (Finite r) \<Rightarrow> check r
      | PFloat _ \<Rightarrow> Inl ValueError
      | _ \<Rightarrow> Inl TypeError)"

record process_request =
  pr_argv :: "string list"
  pr_timeout :: rat
  pr_max_output :: nat
  pr_cwd :: "string option"

text \<open>The first argument must not be empty.\<close>

fun argv_ok :: "string list \<Rightarrow> bool" where
  "argv_ok [] = False"
| "argv_ok (a # as) = (a \<noteq> [] \<and> list_all (\<lambda>s. length s \<le> 4096 \<and> \<not> has_control s) (a # as))"

definition mk_ProcessRequest ::
    "string list \<Rightarrow> pyval \<Rightarrow> pyval \<Rightarrow> pyval \<Rightarrow> process_request result" where
  "mk_ProcessRequest argv timeout max_output cwd =
     (if \<not> argv_ok argv then Inl ValueError
      else bindE (finite_seconds timeout True) (\<lambda>t.
        case max_output of
          PInt n \<Rightarrow>
            if \<not> (1 \<le> n \<and> n \<le> 16777216) then Inl ValueError
            else bindE (if cwd = PNone then Inr None
                else bindE (ports_safe_text cwd False) (\<lambda>c. Inr (Some c))) (\<lambda>c.
              Inr \<lparr>pr_argv = argv, pr_timeout = t, pr_max_output = nat n, pr_cwd = c\<rparr>)
        | _ \<Rightarrow> Inl ValueError))"

record process_result =
  px_exit_code :: "int option"
  px_stdout :: string
  px_stderr :: string
  px_duration :: rat
  px_timed_out :: bool
  px_cancelled :: bool
  px_output_truncated :: bool
  px_invalid_encoding :: bool

definition mk_ProcessResult :: "process_result \<Rightarrow> process_result result" where
  "mk_ProcessResult r =
     (if px_duration r < 0 \<or> px_timed_out r \<and> px_cancelled r then Inl ValueError else Inr r)"

section \<open>The allowlist\<close>

definition start_value_options :: "string list" where
  "start_value_options =
     [''--address'', ''--node-ip-address'', ''--port'', ''--dashboard-host'', ''--dashboard-port'',
      ''--num-cpus'', ''--temp-dir'', ''--node-manager-port'', ''--object-manager-port'',
      ''--runtime-env-agent-port'', ''--dashboard-agent-grpc-port'', ''--dashboard-agent-listen-port'',
      ''--metrics-export-port'', ''--min-worker-port'', ''--max-worker-port'', ''--node-name'']"

fun option_pairs :: "string list \<Rightarrow> string list \<Rightarrow> string list \<Rightarrow> string list \<Rightarrow> bool" where
  "option_pairs value_options flag_options seen [] = True"
| "option_pairs value_options flag_options seen (opt # rest) =
     (if opt \<in> set seen then False
      else if opt \<in> set flag_options then option_pairs value_options flag_options (opt # seen) rest
      else if opt \<notin> set value_options then False
      else (case rest of
          [] \<Rightarrow> False
        | v # tail \<Rightarrow>
            if v = [] \<or> starts_with ''--'' v then False
            else option_pairs value_options flag_options (opt # seen) tail))"

definition resource_of :: "string \<Rightarrow> state_resource option" where
  "resource_of s =
     List.find (\<lambda>r. resource_value r = s) [SrNodes, SrJobs, SrTasks, SrActors, SrPlacementGroups]"

definition filter_count :: "state_resource \<Rightarrow> nat" where
  "filter_count r =
     (case r of SrNodes \<Rightarrow> 0 | SrJobs \<Rightarrow> 3 | SrTasks \<Rightarrow> 2 | SrActors \<Rightarrow> 1 | SrPlacementGroups \<Rightarrow> 1)"

text \<open>
  The branch for \<open>list\<close>: the arguments must be those the builder makes from what they say. A number
  that \<open>int\<close> reads and \<open>str\<close> would write differently cannot equal the builder's.
\<close>

definition list_allowed :: "string list \<Rightarrow> bool" where
  "list_allowed argv =
     (case resource_of (argv ! 2) of
        None \<Rightarrow> False
      | Some r \<Rightarrow>
          let k = 5 + filter_count r * 2 in
          take 2 (drop 3 argv) = [''--format'', ''json''] \<and> length argv = k + 6 \<and>
          [argv ! k, argv ! (k + 2), argv ! (k + 4)] = [''--address'', ''--timeout'', ''--limit''] \<and>
          (case (canonical_int (argv ! (k + 3)), canonical_int (argv ! (k + 5))) of
             (Some timeout, Some limit) \<Rightarrow>
               (case bindE (mk_RayStateListSpec \<lparr>ls_executable = hd argv, ls_resource = r,
                    ls_address = argv ! (k + 1), ls_timeout = timeout, ls_limit = limit\<rparr>) build_list_state of
                  Inl e \<Rightarrow> False
                | Inr c \<Rightarrow> argv = ry_arguments c)
           | _ \<Rightarrow> False))"

definition argv_allowed :: "string list \<Rightarrow> bool" where
  "argv_allowed argv =
     (if length argv = 2 \<and> argv ! 1 = ''--version'' then True
      else if length argv < 2 then False
      else argv ! 1 = ''start'' \<and> option_pairs start_value_options [''--head''] [] (drop 2 argv) \<or>
           argv ! 1 = ''stop'' \<and> option_pairs [''--grace-period''] [''--force''] [] (drop 2 argv) \<or>
           argv ! 1 = ''status'' \<and> option_pairs [''--address''] [] [] (drop 2 argv) \<or>
           argv ! 1 = ''list'' \<and> 11 \<le> length argv \<and> list_allowed argv)"

text \<open>\<open>normcase\<close> is \<open>ntpath.normcase\<close>, which asks Windows for the lower case of the text.\<close>

definition validate_request :: "(string \<Rightarrow> string) \<Rightarrow> string \<Rightarrow> process_request \<Rightarrow> unit result" where
  "validate_request normcase executable request =
     (if pr_cwd request \<noteq> None then Inl ValueError
      else if normcase (wp_str (pure_windows_path (hd (pr_argv request)))) \<noteq> normcase executable
        then Inl ValueError
      else if argv_allowed (pr_argv request) then Inr () else Inl ValueError)"

definition cli_ray_path :: "pyval \<Rightarrow> string result" where
  "cli_ray_path v =
     (case v of
        PStr s \<Rightarrow>
          if s = [] \<or> has_control s \<or> \<not> local_ray_path s then Inl ValueError
          else Inr (wp_str (pure_windows_path s))
      | _ \<Rightarrow> Inl ValueError)"

section \<open>What the allowlist lets through\<close>

datatype cli_option = Flag string | Setting string string

fun option_words :: "cli_option \<Rightarrow> string list" where
  "option_words (Flag f) = [f]"
| "option_words (Setting n v) = [n, v]"

fun option_name :: "cli_option \<Rightarrow> string" where
  "option_name (Flag f) = f"
| "option_name (Setting n v) = n"

fun option_plain :: "string list \<Rightarrow> string list \<Rightarrow> cli_option \<Rightarrow> bool" where
  "option_plain vo fo (Flag f) \<longleftrightarrow> f \<in> set fo"
| "option_plain vo fo (Setting n v) \<longleftrightarrow> n \<in> set vo \<and> n \<notin> set fo \<and> v \<noteq> [] \<and> \<not> starts_with ''--'' v"

definition options_written :: "string list \<Rightarrow> string list \<Rightarrow> cli_option list \<Rightarrow> bool" where
  "options_written vo fo opts \<longleftrightarrow> distinct (map option_name opts) \<and> list_all (option_plain vo fo) opts"

lemma option_pairs_sound:
  "option_pairs vo fo seen args \<Longrightarrow>
     \<exists>opts. args = concat (map option_words opts) \<and> options_written vo fo opts \<and> set (map option_name opts) \<inter> set seen = {}"
proof (induction vo fo seen args rule: option_pairs.induct)
  case (1 vo fo seen)
  show ?case by (rule exI [of _ "[]"]) (simp add: options_written_def)
next
  case (2 vo fo seen opt rest)
  show ?case
  proof (cases "opt \<in> set fo")
    case True
    then obtain opts where "rest = concat (map option_words opts)" "options_written vo fo opts"
        "set (map option_name opts) \<inter> set (opt # seen) = {}"
      using 2 by (auto split: if_splits)
    then show ?thesis
      using True "2.prems" by (intro exI [of _ "Flag opt # opts"]) (auto simp: options_written_def split: if_splits)
  next
    case False
    then obtain v tail where r: "rest = v # tail" "v \<noteq> []" "\<not> starts_with ''--'' v" "opt \<in> set vo" "opt \<notin> set seen"
        "option_pairs vo fo (opt # seen) tail"
      using "2.prems" by (auto split: if_splits list.splits)
    then obtain opts where "tail = concat (map option_words opts)" "options_written vo fo opts"
        "set (map option_name opts) \<inter> set (opt # seen) = {}"
      using "2.IH"(2) [OF _ False _ r(1)] by (auto split: if_splits)
    then show ?thesis
      using False r by (intro exI [of _ "Setting opt v # opts"]) (auto simp: options_written_def)
  qed
qed

lemma option_pairs_complete:
  "options_written vo fo opts \<Longrightarrow> set (map option_name opts) \<inter> set seen = {} \<Longrightarrow>
   option_pairs vo fo seen (concat (map option_words opts))"
proof (induction opts arbitrary: seen)
  case (Cons x opts)
  then show ?case by (cases x) (auto simp: options_written_def)
qed simp

lemma option_pairs_iff:
  "option_pairs vo fo [] args \<longleftrightarrow> (\<exists>opts. args = concat (map option_words opts) \<and> options_written vo fo opts)"
  using option_pairs_sound [of vo fo "[]" args] option_pairs_complete [of vo fo _ "[]"] by auto

lemma list_arguments_allowed:
  assumes "mk_RayStateListSpec s = Inr t"
  shows "list_allowed (list_arguments s) \<and> 11 \<le> length (list_arguments s) \<and> build_list_state s = Inr \<lparr>ry_kind = RkStateList, ry_arguments = list_arguments s\<rparr>"
proof -
  have s: "ls_executable s \<noteq> []" "ls_address s \<noteq> []" "0 \<le> ls_timeout s" "0 \<le> ls_limit s"
    using assms by (auto simp: mk_RayStateListSpec_def ray_text_def split: if_splits)
  have ne: "str_int (ls_timeout s) \<noteq> []" "str_int (ls_limit s) \<noteq> []"
    using s digits_head by (auto simp: str_int_def)
  have b: "build_list_state s = Inr \<lparr>ry_kind = RkStateList, ry_arguments = list_arguments s\<rparr>"
    using s ne by (cases "ls_resource s") (auto simp: build_list_state_def mk_RayCommand_def list_arguments_def)
  have r: "resource_of (resource_value (ls_resource s)) = Some (ls_resource s)"
    by (cases "ls_resource s") (simp_all add: resource_of_def)
  have bound: "bindE (mk_RayStateListSpec s) build_list_state = Inr \<lparr>ry_kind = RkStateList, ry_arguments = list_arguments s\<rparr>"
    using assms b by (auto simp: mk_RayStateListSpec_def split: if_splits)
  have "list_allowed (list_arguments s)"
    using bound r canonical_int_text [OF s(3)] canonical_int_text [OF s(4)]
    by (cases s; cases "ls_resource s") (simp_all add: list_allowed_def list_arguments_def Let_def filter_count_def)
  then show ?thesis using b by (cases "ls_resource s") (simp_all add: list_arguments_def)
qed

lemma list_allowed_sound:
  assumes "list_allowed argv"
  shows "\<exists>s. mk_RayStateListSpec s = Inr s \<and> argv = list_arguments s"
proof -
  obtain s c where "bindE (mk_RayStateListSpec s) build_list_state = Inr c" "argv = ry_arguments c"
    using assms by (auto simp: list_allowed_def Let_def split: option.splits sum.splits)
  then show ?thesis
    by (auto simp: result_simps build_list_state_def mk_RayCommand_def mk_RayStateListSpec_def split: if_splits)
qed

text \<open>The arguments that are let through, as a grammar.\<close>

inductive allowed_words :: "string \<Rightarrow> string list \<Rightarrow> bool" for exe where
  version: "allowed_words exe [''--version'']"
| start: "options_written start_value_options [''--head''] opts \<Longrightarrow>
    allowed_words exe (''start'' # concat (map option_words opts))"
| stop: "options_written [''--grace-period''] [''--force''] opts \<Longrightarrow>
    allowed_words exe (''stop'' # concat (map option_words opts))"
| status: "options_written [''--address''] [] opts \<Longrightarrow>
    allowed_words exe (''status'' # concat (map option_words opts))"
| list_state: "mk_RayStateListSpec s = Inr s \<Longrightarrow> ls_executable s = exe \<Longrightarrow>
    allowed_words exe (tl (list_arguments s))"

lemma argv_allowed_iff: "argv_allowed argv \<and> argv \<noteq> [] \<longleftrightarrow> (\<exists>exe ws. argv = exe # ws \<and> allowed_words exe ws)"
proof (intro iffI)
  assume a: "argv_allowed argv \<and> argv \<noteq> []"
  then obtain exe w ws where argv: "argv = exe # w # ws"
    by (cases argv; cases "tl argv") (auto simp: argv_allowed_def)
  have parts: "argv ! 1 = w" "drop 2 argv = ws" "\<not> length argv < 2" by (simp_all add: argv)
  consider "w = ''--version'' \<and> ws = []"
    | "w = ''start'' \<and> option_pairs start_value_options [''--head''] [] ws"
    | "w = ''stop'' \<and> option_pairs [''--grace-period''] [''--force''] [] ws"
    | "w = ''status'' \<and> option_pairs [''--address''] [] [] ws"
    | "w = ''list'' \<and> list_allowed argv"
  proof (cases "length argv = 2 \<and> argv ! 1 = ''--version''")
    case True
    then show thesis using that(1) argv by simp
  next
    case False
    from a have "argv_allowed argv" by blast
    then have "w = ''start'' \<and> option_pairs start_value_options [''--head''] [] ws \<or>
        w = ''stop'' \<and> option_pairs [''--grace-period''] [''--force''] [] ws \<or>
        w = ''status'' \<and> option_pairs [''--address''] [] [] ws \<or>
        w = ''list'' \<and> 11 \<le> length argv \<and> list_allowed argv"
      by (simp only: argv_allowed_def if_not_P [OF False] if_not_P [OF parts(3)] parts(2)) (simp only: parts(1))
    then show thesis using that(2-5) by blast
  qed
  then have "allowed_words exe (w # ws)"
  proof cases
    case 5
    then obtain s where "mk_RayStateListSpec s = Inr s" "argv = list_arguments s" using list_allowed_sound by blast
    then show ?thesis using allowed_words.list_state [of s exe] argv by (simp add: list_arguments_def)
  qed (auto simp: option_pairs_iff intro: allowed_words.intros)
  then show "\<exists>exe ws. argv = exe # ws \<and> allowed_words exe ws" using argv by blast
next
  assume "\<exists>exe ws. argv = exe # ws \<and> allowed_words exe ws"
  then obtain exe ws where w: "argv = exe # ws" "allowed_words exe ws" by blast
  from w(2) show "argv_allowed argv \<and> argv \<noteq> []"
  proof cases
    case (list_state s)
    then have "argv = list_arguments s" using w(1) by (simp add: list_arguments_def)
    then show ?thesis
      using list_arguments_allowed [OF list_state(2)] by (auto simp: argv_allowed_def list_arguments_def)
  qed (use w(1) option_pairs_iff in \<open>auto simp: argv_allowed_def\<close>)
qed

section \<open>Captured output\<close>

text \<open>
  The two reader threads share what is left of the output bound. \<open>True\<close> marks a chunk of standard
  output; chunks arrive in any interleaving, and each is handled under the lock.
\<close>

record drained =
  dr_stdout :: string
  dr_stderr :: string
  dr_remaining :: nat
  dr_truncated :: bool

definition drain_chunk :: "bool \<times> string \<Rightarrow> drained \<Rightarrow> drained" where
  "drain_chunk c d =
     (let keep = min (length (snd c)) (dr_remaining d);
          d1 = (if fst c then d\<lparr>dr_stdout := dr_stdout d @ take keep (snd c)\<rparr>
                else d\<lparr>dr_stderr := dr_stderr d @ take keep (snd c)\<rparr>) in
      d1\<lparr>dr_remaining := dr_remaining d - keep,
        dr_truncated := dr_truncated d \<or> keep < length (snd c)\<rparr>)"

definition drain_all :: "nat \<Rightarrow> (bool \<times> string) list \<Rightarrow> drained" where
  "drain_all maximum chunks =
     fold drain_chunk chunks \<lparr>dr_stdout = [], dr_stderr = [], dr_remaining = maximum, dr_truncated = False\<rparr>"

section \<open>Running a process\<close>

text \<open>
  The operating system, the clock and the cancellation token. \<open>os_kill\<close> says whether it raised no
  \<open>OSError\<close>, which the code swallows. \<open>os_wait\<close> is \<open>process.wait()\<close>, without a limit: \<open>None\<close> when it
  never returns. The reader threads are named as the streams are, \<open>True\<close> for standard output:
  \<open>os_join\<close> is \<open>reader.join(0.5)\<close>, \<open>os_alive\<close> is \<open>reader.is_alive()\<close>, and \<open>os_close\<close> closes the stream from
  the caller's side (errors are swallowed), \<open>None\<close> when it never returns because the reader is inside
  a blocked \<open>read\<close>. \<open>os_output\<close> is what the readers have been given when their buffers are looked at.
  Decoded output with a code point above 255 is \<open>RunBeyond\<close>.
\<close>

record 'w os_env =
  os_stat :: "('w, pyexn, unit) eff"
  os_spawn :: "string list \<Rightarrow> ('w, pyexn, unit) eff"
  os_ended :: "'w \<Rightarrow> bool \<times> 'w"
  os_kill :: "'w \<Rightarrow> bool \<times> 'w"
  os_wait :: "'w \<Rightarrow> (int \<times> 'w) option"
  os_join :: "bool \<Rightarrow> 'w \<Rightarrow> 'w"
  os_alive :: "bool \<Rightarrow> 'w \<Rightarrow> bool \<times> 'w"
  os_close :: "bool \<Rightarrow> 'w \<Rightarrow> 'w option"
  os_output :: "'w \<Rightarrow> (bool \<times> string) list \<times> 'w"
  os_monotonic :: "'w \<Rightarrow> rat \<times> 'w"
  os_sleep :: "rat \<Rightarrow> 'w \<Rightarrow> 'w"
  os_cancelled :: "('w \<Rightarrow> bool \<times> 'w) option"

datatype run_end = RanToEnd | RanTooLong | RanCancelled

definition token_set :: "'w os_env \<Rightarrow> 'w \<Rightarrow> bool \<times> 'w" where
  "token_set os w = (case os_cancelled os of None \<Rightarrow> (False, w) | Some f \<Rightarrow> f w)"

text \<open>The waiting loop; \<open>None\<close> when it never ends.\<close>

partial_function (option) wait_loop :: "'w os_env \<Rightarrow> rat \<Rightarrow> 'w \<Rightarrow> (run_end \<times> 'w) option" where
  "wait_loop os deadline w =
     (case os_ended os w of (ended, w1) \<Rightarrow>
        if ended then Some (RanToEnd, w1)
        else (case token_set os w1 of (cancelled, w2) \<Rightarrow>
          if cancelled then Some (RanCancelled, snd (os_kill os w2))
          else (case os_monotonic os w2 of (now, w3) \<Rightarrow>
            if deadline \<le> now then Some (RanTooLong, snd (os_kill os w3))
            else wait_loop os deadline (os_sleep os (1 / 100) w3))))"

datatype run_outcome = RunDone process_result | RunBeyond

definition decode_output :: "drained \<Rightarrow> (string \<times> string \<times> bool) option" where
  "decode_output d =
     (case (utf8_decode (dr_stdout d), utf8_decode (dr_stderr d)) of
        (Some a, Some b) \<Rightarrow>
          if list_ex (\<lambda>n. 256 \<le> n) (a @ b) then None else Some (map char_of a, map char_of b, False)
      | _ \<Rightarrow> Some ([], [], True))"

definition cancelled_result :: process_result where
  "cancelled_result =
     \<lparr>px_exit_code = None, px_stdout = [], px_stderr = [], px_duration = 0, px_timed_out = False,
      px_cancelled = True, px_output_truncated = False, px_invalid_encoding = False\<rparr>"

text \<open>The second loop over the readers: one that is still alive gets its stream closed.\<close>

definition settle_reader :: "'w os_env \<Rightarrow> bool \<Rightarrow> 'w \<Rightarrow> 'w option" where
  "settle_reader os which w =
     (case os_alive os which w of (alive, w1) \<Rightarrow>
        if \<not> alive then Some w1 else map_option (os_join os which) (os_close os which w1))"

definition settle_readers :: "'w os_env \<Rightarrow> 'w \<Rightarrow> 'w option" where
  "settle_readers os w =
     Option.bind (settle_reader os True (os_join os False (os_join os True w))) (settle_reader os False)"

text \<open>What the buffers and the exit code amount to.\<close>

definition result_of_run ::
    "process_request \<Rightarrow> run_end \<Rightarrow> int \<Rightarrow> rat \<Rightarrow> (bool \<times> string) list \<Rightarrow> run_outcome result" where
  "result_of_run request how code duration chunks =
     (let d = drain_all (pr_max_output request) chunks in
      case decode_output d of
        None \<Rightarrow> Inr RunBeyond
      | Some (out, err, invalid) \<Rightarrow>
          bindE (mk_ProcessResult
             \<lparr>px_exit_code = (if how = RanToEnd then Some code else None), px_stdout = out, px_stderr = err,
              px_duration = duration, px_timed_out = (how = RanTooLong),
              px_cancelled = (how = RanCancelled), px_output_truncated = dr_truncated d,
              px_invalid_encoding = invalid\<rparr>) (\<lambda>r. Inr (RunDone r)))"

text \<open>What follows the loop; \<open>None\<close> when it never returns.\<close>

definition collect_result ::
    "'w os_env \<Rightarrow> process_request \<Rightarrow> rat \<Rightarrow> run_end \<Rightarrow> 'w \<Rightarrow> ((pyexn + run_outcome) \<times> 'w) option" where
  "collect_result os request started how w =
     Option.bind (os_wait os w) (\<lambda>(code, w1).
     map_option (\<lambda>w2.
        case os_monotonic os w2 of (now, w3) \<Rightarrow>
        case os_output os w3 of (chunks, w4) \<Rightarrow>
          (result_of_run request how code (max 0 (now - started)) chunks, w4))
       (settle_readers os w1))"

definition run_process ::
    "(string \<Rightarrow> string) \<Rightarrow> string \<Rightarrow> 'w os_env \<Rightarrow> process_request \<Rightarrow> 'w \<Rightarrow> ((pyexn + run_outcome) \<times> 'w) option" where
  "run_process normcase executable os request w =
     (case andthen (of_result (validate_request normcase executable request)) (\<lambda>_. os_stat os) w of
        (Inl e, w1) \<Rightarrow> Some (Inl e, w1)
      | (Inr _, w1) \<Rightarrow>
          (case token_set os w1 of (cancelled, w2) \<Rightarrow>
             if cancelled then Some (Inr (RunDone cancelled_result), w2)
             else (case os_monotonic os w2 of (started, w3) \<Rightarrow>
               case os_spawn os (pr_argv request) w3 of
                 (Inl e, w4) \<Rightarrow> Some (Inl e, w4)
               | (Inr _, w4) \<Rightarrow>
                   (case wait_loop os (started + pr_timeout request) w4 of
                      None \<Rightarrow> None
                    | Some (how, w5) \<Rightarrow> collect_result os request started how w5))))"

section \<open>Output is bounded and cut off cleanly\<close>

definition stream_of :: "bool \<Rightarrow> (bool \<times> string) list \<Rightarrow> string" where
  "stream_of which chunks = concat (map snd (filter (\<lambda>c. fst c = which) chunks))"

lemma stream_of_simps [simp]:
  "stream_of b [] = []" "stream_of b (xs @ ys) = stream_of b xs @ stream_of b ys"
  "stream_of b (c # xs) = (if fst c = b then snd c else []) @ stream_of b xs"
  by (simp_all add: stream_of_def)

definition drain_inv :: "nat \<Rightarrow> (bool \<times> string) list \<Rightarrow> drained \<Rightarrow> bool" where
  "drain_inv maximum seen d \<longleftrightarrow>
     (let total = length (stream_of True seen) + length (stream_of False seen) in
      dr_stdout d = take (length (dr_stdout d)) (stream_of True seen) \<and>
      dr_stderr d = take (length (dr_stderr d)) (stream_of False seen) \<and>
      length (dr_stdout d) + length (dr_stderr d) + dr_remaining d = maximum \<and>
      (dr_truncated d \<longleftrightarrow> maximum < total) \<and>
      (dr_truncated d \<longrightarrow> dr_remaining d = 0) \<and>
      (\<not> dr_truncated d \<longrightarrow> dr_stdout d = stream_of True seen \<and> dr_stderr d = stream_of False seen))"

lemma take_own: "x = take (length x) s \<Longrightarrow> take (length x) (s @ t) = x"
  by (metis append.right_neutral append_take_drop_id diff_is_0_eq le_add1 length_append nat_le_linear take0 take_all take_append)

lemma drain_chunk_inv:
  assumes inv: "drain_inv m seen d"
  shows "drain_inv m (seen @ [(b, s)]) (drain_chunk (b, s) d)"
proof (cases "length s \<le> dr_remaining d")
  case True
  show ?thesis
  proof (cases "dr_truncated d")
    case trunc: True
    then have "s = []" "dr_remaining d = 0" using inv True by (auto simp: drain_inv_def Let_def)
    then show ?thesis using inv trunc by (simp add: drain_inv_def drain_chunk_def Let_def)
  next
    case False
    then have "dr_stdout d = stream_of True seen" "dr_stderr d = stream_of False seen"
      using inv by (auto simp: drain_inv_def Let_def)
    then show ?thesis
      using inv True False by (cases b) (auto simp: drain_inv_def drain_chunk_def Let_def)
  qed
next
  case False
  show ?thesis
  proof (cases "dr_truncated d")
    case True
    have out: "take (length (dr_stdout d)) (stream_of True seen @ t) = dr_stdout d"
      and err: "take (length (dr_stderr d)) (stream_of False seen @ t) = dr_stderr d" for t
      using inv take_own by (metis drain_inv_def)+
    have "dr_remaining d = 0" "m < length (stream_of True seen) + length (stream_of False seen)"
        "length (dr_stdout d) + length (dr_stderr d) = m"
      using inv True by (auto simp: drain_inv_def Let_def)
    then show ?thesis
      using True out [of "[]"] err [of "[]"] out [of s] err [of s]
      by (cases b) (simp_all add: drain_inv_def drain_chunk_def Let_def del: take_append)
  next
    case not_trunc: False
    then have "dr_stdout d = stream_of True seen" "dr_stderr d = stream_of False seen"
        "length (stream_of True seen) + length (stream_of False seen) + dr_remaining d = m"
      using inv by (auto simp: drain_inv_def Let_def)
    then show ?thesis
      using False by (cases b) (auto simp: drain_inv_def drain_chunk_def Let_def min_def)
  qed
qed

lemma drain_fold_inv: "drain_inv m seen d \<Longrightarrow> drain_inv m (seen @ chunks) (fold drain_chunk chunks d)"
proof (induction chunks arbitrary: seen d)
  case (Cons c chunks)
  from Cons.IH [OF drain_chunk_inv [of m seen d "fst c" "snd c", OF Cons.prems]] show ?case by simp
qed simp

lemma drain_all_inv: "drain_inv m chunks (drain_all m chunks)"
  using drain_fold_inv [of m "[]" _ chunks] by (simp add: drain_all_def drain_inv_def)

text \<open>
  C15: captured output is bounded and cut off cleanly. In whatever order the two readers deliver their
  chunks, what is kept of each stream is the beginning of that stream, the two together hold
  \<open>min maximum total\<close> bytes, and the result is marked truncated exactly when something was left out.
\<close>

theorem drain_exact:
  "dr_stdout (drain_all maximum chunks) = take (length (dr_stdout (drain_all maximum chunks))) (stream_of True chunks) \<and>
   dr_stderr (drain_all maximum chunks) = take (length (dr_stderr (drain_all maximum chunks))) (stream_of False chunks) \<and>
   length (dr_stdout (drain_all maximum chunks)) + length (dr_stderr (drain_all maximum chunks)) =
     min maximum (length (stream_of True chunks) + length (stream_of False chunks)) \<and>
   (dr_truncated (drain_all maximum chunks) \<longleftrightarrow>
     maximum < length (stream_of True chunks) + length (stream_of False chunks))"
proof -
  define d where "d = drain_all maximum chunks"
  have inv: "drain_inv maximum chunks d" unfolding d_def by (rule drain_all_inv)
  have "length (dr_stdout d) + length (dr_stderr d) = min maximum (length (stream_of True chunks) + length (stream_of False chunks))"
    using inv by (cases "dr_truncated d") (auto simp: drain_inv_def Let_def)
  then show ?thesis
    using inv unfolding d_def [symmetric] by (simp add: drain_inv_def Let_def)
qed

section \<open>A run ends\<close>

text \<open>The clock never goes back, and \<open>time.sleep\<close> returns no earlier than asked.\<close>

definition time_passes :: "'w os_env \<Rightarrow> ('w \<Rightarrow> rat) \<Rightarrow> bool" where
  "time_passes os clock \<longleftrightarrow>
     (\<forall>w. clock w \<le> clock (snd (os_ended os w)) \<and> clock w \<le> clock (snd (token_set os w)) \<and>
        clock w \<le> clock (snd (os_monotonic os w)) \<and> fst (os_monotonic os w) = clock (snd (os_monotonic os w)) \<and>
        clock w + 1 / 100 \<le> clock (os_sleep os (1 / 100) w))"

lemma wait_loop_returns:
  assumes "time_passes os clock" and "deadline - clock w \<le> of_nat n / 100"
  shows "\<exists>how w'. wait_loop os deadline w = Some (how, w')"
  using assms(2)
proof (induction n arbitrary: w)
  case (0 w)
  obtain e w1 where e: "os_ended os w = (e, w1)" by fastforce
  obtain c w2 where c: "token_set os w1 = (c, w2)" by fastforce
  obtain t w3 where t: "os_monotonic os w2 = (t, w3)" by fastforce
  have "clock w \<le> clock w1" "clock w1 \<le> clock w2" "clock w2 \<le> clock w3" "t = clock w3"
    using assms(1) e c t unfolding time_passes_def by (metis fst_conv snd_conv)+
  then have "deadline \<le> t" using 0 by simp
  then show ?case using e c t by (subst wait_loop.simps) simp
next
  case (Suc n w)
  obtain e w1 where e: "os_ended os w = (e, w1)" by fastforce
  obtain c w2 where c: "token_set os w1 = (c, w2)" by fastforce
  obtain t w3 where t: "os_monotonic os w2 = (t, w3)" by fastforce
  have le: "clock w \<le> clock w1" "clock w1 \<le> clock w2" "clock w2 \<le> clock w3"
    "clock w3 + 1 / 100 \<le> clock (os_sleep os (1 / 100) w3)"
    using assms(1) e c t unfolding time_passes_def by (metis fst_conv snd_conv)+
  have "(1 + of_nat n) / 100 = 1 / 100 + of_nat n / (100 :: rat)" by (simp add: add_divide_distrib)
  then have "deadline - clock (os_sleep os (1 / 100) w3) \<le> of_nat n / 100"
    using Suc.prems le by simp
  from Suc.IH [OF this] show ?case using e c t by (subst wait_loop.simps) simp
qed

text \<open>
  What Windows and Python promise of the process: a kill that raises nothing terminates it (\<open>over\<close>
  holds of a world where the process has ended or was told to by such a kill), and waiting for a
  process that is over returns; then its ends of the pipes are closed, so that a blocked
  \<open>read\<close> comes to its end and a stream can be closed (\<open>released\<close>). The last promise is broken by a
  descendant of the process that inherited its pipes, the first by a kill that raises.
\<close>

definition process_ends :: "'w os_env \<Rightarrow> ('w \<Rightarrow> bool) \<Rightarrow> ('w \<Rightarrow> bool) \<Rightarrow> bool" where
  "process_ends os over released \<longleftrightarrow>
     (\<forall>w. (fst (os_ended os w) \<longrightarrow> over (snd (os_ended os w))) \<and>
        fst (os_kill os w) \<and> over (snd (os_kill os w)) \<and>
        (over w \<longrightarrow> (\<exists>c w'. os_wait os w = Some (c, w') \<and> released w'))) \<and>
     (\<forall>b w. released w \<longrightarrow> released (os_join os b w) \<and> released (snd (os_alive os b w)) \<and>
        (\<exists>w'. os_close os b w = Some w' \<and> released w'))"

lemma settle_reader_returns:
  assumes "process_ends os over released" and "released w"
  shows "\<exists>w'. settle_reader os b w = Some w' \<and> released w'"
proof -
  obtain a w1 where a: "os_alive os b w = (a, w1)" by (rule prod.exhaust)
  have w1: "released w1" using assms a unfolding process_ends_def by (metis snd_conv)
  then obtain w2 where "os_close os b w1 = Some w2" "released w2"
    using assms(1) unfolding process_ends_def by blast
  moreover have "released (os_join os b w2)"
    using assms(1) calculation(2) unfolding process_ends_def by blast
  ultimately show ?thesis using a w1 by (simp add: settle_reader_def)
qed

lemma settle_readers_returns:
  assumes "process_ends os over released" and "released w"
  shows "\<exists>w'. settle_readers os w = Some w'"
proof -
  have "released (os_join os False (os_join os True w))"
    using assms unfolding process_ends_def by blast
  from settle_reader_returns [OF assms(1) this] obtain w1 where
    1: "settle_reader os True (os_join os False (os_join os True w)) = Some w1" "released w1" by blast
  from settle_reader_returns [OF assms(1) this(2)] 1 show ?thesis by (auto simp: settle_readers_def)
qed

definition spawn_logged :: "'w os_env \<Rightarrow> ('w \<times> string list list) os_env" where
  "spawn_logged os =
     \<lparr>os_stat = (\<lambda>(w, l). case os_stat os w of (r, w') \<Rightarrow> (r, w', l)),
      os_spawn = (\<lambda>argv (w, l). case os_spawn os argv w of (r, w') \<Rightarrow> (r, w', l @ [argv])),
      os_ended = (\<lambda>(w, l). case os_ended os w of (r, w') \<Rightarrow> (r, w', l)),
      os_kill = (\<lambda>(w, l). case os_kill os w of (r, w') \<Rightarrow> (r, w', l)),
      os_wait = (\<lambda>(w, l). map_option (\<lambda>(c, w'). (c, w', l)) (os_wait os w)),
      os_join = (\<lambda>b (w, l). (os_join os b w, l)),
      os_alive = (\<lambda>b (w, l). case os_alive os b w of (r, w') \<Rightarrow> (r, w', l)),
      os_close = (\<lambda>b (w, l). map_option (\<lambda>w'. (w', l)) (os_close os b w)),
      os_output = (\<lambda>(w, l). case os_output os w of (r, w') \<Rightarrow> (r, w', l)),
      os_monotonic = (\<lambda>(w, l). case os_monotonic os w of (r, w') \<Rightarrow> (r, w', l)),
      os_sleep = (\<lambda>t (w, l). (os_sleep os t w, l)),
      os_cancelled = map_option (\<lambda>f (w, l). case f w of (r, w') \<Rightarrow> (r, w', l)) (os_cancelled os)\<rparr>"

lemma time_passes_logged: "time_passes os clock \<Longrightarrow> time_passes (spawn_logged os) (clock \<circ> fst)"
  unfolding time_passes_def spawn_logged_def token_set_def
  by (auto split: prod.splits option.splits) (metis fst_conv snd_conv)+

lemma process_ends_logged:
  assumes "process_ends os over released"
  shows "process_ends (spawn_logged os) (over \<circ> fst) (released \<circ> fst)"
proof -
  have 1: "fst (os_ended os w) \<Longrightarrow> over (snd (os_ended os w))"
    "fst (os_kill os w) \<and> over (snd (os_kill os w))"
    "over w \<Longrightarrow> \<exists>c w'. os_wait os w = Some (c, w') \<and> released w'" for w
    using assms unfolding process_ends_def by blast+
  have 2: "released w \<Longrightarrow> released (os_join os b w)" "released w \<Longrightarrow> released (snd (os_alive os b w))"
    "released w \<Longrightarrow> \<exists>w'. os_close os b w = Some w' \<and> released w'" for b w
    using assms unfolding process_ends_def by blast+
  show ?thesis unfolding process_ends_def
  proof (intro conjI allI impI)
    fix x :: "'a \<times> string list list"
    show "fst (os_ended (spawn_logged os) x) \<Longrightarrow> (over \<circ> fst) (snd (os_ended (spawn_logged os) x))"
      using 1(1) [of "fst x"] by (auto simp: spawn_logged_def split: prod.splits)
    show "fst (os_kill (spawn_logged os) x)" "(over \<circ> fst) (snd (os_kill (spawn_logged os) x))"
      using 1(2) [of "fst x"] by (auto simp: spawn_logged_def split: prod.splits)
    show "(over \<circ> fst) x \<Longrightarrow> \<exists>c w'. os_wait (spawn_logged os) x = Some (c, w') \<and> (released \<circ> fst) w'"
      using 1(3) [of "fst x"] by (cases x) (auto simp: spawn_logged_def)
  next
    fix b and x :: "'a \<times> string list list"
    assume c: "(released \<circ> fst) x"
    show "(released \<circ> fst) (os_join (spawn_logged os) b x)"
      using 2(1) [of "fst x"] c by (cases x) (simp add: spawn_logged_def)
    show "(released \<circ> fst) (snd (os_alive (spawn_logged os) b x))"
      using 2(2) [of "fst x" b] c by (auto simp: spawn_logged_def split: prod.splits)
    show "\<exists>w'. os_close (spawn_logged os) b x = Some w' \<and> (released \<circ> fst) w'"
      using 2(3) [of "fst x" b] c by (cases x) (auto simp: spawn_logged_def)
  qed
qed

text \<open>
  What every step keeps still holds when the loop is left, together with what the step that left it
  brought about.
\<close>

lemma wait_loop_keeps:
  assumes "\<And>w. J w \<Longrightarrow> J (snd (os_ended os w)) \<and> J (snd (token_set os w)) \<and> J (snd (os_monotonic os w)) \<and>
      J (os_sleep os (1 / 100) w)"
    and ends: "\<And>w. J w \<Longrightarrow> (fst (os_ended os w) \<longrightarrow> K (snd (os_ended os w))) \<and> K (snd (os_kill os w))"
    and "J w" and "wait_loop os deadline w = Some (how, w')"
  shows "K w'"
proof -
  have step: "o' = os \<longrightarrow> J v \<longrightarrow> K (snd r)"
    if IH: "\<And>o2 d v r. loop o2 d v = Some r \<Longrightarrow> o2 = os \<longrightarrow> J v \<longrightarrow> K (snd r)"
      and r: "(case os_ended o' v of (ended, w1) \<Rightarrow>
        if ended then Some (RanToEnd, w1)
        else (case token_set o' w1 of (cancelled, w2) \<Rightarrow>
          if cancelled then Some (RanCancelled, snd (os_kill o' w2))
          else (case os_monotonic o' w2 of (now, w3) \<Rightarrow>
            if d \<le> now then Some (RanTooLong, snd (os_kill o' w3))
            else loop o' d (os_sleep o' (1 / 100) w3)))) = Some r"
    for loop o' d v r
  proof (intro impI)
    assume o': "o' = os" and J: "J v"
    obtain e w1 where e: "os_ended os v = (e, w1)" by fastforce
    obtain c w2 where c: "token_set os w1 = (c, w2)" by fastforce
    obtain t w3 where t: "os_monotonic os w2 = (t, w3)" by fastforce
    have "J w1" using assms(1) [OF J] e by simp
    moreover from this have "J w2" using assms(1) [of w1] c by simp
    moreover from this have "J w3" using assms(1) [of w2] t by simp
    ultimately show "K (snd r)"
      using r o' e c t ends [OF J] ends [of w2] ends [of w3] assms(1) [of w3]
        IH [of os d "os_sleep os (1 / 100) w3" r]
      by (auto split: if_splits)
  qed
  have "os = os \<longrightarrow> J w \<longrightarrow> K (snd (how, w'))"
    by (rule wait_loop.raw_induct [of "\<lambda>o' d v r. o' = os \<longrightarrow> J v \<longrightarrow> K (snd r)", OF step assms(4)])
  with assms(3) show ?thesis by simp
qed

lemma wait_loop_over:
  "process_ends os over released \<Longrightarrow> wait_loop os deadline w = Some (how, w') \<Longrightarrow> over w'"
  using wait_loop_keeps [of "\<lambda>_. True" os over w deadline how w'] by (simp add: process_ends_def)

lemma wait_loop_log:
  "wait_loop (spawn_logged os) deadline (w, l) = Some (how, w', l') \<Longrightarrow> l' = l"
  using wait_loop_keeps [of "\<lambda>x. snd x = l" "spawn_logged os" "\<lambda>x. snd x = l" "(w, l)" deadline how "(w', l')"]
  by (auto simp: spawn_logged_def token_set_def split: prod.splits option.splits)

lemma utf8_shorter: "utf8_decode s = Some cps \<Longrightarrow> length cps \<le> length s"
proof (induction s arbitrary: cps rule: measure_induct_rule [of length])
  case (less s)
  show ?case
  proof (cases s)
    case (Cons a t)
    have IH: "utf8_decode u = Some z \<Longrightarrow> length u < length s \<Longrightarrow> length z \<le> length u" for u z
      using less.IH by blast
    from Cons less.prems show ?thesis
      by (auto split: if_splits list.splits dest!: IH)
  qed (use less.prems in simp)
qed

lemma decoded_bound:
  assumes "decode_output (drain_all m chunks) = Some (a, b, x)"
  shows "length a + length b \<le> m"
proof -
  let ?d = "drain_all m chunks"
  have "length (dr_stdout ?d) + length (dr_stderr ?d) \<le> m"
    using drain_all_inv [of m chunks] by (auto simp: drain_inv_def Let_def)
  moreover have "length a \<le> length (dr_stdout ?d) \<and> length b \<le> length (dr_stderr ?d)"
    using assms utf8_shorter [of "dr_stdout ?d"] utf8_shorter [of "dr_stderr ?d"]
    by (auto simp: decode_output_def split: option.splits if_splits)
  ultimately show ?thesis by linarith
qed

lemma process_request_argv:
  assumes "mk_ProcessRequest argv timeout max_output cwd = Inr request"
  shows "pr_argv request = argv" "argv \<noteq> []"
proof -
  have ok: "argv_ok argv" using assms by (simp add: mk_ProcessRequest_def split: if_splits)
  then show "argv \<noteq> []" by auto
  obtain t where "finite_seconds timeout True = Inr t"
    using assms ok by (auto simp: mk_ProcessRequest_def result_simps)
  with assms ok show "pr_argv request = argv"
    by (cases max_output) (auto simp: mk_ProcessRequest_def result_simps split: if_splits)
qed

lemma settle_reader_log:
  "settle_reader (spawn_logged os) b (w, l) = Some (w', l') \<Longrightarrow> l' = l"
  by (auto simp: settle_reader_def spawn_logged_def split: prod.splits if_splits)

lemma settle_readers_log:
  assumes "settle_readers (spawn_logged os) (w, l) = Some (w', l')"
  shows "l' = l"
proof -
  have "os_join (spawn_logged os) False (os_join (spawn_logged os) True (w, l)) =
      (os_join os False (os_join os True w), l)" by (simp add: spawn_logged_def)
  with assms obtain v m where
    "settle_reader (spawn_logged os) True (os_join os False (os_join os True w), l) = Some (v, m)"
    "settle_reader (spawn_logged os) False (v, m) = Some (w', l')"
    by (auto simp: settle_readers_def bind_eq_Some_conv)
  then show ?thesis using settle_reader_log by metis
qed

text \<open>Collecting the result of a process that is over returns and starts nothing.\<close>

lemma collect_result_returns:
  assumes "process_ends os over released" and "over w"
  shows "\<exists>r w'. collect_result (spawn_logged os) request started how (w, l) = Some (r, w', l) \<and>
    (\<forall>px. r = Inr (RunDone px) \<longrightarrow> length (px_stdout px) + length (px_stderr px) \<le> pr_max_output request)"
proof -
  let ?os = "spawn_logged os"
  note logged = process_ends_logged [OF assms(1)]
  obtain code w1 where 1: "os_wait os w = Some (code, w1)" "released w1"
    using assms unfolding process_ends_def by blast
  obtain x2 where 2: "settle_readers ?os (w1, l) = Some x2"
    using settle_readers_returns [OF logged, of "(w1, l)"] 1(2) by auto
  obtain w2 where x2: "x2 = (w2, l)" using settle_readers_log 2 by (metis prod.exhaust)
  obtain now w3 where 3: "os_monotonic os w2 = (now, w3)" by (rule prod.exhaust)
  obtain chunks w4 where 4: "os_output os w3 = (chunks, w4)" by (rule prod.exhaust)
  let ?r = "result_of_run request how code (max 0 (now - started)) chunks"
  have "os_wait ?os (w, l) = Some (code, w1, l)" "os_monotonic ?os (w2, l) = (now, w3, l)"
    "os_output ?os (w3, l) = (chunks, w4, l)"
    using 1 3 4 by (simp_all add: spawn_logged_def)
  then have "collect_result ?os request started how (w, l) = Some (?r, w4, l)"
    using 2 x2 by (simp add: collect_result_def)
  moreover have "length (px_stdout px) + length (px_stderr px) \<le> pr_max_output request"
    if "?r = Inr (RunDone px)" for px
    using that
    by (auto simp: result_of_run_def Let_def result_simps mk_ProcessResult_def
        split: prod.splits option.splits if_splits dest: decoded_bound)
  ultimately show ?thesis by blast
qed

text \<open>
  C14: a run is contained. When the clock advances as \<open>time\<close> documents, a kill that the loop issues
  terminates the process and the pipes of an ended process can be closed, running a request
  returns, however long the process would have lived; at most one process is started, with the
  request's own arguments, and only when the executable is the configured one and the arguments
  belong to the grammar of the allowlist; the captured text fits the bound of the request. The
  promise about the kill is needed: the code swallows a failed one and waits without a limit.
\<close>

theorem ray_run_contained:
  assumes "mk_ProcessRequest argv timeout max_output cwd = Inr request" and "time_passes os clock"
    and "process_ends os over released"
  shows "\<exists>r w' l'. run_process normcase executable (spawn_logged os) request (w, []) = Some (r, w', l') \<and>
    (l' = [] \<or> l' = [argv] \<and> (\<exists>exe ws. argv = exe # ws \<and> allowed_words exe ws \<and>
       normcase (wp_str (pure_windows_path exe)) = normcase executable)) \<and>
    (\<forall>px. r = Inr (RunDone px) \<longrightarrow> length (px_stdout px) + length (px_stderr px) \<le> pr_max_output request)"
proof -
  let ?os = "spawn_logged os"
  have argv: "pr_argv request = argv" "argv \<noteq> []"
    by (rule process_request_argv [OF assms(1)])+
  obtain x0 w1 l1 where s: "andthen (of_result (validate_request normcase executable request)) (\<lambda>_. os_stat ?os) (w, []) = (x0, w1, l1)"
    by (metis prod_cases3)
  then have l1: "l1 = []"
    by (auto simp: andthen_def of_result_def ret_def throw_def spawn_logged_def split: sum.splits prod.splits)
  show ?thesis
  proof (cases x0)
    case (Inl e)
    then show ?thesis using s l1 by (simp add: run_process_def)
  next
    case (Inr u)
    then have valid: "validate_request normcase executable request = Inr ()"
      using s by (auto simp: andthen_def of_result_def throw_def split: sum.splits)
    then have words: "\<exists>exe ws. argv = exe # ws \<and> allowed_words exe ws \<and> normcase (wp_str (pure_windows_path exe)) = normcase executable"
      using argv_allowed_iff [of argv] argv by (auto simp: validate_request_def split: if_splits)
    obtain c w2 l2 where c: "token_set ?os (w1, l1) = (c, w2, l2)" by (metis prod_cases3)
    have l2: "l2 = []" using c l1 by (auto simp: token_set_def spawn_logged_def split: option.splits prod.splits)
    show ?thesis
    proof (cases c)
      case True
      then show ?thesis using s c Inr l2 by (simp add: run_process_def cancelled_result_def)
    next
      case False
      obtain started w3 l3 where m: "os_monotonic ?os (w2, l2) = (started, w3, l3)" by (metis prod_cases3)
      obtain y w4 l4 where sp: "os_spawn ?os argv (w3, l3) = (y, w4, l4)" by (metis prod_cases3)
      have l4: "l4 = [argv]" using m sp l2 by (auto simp: spawn_logged_def split: prod.splits)
      show ?thesis
      proof (cases y)
        case (Inl e)
        then show ?thesis using s c m sp Inr False l4 words argv(1) by (simp add: run_process_def)
      next
        case y: (Inr v)
        let ?deadline = "started + pr_timeout request"
        obtain n where "100 * (?deadline - (clock \<circ> fst) (w4, l4)) \<le> of_nat n" using real_arch_simple by blast
        then have "?deadline - (clock \<circ> fst) (w4, l4) \<le> of_nat n / 100" by simp
        from wait_loop_returns [OF time_passes_logged [OF assms(2)] this]
        obtain how w5 l5 where loop: "wait_loop ?os ?deadline (w4, l4) = Some (how, w5, l5)" by auto
        have l5: "l5 = [argv]" using wait_loop_log [OF loop] l4 by simp
        have "over w5"
          using wait_loop_over [OF process_ends_logged [OF assms(3)] loop] by simp
        from collect_result_returns [OF assms(3) this] l5 obtain r w6 where
          col: "collect_result ?os request started how (w5, l5) = Some (r, w6, [argv])"
          and fits: "\<forall>px. r = Inr (RunDone px) \<longrightarrow>
            length (px_stdout px) + length (px_stderr px) \<le> pr_max_output request" by blast
        then show ?thesis
          using s c m sp Inr y False loop words argv(1) by (simp add: run_process_def)
      qed
    qed
  qed
qed

section \<open>Witnesses\<close>

text \<open>
  A process that never ends by itself; the world is the clock and whether the process was killed.
\<close>

definition sleepy_os :: "(rat \<times> bool) os_env" where
  "sleepy_os =
     \<lparr>os_stat = ret (), os_spawn = (\<lambda>_. ret ()), os_ended = (\<lambda>w. (snd w, w)),
      os_kill = (\<lambda>(t, killed). (True, t, True)),
      os_wait = (\<lambda>(t, killed). if killed then Some (1, t, killed) else None),
      os_join = (\<lambda>_ w. w), os_alive = (\<lambda>_ w. (False, w)), os_close = (\<lambda>_. Some),
      os_output = (\<lambda>w. ([(True, ''partial''), (False, ''late'')], w)),
      os_monotonic = (\<lambda>w. (fst w, w)), os_sleep = (\<lambda>t w. (fst w + t, snd w)), os_cancelled = None\<rparr>"

abbreviation status_words :: "string list" where
  "status_words \<equiv> [''ray.exe'', ''status'', ''--address'', ''head:6379'']"

theorem ray_run_contained_witness:
  "\<exists>request r w' l'. mk_ProcessRequest status_words (PInt 30) (PInt 65536) PNone = Inr request \<and>
     run_process id ''ray.exe'' (spawn_logged sleepy_os) request ((0, False), []) = Some (r, w', l') \<and>
     (l' = [] \<or> l' = [status_words])"
proof -
  have "mk_ProcessRequest status_words (PInt 30) (PInt 65536) PNone =
      Inr \<lparr>pr_argv = status_words, pr_timeout = 30, pr_max_output = 65536, pr_cwd = None\<rparr>"
    by (simp add: mk_ProcessRequest_def finite_seconds_def float_of_int_def float_overflow_def has_control_def ord_def)
  moreover have "time_passes sleepy_os fst" by (simp add: time_passes_def sleepy_os_def token_set_def)
  moreover have "process_ends sleepy_os snd (\<lambda>_. True)"
    by (auto simp: process_ends_def sleepy_os_def)
  ultimately show ?thesis
    using ray_run_contained [of status_words "PInt 30" "PInt 65536" PNone _ sleepy_os fst snd "\<lambda>_. True" id "''ray.exe''"]
    by blast
qed

text \<open>
  Where the promise is broken: a process that cannot be killed and does not end keeps the run waiting
  for ever, although its deadline has passed.
\<close>

definition stubborn_os :: "(rat \<times> bool) os_env" where
  "stubborn_os = sleepy_os\<lparr>os_kill := (\<lambda>w. (False, w))\<rparr>"

lemma failed_kill_never_returns:
  "run_process id ''ray.exe'' stubborn_os
     \<lparr>pr_argv = status_words, pr_timeout = 1 / 100, pr_max_output = 10, pr_cwd = None\<rparr> (0, False) = None"
proof -
  have valid: "validate_request id ''ray.exe''
      \<lparr>pr_argv = status_words, pr_timeout = 1 / 100, pr_max_output = 10, pr_cwd = None\<rparr> = Inr ()" by code_simp
  have "wait_loop stubborn_os (1 / 100) (0, False) = Some (RanTooLong, 1 / 100, False)"
    by (simp add: wait_loop.simps stubborn_os_def sleepy_os_def token_set_def)
  then show ?thesis
    by (simp add: run_process_def valid andthen_def of_result_def ret_def stubborn_os_def sleepy_os_def
        token_set_def collect_result_def)
qed

text \<open>
  The same happens after an ordinary kill when a descendant of the process holds the pipes: the reader
  stays in its \<open>read\<close>, and closing the stream waits for it.
\<close>

definition inherited_os :: "(rat \<times> bool) os_env" where
  "inherited_os = sleepy_os\<lparr>os_alive := (\<lambda>_ w. (True, w)), os_close := (\<lambda>_ _. None)\<rparr>"

lemma blocked_close_never_returns:
  "run_process id ''ray.exe'' inherited_os
     \<lparr>pr_argv = status_words, pr_timeout = 1 / 100, pr_max_output = 10, pr_cwd = None\<rparr> (0, False) = None"
proof -
  have valid: "validate_request id ''ray.exe''
      \<lparr>pr_argv = status_words, pr_timeout = 1 / 100, pr_max_output = 10, pr_cwd = None\<rparr> = Inr ()" by code_simp
  have "wait_loop inherited_os (1 / 100) (0, False) = Some (RanTooLong, 1 / 100, True)"
    by (simp add: wait_loop.simps inherited_os_def sleepy_os_def token_set_def)
  then show ?thesis
    by (simp add: run_process_def valid andthen_def of_result_def ret_def inherited_os_def sleepy_os_def
        token_set_def collect_result_def settle_readers_def settle_reader_def)
qed

end
