(* ===== verification/RayAdapter.thy ===== *)
theory RayAdapter
  imports RayRunner
begin

text \<open>
  \<open>RayCliAdapter\<close> of \<open>src/rcm/adapters/ray_cli.py\<close> with its settings: the Ray control port of this
  computer. Each call is guarded by the local node and the epoch, builds one command and asks the
  process runner, a parameter, to run it. The last section shows that the runner of \<open>RayRunner\<close>
  accepts every request the adapter makes.
\<close>

section \<open>Settings\<close>

record cli_settings =
  cl_executable :: string
  cl_local_node_id :: string
  cl_cluster_port :: int
  cl_num_cpus :: "int option"
  cl_driver_only :: bool
  cl_temp_dir :: "string option"
  cl_dashboard_host :: "string option"
  cl_dashboard_port :: "int option"
  cl_node_manager_port :: "int option"
  cl_object_manager_port :: "int option"
  cl_runtime_env_agent_port :: "int option"
  cl_dashboard_agent_grpc_port :: "int option"
  cl_dashboard_agent_listen_port :: "int option"
  cl_metrics_export_port :: "int option"
  cl_min_worker_port :: "int option"
  cl_max_worker_port :: "int option"
  cl_start_timeout :: rat
  cl_stop_timeout :: rat
  cl_status_timeout :: rat
  cl_max_output_bytes :: int

text \<open>The fields every start specification takes from the settings, and the ones given by the call.\<close>

definition start_spec_of ::
    "cli_settings \<Rightarrow> ray_mode \<Rightarrow> string option \<Rightarrow> string \<Rightarrow> string option \<Rightarrow> start_spec" where
  "start_spec_of s mode address node_ip node_name =
     \<lparr>sp_executable = cl_executable s, sp_mode = mode, sp_address = address,
      sp_node_ip_address = Some node_ip,
      sp_port = (if mode = ModeHead then Some (cl_cluster_port s) else None),
      sp_dashboard_host = (if mode = ModeHead then cl_dashboard_host s else None),
      sp_dashboard_port = (if mode = ModeHead then cl_dashboard_port s else None),
      sp_num_cpus = cl_num_cpus s, sp_temp_dir = cl_temp_dir s,
      sp_node_manager_port = cl_node_manager_port s, sp_object_manager_port = cl_object_manager_port s,
      sp_runtime_env_agent_port = cl_runtime_env_agent_port s,
      sp_dashboard_agent_grpc_port = cl_dashboard_agent_grpc_port s,
      sp_dashboard_agent_listen_port = cl_dashboard_agent_listen_port s,
      sp_metrics_export_port = cl_metrics_export_port s, sp_min_worker_port = cl_min_worker_port s,
      sp_max_worker_port = cl_max_worker_port s, sp_node_name = node_name, sp_block = False\<rparr>"

definition mk_RayCliSettings :: "cli_settings \<Rightarrow> cli_settings result" where
  "mk_RayCliSettings s =
     (if cl_local_node_id s = [] \<or> list_ex (\<lambda>c. ord c < 33) (cl_local_node_id s) \<or>
         \<not> (1 \<le> cl_cluster_port s \<and> cl_cluster_port s \<le> 65535) \<or>
         cl_driver_only s \<and> (cl_dashboard_host s \<noteq> None \<or> cl_dashboard_port s \<noteq> None) \<or>
         cl_start_timeout s \<le> 0 \<or> cl_stop_timeout s \<le> 0 \<or> cl_status_timeout s \<le> 0 \<or>
         \<not> (1 \<le> cl_max_output_bytes s \<and> cl_max_output_bytes s \<le> 16777216)
      then Inl ValueError
      else bindE (mk_RayStartSpec
          (if cl_driver_only s
           then start_spec_of s ModeDriverOnly (Some (''synthetic-head:'' @ str_int (cl_cluster_port s))) ''synthetic-node'' None
           else start_spec_of s ModeHead None ''synthetic-node'' None))
        (\<lambda>_. Inr s))"

definition endpoint_text :: "string \<Rightarrow> int \<Rightarrow> string" where
  "endpoint_text address port =
     (case ip_address address of
        None \<Rightarrow> address
      | Some (IPv6 n scope) \<Rightarrow> ''['' @ ip_compressed (IPv6 n scope) @ '']''
      | Some a \<Rightarrow> ip_compressed a) @ CHR '':'' # str_int port"

section \<open>The version text\<close>

text \<open>
  \<open>(?:^|\s)ray,\s+version\s+(\d+\.\d+\.\d+)(?:\s|$)\<close>, ignoring case: the three numbers after the two
  words, and the first place where they follow the beginning or white space.
\<close>

definition words_after :: "string \<Rightarrow> string \<Rightarrow> string option" where
  "words_after word s =
     (if casefold (take (length word) s) = word \<and> takeWhile is_space (drop (length word) s) \<noteq> []
      then Some (dropWhile is_space (drop (length word) s)) else None)"

definition number_then :: "string \<Rightarrow> (string \<times> string) option" where
  "number_then s = (if takeWhile is_digit s = [] then None else Some (takeWhile is_digit s, dropWhile is_digit s))"

definition dotted_version :: "string \<Rightarrow> string option" where
  "dotted_version s =
     (case number_then s of
        Some (a, r1) \<Rightarrow>
          (case (take 1 r1 = ''.'', number_then (drop 1 r1)) of
             (True, Some (b, r2)) \<Rightarrow>
               (case (take 1 r2 = ''.'', number_then (drop 1 r2)) of
                  (True, Some (c, r3)) \<Rightarrow>
                    if r3 = [] \<or> is_space (hd r3) then Some (a @ ''.'' @ b @ ''.'' @ c) else None
                | _ \<Rightarrow> None)
           | _ \<Rightarrow> None)
      | None \<Rightarrow> None)"

definition version_at :: "string \<Rightarrow> string option" where
  "version_at s =
     (case words_after ''ray,'' s of
        None \<Rightarrow> None
      | Some r \<Rightarrow> (case words_after ''version'' r of None \<Rightarrow> None | Some v \<Rightarrow> dotted_version v))"

fun search_version :: "bool \<Rightarrow> string \<Rightarrow> string option" where
  "search_version boundary s =
     (case (if boundary then version_at s else None) of
        Some v \<Rightarrow> Some v
      | None \<Rightarrow> (case s of [] \<Rightarrow> None | c # cs \<Rightarrow> search_version (is_space c) cs))"

definition supported_version :: string where
  "supported_version = ''2.55.1''"

section \<open>The adapter\<close>

text \<open>
  The process runner, the manifest sink and the cancellation token. The state is \<open>_last_epoch\<close> and
  the world.
\<close>

datatype run_return = RrResult process_result | RrOther

record 'w cli_env =
  ce_run :: "process_request \<Rightarrow> ('w, pyexn, run_return) eff"
  ce_push :: "(node \<Rightarrow> string \<Rightarrow> int \<Rightarrow> 'w \<Rightarrow> control_return \<times> 'w) option"
  ce_cancelled :: "('w \<Rightarrow> bool \<times> 'w) option"
  ce_raise :: "('w, pyexn, unit) eff"

type_synonym 'w cli_state = "int \<times> 'w"

definition in_world :: "('w, pyexn, 'a) eff \<Rightarrow> ('w cli_state, pyexn, 'a) eff" where
  "in_world m \<sigma> = (case m (snd \<sigma>) of (r, w) \<Rightarrow> (r, fst \<sigma>, w))"

definition cli_answer :: "action_status \<Rightarrow> string \<Rightarrow> bool \<Rightarrow> action_result result" where
  "cli_answer st code retryable = mk_ActionResult st code [] retryable (Some [])"

definition cli_refuse :: "rcm_error \<Rightarrow> ('s, pyexn, control_return) eff" where
  "cli_refuse e = andthen (of_result (rcm_to_result e)) (\<lambda>r. ret (CtlResult r))"

definition cli_local :: "cli_settings \<Rightarrow> node \<Rightarrow> ('s, pyexn, control_return) eff \<Rightarrow> ('s, pyexn, control_return) eff" where
  "cli_local s n k =
     (if node_id n \<noteq> cl_local_node_id s then cli_refuse RejectedError
      else if \<not> node_enabled n then cli_refuse RejectedError
      else k)"

definition cli_epoch :: "int \<Rightarrow> ('w cli_state, pyexn, control_return) eff \<Rightarrow> ('w cli_state, pyexn, control_return) eff" where
  "cli_epoch epoch k \<sigma> =
     (if epoch < 0 then throw ValueError \<sigma>
      else if epoch < fst \<sigma> then cli_refuse StaleError \<sigma>
      else k (epoch, snd \<sigma>))"

text \<open>An exception of the runner or the sink: cancelled when the token says so.\<close>

definition on_failure :: "'w cli_env \<Rightarrow> string \<Rightarrow> pyexn \<Rightarrow> ('w, pyexn, control_return) eff" where
  "on_failure env code e =
     (if \<not> is_exception e then throw e
      else (\<lambda>w. case (case ce_cancelled env of None \<Rightarrow> (False, w) | Some f \<Rightarrow> f w) of
        (c, w') \<Rightarrow> of_result (bindE (if c then cli_answer ActCancelled ''ray.cancelled'' True
          else cli_answer ActFailed code True) (\<lambda>r. Inr (CtlResult r))) w'))"

text \<open>The verdict on a finished process; \<open>good\<close> is what is left to decide after exit code 0.\<close>

definition cli_verdict :: "run_return \<Rightarrow> (process_result \<Rightarrow> action_result result) \<Rightarrow> action_result result" where
  "cli_verdict x good =
     (case x of
        RrOther \<Rightarrow> cli_answer ActFailed ''ray.invalid_result'' False
      | RrResult r \<Rightarrow>
          if px_invalid_encoding r then cli_answer ActFailed ''ray.invalid_encoding'' False
          else if px_cancelled r then cli_answer ActCancelled ''ray.cancelled'' True
          else if px_timed_out r then cli_answer ActFailed ''ray.timeout'' True
          else if px_exit_code r \<noteq> Some 0 then cli_answer ActFailed ''ray.exit_nonzero'' True
          else good r)"

definition cli_execute ::
    "cli_settings \<Rightarrow> 'w cli_env \<Rightarrow> string list \<Rightarrow> rat \<Rightarrow> (process_result \<Rightarrow> action_result result) \<Rightarrow> ('w, pyexn, control_return) eff" where
  "cli_execute s env argv timeout good =
     andthen (of_result (mk_ProcessRequest argv (PFloat (Finite timeout)) (PInt (cl_max_output_bytes s)) PNone)) (\<lambda>request.
     (\<lambda>w. case ce_run env request w of
        (Inl e, w') \<Rightarrow> on_failure env ''ray.runner_error'' e w'
      | (Inr x, w') \<Rightarrow> of_result (bindE (cli_verdict x good) (\<lambda>r. Inr (CtlResult r))) w'))"

definition cli_run ::
    "cli_settings \<Rightarrow> 'w cli_env \<Rightarrow> string list \<Rightarrow> rat \<Rightarrow> string \<Rightarrow> ('w, pyexn, control_return) eff" where
  "cli_run s env argv timeout success_code =
     andthen (if ce_cancelled env = None then ret () else ce_raise env) (\<lambda>_.
     cli_execute s env argv timeout (\<lambda>_. ar_success success_code [] (Some [])))"

definition judge_version :: "process_result \<Rightarrow> action_result result" where
  "judge_version r =
     (if search_version True (px_stdout r @ CHR 0x0A # px_stderr r) \<noteq> Some supported_version
      then cli_answer ActFailed ''ray.version_unsupported'' False
      else ar_success ''ray.preflight_ready'' [] (Some []))"

definition cli_preflight :: "cli_settings \<Rightarrow> 'w cli_env \<Rightarrow> node \<Rightarrow> int \<Rightarrow> ('w cli_state, pyexn, control_return) eff" where
  "cli_preflight s env n epoch =
     cli_local s n (cli_epoch epoch (in_world
       (cli_execute s env [cl_executable s, ''--version''] (cl_status_timeout s) judge_version)))"

definition command_words :: "ray_command result \<Rightarrow> string list result" where
  "command_words c = bindE c (\<lambda>x. Inr (ry_arguments x))"

definition cli_stop :: "cli_settings \<Rightarrow> 'w cli_env \<Rightarrow> node \<Rightarrow> int \<Rightarrow> ('w cli_state, pyexn, control_return) eff" where
  "cli_stop s env n epoch =
     cli_local s n (cli_epoch epoch (in_world
       (andthen (of_result (command_words (bindE
          (mk_RayStopSpec \<lparr>st_executable = cl_executable s, st_force = False, st_grace = None\<rparr>) build_stop))) (\<lambda>argv.
        cli_run s env argv (cl_stop_timeout s) ''ray.stopped''))))"

definition cli_push :: "cli_settings \<Rightarrow> 'w cli_env \<Rightarrow> node \<Rightarrow> string \<Rightarrow> int \<Rightarrow> ('w cli_state, pyexn, control_return) eff" where
  "cli_push s env n digest epoch =
     cli_local s n (cli_epoch epoch (
       if \<not> is_digest digest then throw ValueError
       else (case ce_push env of
           None \<Rightarrow> cli_refuse UnsupportedError
         | Some sink \<Rightarrow> in_world (on_raise
             (\<lambda>w. case sink n digest epoch w of
                (CtlRaises e, w') \<Rightarrow> (Inl e, w') | (r, w') \<Rightarrow> (Inr r, w'))
             (on_failure env ''ray.manifest_error'')))))"

definition cli_start :: "cli_settings \<Rightarrow> 'w cli_env \<Rightarrow> start_spec \<Rightarrow> string \<Rightarrow> ('w, pyexn, control_return) eff" where
  "cli_start s env spec success_code =
     andthen (of_result (command_words (bindE (mk_RayStartSpec spec) build_start))) (\<lambda>argv.
     cli_run s env argv (cl_start_timeout s) success_code)"

definition cli_start_head :: "cli_settings \<Rightarrow> 'w cli_env \<Rightarrow> node \<Rightarrow> int \<Rightarrow> ('w cli_state, pyexn, control_return) eff" where
  "cli_start_head s env n epoch =
     cli_local s n (
       if cl_driver_only s then cli_refuse RejectedError
       else cli_epoch epoch (in_world
         (cli_start s env (start_spec_of s ModeHead None (node_address n) None) ''ray.head_started'')))"

definition cli_join_worker :: "cli_settings \<Rightarrow> 'w cli_env \<Rightarrow> node \<Rightarrow> node \<Rightarrow> int \<Rightarrow> ('w cli_state, pyexn, control_return) eff" where
  "cli_join_worker s env n head epoch =
     cli_local s n (cli_epoch epoch (in_world
       (cli_start s env
         (start_spec_of s (if cl_driver_only s then ModeDriverOnly else ModeWorker)
           (Some (endpoint_text (node_address head) (cl_cluster_port s))) (node_address n) (Some (node_id n)))
         ''ray.worker_joined'')))"

definition cli_verify :: "cli_settings \<Rightarrow> 'w cli_env \<Rightarrow> node list \<Rightarrow> node \<Rightarrow> int \<Rightarrow> ('w cli_state, pyexn, control_return) eff" where
  "cli_verify s env nodes head epoch =
     (if nodes = [] then throw ValueError
      else cli_local s head (
        if card (set (map node_id nodes)) \<noteq> length nodes \<or> node_id head \<notin> set (map node_id nodes) then throw ValueError
        else if length nodes \<noteq> 1 then cli_refuse UnsupportedError
        else cli_epoch epoch (in_world
          (andthen (of_result (command_words (bindE
             (mk_RayStatusSpec \<lparr>ss_executable = cl_executable s,
                ss_address = Some (endpoint_text (node_address head) (cl_cluster_port s))\<rparr>) build_status))) (\<lambda>argv.
           cli_run s env argv (cl_status_timeout s) ''ray.verified'')))))"

text \<open>The adapter as the control port of the other components.\<close>

definition cli_dispatch :: "cli_settings \<Rightarrow> 'w cli_env \<Rightarrow> control_call \<Rightarrow> ('w cli_state, pyexn, control_return) eff" where
  "cli_dispatch s env call =
     (case call of
        CtlPreflight n e \<Rightarrow> cli_preflight s env n e
      | CtlStop n e \<Rightarrow> cli_stop s env n e
      | CtlPush n d e \<Rightarrow> cli_push s env n d e
      | CtlStartHead n e \<Rightarrow> cli_start_head s env n e
      | CtlJoin n h e \<Rightarrow> cli_join_worker s env n h e
      | CtlVerify ns h e \<Rightarrow> cli_verify s env ns h e)"

definition cli_control :: "cli_settings \<Rightarrow> 'w cli_env \<Rightarrow> control_call \<Rightarrow> 'w cli_state \<Rightarrow> control_return \<times> 'w cli_state" where
  "cli_control s env call \<sigma> =
     (case cli_dispatch s env call \<sigma> of (Inl e, \<tau>) \<Rightarrow> (CtlRaises e, \<tau>) | (Inr r, \<tau>) \<Rightarrow> (r, \<tau>))"

section \<open>The builder's commands pass the allowlist\<close>

definition start_table :: "start_spec \<Rightarrow> (string \<times> string option) list" where
  "start_table s =
     [(''--address'', sp_address s), (''--node-ip-address'', sp_node_ip_address s),
      (''--port'', map_option str_int (sp_port s)), (''--dashboard-host'', sp_dashboard_host s),
      (''--dashboard-port'', map_option str_int (sp_dashboard_port s)),
      (''--num-cpus'', map_option str_int (if sp_mode s = ModeDriverOnly then Some 0 else sp_num_cpus s)),
      (''--temp-dir'', sp_temp_dir s)] @
     map (\<lambda>(n, v). (n, map_option str_int v)) (fixed_ports s) @ [(''--node-name'', sp_node_name s)]"

definition start_options :: "start_spec \<Rightarrow> cli_option list" where
  "start_options s =
     (if sp_mode s = ModeHead then [Flag ''--head''] else []) @
     concat (map (\<lambda>(n, v). case v of None \<Rightarrow> [] | Some t \<Rightarrow> [Setting n t]) (start_table s))"

lemma start_words:
  assumes "start_spec_ok s" and "\<not> sp_block s"
  shows "start_arguments s = sp_executable s # ''start'' # concat (map option_words (start_options s))"
proof -
  have pair: "concat (map option_words (case v of None \<Rightarrow> [] | Some t \<Rightarrow> [Setting n t])) = option_pair n v" for n v
    by (cases v) (simp_all add: option_pair_def)
  have table: "concat (map option_words (concat (map (\<lambda>(n, v). case v of None \<Rightarrow> [] | Some t \<Rightarrow> [Setting n t]) kvs))) =
      concat (map (\<lambda>(n, v). option_pair n v) kvs)" for kvs
    by (induction kvs) (auto simp: pair)
  have ports: "concat (map (\<lambda>(n, v). option_pair n v) (map (\<lambda>(n, v). (n, map_option str_int v)) ps)) =
      concat (map (\<lambda>(n, v). option_pair n (map_option str_int v)) ps)" for ps
    by (induction ps) auto
  have opts: "concat (map option_words (start_options s)) =
      (if sp_mode s = ModeHead then [''--head''] else []) @ concat (map (\<lambda>(n, v). option_pair n v) (start_table s))"
    unfolding start_options_def map_append concat_append table by simp
  have "sp_mode s = ModeHead \<Longrightarrow> option_pair ''--address'' (sp_address s) = []"
    using assms(1) by (simp add: start_spec_ok_def option_pair_def)
  then show ?thesis
    using assms(2) opts by (simp add: start_arguments_def start_table_def ports del: map_map)
qed

lemma number_plain: "0 \<le> n \<Longrightarrow> str_int n \<noteq> [] \<and> \<not> starts_with ''-'' (str_int n)"
proof -
  assume "0 \<le> n"
  then obtain c cs where d: "str_int n = c # cs" using digits_head [of "nat n"] by (cases "str_int n") (auto simp: str_int_def)
  moreover have "is_digit c" using str_int_digits [OF \<open>0 \<le> n\<close>, of c] d by simp
  then have "c \<noteq> CHR ''-''" by (auto simp: is_digit_def ord_def)
  ultimately show ?thesis by simp
qed

lemma dashes: "\<not> starts_with ''-'' v \<Longrightarrow> \<not> starts_with ''--'' v"
  by (cases v) auto

definition plain_value :: "string \<Rightarrow> bool" where
  "plain_value v \<longleftrightarrow> v \<noteq> [] \<and> \<not> starts_with ''-'' v"

lemma start_table_plain:
  assumes "start_spec_ok s"
  shows "list_all (\<lambda>kv. opt_all plain_value (snd kv)) (start_table s)"
proof -
  have mono: "opt_all P x \<Longrightarrow> (\<And>v. P v \<Longrightarrow> plain_value v) \<Longrightarrow> opt_all plain_value x" for P x
    by (auto simp: opt_all_def split: option.splits)
  have port: "opt_all ray_port x \<Longrightarrow> opt_all plain_value (map_option str_int x)" for x
    using number_plain by (auto simp: opt_all_def ray_port_def plain_value_def split: option.splits)
  have cpus: "opt_all (\<lambda>n. 0 \<le> n) x \<Longrightarrow> opt_all plain_value (map_option str_int x)" for x
    using number_plain by (auto simp: opt_all_def plain_value_def split: option.splits)
  have words: "ray_text True v \<Longrightarrow> plain_value v" for v
    by (auto simp: ray_text_def plain_value_def)
  have temp: "ray_text False t \<and> \<not> starts_with ''-'' t \<Longrightarrow> plain_value t" for t
    by (auto simp: ray_text_def plain_value_def)
  have ok: "opt_all (ray_text True) (sp_address s)" "opt_all (ray_text True) (sp_node_ip_address s)"
      "opt_all ray_port (sp_port s)" "opt_all (ray_text True) (sp_dashboard_host s)" "opt_all ray_port (sp_dashboard_port s)"
      "opt_all (\<lambda>n. 0 \<le> n) (if sp_mode s = ModeDriverOnly then Some 0 else sp_num_cpus s)"
      "opt_all (\<lambda>t. ray_text False t \<and> \<not> starts_with ''-'' t) (sp_temp_dir s)" "opt_all (ray_text True) (sp_node_name s)"
      "list_all (opt_all ray_port) (map snd (fixed_ports s))"
    using assms by (auto simp: start_spec_ok_def opt_all_def [of "\<lambda>n. 0 \<le> n"])
  have "list_all (\<lambda>kv. opt_all plain_value (snd kv)) (map (\<lambda>(n, v). (n, map_option str_int v)) (fixed_ports s))"
    using ok(9) port by (auto simp: list_all_iff)
  then show ?thesis
    unfolding start_table_def list_all_append list.pred_inject snd_conv
    by (intro conjI TrueI mono [OF ok(1) words] mono [OF ok(2) words] port [OF ok(3)] mono [OF ok(4) words] port [OF ok(5)]
        cpus [OF ok(6)] mono [OF ok(7) temp] mono [OF ok(8) words]) (assumption | simp)+
qed

lemma start_options_written:
  assumes "start_spec_ok s"
  shows "options_written start_value_options [''--head''] (start_options s)"
proof -
  let ?set = "\<lambda>(n, v). case v of None \<Rightarrow> [] | Some t \<Rightarrow> [Setting n t]"
  define ts where "ts = concat (map ?set (start_table s))"
  have "map option_name (concat (map ?set kvs)) = map fst (filter (\<lambda>(n, v). v \<noteq> None) kvs)" for kvs
    by (induction kvs) (auto split: option.splits)
  then have names: "map option_name ts = map fst (filter (\<lambda>(n, v). v \<noteq> None) (start_table s))" by (simp add: ts_def)
  have keys: "map fst (start_table s) = start_value_options"
    by (simp add: start_table_def start_value_options_def fixed_ports_def)
  have dist: "distinct (map option_name ts)"
    unfolding names by (rule map_filter_subseq_distinct) (simp add: keys start_value_options_def)
  have sub: "set (map option_name ts) \<subseteq> set start_value_options"
    unfolding names keys [symmetric] by auto
  have head: "''--head'' \<notin> set start_value_options" by (simp add: start_value_options_def)
  have "option_plain start_value_options [''--head''] x" if x_in: "x \<in> set ts" for x
  proof -
    obtain n y where "(n, y) \<in> set (start_table s)" "x \<in> set (case y of None \<Rightarrow> [] | Some t \<Rightarrow> [Setting n t])"
      using x_in unfolding ts_def by auto
    then obtain v where x: "x = Setting n v" "(n, Some v) \<in> set (start_table s)" by (cases y) auto
    then have "n \<in> set start_value_options" unfolding keys [symmetric] by force
    moreover have "plain_value v" using start_table_plain [OF assms] x(2) by (auto simp: list_all_iff opt_all_def)
    ultimately show ?thesis using x(1) dashes head by (auto simp: plain_value_def)
  qed
  then show ?thesis
    using dist sub head by (auto simp: start_options_def ts_def [symmetric] options_written_def list_all_iff)
qed

section \<open>What the adapter asks its runner for\<close>

text \<open>The arguments a call stands for; \<open>None\<close> for a push.\<close>

fun call_node :: "control_call \<Rightarrow> node" where
  "call_node (CtlPreflight n e) = n"
| "call_node (CtlStop n e) = n"
| "call_node (CtlPush n d e) = n"
| "call_node (CtlStartHead n e) = n"
| "call_node (CtlJoin n h e) = n"
| "call_node (CtlVerify ns h e) = h"

fun call_epoch :: "control_call \<Rightarrow> int" where
  "call_epoch (CtlPreflight n e) = e"
| "call_epoch (CtlStop n e) = e"
| "call_epoch (CtlPush n d e) = e"
| "call_epoch (CtlStartHead n e) = e"
| "call_epoch (CtlJoin n h e) = e"
| "call_epoch (CtlVerify ns h e) = e"

fun is_push :: "control_call \<Rightarrow> bool" where
  "is_push (CtlPush n d e) = True"
| "is_push _ = False"

fun call_argv :: "cli_settings \<Rightarrow> control_call \<Rightarrow> string list" where
  "call_argv s (CtlPreflight n e) = [cl_executable s, ''--version'']"
| "call_argv s (CtlStop n e) = [cl_executable s, ''stop'']"
| "call_argv s (CtlPush n d e) = []"
| "call_argv s (CtlStartHead n e) = start_arguments (start_spec_of s ModeHead None (node_address n) None)"
| "call_argv s (CtlJoin n h e) = start_arguments (start_spec_of s (if cl_driver_only s then ModeDriverOnly else ModeWorker)
     (Some (endpoint_text (node_address h) (cl_cluster_port s))) (node_address n) (Some (node_id n)))"
| "call_argv s (CtlVerify ns h e) = [cl_executable s, ''status'', ''--address'', endpoint_text (node_address h) (cl_cluster_port s)]"

type_synonym run_log = "(process_request \<times> (pyexn + run_return)) list"

definition run_logged :: "'w cli_env \<Rightarrow> ('w \<times> run_log) cli_env" where
  "run_logged env =
     \<lparr>ce_run = (\<lambda>q (w, l). case ce_run env q w of (r, w') \<Rightarrow> (r, w', l @ [(q, r)])),
      ce_push = map_option (\<lambda>f n d e (w, l). case f n d e w of (r, w') \<Rightarrow> (r, w', l)) (ce_push env),
      ce_cancelled = map_option (\<lambda>f (w, l). case f w of (r, w') \<Rightarrow> (r, w', l)) (ce_cancelled env),
      ce_raise = (\<lambda>(w, l). case ce_raise env w of (r, w') \<Rightarrow> (r, w', l))\<rparr>"

definition clean_result :: "process_result \<Rightarrow> bool" where
  "clean_result r \<longleftrightarrow> px_exit_code r = Some 0 \<and> \<not> px_timed_out r \<and> \<not> px_cancelled r \<and> \<not> px_invalid_encoding r"

text \<open>Nothing ran and the answer is not a success, or one request ran and a success means it ended well.\<close>

definition one_run :: "string list \<Rightarrow> run_log \<Rightarrow> pyexn + control_return \<Rightarrow> run_log \<Rightarrow> bool" where
  "one_run argv l x l' \<longleftrightarrow>
     l' = l \<and> (\<forall>r. x = Inr (CtlResult r) \<longrightarrow> \<not> ar_ok r) \<or>
     (\<exists>q y. l' = l @ [(q, y)] \<and> pr_argv q = argv \<and> pr_cwd q = None \<and> argv_ok argv \<and>
        (\<forall>r. x = Inr (CtlResult r) \<and> ar_ok r \<longrightarrow> (\<exists>px. y = Inr (RrResult px) \<and> clean_result px)))"

lemma cli_answer_bad: "cli_answer st code b = Inr r \<Longrightarrow> st \<noteq> ActSucceeded \<Longrightarrow> \<not> ar_ok r"
  by (auto simp: cli_answer_def mk_ActionResult_def ar_ok_def result_simps split: if_splits)

lemma refuse_bad: "cli_refuse e \<sigma> = (x, \<tau>) \<Longrightarrow> \<tau> = \<sigma> \<and> (\<forall>r. x = Inr (CtlResult r) \<longrightarrow> \<not> ar_ok r)"
  by (auto simp: cli_refuse_def andthen_def of_result_def ret_def throw_def rcm_to_result_def mk_ActionResult_def ar_ok_def
      result_simps split: sum.splits prod.splits if_splits)

lemma on_failure_bad:
  assumes "on_failure (run_logged env) code e (w, l) = (x, w', l')"
  shows "l' = l \<and> (\<forall>r. x = Inr (CtlResult r) \<longrightarrow> \<not> ar_ok r)"
proof -
  have bad: "bindE (if c then cli_answer ActCancelled ''ray.cancelled'' True else cli_answer ActFailed code True)
      (\<lambda>r. Inr (CtlResult r)) = Inr (CtlResult r) \<Longrightarrow> \<not> ar_ok r" for c r
    by (cases c) (auto simp: result_simps dest: cli_answer_bad)
  show ?thesis
    using assms bad [of True] bad [of False]
    by (auto simp: on_failure_def run_logged_def throw_def of_result_def ret_def
        split: if_splits prod.splits option.splits sum.splits)
qed

lemma verdict_good: "cli_verdict x good = Inr r \<Longrightarrow> ar_ok r \<Longrightarrow> \<exists>px. x = RrResult px \<and> clean_result px"
  by (auto simp: cli_verdict_def clean_result_def split: run_return.splits if_splits dest: cli_answer_bad)

lemma process_request_plain:
  assumes "mk_ProcessRequest argv (PFloat (Finite t)) (PInt m) PNone = Inr q"
  shows "argv_ok argv \<and> pr_cwd q = None"
proof -
  have "argv_ok argv" using assms by (simp add: mk_ProcessRequest_def split: if_splits)
  moreover obtain t' where "q = \<lparr>pr_argv = argv, pr_timeout = t', pr_max_output = nat m, pr_cwd = None\<rparr>"
    using assms calculation by (auto simp: mk_ProcessRequest_def result_simps split: if_splits)
  ultimately show ?thesis by simp
qed

lemma cli_execute_log:
  assumes "cli_execute s (run_logged env) argv t good (w, l) = (x, w', l')"
  shows "one_run argv l x l'"
proof (cases "mk_ProcessRequest argv (PFloat (Finite t)) (PInt (cl_max_output_bytes s)) PNone")
  case (Inl e)
  then show ?thesis using assms by (auto simp: cli_execute_def andthen_def of_result_def throw_def one_run_def)
next
  case (Inr q)
  then have q: "pr_argv q = argv" "argv_ok argv" "pr_cwd q = None"
    using process_request_argv(1) [OF Inr] process_request_plain [OF Inr] by simp_all
  obtain y w1 where y: "ce_run env q w = (y, w1)" by fastforce
  show ?thesis
  proof (cases y)
    case (Inl e)
    then have "on_failure (run_logged env) ''ray.runner_error'' e (w1, l @ [(q, Inl e)]) = (x, w', l')"
      using assms Inr y by (simp add: cli_execute_def andthen_def of_result_def ret_def run_logged_def)
    from on_failure_bad [OF this] show ?thesis using q by (auto simp: one_run_def)
  next
    case (Inr z)
    then have "of_result (bindE (cli_verdict z good) (\<lambda>r. Inr (CtlResult r))) (w1, l @ [(q, Inr z)]) = (x, w', l')"
      using assms \<open>mk_ProcessRequest argv _ _ _ = Inr q\<close> y by (simp add: cli_execute_def andthen_def of_result_def ret_def run_logged_def)
    then have "l' = l @ [(q, Inr z)] \<and> (\<forall>r. x = Inr (CtlResult r) \<and> ar_ok r \<longrightarrow> (\<exists>px. z = RrResult px \<and> clean_result px))"
      by (cases "cli_verdict z good") (auto simp: of_result_def throw_def ret_def dest: verdict_good)
    then show ?thesis using q by (auto simp: one_run_def)
  qed
qed

lemma cli_run_log:
  assumes "cli_run s (run_logged env) argv t code (w, l) = (x, w', l')"
  shows "one_run argv l x l'"
proof -
  obtain y w1 l1 where y: "(if ce_cancelled (run_logged env) = None then ret () else ce_raise (run_logged env)) (w, l) = (y, w1, l1)"
    by (metis prod_cases3)
  then have l1: "l1 = l" by (auto simp: run_logged_def ret_def split: if_splits prod.splits)
  show ?thesis
  proof (cases y)
    case (Inl e)
    then show ?thesis using assms y l1 by (auto simp: cli_run_def andthen_def one_run_def)
  next
    case (Inr u)
    then have "cli_execute s (run_logged env) argv t (\<lambda>_. ar_success code [] (Some [])) (w1, l) = (x, w', l')"
      using assms y l1 by (simp add: cli_run_def andthen_def)
    then show ?thesis by (rule cli_execute_log)
  qed
qed

definition ran_as :: "bool \<Rightarrow> string list \<Rightarrow> run_log \<Rightarrow> pyexn + control_return \<Rightarrow> run_log \<Rightarrow> bool" where
  "ran_as built argv l x l' \<longleftrightarrow> one_run argv l x l' \<and> (l' \<noteq> l \<longrightarrow> built)"

lemma one_run_nothing: "(\<And>r. x = Inr (CtlResult r) \<Longrightarrow> \<not> ar_ok r) \<Longrightarrow> one_run argv l x l"
  by (simp add: one_run_def)

lemma built_then_log:
  assumes "andthen (of_result (command_words c)) (\<lambda>argv. cli_run s (run_logged env) argv t code) (w, l) = (x, w', l')"
    and "\<And>k. c = Inr k \<Longrightarrow> built \<and> ry_arguments k = argv"
  shows "ran_as built argv l x l'"
proof (cases c)
  case (Inl e)
  then show ?thesis using assms(1) by (auto simp: andthen_def of_result_def throw_def command_words_def ran_as_def one_run_def)
next
  case (Inr k)
  then have "cli_run s (run_logged env) argv t code (w, l) = (x, w', l')"
    using assms by (simp add: andthen_def of_result_def ret_def command_words_def)
  from cli_run_log [OF this] show ?thesis using assms(2) [OF Inr] by (simp add: ran_as_def)
qed

lemma start_log:
  assumes "cli_start s (run_logged env) spec code (w, l) = (x, w', l')"
  shows "ran_as (start_spec_ok spec) (start_arguments spec) l x l'"
  by (rule built_then_log [OF assms [unfolded cli_start_def]])
    (auto simp: result_simps mk_RayStartSpec_def build_start_def mk_RayCommand_def split: if_splits)

text \<open>The guards in front of a call.\<close>

definition admitted :: "cli_settings \<Rightarrow> control_call \<Rightarrow> int \<Rightarrow> bool" where
  "admitted s call ep \<longleftrightarrow> node_id (call_node call) = cl_local_node_id s \<and> node_enabled (call_node call) \<and>
     0 \<le> call_epoch call \<and> ep \<le> call_epoch call"

definition guarded_run ::
    "cli_settings \<Rightarrow> control_call \<Rightarrow> bool \<Rightarrow> string list \<Rightarrow> int \<Rightarrow> run_log \<Rightarrow> pyexn + control_return \<Rightarrow> int \<Rightarrow> run_log \<Rightarrow> bool" where
  "guarded_run s call built argv ep l x ep' l' \<longleftrightarrow>
     ep' = ep \<and> l' = l \<and> (\<forall>r. x = Inr (CtlResult r) \<longrightarrow> \<not> ar_ok r) \<or>
     admitted s call ep \<and> ep' = call_epoch call \<and> ran_as built argv l x l'"

lemma guarded_refuse:
  "cli_refuse e (ep, w, l) = (x, ep', w', l') \<Longrightarrow> guarded_run s call built argv ep l x ep' l'"
  by (drule refuse_bad) (simp add: guarded_run_def)

lemma guarded_throw:
  "throw e (ep, w, l) = (x, ep', w', l') \<Longrightarrow> guarded_run s call built argv ep l x ep' l'"
  by (auto simp: throw_def guarded_run_def)

lemma guarded_epoch:
  assumes run: "cli_epoch (call_epoch call) (in_world m) (ep, w, l) = (x, ep', w', l')"
    and adm: "node_id (call_node call) = cl_local_node_id s" "node_enabled (call_node call)"
    and m: "\<And>y v k. m (w, l) = (y, v, k) \<Longrightarrow> ran_as built argv l y k"
  shows "guarded_run s call built argv ep l x ep' l'"
proof (cases "call_epoch call < 0 \<or> call_epoch call < ep")
  case True
  then show ?thesis
    using run guarded_throw guarded_refuse by (auto simp: cli_epoch_def split: if_splits)
next
  case False
  obtain y v k where y: "m (w, l) = (y, v, k)" by (metis prod_cases3)
  with run False have "x = y" "ep' = call_epoch call" "l' = k"
    by (auto simp: cli_epoch_def in_world_def)
  with m [OF y] adm False show ?thesis by (simp add: guarded_run_def admitted_def)
qed

lemma guarded_local:
  assumes run: "cli_local s (call_node call) k (ep, w, l) = (x, ep', w', l')"
    and k: "node_id (call_node call) = cl_local_node_id s \<Longrightarrow> node_enabled (call_node call) \<Longrightarrow>
      k (ep, w, l) = (x, ep', w', l') \<Longrightarrow> guarded_run s call built argv ep l x ep' l'"
  shows "guarded_run s call built argv ep l x ep' l'"
  using run k guarded_refuse by (auto simp: cli_local_def split: if_splits)

definition call_built :: "cli_settings \<Rightarrow> control_call \<Rightarrow> bool" where
  "call_built s call =
     (case call of
        CtlStartHead n e \<Rightarrow> start_spec_ok (start_spec_of s ModeHead None (node_address n) None)
      | CtlJoin n h e \<Rightarrow> start_spec_ok (start_spec_of s (if cl_driver_only s then ModeDriverOnly else ModeWorker)
          (Some (endpoint_text (node_address h) (cl_cluster_port s))) (node_address n) (Some (node_id n)))
      | CtlVerify ns h e \<Rightarrow> ray_text True (endpoint_text (node_address h) (cl_cluster_port s))
      | _ \<Rightarrow> True)"

lemma cli_dispatch_guarded:
  assumes run: "cli_dispatch s (run_logged env) call (ep, w, l) = (x, ep', w', l')" and "\<not> is_push call"
  shows "guarded_run s call (call_built s call) (call_argv s call) ep l x ep' l'"
proof (cases call)
  case (CtlPreflight n e)
  show ?thesis
  proof (rule guarded_local)
    show "cli_local s (call_node call) (cli_epoch e (in_world
        (cli_execute s (run_logged env) (call_argv s call) (cl_status_timeout s) judge_version))) (ep, w, l) = (x, ep', w', l')"
      using run CtlPreflight by (simp add: cli_dispatch_def cli_preflight_def)
  qed (rule guarded_epoch [rotated 3], auto simp: CtlPreflight ran_as_def call_built_def dest: cli_execute_log)
next
  case (CtlStop n e)
  let ?spec = "\<lparr>st_executable = cl_executable s, st_force = False, st_grace = None\<rparr>"
  have built: "bindE (mk_RayStopSpec ?spec) build_stop = Inr k \<Longrightarrow> call_built s call \<and> ry_arguments k = call_argv s call" for k
    by (auto simp: CtlStop call_built_def result_simps mk_RayStopSpec_def build_stop_def stop_arguments_def mk_RayCommand_def split: if_splits)
  show ?thesis
  proof (rule guarded_local)
    show "cli_local s (call_node call) (cli_epoch (call_epoch call) (in_world
        (andthen (of_result (command_words (bindE (mk_RayStopSpec ?spec) build_stop))) (\<lambda>argv.
          cli_run s (run_logged env) argv (cl_stop_timeout s) ''ray.stopped'')))) (ep, w, l) = (x, ep', w', l')"
      using run CtlStop by (simp add: cli_dispatch_def cli_stop_def)
  qed (rule guarded_epoch, assumption+, erule built_then_log [OF _ built])
next
  case (CtlStartHead n e)
  let ?spec = "start_spec_of s ModeHead None (node_address n) None"
  show ?thesis
  proof (rule guarded_local)
    show "cli_local s (call_node call) (if cl_driver_only s then cli_refuse RejectedError
        else cli_epoch (call_epoch call) (in_world (cli_start s (run_logged env) ?spec ''ray.head_started''))) (ep, w, l) = (x, ep', w', l')"
      using run CtlStartHead by (cases "cl_driver_only s") (simp_all add: cli_dispatch_def cli_start_head_def)
  qed (cases "cl_driver_only s"; simp; (erule guarded_refuse | rule guarded_epoch, assumption+, use start_log in \<open>fastforce simp: CtlStartHead call_built_def\<close>))
next
  case (CtlJoin n h e)
  let ?spec = "start_spec_of s (if cl_driver_only s then ModeDriverOnly else ModeWorker)
     (Some (endpoint_text (node_address h) (cl_cluster_port s))) (node_address n) (Some (node_id n))"
  show ?thesis
  proof (rule guarded_local)
    show "cli_local s (call_node call) (cli_epoch (call_epoch call) (in_world (cli_start s (run_logged env) ?spec ''ray.worker_joined''))) (ep, w, l) = (x, ep', w', l')"
      using run CtlJoin by (simp add: cli_dispatch_def cli_join_worker_def)
  qed (rule guarded_epoch, assumption+, use start_log in \<open>fastforce simp: CtlJoin call_built_def\<close>)
next
  case (CtlVerify ns h e)
  let ?spec = "\<lparr>ss_executable = cl_executable s, ss_address = Some (endpoint_text (node_address h) (cl_cluster_port s))\<rparr>"
  have built: "bindE (mk_RayStatusSpec ?spec) build_status = Inr k \<Longrightarrow> call_built s call \<and> ry_arguments k = call_argv s call" for k
    by (auto simp: CtlVerify call_built_def result_simps mk_RayStatusSpec_def build_status_def mk_RayCommand_def option_pair_def opt_all_def split: if_splits)
  let ?m = "andthen (of_result (command_words (bindE (mk_RayStatusSpec ?spec) build_status))) (\<lambda>argv.
          cli_run s (run_logged env) argv (cl_status_timeout s) ''ray.verified'')"
  show ?thesis
  proof (cases "ns = []")
    case True
    then show ?thesis using run CtlVerify guarded_throw by (simp add: cli_dispatch_def cli_verify_def)
  next
    case False
    let ?k = "if card (set (map node_id ns)) \<noteq> length ns \<or> node_id h \<notin> set (map node_id ns) then throw ValueError
        else if length ns \<noteq> 1 then cli_refuse UnsupportedError
        else cli_epoch (call_epoch call) (in_world ?m)"
    show ?thesis
    proof (rule guarded_local)
      show "cli_local s (call_node call) ?k (ep, w, l) = (x, ep', w', l')"
        using run False by (simp only: CtlVerify cli_dispatch_def cli_verify_def control_call.case call_node.simps call_epoch.simps if_False)
    next
      assume adm: "node_id (call_node call) = cl_local_node_id s" "node_enabled (call_node call)"
        and k: "?k (ep, w, l) = (x, ep', w', l')"
      have "guarded_run s call (call_built s call) (call_argv s call) ep l x ep' l'"
        if "cli_epoch (call_epoch call) (in_world ?m) (ep, w, l) = (x, ep', w', l')"
        by (rule guarded_epoch [OF that adm]) (erule built_then_log [OF _ built])
      then show "guarded_run s call (call_built s call) (call_argv s call) ep l x ep' l'"
        using k guarded_throw guarded_refuse by (auto split: if_splits)
    qed
  qed
qed (use assms(2) in simp)

lemma nonneg_port: "mk_RayCliSettings s = Inr t \<Longrightarrow> t = s \<and> ray_text False (cl_executable s)"
  by (auto simp: mk_RayCliSettings_def result_simps mk_RayStartSpec_def start_spec_ok_def start_spec_of_def split: if_splits)

lemma call_argv_allowed:
  assumes "call_built s call" and "argv_ok (call_argv s call)"
  shows "argv_allowed (call_argv s call) \<and> hd (call_argv s call) = cl_executable s"
proof (cases call)
  case (CtlStartHead n e)
  let ?spec = "start_spec_of s ModeHead None (node_address n) None"
  have ok: "start_spec_ok ?spec" using assms(1) CtlStartHead by (simp add: call_built_def)
  have words: "call_argv s call = cl_executable s # ''start'' # concat (map option_words (start_options ?spec))"
    using start_words [OF ok] CtlStartHead by (simp add: start_spec_of_def)
  then show ?thesis using allowed_words.start [OF start_options_written [OF ok]] argv_allowed_iff [of "call_argv s call"] by auto
next
  case (CtlJoin n h e)
  let ?spec = "start_spec_of s (if cl_driver_only s then ModeDriverOnly else ModeWorker)
     (Some (endpoint_text (node_address h) (cl_cluster_port s))) (node_address n) (Some (node_id n))"
  have ok: "start_spec_ok ?spec" using assms(1) CtlJoin by (simp add: call_built_def)
  have words: "call_argv s call = cl_executable s # ''start'' # concat (map option_words (start_options ?spec))"
    using start_words [OF ok] CtlJoin by (simp add: start_spec_of_def)
  then show ?thesis using allowed_words.start [OF start_options_written [OF ok]] argv_allowed_iff [of "call_argv s call"] by auto
next
  case (CtlVerify ns h e)
  then show ?thesis using assms(1) dashes by (auto simp: call_built_def argv_allowed_def ray_text_def)
qed (use assms(2) in \<open>auto simp: argv_allowed_def\<close>)

lemma contained_run:
  assumes "mk_RayCliSettings s = Inr t" and "cli_ray_path (PStr (cl_executable s)) = Inr executable"
    and "cli_control s (run_logged env) call (ep, w, l) = (x, ep', w', l')" and "\<not> is_push call"
  shows "ep \<le> ep' \<and>
    (l' = l \<and> (\<forall>r. x = CtlResult r \<longrightarrow> \<not> ar_ok r) \<or>
     (\<exists>q y. l' = l @ [(q, y)] \<and> admitted s call ep \<and> ep' = call_epoch call \<and> pr_argv q = call_argv s call \<and>
        validate_request normcase executable q = Inr () \<and>
        (\<forall>r. x = CtlResult r \<and> ar_ok r \<longrightarrow> (\<exists>px. y = Inr (RrResult px) \<and> clean_result px))))"
proof -
  obtain z where z: "cli_dispatch s (run_logged env) call (ep, w, l) = (z, ep', w', l')"
      "x = (case z of Inl e \<Rightarrow> CtlRaises e | Inr r \<Rightarrow> r)"
    using assms(3) by (auto simp: cli_control_def split: prod.splits sum.splits)
  have ok: "z = Inr (CtlResult r)" if "x = CtlResult r" for r using that z(2) by (auto split: sum.splits)
  have exe: "executable = wp_str (pure_windows_path (cl_executable s))"
    using assms(2) by (auto simp: cli_ray_path_def split: if_splits)
  from cli_dispatch_guarded [OF z(1) assms(4)] consider
      "ep' = ep" "l' = l" "\<forall>r. z = Inr (CtlResult r) \<longrightarrow> \<not> ar_ok r"
    | "admitted s call ep" "ep' = call_epoch call" "ran_as (call_built s call) (call_argv s call) l z l'"
    unfolding guarded_run_def by blast
  then show ?thesis
  proof cases
    case 1
    then show ?thesis using ok by auto
  next
    case 2
    then have le: "ep \<le> ep'" by (simp add: admitted_def)
    from 2(3) consider "l' = l" "\<forall>r. z = Inr (CtlResult r) \<longrightarrow> \<not> ar_ok r"
      | q y where "l' = l @ [(q, y)]" "pr_argv q = call_argv s call" "pr_cwd q = None" "argv_ok (call_argv s call)" "call_built s call"
        "\<forall>r. z = Inr (CtlResult r) \<and> ar_ok r \<longrightarrow> (\<exists>px. y = Inr (RrResult px) \<and> clean_result px)"
      unfolding ran_as_def one_run_def by auto
    then show ?thesis
    proof cases
      case 1
      then show ?thesis using ok le by auto
    next
      case (2 q y)
      have "validate_request normcase executable q = Inr ()"
        using call_argv_allowed [OF 2(5) 2(4)] 2(2, 3) exe by (simp add: validate_request_def)
      then show ?thesis using 2 ok le \<open>admitted s call ep\<close> \<open>ep' = call_epoch call\<close> by auto
    qed
  qed
qed

text \<open>A push runs no process; its success is the sink's own.\<close>

lemma push_failure_quiet:
  assumes "on_failure (run_logged env) code e (w, l) = (x, w', l')"
  shows "l' = l" "x = Inr (CtlResult r) \<Longrightarrow> \<not> ar_ok r"
  using on_failure_bad [OF assms] by simp_all

lemma push_answer:
  assumes run: "cli_push s (run_logged env) n d e (ep, w, l) = (x, ep', w', l')"
  shows "l' = l \<and> ep \<le> ep' \<and>
    (w' = w \<and> (\<forall>r. x = Inr (CtlResult r) \<longrightarrow> \<not> ar_ok r) \<or>
     admitted s (CtlPush n d e) ep \<and> ep' = e \<and> is_digest d \<and>
       (\<exists>sink y w1. ce_push env = Some sink \<and> sink n d e w = (y, w1) \<and>
          (\<forall>r. x = Inr (CtlResult r) \<and> ar_ok r \<longrightarrow> y = CtlResult r \<and> w' = w1)))"
proof (cases "node_id n = cl_local_node_id s \<and> node_enabled n \<and> 0 \<le> e \<and> ep \<le> e")
  case False
  then have "(\<exists>er. throw er (ep, w, l) = (x, ep', w', l')) \<or> (\<exists>er. cli_refuse er (ep, w, l) = (x, ep', w', l'))"
    using run by (auto simp: cli_push_def cli_local_def cli_epoch_def split: if_splits)
  then show ?thesis by (auto simp: throw_def dest: refuse_bad)
next
  case True
  let ?k = "if \<not> is_digest d then throw ValueError
     else (case ce_push (run_logged env) of
         None \<Rightarrow> cli_refuse UnsupportedError
       | Some sink \<Rightarrow> in_world (on_raise
           (\<lambda>w. case sink n d e w of (CtlRaises x, w') \<Rightarrow> (Inl x, w') | (r, w') \<Rightarrow> (Inr r, w'))
           (on_failure (run_logged env) ''ray.manifest_error'')))"
  have k: "?k (e, w, l) = (x, ep', w', l')"
    using run True by (simp add: cli_push_def cli_local_def cli_epoch_def)
  have adm: "admitted s (CtlPush n d e) ep" "ep \<le> e" using True by (simp_all add: admitted_def)
  show ?thesis
  proof (cases "is_digest d \<and> ce_push env \<noteq> None")
    case False
    then have "throw ValueError (e, w, l) = (x, ep', w', l') \<or> cli_refuse UnsupportedError (e, w, l) = (x, ep', w', l')"
      using k by (auto simp: run_logged_def split: if_splits)
    then show ?thesis using adm by (auto simp: throw_def dest: refuse_bad)
  next
    case ready: True
    then obtain sink where sink: "ce_push env = Some sink" "is_digest d" by auto
    obtain y w1 where y: "sink n d e w = (y, w1)" by (rule prod.exhaust)
    show ?thesis
    proof (cases y)
      case (CtlRaises er)
      then have "on_failure (run_logged env) ''ray.manifest_error'' er (w1, l) = (x, w', l') \<and> ep' = e"
        using k sink y by (auto simp: run_logged_def in_world_def on_raise_def split: prod.splits)
      then have f: "on_failure (run_logged env) ''ray.manifest_error'' er (w1, l) = (x, w', l')" "ep' = e"
        by simp_all
      have "\<forall>r. x = Inr (CtlResult r) \<longrightarrow> \<not> ar_ok r" using push_failure_quiet(2) [OF f(1)] by blast
      then show ?thesis using adm sink y f(2) push_failure_quiet(1) [OF f(1)] by blast
    next
      case (CtlResult r)
      then show ?thesis using k sink y adm by (auto simp: run_logged_def in_world_def on_raise_def)
    next
      case CtlOther
      then show ?thesis using k sink y adm by (auto simp: run_logged_def in_world_def on_raise_def)
    qed
  qed
qed

text \<open>
  C13: the adapter stays inside its limits. With accepted settings and a runner for the same
  executable, no call lowers the epoch. A call other than a push makes at most one request of the
  runner. If it makes one, the call was for this computer's own enabled node and not from a stale
  epoch, which is now recorded, the arguments are exactly those of the call, and the runner's
  allowlist accepts them. It reports success only when that process ran to its end, on time, with
  exit code 0 and readable output. A push makes no request; under the same conditions, and with a
  well-formed digest, it hands the manifest to the sink, and it reports success only when the sink did.
\<close>

theorem ray_adapter_contained:
  assumes "mk_RayCliSettings s = Inr t" and "cli_ray_path (PStr (cl_executable s)) = Inr executable"
    and "cli_control s (run_logged env) call (ep, w, l) = (x, ep', w', l')"
  shows "ep \<le> ep' \<and>
    (case call of
       CtlPush n d e \<Rightarrow> l' = l \<and>
         (w' = w \<and> (\<forall>r. x = CtlResult r \<longrightarrow> \<not> ar_ok r) \<or>
          admitted s call ep \<and> ep' = e \<and> is_digest d \<and>
            (\<exists>sink y w1. ce_push env = Some sink \<and> sink n d e w = (y, w1) \<and>
               (\<forall>r. x = CtlResult r \<and> ar_ok r \<longrightarrow> y = CtlResult r \<and> w' = w1)))
     | _ \<Rightarrow>
         l' = l \<and> (\<forall>r. x = CtlResult r \<longrightarrow> \<not> ar_ok r) \<or>
         (\<exists>q y. l' = l @ [(q, y)] \<and> admitted s call ep \<and> ep' = call_epoch call \<and> pr_argv q = call_argv s call \<and>
            validate_request normcase executable q = Inr () \<and>
            (\<forall>r. x = CtlResult r \<and> ar_ok r \<longrightarrow> (\<exists>px. y = Inr (RrResult px) \<and> clean_result px))))"
proof (cases "is_push call")
  case False
  then show ?thesis using contained_run [OF assms False] by (cases call) simp_all
next
  case True
  then obtain n d e where call: "call = CtlPush n d e" by (cases call) simp_all
  obtain z where z: "cli_push s (run_logged env) n d e (ep, w, l) = (z, ep', w', l')"
      "x = (case z of Inl er \<Rightarrow> CtlRaises er | Inr r \<Rightarrow> r)"
    using assms(3) by (auto simp: cli_control_def cli_dispatch_def call split: prod.splits sum.splits)
  have "z = Inr (CtlResult r)" if "x = CtlResult r" for r using that z(2) by (auto split: sum.splits)
  with push_answer [OF z(1)] show ?thesis unfolding call control_call.case by metis
qed

section \<open>Witness\<close>

definition demo_cli :: cli_settings where
  "demo_cli =
     \<lparr>cl_executable = ''C:'' @ CHR 0x5C # ''ray.exe'', cl_local_node_id = ''pc1'', cl_cluster_port = 6379,
      cl_num_cpus = Some 8, cl_driver_only = False, cl_temp_dir = None, cl_dashboard_host = None,
      cl_dashboard_port = None, cl_node_manager_port = None, cl_object_manager_port = None,
      cl_runtime_env_agent_port = None, cl_dashboard_agent_grpc_port = None,
      cl_dashboard_agent_listen_port = None, cl_metrics_export_port = None, cl_min_worker_port = Some 10002,
      cl_max_worker_port = Some 10100, cl_start_timeout = 90, cl_stop_timeout = 45, cl_status_timeout = 30,
      cl_max_output_bytes = 65536\<rparr>"

definition demo_cli_env :: "nat cli_env" where
  "demo_cli_env =
     \<lparr>ce_run = (\<lambda>q w. (Inr (RrResult \<lparr>px_exit_code = Some 0, px_stdout = [], px_stderr = [], px_duration = 1,
        px_timed_out = False, px_cancelled = False, px_output_truncated = False, px_invalid_encoding = False\<rparr>), w + 1)),
      ce_push = None, ce_cancelled = None, ce_raise = ret ()\<rparr>"

definition demo_pc :: node where
  "demo_pc = \<lparr>node_id = ''pc1'', node_address = ''pc1.lan'', node_role = RoleHead, node_enabled = True, node_capabilities = []\<rparr>"

lemma demo_cli_ok: "mk_RayCliSettings demo_cli = Inr demo_cli"
  by code_simp

lemma demo_cli_path: "cli_ray_path (PStr (cl_executable demo_cli)) = Inr (''C:'' @ CHR 0x5C # ''ray.exe'')"
  by code_simp

theorem ray_adapter_contained_witness:
  "\<exists>x ep' w' l'. cli_control demo_cli (run_logged demo_cli_env) (CtlStartHead demo_pc 4) (2, 0, []) = (x, ep', w', l') \<and> 2 \<le> ep'"
proof -
  obtain x ep' w' l' where c: "cli_control demo_cli (run_logged demo_cli_env) (CtlStartHead demo_pc 4) (2, 0, []) = (x, ep', w', l')"
    by (metis prod_cases4)
  from ray_adapter_contained [OF demo_cli_ok demo_cli_path c, where normcase = id] have "2 \<le> ep'" by simp
  with c show ?thesis by blast
qed

end
