(* ===== verification/RayObserver.thy ===== *)
theory RayObserver
  imports RayAdapter Cluster
begin

text \<open>
  \<open>RayStateCliObserver\<close> of \<open>src/rcm/adapters/ray_cli.py\<close>: five questions to the Ray CLI, the strict
  reading of its JSON answers, the match of Ray's nodes with the configured ones, and the snapshot the
  busy policy of \<open>Cluster\<close> judges. The last sections follow an IDLE verdict back to the five answers
  it rests on. A node entry that is well formed is a tuple of its five fields; the token is polled as
  the code polls it.
\<close>

section \<open>Reading the state lists\<close>

fun known_active_states :: "state_resource \<Rightarrow> string list" where
  "known_active_states SrNodes = []"
| "known_active_states SrJobs = [''PENDING'', ''RUNNING'']"
| "known_active_states SrTasks =
     [''NIL'', ''PENDING_ARGS_AVAIL'', ''PENDING_NODE_ASSIGNMENT'', ''PENDING_OBJ_STORE_MEM_AVAIL'',
      ''PENDING_ARGS_FETCH'', ''SUBMITTED_TO_WORKER'', ''PENDING_ACTOR_TASK_ARGS_FETCH'',
      ''PENDING_ACTOR_TASK_ORDERING_OR_CONCURRENCY'', ''RUNNING'', ''RUNNING_IN_RAY_GET'',
      ''RUNNING_IN_RAY_WAIT'', ''GETTING_AND_PINNING_ARGS'']"
| "known_active_states SrActors = [''DEPENDENCIES_UNREADY'', ''PENDING_CREATION'', ''ALIVE'', ''RESTARTING'']"
| "known_active_states SrPlacementGroups = [''PENDING'', ''PREPARED'', ''CREATED'', ''RESCHEDULING'']"

definition state_field :: "state_resource \<Rightarrow> string" where
  "state_field r = (if r = SrJobs then ''status'' else ''state'')"

definition empty_state_outputs :: "string list" where
  "empty_state_outputs =
     [''No resource in the cluster'' @ [CHR 0x0A], ''No resource in the cluster'' @ [CHR 0x0D, CHR 0x0A]]"

definition reject_json_constant :: "string \<Rightarrow> json_error + json" where
  "reject_json_constant w = Inl JsonConstant"

text \<open>The decoded dictionary, refused at the first key that is there already.\<close>

fun reject_duplicates :: "string list \<Rightarrow> (string \<times> json) list \<Rightarrow> json_error + unit" where
  "reject_duplicates seen [] = Inr ()"
| "reject_duplicates seen (kv # kvs) =
     (if fst kv \<in> set seen then Inl (JsonDuplicate (fst kv)) else reject_duplicates (fst kv # seen) kvs)"

definition state_hooks :: "nat \<Rightarrow> json_hooks" where
  "state_hooks depth =
     \<lparr>jh_object = (\<lambda>kvs. bindE (reject_duplicates [] kvs) (\<lambda>_. Inr (JObj kvs))),
      jh_constant = reject_json_constant, jh_depth = depth\<rparr>"

type_synonym state_entry = "(string \<times> json) list"

datatype observer_exn = OxPy pyexn | OxBeyond

record state_observer =
  ro_executable :: string
  ro_address :: string
  ro_timeout :: int
  ro_max_output :: int
  ro_limit :: int

definition mk_RayStateCliObserver :: "string \<Rightarrow> string \<Rightarrow> int \<Rightarrow> pyval \<Rightarrow> int \<Rightarrow> state_observer result" where
  "mk_RayStateCliObserver executable address timeout max_output limit =
     bindE (mk_RayStateListSpec \<lparr>ls_executable = executable, ls_resource = SrNodes, ls_address = address,
        ls_timeout = timeout, ls_limit = limit\<rparr>) (\<lambda>_.
     case max_output of
       PInt n \<Rightarrow>
         if \<not> (1 \<le> n \<and> n \<le> 1048576) then Inl ValueError
         else Inr \<lparr>ro_executable = executable, ro_address = address, ro_timeout = timeout,
           ro_max_output = n, ro_limit = limit\<rparr>
     | _ \<Rightarrow> Inl ValueError)"

text \<open>The process runner, the cancellation token and the clock; \<open>oe_depth\<close> is the recursion limit.\<close>

record 'w observer_env =
  oe_run :: "process_request \<Rightarrow> ('w, pyexn, run_return) eff"
  oe_cancelled :: "('w \<Rightarrow> bool \<times> 'w) option"
  oe_clock :: "'w \<Rightarrow> rat \<times> 'w"
  oe_depth :: nat

definition oe_token :: "'w observer_env \<Rightarrow> 'w \<Rightarrow> bool \<times> 'w" where
  "oe_token env w = (case oe_cancelled env of None \<Rightarrow> (False, w) | Some f \<Rightarrow> f w)"

definition resource_code :: "state_resource \<Rightarrow> string" where
  "resource_code r = map (\<lambda>c. if c = CHR ''-'' then CHR ''_'' else c) (resource_value r)"

definition reason :: "state_resource \<Rightarrow> string \<Rightarrow> string" where
  "reason r t = resource_code r @ CHR '':'' # t"

type_synonym state_answer = "state_entry list option \<times> string list"

fun entries_of :: "json list \<Rightarrow> state_entry list option" where
  "entries_of [] = Some []"
| "entries_of (JObj kvs # vs) = map_option ((#) kvs) (entries_of vs)"
| "entries_of (_ # vs) = None"

text \<open>\<open>except (TypeError, ValueError)\<close> lets \<open>RecursionError\<close> through.\<close>

definition read_state :: "nat \<Rightarrow> int \<Rightarrow> state_resource \<Rightarrow> process_result \<Rightarrow> observer_exn + state_answer" where
  "read_state depth limit r px =
     (let reasons = (if px_output_truncated px then [reason r ''output_truncated''] else []) @
                    (if py_strip (px_stderr px) \<noteq> [] then [reason r ''warning''] else []) in
      if px_stdout px \<in> set empty_state_outputs
      then Inr (if reasons \<noteq> [] then (None, fromkeys reasons) else (Some [], []))
      else (case json_loads (state_hooks depth) (px_stdout px) of
          Inl JsonBeyond \<Rightarrow> Inl OxBeyond
        | Inl JsonDepth \<Rightarrow> Inl (OxPy RuntimeErr)
        | Inl _ \<Rightarrow> Inr (None, reasons @ [reason r ''malformed_json''])
        | Inr (JArr vs) \<Rightarrow>
            (case entries_of vs of
               None \<Rightarrow> Inr (None, reasons @ [reason r ''invalid_schema''])
             | Some entries \<Rightarrow>
                 Inr (Some entries, fromkeys (reasons @
                   (if limit \<le> int (length entries) then [reason r ''limit_reached''] else []))))
        | Inr _ \<Rightarrow> Inr (None, reasons @ [reason r ''invalid_schema''])))"

definition judge_state :: "nat \<Rightarrow> int \<Rightarrow> state_resource \<Rightarrow> run_return \<Rightarrow> observer_exn + state_answer" where
  "judge_state depth limit r x =
     (case x of
        RrOther \<Rightarrow> Inr (None, [reason r ''invalid_result''])
      | RrResult px \<Rightarrow>
          if px_invalid_encoding px then Inr (None, [reason r ''invalid_encoding''])
          else if px_cancelled px then Inr (None, [reason r ''cancelled''])
          else if px_timed_out px then Inr (None, [reason r ''timeout''])
          else if px_exit_code px \<noteq> Some 0 then Inr (None, [reason r ''exit_nonzero''])
          else read_state depth limit r px)"

definition state_request :: "state_observer \<Rightarrow> state_resource \<Rightarrow> process_request result" where
  "state_request ob r =
     bindE (mk_RayStateListSpec \<lparr>ls_executable = ro_executable ob, ls_resource = r, ls_address = ro_address ob,
        ls_timeout = ro_timeout ob, ls_limit = ro_limit ob\<rparr>) (\<lambda>spec.
     bindE (build_list_state spec) (\<lambda>c.
     mk_ProcessRequest (ry_arguments c) (PInt (ro_timeout ob)) (PInt (ro_max_output ob)) PNone))"

definition ox :: "'a result \<Rightarrow> observer_exn + 'a" where
  "ox x = (case x of Inl e \<Rightarrow> Inl (OxPy e) | Inr y \<Rightarrow> Inr y)"

definition state_query :: "state_observer \<Rightarrow> 'w observer_env \<Rightarrow> state_resource \<Rightarrow> 'w \<Rightarrow> (observer_exn + state_answer) \<times> 'w" where
  "state_query ob env r w =
     (case oe_token env w of (c, w1) \<Rightarrow>
        if c then (Inr (None, [reason r ''cancelled'']), w1)
        else (case state_request ob r of
            Inl e \<Rightarrow> (Inl (OxPy e), w1)
          | Inr request \<Rightarrow>
              (case oe_run env request w1 of
                 (Inl e, w2) \<Rightarrow> (if is_exception e then Inr (None, [reason r ''runner_error'']) else Inl (OxPy e), w2)
               | (Inr x, w2) \<Rightarrow> (judge_state (oe_depth env) (ro_limit ob) r x, w2))))"

section \<open>Members and counts\<close>

definition same_address :: "string \<Rightarrow> string \<Rightarrow> bool" where
  "same_address left right =
     (case (ip_address left, ip_address right) of
        (Some a, Some b) \<Rightarrow> a = b
      | _ \<Rightarrow> fold_text left = fold_text right)"

definition entry_get :: "state_entry \<Rightarrow> string \<Rightarrow> json" where
  "entry_get kvs k = (case map_of kvs k of None \<Rightarrow> JNull | Some v \<Rightarrow> v)"

text \<open>The fields of a well-formed node entry: whether it is alive, its id, name, address and head flag.\<close>

definition node_fields :: "state_entry \<Rightarrow> (bool \<times> string \<times> string \<times> string \<times> bool) option" where
  "node_fields e =
     (case (entry_get e ''state'', entry_get e ''node_id'', entry_get e ''node_name'',
            entry_get e ''node_ip'', entry_get e ''is_head_node'') of
        (JStr state, JStr nid, JStr name, JStr ip, JBool is_head) \<Rightarrow>
          if (state = ''ALIVE'' \<or> state = ''DEAD'') \<and> nid \<noteq> [] then Some (state = ''ALIVE'', nid, name, ip, is_head) else None
      | _ \<Rightarrow> None)"

text \<open>The loop over the entries: reasons, live and duplicate Ray ids, and for each match the node's id,
  the Ray id and the head flag.\<close>

record match_state =
  mt_reasons :: "string list"
  mt_live :: "string list"
  mt_duplicates :: "string list"
  mt_matches :: "(string \<times> string \<times> bool) list"

definition match_entry :: "node list \<Rightarrow> state_entry \<Rightarrow> match_state \<Rightarrow> match_state" where
  "match_entry nodes e m =
     (case node_fields e of
        None \<Rightarrow> m\<lparr>mt_reasons := mt_reasons m @ [''nodes:invalid_schema'']\<rparr>
      | Some (alive, nid, name, ip, is_head) \<Rightarrow>
          if \<not> alive then m
          else
            let m1 = m\<lparr>mt_duplicates := (if nid \<in> set (mt_live m) then nid # mt_duplicates m else mt_duplicates m),
                       mt_live := nid # mt_live m\<rparr>;
                candidates = filter (\<lambda>n. node_id n = name \<or> same_address (node_address n) ip) nodes in
            (case candidates of
               [n] \<Rightarrow> m1\<lparr>mt_matches := mt_matches m1 @ [(node_id n, nid, is_head)]\<rparr>
             | _ \<Rightarrow> m1\<lparr>mt_reasons := mt_reasons m1 @
                 [if candidates = [] then ''nodes:unexpected_alive'' else ''nodes:ambiguous_identity'']\<rparr>))"

text \<open>The loop over the nodes: whether the node is taken as alive, and what it adds to the reasons.\<close>

definition judge_node :: "string \<Rightarrow> match_state \<Rightarrow> node \<Rightarrow> bool \<times> string list" where
  "judge_node head_id m n =
     (case filter (\<lambda>x. fst x = node_id n) (mt_matches m) of
        [] \<Rightarrow> (False, [if node_id n = head_id then ''nodes:missing_head'' else ''nodes:missing_member''])
      | [(_, nid, is_head)] \<Rightarrow>
          if nid \<in> set (mt_duplicates m) then (False, [''nodes:duplicate_ray_id''])
          else if is_head \<noteq> (node_id n = head_id) then (False, [''nodes:head_mismatch''])
          else (True, [])
      | _ \<Rightarrow> (False, [''nodes:duplicate_alive'']))"

fun build_members :: "string \<Rightarrow> match_state \<Rightarrow> rat \<Rightarrow> node list \<Rightarrow> (cluster_member list \<times> string list) result" where
  "build_members head_id m observed_at [] = Inr ([], [])"
| "build_members head_id m observed_at (n # ns) =
     bindE (mk_ClusterMember n (if fst (judge_node head_id m n) then CmAlive else CmUnknown) (PFloat (Finite observed_at)) PNone PNone False) (\<lambda>x.
     bindE (build_members head_id m observed_at ns) (\<lambda>(xs, rs). Inr (x # xs, snd (judge_node head_id m n) @ rs)))"

definition state_members :: "node list \<Rightarrow> string \<Rightarrow> state_answer \<Rightarrow> rat \<Rightarrow> (cluster_member list \<times> string list) result" where
  "state_members nodes head_id answer observed_at =
     (let m0 = \<lparr>mt_reasons = snd answer, mt_live = [], mt_duplicates = [], mt_matches = []\<rparr>;
          m = fold (match_entry nodes) (case fst answer of None \<Rightarrow> [] | Some es \<Rightarrow> es) m0 in
      bindE (build_members head_id m observed_at nodes) (\<lambda>(members, rs). Inr (members, fromkeys (mt_reasons m @ rs))))"

definition active_count :: "state_resource \<Rightarrow> state_answer \<Rightarrow> int option \<times> string list" where
  "active_count r answer =
     (case fst answer of
        None \<Rightarrow> (None, snd answer)
      | Some entries \<Rightarrow>
          let odd = filter (\<lambda>e. case entry_get e (state_field r) of
                JStr s \<Rightarrow> s \<notin> set (known_active_states r) | _ \<Rightarrow> True) entries in
          if odd \<noteq> [] then (None, fromkeys (snd answer @ map (\<lambda>_. reason r ''unknown_state'') odd))
          else (Some (int (length entries)), snd answer))"

section \<open>The observation\<close>

text \<open>The queries one after the other; a token set after one of them leaves out the rest.\<close>

fun query_all :: "state_observer \<Rightarrow> 'w observer_env \<Rightarrow> state_resource list \<Rightarrow> 'w \<Rightarrow> (observer_exn + state_answer list) \<times> 'w" where
  "query_all ob env [] w = (Inr [], w)"
| "query_all ob env (r # rs) w =
     (case state_query ob env r w of
        (Inl e, w1) \<Rightarrow> (Inl e, w1)
      | (Inr a, w1) \<Rightarrow>
          (case oe_token env w1 of (c, w2) \<Rightarrow>
             if c then (Inr (a # map (\<lambda>q. (None, [reason q ''cancelled''])) rs), w2)
             else (case query_all ob env rs w2 of
                 (Inl e, w3) \<Rightarrow> (Inl e, w3)
               | (Inr as, w3) \<Rightarrow> (Inr (a # as), w3))))"

definition pcount :: "int option \<Rightarrow> pyval" where
  "pcount c = (case c of None \<Rightarrow> PNone | Some n \<Rightarrow> PInt n)"

text \<open>The snapshot built from the five answers.\<close>

definition assemble :: "node list \<Rightarrow> string \<Rightarrow> pyval \<Rightarrow> rat \<Rightarrow> state_answer list \<Rightarrow> cluster_snapshot result" where
  "assemble nodes head_id epoch observed_at answers =
     (case answers of
        [ns, jobs, tasks, actors, groups] \<Rightarrow>
          bindE (state_members nodes head_id ns observed_at) (\<lambda>(members, topology).
          let counted = [active_count SrJobs jobs, active_count SrTasks tasks, active_count SrActors actors,
                active_count SrPlacementGroups groups];
              reasons = fromkeys (topology @ concat (map snd counted)) in
          bindE (mk_WorkloadEvidence (PFloat (Finite observed_at)) (pcount (fst (counted ! 0))) (pcount (fst (counted ! 1)))
             (pcount (fst (counted ! 2))) (pcount (fst (counted ! 3)))
             (reasons = [] \<and> list_all (\<lambda>c. fst c \<noteq> None) counted) reasons) (\<lambda>workload.
          mk_ClusterSnapshot epoch head_id members (PFloat (Finite observed_at)) (Some workload)))
      | _ \<Rightarrow> Inl RuntimeErr)"

definition observe ::
    "state_observer \<Rightarrow> 'w observer_env \<Rightarrow> node list \<Rightarrow> string \<Rightarrow> int \<Rightarrow> 'w \<Rightarrow> (observer_exn + cluster_snapshot) \<times> 'w" where
  "observe ob env nodes head_id epoch w =
     (if epoch < 0 \<or> nodes = [] \<or> max_observed_nodes < length nodes \<or> list_ex (\<lambda>n. \<not> node_enabled n) nodes \<or>
         head_id \<notin> set (map node_id nodes)
      then (Inl (OxPy ValueError), w)
      else (case oe_clock env w of (observed_at, w1) \<Rightarrow>
        case query_all ob env [SrNodes, SrJobs, SrTasks, SrActors, SrPlacementGroups] w1 of
          (Inl e, w2) \<Rightarrow> (Inl e, w2)
        | (Inr answers, w2) \<Rightarrow> (ox (assemble nodes head_id (PInt epoch) observed_at answers), w2)))"

section \<open>What stands behind an idle verdict\<close>

definition answered :: "process_result \<Rightarrow> bool" where
  "answered px \<longleftrightarrow> clean_result px \<and> \<not> px_output_truncated px \<and> py_strip (px_stderr px) = []"

definition state_logged :: "'w observer_env \<Rightarrow> ('w \<times> run_log) observer_env" where
  "state_logged env =
     \<lparr>oe_run = (\<lambda>q (w, l). case oe_run env q w of (r, w') \<Rightarrow> (r, w', l @ [(q, r)])),
      oe_cancelled = map_option (\<lambda>f (w, l). case f w of (r, w') \<Rightarrow> (r, w', l)) (oe_cancelled env),
      oe_clock = (\<lambda>(w, l). case oe_clock env w of (r, w') \<Rightarrow> (r, w', l)),
      oe_depth = oe_depth env\<rparr>"

text \<open>An event of the log that answers the question for \<open>r\<close> with the entries \<open>es\<close> and no reason for doubt.\<close>

definition answers_with ::
    "state_observer \<Rightarrow> nat \<Rightarrow> state_resource \<Rightarrow> state_entry list \<Rightarrow> process_request \<times> (pyexn + run_return) \<Rightarrow> bool" where
  "answers_with ob depth r es ev \<longleftrightarrow> state_request ob r = Inr (fst ev) \<and>
     (\<exists>px. snd ev = Inr (RrResult px) \<and> answered px \<and> read_state depth (ro_limit ob) r px = Inr (Some es, []))"

lemma read_state_clean:
  assumes "read_state depth limit r px = Inr (Some es, [])"
  shows "\<not> px_output_truncated px \<and> py_strip (px_stderr px) = []"
proof -
  have ne: "fromkeys (xs @ ys) = [] \<longleftrightarrow> xs = [] \<and> ys = []" for xs ys :: "string list" by simp
  show ?thesis
    using assms ne by (auto simp: read_state_def Let_def split: if_splits sum.splits json.splits json_error.splits option.splits)
qed

lemma judge_state_clean:
  "judge_state depth limit r x = Inr (Some es, []) \<Longrightarrow>
     \<exists>px. x = RrResult px \<and> answered px \<and> read_state depth limit r px = Inr (Some es, [])"
  by (auto simp: judge_state_def answered_def clean_result_def dest: read_state_clean split: run_return.splits if_splits)

lemma state_query_log:
  assumes "state_query ob (state_logged env) r (w, l) = (Inr (Some es, []), w', l')"
  shows "\<exists>ev. l' = l @ [ev] \<and> answers_with ob (oe_depth env) r es ev"
proof -
  obtain c w1 l1 where c: "oe_token (state_logged env) (w, l) = (c, w1, l1)" by (metis prod_cases3)
  then have l1: "l1 = l" by (auto simp: oe_token_def state_logged_def split: option.splits prod.splits)
  have nc: "\<not> c" using assms c by (auto simp: state_query_def)
  obtain q where q: "state_request ob r = Inr q" using assms c nc by (auto simp: state_query_def split: sum.splits)
  obtain x w2 where x: "oe_run env q w1 = (x, w2)" by fastforce
  then have "l' = l @ [(q, x)]" "case x of Inl e \<Rightarrow> False | Inr y \<Rightarrow> judge_state (oe_depth env) (ro_limit ob) r y = Inr (Some es, [])"
    using assms c nc q l1 by (auto simp: state_query_def state_logged_def split: sum.splits if_splits)
  then show ?thesis using q judge_state_clean by (auto simp: answers_with_def split: sum.splits)
qed

lemma token_log: "oe_token (state_logged env) (w, l) = (c, w', l') \<Longrightarrow> l' = l"
  by (auto simp: oe_token_def state_logged_def split: option.splits prod.splits)

lemma query_all_log:
  "query_all ob (state_logged env) rs (w, l) = (Inr as, w', l') \<Longrightarrow> as = map (\<lambda>es. (Some es, [])) ess \<Longrightarrow>
   \<exists>new. l' = l @ new \<and> length ess = length rs \<and> list_all2 (\<lambda>(r, es) ev. answers_with ob (oe_depth env) r es ev) (zip rs ess) new"
proof (induction rs arbitrary: w l as ess)
  case (Cons r rs)
  obtain a w1 l1 where a: "state_query ob (state_logged env) r (w, l) = (Inr a, w1, l1)"
    using Cons.prems(1) by (auto split: prod.splits sum.splits)
  obtain c w2 l2 where c: "oe_token (state_logged env) (w1, l1) = (c, w2, l2)" by (metis prod_cases3)
  show ?case
  proof (cases c)
    case True
    then have as: "as = a # map (\<lambda>q. (None, [reason q ''cancelled''])) rs" "l' = l2"
      using Cons.prems(1) a c by auto
    then have "rs = []" using Cons.prems(2) by (cases ess; cases rs; cases "tl ess") auto
    then obtain es where "ess = [es]" "a = (Some es, [])" using as Cons.prems(2) by (cases ess) auto
    then show ?thesis
      using state_query_log [of ob env r w l es w1 l1] a token_log [OF c] as(2) \<open>rs = []\<close> by auto
  next
    case False
    then obtain as' where as': "query_all ob (state_logged env) rs (w2, l2) = (Inr as', w', l')" "as = a # as'"
      using Cons.prems(1) a c by (auto split: prod.splits sum.splits)
    then obtain es ess' where ess: "ess = es # ess'" "a = (Some es, [])" "as' = map (\<lambda>es. (Some es, [])) ess'"
      using Cons.prems(2) by (cases ess) auto
    from Cons.IH [OF as'(1) ess(3)] obtain new where new: "l' = l2 @ new" "length ess' = length rs"
        "list_all2 (\<lambda>(r, es) ev. answers_with ob (oe_depth env) r es ev) (zip rs ess') new" by blast
    obtain ev where "l1 = l @ [ev]" "answers_with ob (oe_depth env) r es ev"
      using state_query_log [of ob env r w l es w1 l1] a ess(2) by auto
    then show ?thesis using new ess(1) token_log [OF c] by (intro exI [of _ "ev # new"]) simp
  qed
qed auto

lemma active_count_zero: "active_count r a = (Some 0, []) \<Longrightarrow> a = (Some [], [])"
  by (cases a) (auto simp: active_count_def Let_def split: option.splits if_splits)

type_synonym node_entry = "bool \<times> string \<times> string \<times> string \<times> bool"

definition entry_hits :: "node \<Rightarrow> node_entry \<Rightarrow> bool" where
  "entry_hits n f \<longleftrightarrow> (case f of (alive, nid, name, ip, is_head) \<Rightarrow> node_id n = name \<or> same_address (node_address n) ip)"

definition alive_entries :: "state_entry list \<Rightarrow> node_entry list" where
  "alive_entries es = filter fst (map (\<lambda>e. the (node_fields e)) es)"

definition ray_id :: "node_entry \<Rightarrow> string" where "ray_id f = fst (snd f)"
definition head_flag :: "node_entry \<Rightarrow> bool" where "head_flag f = snd (snd (snd (snd f)))"

text \<open>
  Ray's list of nodes accounts for the configured ones: it is well formed, its live entries have
  different ids, each is that of exactly one node, and each node has exactly one, which is the head
  exactly when the node is the expected head.
\<close>

definition accounts_for :: "node list \<Rightarrow> string \<Rightarrow> state_entry list \<Rightarrow> bool" where
  "accounts_for nodes head_id es \<longleftrightarrow>
     (\<forall>e\<in>set es. node_fields e \<noteq> None) \<and> distinct (map ray_id (alive_entries es)) \<and>
     (\<forall>f\<in>set (alive_entries es). \<exists>n. filter (\<lambda>n. entry_hits n f) nodes = [n]) \<and>
     (\<forall>n\<in>set nodes. \<exists>f. filter (entry_hits n) (alive_entries es) = [f] \<and> head_flag f = (node_id n = head_id))"

definition owner :: "node list \<Rightarrow> node_entry \<Rightarrow> node" where
  "owner nodes f = hd (filter (\<lambda>n. entry_hits n f) nodes)"

definition match_of :: "node list \<Rightarrow> node_entry \<Rightarrow> string \<times> string \<times> bool" where
  "match_of nodes f = (node_id (owner nodes f), ray_id f, head_flag f)"

lemma match_entry_quiet:
  assumes "mt_reasons (match_entry nodes e m) = []"
  shows "mt_reasons m = []" "\<exists>f. node_fields e = Some f \<and> (if fst f
      then (\<exists>n. filter (\<lambda>n. entry_hits n f) nodes = [n]) \<and> mt_matches (match_entry nodes e m) = mt_matches m @ [match_of nodes f] \<and>
        mt_live (match_entry nodes e m) = ray_id f # mt_live m \<and>
        mt_duplicates (match_entry nodes e m) = (if ray_id f \<in> set (mt_live m) then ray_id f # mt_duplicates m else mt_duplicates m)
      else match_entry nodes e m = m)"
  using assms
  by (auto simp: match_entry_def Let_def entry_hits_def match_of_def owner_def ray_id_def head_flag_def
      split: option.splits prod.splits if_splits list.splits)

lemma fold_reasons: "mt_reasons (fold (match_entry nodes) es m) = [] \<Longrightarrow> mt_reasons m = []"
  by (induction es arbitrary: m) (auto dest: match_entry_quiet(1))

lemma fold_duplicates: "mt_reasons (fold (match_entry nodes) es m) = [] \<Longrightarrow>
    set (mt_duplicates m) \<subseteq> set (mt_duplicates (fold (match_entry nodes) es m))"
proof (induction es arbitrary: m)
  case (Cons e es)
  then have "mt_reasons (match_entry nodes e m) = []" by (auto dest: fold_reasons)
  then have "set (mt_duplicates m) \<subseteq> set (mt_duplicates (match_entry nodes e m))"
    using match_entry_quiet(2) by (fastforce split: if_splits)
  then show ?case using Cons by force
qed simp

lemma fold_matches:
  assumes "mt_reasons (fold (match_entry nodes) es m) = []"
  shows "(\<forall>e\<in>set es. node_fields e \<noteq> None) \<and>
    (\<forall>f\<in>set (alive_entries es). \<exists>n. filter (\<lambda>n. entry_hits n f) nodes = [n]) \<and>
    mt_matches (fold (match_entry nodes) es m) = mt_matches m @ map (match_of nodes) (alive_entries es) \<and>
    (distinct (mt_live m) \<and> (\<forall>f\<in>set (alive_entries es). ray_id f \<notin> set (mt_duplicates (fold (match_entry nodes) es m))) \<longrightarrow>
      distinct (mt_live m @ map ray_id (alive_entries es)))"
  using assms
proof (induction es arbitrary: m)
  case (Cons e es)
  let ?m = "match_entry nodes e m"
  have fin: "mt_reasons (fold (match_entry nodes) es ?m) = []" using Cons.prems by simp
  note IH = Cons.IH [OF fin]
  note quiet = match_entry_quiet(2) [OF fold_reasons [OF fin]]
  then obtain f where f: "node_fields e = Some f" by blast
  show ?case
  proof (cases "fst f")
    case False
    then have "?m = m" "alive_entries (e # es) = alive_entries es" using quiet f by (auto simp: alive_entries_def)
    then show ?thesis using IH f by (cases f) simp
  next
    case True
    then have al: "alive_entries (e # es) = f # alive_entries es" using f by (simp add: alive_entries_def)
    have q: "\<exists>n. filter (\<lambda>n. entry_hits n f) nodes = [n]" "mt_matches ?m = mt_matches m @ [match_of nodes f]"
        "mt_live ?m = ray_id f # mt_live m"
        "mt_duplicates ?m = (if ray_id f \<in> set (mt_live m) then ray_id f # mt_duplicates m else mt_duplicates m)"
      using quiet f True by auto
    have "distinct (mt_live m @ map ray_id (f # alive_entries es))"
      if "distinct (mt_live m)" and "\<forall>g\<in>set (f # alive_entries es). ray_id g \<notin> set (mt_duplicates (fold (match_entry nodes) es ?m))"
    proof -
      have "ray_id f \<notin> set (mt_live m)" using that(2) q(4) fold_duplicates [OF fin] by (auto split: if_splits)
      then show ?thesis using IH that q(3) by auto
    qed
    then show ?thesis using IH q f al by (cases f) simp
  qed
qed (simp add: alive_entries_def)

lemma build_members_quiet:
  "build_members head_id m t ns = Inr (xs, []) \<Longrightarrow>
     map cm_node xs = ns \<and> (\<forall>n\<in>set ns. \<exists>nid is_head. filter (\<lambda>x. fst x = node_id n) (mt_matches m) = [(node_id n, nid, is_head)] \<and>
       nid \<notin> set (mt_duplicates m) \<and> is_head = (node_id n = head_id))"
proof (induction ns arbitrary: xs)
  case (Cons n ns)
  obtain x xs' rs where x: "mk_ClusterMember n (if fst (judge_node head_id m n) then CmAlive else CmUnknown) (PFloat (Finite t)) PNone PNone False = Inr x"
      "build_members head_id m t ns = Inr (xs', rs)" "xs = x # xs'" "snd (judge_node head_id m n) @ rs = []"
    using Cons.prems by (auto simp: result_simps)
  have "cm_node x = n" using x(1) by (auto simp: mk_ClusterMember_def result_simps split: if_splits)
  moreover have "\<exists>nid is_head. filter (\<lambda>x. fst x = node_id n) (mt_matches m) = [(node_id n, nid, is_head)] \<and>
       nid \<notin> set (mt_duplicates m) \<and> is_head = (node_id n = head_id)"
  proof -
    obtain i nid h where f: "filter (\<lambda>x. fst x = node_id n) (mt_matches m) = [(i, nid, h)]"
      using x(4) by (auto simp: judge_node_def split: list.splits if_splits)
    then have "(i, nid, h) \<in> set (filter (\<lambda>x. fst x = node_id n) (mt_matches m))" by simp
    then have "i = node_id n" by simp
    then show ?thesis using f x(4) by (auto simp: judge_node_def split: if_splits)
  qed
  ultimately show ?case using Cons.IH [of xs'] x by auto
qed simp

lemma unique_owner:
  assumes "filter (\<lambda>n. entry_hits n f) nodes = [c]" and "n \<in> set nodes"
  shows "entry_hits n f \<longleftrightarrow> owner nodes f = n"
proof -
  have o: "owner nodes f = c" using assms(1) by (simp add: owner_def)
  have "n \<in> set (filter (\<lambda>n. entry_hits n f) nodes) \<longleftrightarrow> entry_hits n f" using assms(2) by simp
  then show ?thesis using o assms(1) by auto
qed

lemma members_account:
  assumes sm: "state_members nodes head_id (Some es, []) t = Inr (members, [])" and ids: "distinct (map node_id nodes)"
  shows "accounts_for nodes head_id es \<and> map cm_node members = nodes"
proof -
  define m where "m = fold (match_entry nodes) es \<lparr>mt_reasons = [], mt_live = [], mt_duplicates = [], mt_matches = []\<rparr>"
  obtain rs where b: "build_members head_id m t nodes = Inr (members, rs)" "fromkeys (mt_reasons m @ rs) = []"
    using sm by (auto simp: state_members_def Let_def m_def result_simps)
  then have q: "mt_reasons m = []" "rs = []" by simp_all
  note fm = fold_matches [OF q(1) [unfolded m_def], folded m_def, simplified]
  note bm = build_members_quiet [OF b(1) [unfolded q(2)]]
  let ?al = "alive_entries es"
  have matches: "mt_matches m = map (match_of nodes) ?al" using fm by blast
  have one: "\<exists>n. filter (\<lambda>n. entry_hits n f) nodes = [n]" if "f \<in> set ?al" for f using fm that by blast
  have own: "owner nodes f \<in> set nodes" if f: "f \<in> set ?al" for f
  proof -
    obtain n where n: "filter (\<lambda>n. entry_hits n f) nodes = [n]" using one [OF f] by blast
    have "hd (filter (\<lambda>n. entry_hits n f) nodes) \<in> set (filter (\<lambda>n. entry_hits n f) nodes)" by (rule hd_in_set) (simp add: n)
    then show ?thesis by (simp add: owner_def)
  qed
  have same: "node_id (owner nodes f) = node_id n \<longleftrightarrow> entry_hits n f" if f: "f \<in> set ?al" and n: "n \<in> set nodes" for f n
  proof -
    obtain c where "filter (\<lambda>n. entry_hits n f) nodes = [c]" using one [OF f] by blast
    from unique_owner [OF this n] show ?thesis using ids own [OF f] n by (metis distinct_map inj_on_contraD)
  qed
  have hits: "filter (\<lambda>x. fst x = node_id n) (mt_matches m) = map (match_of nodes) (filter (entry_hits n) ?al)" if n: "n \<in> set nodes" for n
  proof -
    have "filter (\<lambda>f. fst (match_of nodes f) = node_id n) ?al = filter (entry_hits n) ?al"
      using same [OF _ n] by (intro filter_cong) (auto simp: match_of_def)
    then show ?thesis by (simp add: matches filter_map o_def)
  qed
  have each: "\<exists>f. filter (entry_hits n) ?al = [f] \<and> head_flag f = (node_id n = head_id) \<and> ray_id f \<notin> set (mt_duplicates m)"
    if n: "n \<in> set nodes" for n
  proof -
    obtain nid h where "map (match_of nodes) (filter (entry_hits n) ?al) = [(node_id n, nid, h)]"
        "nid \<notin> set (mt_duplicates m)" "h = (node_id n = head_id)"
      using bm n unfolding hits [OF n, symmetric] by blast
    then show ?thesis by (auto simp: match_of_def map_eq_Cons_conv)
  qed
  have "ray_id f \<notin> set (mt_duplicates m)" if f: "f \<in> set ?al" for f
  proof -
    obtain g where g: "filter (entry_hits (owner nodes f)) ?al = [g]" "ray_id g \<notin> set (mt_duplicates m)"
      using each [OF own [OF f]] by blast
    have "f \<in> set (filter (entry_hits (owner nodes f)) ?al)" using f same [OF f own [OF f]] by simp
    then show ?thesis using g by simp
  qed
  then have "distinct (map ray_id ?al)" using fm by simp
  then show ?thesis using fm bm each one by (fastforce simp: accounts_for_def)
qed

lemma evidence_fields:
  assumes "mk_WorkloadEvidence t (pcount j) (pcount k) (pcount a) (pcount g) cpl rs = Inr w"
  shows "we_counts w = [j, k, a, g] \<and> we_reasons w = rs"
proof -
  have c: "optional_count (pcount x) = Inr y \<Longrightarrow> y = x" for x y
    by (cases x) (auto simp: pcount_def optional_count_def result_simps cluster_non_negative_int_def split: if_splits)
  show ?thesis using assms by (auto simp: mk_WorkloadEvidence_def result_simps we_counts_def split: if_splits dest!: c)
qed

lemma mk_WorkloadEvidence_time:
  "mk_WorkloadEvidence (PFloat (Finite t)) j k a g cpl rs = Inr w \<Longrightarrow> we_observed_at w = t"
  by (auto simp: mk_WorkloadEvidence_def result_simps cluster_time_def split: if_splits)

lemma quiet_answer:
  assumes sm: "state_members nodes head_id ns t = Inr (members, [])" and two: "distinct (map node_id (map cm_node members))" and ne: "members \<noteq> []"
  shows "\<exists>es. ns = (Some es, []) \<and> accounts_for nodes head_id es"
proof -
  obtain xs rs where b: "build_members head_id (fold (match_entry nodes) (case fst ns of None \<Rightarrow> [] | Some es \<Rightarrow> es)
      \<lparr>mt_reasons = snd ns, mt_live = [], mt_duplicates = [], mt_matches = []\<rparr>) t nodes = Inr (members, [])"
      "mt_reasons (fold (match_entry nodes) (case fst ns of None \<Rightarrow> [] | Some es \<Rightarrow> es)
      \<lparr>mt_reasons = snd ns, mt_live = [], mt_duplicates = [], mt_matches = []\<rparr>) = []"
    using sm by (auto simp: state_members_def Let_def result_simps)
  have sn: "snd ns = []" using fold_reasons [OF b(2)] by simp
  have nodes: "map cm_node members = nodes" using build_members_quiet [OF b(1)] by simp
  define es where "es = (case fst ns of None \<Rightarrow> [] | Some es \<Rightarrow> es)"
  have "state_members nodes head_id (Some es, []) t = Inr (members, [])"
    using sm sn by (simp add: state_members_def es_def)
  then have acc: "accounts_for nodes head_id es" using members_account two nodes by blast
  have "fst ns \<noteq> None"
  proof
    assume "fst ns = None"
    then have "es = []" by (simp add: es_def)
    then show False using acc ne nodes by (cases nodes) (auto simp: accounts_for_def alive_entries_def)
  qed
  then show ?thesis using acc sn by (cases ns) (auto simp: es_def)
qed

lemma assemble_idle:
  assumes asm: "assemble nodes head_id epoch t answers = Inr s"
    and idle: "assess max_age s (PFloat (Finite now)) False = Inr b" "ba_state b = BsIdle"
  shows "\<exists>es. answers = map (\<lambda>es. (Some es, [])) [es, [], [], [], []] \<and> accounts_for nodes head_id es \<and> fresh_at max_age now t"
proof -
  obtain ns jobs tasks actors groups where answers: "answers = [ns, jobs, tasks, actors, groups]"
    using asm by (auto simp: assemble_def split: list.splits)
  let ?c = "[active_count SrJobs jobs, active_count SrTasks tasks, active_count SrActors actors, active_count SrPlacementGroups groups]"
  obtain members topology workload where m: "state_members nodes head_id ns t = Inr (members, topology)"
    and w: "mk_WorkloadEvidence (PFloat (Finite t)) (pcount (fst (?c ! 0))) (pcount (fst (?c ! 1)))
       (pcount (fst (?c ! 2))) (pcount (fst (?c ! 3)))
       (fromkeys (topology @ concat (map snd ?c)) = [] \<and> list_all (\<lambda>c. fst c \<noteq> None) ?c)
       (fromkeys (topology @ concat (map snd ?c))) = Inr workload"
    and s: "mk_ClusterSnapshot epoch head_id members (PFloat (Finite t)) (Some workload) = Inr s"
    using asm unfolding assemble_def answers Let_def list.case by (auto simp: result_simps simp del: fromkeys_Nil_iff)
  have sw: "cs_workload s = Some workload" "distinct (map node_id (map cm_node members))" "members \<noteq> []"
    using s by (auto simp: mk_ClusterSnapshot_def result_simps Let_def member_id_def comp_def
        split: if_splits list.splits intro: card_distinct)
  note im = idle_means_no_active_work [OF w sw(1) idle]
  have quiet: "topology = []" "\<forall>c\<in>set ?c. snd c = []"
    using im evidence_fields [OF w] by auto
  have zero: "\<forall>c\<in>set ?c. fst c = Some 0" using im evidence_fields [OF w] by simp
  have all0: "c = (Some 0, [])" if "c \<in> set ?c" for c
    using bspec [OF quiet(2) that] bspec [OF zero that] by (simp add: prod_eq_iff)
  have "active_count SrJobs jobs = (Some 0, [])" "active_count SrTasks tasks = (Some 0, [])"
    "active_count SrActors actors = (Some 0, [])" "active_count SrPlacementGroups groups = (Some 0, [])"
    by (rule all0, simp)+
  then have jobs: "jobs = (Some [], [])" "tasks = (Some [], [])" "actors = (Some [], [])" "groups = (Some [], [])"
    by (auto dest: active_count_zero)
  obtain es where "ns = (Some es, [])" "accounts_for nodes head_id es"
    using quiet_answer [OF m [unfolded quiet(1)] sw(2)] sw(3) by blast
  moreover have "fresh_at max_age now t" using im mk_WorkloadEvidence_time [OF w] by simp
  ultimately show ?thesis using answers jobs by simp
qed

text \<open>
  C12: nothing is called idle that Ray did not show to be idle. When the observer returns a snapshot and
  the busy policy judges it IDLE, whatever the runner, the token and the clock do, exactly five
  questions went to the Ray CLI, in order for nodes, jobs, tasks, actors and placement groups; each was
  answered with exit code 0, within the output bound, without a warning and below the limit; the four
  workload lists were empty; and the node list accounts for every configured node and for nothing else,
  with the expected head as its one head; and the clock was read, before all of it, within the age the
  policy allows.
\<close>

theorem idle_verdict_confirmed:
  assumes obs: "observe ob (state_logged env) nodes head_id epoch (w, []) = (Inr s, w', trace)"
    and verdict: "assess max_age s (PFloat (Finite now)) False = Inr b" "ba_state b = BsIdle"
  shows "\<exists>es. length trace = 5 \<and> accounts_for nodes head_id es \<and> fresh_at max_age now (fst (oe_clock env w)) \<and>
    list_all2 (\<lambda>(r, xs) ev. answers_with ob (oe_depth env) r xs ev)
      [(SrNodes, es), (SrJobs, []), (SrTasks, []), (SrActors, []), (SrPlacementGroups, [])] trace"
proof -
  obtain t w1 l1 where clock: "oe_clock (state_logged env) (w, []) = (t, w1, l1)" by (metis prod_cases3)
  then have l1: "l1 = []" "fst (oe_clock env w) = t" by (auto simp: state_logged_def split: prod.splits)
  obtain answers where q: "query_all ob (state_logged env) [SrNodes, SrJobs, SrTasks, SrActors, SrPlacementGroups] (w1, []) = (Inr answers, w', trace)"
      and a: "assemble nodes head_id (PInt epoch) t answers = Inr s"
    using obs clock l1(1) by (auto simp: observe_def ox_def simp del: query_all.simps split: if_splits prod.splits sum.splits)
  from assemble_idle [OF a verdict] obtain es
    where es: "answers = map (\<lambda>es. (Some es, [])) [es, [], [], [], []]" "accounts_for nodes head_id es" "fresh_at max_age now t" by blast
  from query_all_log [OF q es(1)]
  have "list_all2 (\<lambda>(r, xs) ev. answers_with ob (oe_depth env) r xs ev)
      [(SrNodes, es), (SrJobs, []), (SrTasks, []), (SrActors, []), (SrPlacementGroups, [])] trace" by simp
  moreover from list_all2_lengthD [OF this] have "length trace = 5" by simp
  ultimately show ?thesis using es(2,3) l1(2) by blast
qed

definition demo_observer :: state_observer where
  "demo_observer = \<lparr>ro_executable = ''ray'', ro_address = ''h:1'', ro_timeout = 9, ro_max_output = 512, ro_limit = 10\<rparr>"

definition demo_node_list :: string where
  "demo_node_list = map (\<lambda>c. if c = CHR ''~'' then CHR 0x22 else c)
     ''[{~state~: ~ALIVE~, ~node_id~: ~f1~, ~node_name~: ~h~, ~node_ip~: ~x~, ~is_head_node~: true}]''"

definition demo_node :: node where
  "demo_node = \<lparr>node_id = ''h'', node_address = ''pc'', node_role = RoleHead, node_enabled = True, node_capabilities = []\<rparr>"

definition demo_state_result :: "string \<Rightarrow> process_result" where
  "demo_state_result out = \<lparr>px_exit_code = Some 0, px_stdout = out, px_stderr = [], px_duration = 1, px_timed_out = False,
     px_cancelled = False, px_output_truncated = False, px_invalid_encoding = False\<rparr>"

text \<open>The world counts the calls; the first is answered with a list of one node, the others with no resource.\<close>

definition demo_state_env :: "nat observer_env" where
  "demo_state_env =
     \<lparr>oe_run = (\<lambda>q w. (Inr (RrResult (demo_state_result (if w = 0 then demo_node_list else hd empty_state_outputs))), Suc w)),
      oe_cancelled = None, oe_clock = (\<lambda>w. (1, w)), oe_depth = 50\<rparr>"

lemma demo_observed:
  "case observe demo_observer (state_logged demo_state_env) [demo_node] ''h'' 3 (0, []) of
     (Inr s, _, _) \<Rightarrow> (case assess 5 s (PFloat (Finite 2)) False of Inr b \<Rightarrow> ba_state b = BsIdle | _ \<Rightarrow> False)
   | _ \<Rightarrow> False"
  by code_simp

theorem idle_verdict_confirmed_witness:
  "\<exists>es trace. length trace = 5 \<and> accounts_for [demo_node] ''h'' es \<and>
    list_all2 (\<lambda>(r, xs) ev. answers_with demo_observer 50 r xs ev)
      [(SrNodes, es), (SrJobs, []), (SrTasks, []), (SrActors, []), (SrPlacementGroups, [])] trace"
proof -
  obtain s w' trace b where
      o: "observe demo_observer (state_logged demo_state_env) [demo_node] ''h'' 3 (0, []) = (Inr s, w', trace)"
      "assess 5 s (PFloat (Finite 2)) False = Inr b" "ba_state b = BsIdle"
    using demo_observed by (auto split: prod.splits sum.splits)
  have "oe_depth demo_state_env = 50" by (simp add: demo_state_env_def)
  with idle_verdict_confirmed [OF o] show ?thesis by metis
qed

end
