(* ===== verification/Spec2Isabelle.thy ===== *)
theory Spec2Isabelle
  imports Reconfiguration Runtime Monitoring Cleanup Scheduler Schema UiApp RayCommands DesktopRun StoreDisk FileLock Rdp RayObserver
begin

text \<open>
  RCM for Windows starts, watches and moves a small Ray cluster from a desktop window. This library
  models the core of version 2, the package \<open>src/rcm\<close>, as HOL functions and step relations
  translated from the Python source, and proves what makes the parts correct. Paths below are
  relative to \<open>src/src/rcm\<close>.

  THE PROGRAM AND ITS PARTS. \<open>core.py\<close> holds the immutable values all parts exchange: nodes,
  capabilities, metric snapshots, plans of steps, action results and the typed errors. The
  configuration comes from a file that \<open>config/store.py\<close> reads and writes as a transaction and
  \<open>config/schema.py\<close> decodes and validates. \<open>app.py\<close> and \<open>desktop.py\<close> run the desktop: take the
  singleton lease, start the runtime (\<open>runtime.py\<close>), show the window (\<open>ui/app.py\<close>, which delivers
  events through \<open>ui/scheduler.py\<close> to the reducer of \<open>ui/state.py\<close>), carry out its commands through
  the Ray adapter, and take everything down again. \<open>monitoring.py\<close> polls the sensors of the nodes;
  \<open>cluster.py\<close> judges whether the cluster is idle and hands out the one maintenance lease;
  \<open>reconfiguration.py\<close> moves the cluster from one topology to another under such a lease, with a
  journal of checkpoints, rollback and resumption; \<open>cleanup.py\<close> ends left-over processes.

  THE THEORIES, from the bottom.
  \<^item> Prelude: exceptions and results of the code, its dynamically typed values, the string helpers
    behind its regular expressions, \<open>str.casefold\<close> (\<open>fold_text\<close>), and the lemmas and \<open>named_theorems\<close> collections shared by all.
  \<^item> Effects: computations on a world that may raise, the triples \<open>triple P m Q E\<close> and the rules for
    invariants (\<open>keeps\<close>) with which the stateful theories reason; the locale of a resource.
  \<^item> Core (\<open>core.py\<close>): \<open>node\<close>, \<open>capability\<close>, \<open>metric_snapshot\<close>, \<open>plan\<close>, \<open>action_result\<close> and their
    \<open>__post_init__\<close> as \<open>mk_\<dots>\<close>; \<open>ordered_steps\<close> and \<open>ready_steps\<close>. An accepted plan has an order, its
    failure is exactly a cycle, and every proper subset of done steps leaves one to run.
  \<^item> Cluster (\<open>cluster.py\<close>): members, evidence, \<open>assess\<close>, \<open>diagnose\<close>, \<open>guard_acquire\<close> and
    \<open>guard_release\<close>. The policy equals a declarative reading of the evidence; a lease is only given
    to the request that names it, a new one only on an idle assessment, and never two at a time.
  \<^item> Runtime (\<open>runtime.py\<close>): \<open>runtime_start\<close>, \<open>runtime_stop\<close>, \<open>runtime_cancel\<close> over components and a
    clock that are parameters: all-or-nothing start, a stop that is exact about
    what joined and which call failed first, shared deadline.
  \<^item> Reconfiguration (\<open>reconfiguration.py\<close>, \<open>ports.py\<close>): topologies, plans, \<open>MemoryReconfigurationJournal\<close>
    (\<open>mj_claim\<close>, \<open>mj_save\<close>, \<open>mj_load\<close>, \<open>mj_release\<close>, \<open>mj_advance_epoch\<close>) and \<open>ClusterReconfigurator\<close>
    (\<open>reconf_run\<close> and its phases). The properties read the trace of journal and adapter calls: each call
    written ahead under its own step, start only after every stop, durable results, frame, serialised claims.
  \<^item> Monitoring (\<open>monitoring.py\<close>): \<open>monitor_poll\<close>, \<open>monitor_current\<close>, \<open>monitor_reset\<close>, the backoff
    and the delay it puts between two readings of a sensor.
  \<^item> Cleanup (\<open>cleanup.py\<close>): \<open>cleanup_scan\<close> and the two-stage \<open>cleanup_execute\<close>; only an identity that
    a rule covers in every condition and that was inspected again just before may be ended.
  \<^item> UiState (\<open>ui/state.py\<close>), Scheduler (\<open>ui/scheduler.py\<close>): render states, commands, the reducer; the
    coalescing queue with its refinement of a keyed queue, and the scheduler as a
    step relation that includes \<open>drain_now\<close>, exceptions and consumers that use the scheduler; the
    log of the host's timer calls says which callbacks are pending.
  \<^item> IpAddress, IpRoundtrip, Json, JsonRoundtrip: the part of Python's \<open>ipaddress\<close> and \<open>json\<close> the code uses, with the
    round trip of the canonical writer and reader (locale \<open>json_codec\<close>, interpreted per reader) and of
    addresses and their compressed text.
  \<^item> Latin1: \<open>str.strip\<close>, \<open>format(x, "g")\<close> and \<open>str(int)\<close> on the characters of the model, and
    \<open>_safe_text\<close> of \<open>ports.py\<close>.
  \<^item> Rdp (\<open>rdp.py\<close>, \<open>ports.py\<close>): \<open>mk_RdpRequest\<close>, \<open>mk_RdpLaunchPlan\<close>, the bytes of the launch file and
    \<open>rdp_make_plan\<close>. Targets read back, no input adds a line to the file, and a plan is made exactly
    when the credential is bound to the request.
  \<^item> Schema, ConfigBytes, ConfigStrict (\<open>config/schema.py\<close>): sections, validators, \<open>config_from_dict\<close>,
    \<open>config_to_dict\<close>, and the strict decoder and canonical bytes; exactly the declared constraints are
    accepted, canonical bytes read back, decoded documents meet the limits.
  \<^item> Store, StoreCodec, StoreCrash, StoreDisk, FileLock (\<open>config/store.py\<close>): \<open>ConfigStore\<close> over its
    file-system protocol, the codecs of records and journals, the crash proofs inside the locale
    \<open>durable_files\<close>, its interpretation \<open>disk_files\<close> on \<open>PathFilesystem\<close>, and the lock's waiting loop, which ends
    for every finite timeout.
  \<^item> UiApp (\<open>ui/app.py\<close>, \<open>desktop.py\<close>), RayCommands (\<open>ui/app.py\<close>): \<open>UiApplication\<close> with its thread
    guard, and \<open>LocalRayCommandHandler\<close>. Rendered revisions increase, the application never sleeps
    with work queued, a command gets its own answer, a reported success means the whole sequence ran, and a head
    that did not verify is stopped again.
  \<^item> RayCli (\<open>ray.py\<close>), RayRunner, RayAdapter, RayObserver (\<open>adapters/ray_cli.py\<close>, \<open>ports.py\<close>): the commands and
    their checks; \<open>run_process\<close> with the allowlist and the bounded output; the control port
    \<open>cli_control\<close>; \<open>observe\<close>, which makes a snapshot of five answers of the Ray CLI. Only a command of
    the allowlist's grammar is started, a run ends where a kill ends the process, the adapter stays inside its limits, and an IDLE
    verdict of \<open>assess\<close> is traced back to the answers it rests on.
  \<^item> Desktop, DesktopRun (\<open>app.py\<close>, \<open>desktop.py\<close>): the lifecycle, \<open>app_run\<close>, \<open>app_shutdown\<close>, the
    first render state, and what any run leaves behind.

  HOW CODE BECOMES HOL. A frozen dataclass is a record, its \<open>__post_init__\<close> a function \<open>mk_\<dots>\<close> into
  a sum whose left side is the exception's class (messages are left out unless a caller reads them);
  an enumeration is a datatype with a function for its values. A method that has effects is a
  function on the world that returns a result and the new world; what it calls outside the package
  (adapters, sensors, clocks, the operating system, SHA-256, random tokens) is a field of an
  environment record or a parameter, and theorems about calls use environments that log them.
  Integers are unbounded as in Python, with the code's range checks; finite floats are exact
  rationals, and the float literals the code has are the rationals they denote. A string is a list of
  characters below 256, bytes are strings too; where a code point above 255 would matter (decoding
  JSON) the model answers with an outcome of its own and no theorem says anything about it.
  \<open>str.casefold\<close> is \<open>fold_text\<close> of Prelude, exact on all characters of the model (sharp s becomes ss);
  where the code has restricted a text to ASCII before it folds it, or compares the folded text with
  fixed ASCII words, the simpler fold of ASCII letters stands for it. Semantics of the standard library
  are those of CPython 3.12.

  LOOPS AND TERMINATION. Loops over finite data are structural recursion or have a \<open>termination\<close>
  proof (JSON scanning by the remaining input, dependency ordering by the remaining steps). The two
  loops that wait, in \<open>FileLock.acquire\<close> and \<open>LocalRayProcessRunner.run\<close>, are partial functions into
  \<open>option\<close>, with theorems that they return whenever the clock advances by what the loop sleeps. The
  lock's theorem needs a finite timeout: the constructor also takes NaN and infinity, with which the
  loop never ends (\<open>unbounded_timeout_never_returns\<close>). A run of a process also waits for the process
  and its pipes without a limit, so \<open>os_wait\<close> and \<open>os_close\<close> are partial as well and the theorem rests
  on the promise \<open>process_ends\<close> of the operating system: a kill that the loop issues ends the process,
  and the pipes of an ended process can be closed. \<open>failed_kill_never_returns\<close> and
  \<open>blocked_close_never_returns\<close> show that the run does not return without it.

  WHAT THE CRASH PROOFS ASSUME OF A DISK. A planned failure may end an operation before or after its
  effect, or end the process; a power loss may follow. Flushed files keep their bytes, unflushed
  ones may hold anything, changes of the directory reach the disk in the order they were made, and
  a \<open>MoveFileExW\<close> with write-through that returned is on the disk. One process at a time is inside
  the lock. Of SHA-256 only that it yields 64 lower-case hexadecimal digits is used.

  NOT MODELLED, and why. \<open>main()\<close> of \<open>app.py\<close> and \<open>bootstrap.py\<close>, \<open>paths.py\<close>, \<open>identity.py\<close>, \<open>release.py\<close>,
  \<open>foundation_check.py\<close> only compose adapters, locate files or report the build. \<open>adapters/\<close>, except
  \<open>ray_cli.py\<close>, calls Win32 and Tk: the core sees it through its ports, which are parameters here.
  The windows of \<open>ui/\<close> (dialogs, settings, status board, help, geometry) lay out widgets.
  \<open>config/migrations.py\<close> and \<open>legacy_compat.py\<close> read the files of version 1, \<open>setup.py\<close> installs. The programs of version 1
  (\<open>ray_monitor.py\<close>, \<open>temps_server.py\<close>, \<open>sensor_poller.py\<close>, \<open>process_cleanup.py\<close> and its window,
  \<open>status_board_content.py\<close>, \<open>windows_credentials.py\<close>) are monoliths around a window, a socket or an
  operating-system interface and are replaced by the package; \<open>scripts/\<close> builds and checks
  releases, and the tests test.
\<close>

end
